(* ===== verification/Prelude.thy ===== *)
theory Prelude
  imports Main "HOL-Library.Word"
begin

text \<open>
  Shared ground of the development: the machine integers of \<^verbatim>\<open>types.h\<close>, the flat
  byte-addressed memory every C pointer of the kernel points into, and the lemmas on words,
  memory regions and byte strings that the component theories share.

  A C pointer is a \<open>u32\<close>, memory is a total function from addresses to bytes, and address
  arithmetic wraps around at \<open>2 ^ 32\<close> as it does on the machine.  A region is a start
  address with a length; membership is stated through the wrapped distance
  \<open>unat (x - a)\<close>, so no lemma needs a no-overflow side condition of its own.
\<close>

unbundle bit_operations_syntax

named_theorems region_simps \<open>facts on reading and writing regions of memory\<close>
named_theorems loop_step \<open>one-step unfoldings of the loops of the code\<close>

section \<open>The integer types of types.h\<close>

type_synonym u1 = "1 word"
type_synonym u8 = "8 word"
type_synonym u16 = "16 word"
type_synonym u20 = "20 word"
type_synonym u32 = "32 word"
type_synonym i32 = "32 word"
type_synonym mem = "u32 \<Rightarrow> u8"

abbreviation (input) NULL :: u32 where
  "NULL \<equiv> 0"

abbreviation (input) ERR :: i32 where
  "ERR \<equiv> -1"

section \<open>Words\<close>

lemma unat_less_u32: "unat (x :: u32) < 4294967296"
  using unsigned_less [of x, where ?'a = nat] by simp

lemma unat_u32_of_nat: "n < 4294967296 \<Longrightarrow> unat (word_of_nat n :: u32) = n"
  by (simp add: unat_of_nat take_bit_nat_eq_self)

lemma unat_plus1_less:
  "(i :: 'a::len word) < n \<Longrightarrow> unat (i + 1) = unat i + 1"
proof -
  assume "i < n"
  then have "i \<noteq> -1" using word_n1_ge [of n] by auto
  then have "1 + i \<noteq> 0" by (metis add.commute eq_neg_iff_add_eq_0)
  then show ?thesis by (simp add: add.commute unatSuc)
qed

lemma plus1_measure:
  "(i :: 'a::len word) < n \<Longrightarrow> unat (n - (i + 1)) < unat (n - i)"
proof -
  assume less: "i < n"
  have "n - i \<noteq> 0" using less by auto
  moreover have "n - (i + 1) = (n - i) - 1" by simp
  ultimately show ?thesis
    by (metis measure_unat)
qed

lemma unat_minus_one_word: "(x :: 'a::len word) \<noteq> 0 \<Longrightarrow> unat (x - 1) = unat x - 1"
  by (simp add: unat_minus_one)

lemma unat_diff_plus_of_nat:
  fixes a :: u32
  assumes "i < 4294967296"
  shows "unat (a + word_of_nat i - a) = i"
  using assms by (simp add: unat_u32_of_nat)

lemma sint_diff_u32:
  assumes "- 2147483648 \<le> sint a - sint b" "sint a - sint b < 2147483648"
  shows "sint (a - b :: u32) = sint a - sint b"
  using assms by (simp add: sint_word_diff signed_take_bit_int_eq_self)

lemma sint_word_of_int_small:
  "- 2147483648 \<le> k \<Longrightarrow> k < 2147483648 \<Longrightarrow> sint (word_of_int k :: u32) = k"
  by (simp only: sint_sbintrunc') (simp add: signed_take_bit_int_eq_self)

lemma sint_u32_of_nat: "n < 2147483648 \<Longrightarrow> sint (word_of_nat n :: u32) = int n"
  using sint_word_of_int_small [of "int n"] by simp

lemma mod_less_bound: "0 < (r :: nat) \<Longrightarrow> r \<le> k \<Longrightarrow> n mod r < k"
  using mod_less_divisor [of r n] by linarith

lemma word_plus_unat_diff [simp]: "(a :: u32) + word_of_nat (unat (x - a)) = x"
  by simp

section \<open>Regions of memory\<close>

definition in_region :: "u32 \<Rightarrow> nat \<Rightarrow> u32 \<Rightarrow> bool" where
  "in_region a n x \<longleftrightarrow> unat (x - a) < n"

definition separate :: "u32 \<Rightarrow> nat \<Rightarrow> u32 \<Rightarrow> nat \<Rightarrow> bool" where
  "separate a n b k \<longleftrightarrow>
     unat a + n \<le> unat b \<and> unat b + k \<le> 4294967296 \<or>
     unat b + k \<le> unat a \<and> unat a + n \<le> 4294967296"

lemma in_region_0 [simp]: "\<not> in_region a 0 x"
  by (simp add: in_region_def)

lemma in_region_Suc:
  assumes "Suc n \<le> 4294967296"
  shows "in_region a (Suc n) x \<longleftrightarrow> x = a \<or> in_region (a + 1) n x"
proof (cases "x = a")
  case False
  then have "x - a \<noteq> 0" by simp
  then have "unat (x - a - 1) = unat (x - a) - 1" and "0 < unat (x - a)"
    by (simp_all add: unat_minus_one unat_gt_0)
  moreover have "x - (a + 1) = x - a - 1" by simp
  ultimately have "unat (x - (a + 1)) = unat (x - a) - 1" and "0 < unat (x - a)" by metis+
  then show ?thesis using False by (auto simp: in_region_def)
qed (simp add: in_region_def)

lemma not_in_region_start:
  assumes "n < 4294967296"
  shows "\<not> in_region (a + 1) n (a :: u32)"
proof -
  have "a - (a + 1) = (-1 :: u32)" by simp
  then have "unat (a - (a + 1)) = 4294967295" 
    by (simp add: unsigned_minus_1_eq_mask mask_eq_exp_minus_1)
  with assms show ?thesis by (simp add: in_region_def)
qed

lemma in_region_of_nat:
  "i < n \<Longrightarrow> n \<le> 4294967296 \<Longrightarrow> in_region a n (a + word_of_nat i)"
  by (simp add: in_region_def unat_u32_of_nat)

lemma in_region_mono: "in_region a n x \<Longrightarrow> n \<le> k \<Longrightarrow> in_region a k x"
  by (simp add: in_region_def)

lemma in_region_iff:
  assumes "unat a + n \<le> 4294967296"
  shows "in_region a n x \<longleftrightarrow> unat a \<le> unat x \<and> unat x < unat a + n"
proof (cases "a \<le> x")
  case True
  then have "unat (x - a) = unat x - unat a" and "unat a \<le> unat x"
    by (auto simp: unat_sub word_le_nat_alt)
  then show ?thesis by (auto simp: in_region_def)
next
  case False
  then have "unat x < unat a" by (simp add: word_le_nat_alt)
  moreover have "unat (x - a) = 4294967296 + unat x - unat a"
    using False by (simp add: unat_sub_if_size word_le_nat_alt word_size)
  ultimately show ?thesis using assms by (auto simp: in_region_def)
qed

lemma separate_sym: "separate a n b k \<longleftrightarrow> separate b k a n"
  by (auto simp: separate_def)

lemma separate_disjoint:
  assumes "separate a n b k" and "in_region a n x" and "in_region b k x"
  shows False
proof -
  have "unat a + n \<le> 4294967296" and "unat b + k \<le> 4294967296"
    using assms(1) unat_less_u32 [of a] unat_less_u32 [of b]
    by (auto simp: separate_def)
  with assms show False by (auto simp: separate_def in_region_iff)
qed

lemma separate_not_in:
  assumes "separate a n b k" and "i < k" and "j \<le> n"
  shows "\<not> in_region a j (b + word_of_nat i)"
proof
  assume "in_region a j (b + word_of_nat i)"
  then have "in_region a n (b + word_of_nat i)"
    using assms(3) by (rule in_region_mono)
  moreover have "k \<le> 4294967296" using assms(1) by (auto simp: separate_def)
  then have "in_region b k (b + word_of_nat i)" using assms(2) by (intro in_region_of_nat)
  ultimately show False using separate_disjoint [OF assms(1)] by blast
qed

section \<open>Byte runs\<close>

fun load_bytes :: "mem \<Rightarrow> u32 \<Rightarrow> nat \<Rightarrow> u8 list" where
  "load_bytes m a 0 = []"
| "load_bytes m a (Suc n) = m a # load_bytes m (a + 1) n"

fun store_bytes :: "mem \<Rightarrow> u32 \<Rightarrow> u8 list \<Rightarrow> mem" where
  "store_bytes m a [] = m"
| "store_bytes m a (b # bs) = store_bytes (m(a := b)) (a + 1) bs"

lemma length_load_bytes [simp]: "length (load_bytes m a n) = n"
  by (induction n arbitrary: a) auto

lemma nth_load_bytes [region_simps]:
  "i < n \<Longrightarrow> load_bytes m a n ! i = m (a + word_of_nat i)"
proof (induction n arbitrary: a i)
  case (Suc n)
  then show ?case by (cases i) (auto simp: add.assoc)
qed simp

lemma load_bytes_add:
  "load_bytes m a (n + k) = load_bytes m a n @ load_bytes m (a + word_of_nat n) k"
  by (induction n arbitrary: a) (auto simp: add.assoc)

lemma load_bytes_take: "take k (load_bytes m a n) = load_bytes m a (min k n)"
proof (cases "k \<le> n")
  case True
  then obtain j where "n = k + j" using le_Suc_ex by blast
  then show ?thesis by (simp add: load_bytes_add)
qed (simp add: min_def)

lemma load_bytes_cong:
  assumes "\<And>x. in_region a n x \<Longrightarrow> m x = m' x" and "n \<le> 4294967296"
  shows "load_bytes m a n = load_bytes m' a n"
  using assms by (intro nth_equalityI) (auto simp: nth_load_bytes in_region_of_nat)

lemma store_bytes_apply:
  assumes "length bs \<le> 4294967296"
  shows "store_bytes m a bs x =
    (if in_region a (length bs) x then bs ! unat (x - a) else m x)"
  using assms
proof (induction bs arbitrary: m a)
  case (Cons b bs)
  have IH: "store_bytes (m(a := b)) (a + 1) bs x =
      (if in_region (a + 1) (length bs) x then bs ! unat (x - (a + 1)) else (m(a := b)) x)"
    using Cons by simp
  show ?case
  proof (cases "x = a")
    case True
    have "\<not> in_region (a + 1) (length bs) a"
      using Cons.prems by (intro not_in_region_start) simp
    with True IH show ?thesis using Cons.prems by (simp add: in_region_Suc)
  next
    case False
    then have "x - a \<noteq> 0" by simp
    then have "unat (x - a) = Suc (unat (x - a - 1))"
      by (metis Suc_pred' unat_gt_0 unat_minus_one One_nat_def)
    moreover have "x - (a + 1) = x - a - 1" by simp
    ultimately have "unat (x - a) = Suc (unat (x - (a + 1)))" by metis
    with False IH show ?thesis using Cons.prems by (simp add: in_region_Suc)
  qed
qed simp

lemma store_bytes_other [region_simps]:
  "\<not> in_region a (length bs) x \<Longrightarrow> length bs \<le> 4294967296 \<Longrightarrow> store_bytes m a bs x = m x"
  by (simp add: store_bytes_apply)

lemma store_bytes_nth [region_simps]:
  "i < length bs \<Longrightarrow> length bs \<le> 4294967296 \<Longrightarrow>
     store_bytes m a bs (a + word_of_nat i) = bs ! i"
  by (simp add: store_bytes_apply in_region_of_nat unat_u32_of_nat)

lemma load_store_bytes [region_simps]:
  "length bs \<le> 4294967296 \<Longrightarrow> load_bytes (store_bytes m a bs) a (length bs) = bs"
  by (intro nth_equalityI) (auto simp: nth_load_bytes store_bytes_nth)

lemma load_store_separate [region_simps]:
  assumes "separate a (length bs) b k" and "length bs \<le> 4294967296" and "k \<le> 4294967296"
  shows "load_bytes (store_bytes m a bs) b k = load_bytes m b k"
  using assms by (intro load_bytes_cong store_bytes_other) (auto dest: separate_disjoint)

lemma store_bytes_append:
  "store_bytes m a (xs @ ys) = store_bytes (store_bytes m a xs) (a + word_of_nat (length xs)) ys"
  by (induction xs arbitrary: m a) (auto simp: add.assoc)

lemma store_bytes_snoc:
  "store_bytes m a (xs @ [y]) = (store_bytes m a xs)(a + word_of_nat (length xs) := y)"
  by (simp add: store_bytes_append)

lemma store_bytes_overwrite:
  assumes "length xs = length ys" and "length (ys @ zs) \<le> 4294967296"
  shows "store_bytes (store_bytes m a (xs @ zs)) a ys = store_bytes m a (ys @ zs)"
proof
  fix x
  have "length (xs @ zs) \<le> 4294967296" and "length ys \<le> 4294967296" using assms by simp_all
  with assms show "store_bytes (store_bytes m a (xs @ zs)) a ys x = store_bytes m a (ys @ zs) x"
    by (auto simp: store_bytes_apply nth_append in_region_def)
qed

section \<open>Little-endian 32-bit accesses\<close>

definition load32 :: "mem \<Rightarrow> u32 \<Rightarrow> u32" where
  "load32 m a = ucast (m a) OR push_bit 8 (ucast (m (a + 1))) OR
     push_bit 16 (ucast (m (a + 2))) OR push_bit 24 (ucast (m (a + 3)))"

definition bytes32 :: "u32 \<Rightarrow> u8 list" where
  "bytes32 v = [ucast v, ucast (drop_bit 8 v), ucast (drop_bit 16 v), ucast (drop_bit 24 v)]"

definition store32 :: "mem \<Rightarrow> u32 \<Rightarrow> u32 \<Rightarrow> mem" where
  "store32 m a v = store_bytes m a (bytes32 v)"

lemma length_bytes32 [simp]: "length (bytes32 v) = 4"
  by (simp add: bytes32_def)

lemma load32_bytes:
  "load32 m a = (case load_bytes m a 4 of [b0, b1, b2, b3] \<Rightarrow>
     ucast b0 OR push_bit 8 (ucast b1) OR push_bit 16 (ucast b2) OR push_bit 24 (ucast b3))"
  by (simp add: load32_def numeral_eq_Suc add.assoc)

lemma join_bytes32:
  "ucast (ucast v :: u8) OR push_bit 8 (ucast (ucast (drop_bit 8 v) :: u8)) OR
   push_bit 16 (ucast (ucast (drop_bit 16 v) :: u8)) OR
   push_bit 24 (ucast (ucast (drop_bit 24 v) :: u8)) = (v :: u32)"
  apply (rule bit_word_eqI)
  apply (auto simp: bit_simps)
  subgoal for n by (cases "24 \<le> n") auto
  done

lemma load32_store32 [region_simps]: "load32 (store32 m a v) a = v"
proof -
  have "load_bytes (store32 m a v) a 4 = bytes32 v"
    using load_store_bytes [of "bytes32 v" m a] by (simp add: store32_def)
  then show ?thesis by (simp add: load32_bytes bytes32_def join_bytes32)
qed

lemma load32_cong:
  "(\<And>x. in_region a 4 x \<Longrightarrow> m x = m' x) \<Longrightarrow> load32 m a = load32 m' a"
  using load_bytes_cong [of a 4 m m'] by (simp add: load32_bytes)

lemma store32_other [region_simps]: "\<not> in_region a 4 x \<Longrightarrow> store32 m a v x = m x"
  by (simp add: store32_def store_bytes_other)

section \<open>Agreement of two memories on a region\<close>

definition agree :: "u32 \<Rightarrow> nat \<Rightarrow> mem \<Rightarrow> mem \<Rightarrow> bool" where
  "agree a n m m' \<longleftrightarrow> (\<forall>x. in_region a n x \<longrightarrow> m' x = m x)"

lemma in_region_sub:
  assumes "in_region (a + word_of_nat k) j x" "k + j \<le> n" "n \<le> 4294967296"
  shows "in_region a n x"
proof -
  define t where "t = unat (x - (a + word_of_nat k))"
  have x: "x = a + word_of_nat (k + t)"
    by (simp add: t_def)
  have "k + t < n" using assms by (simp add: in_region_def t_def)
  then show ?thesis unfolding x using assms(3) by (rule in_region_of_nat)
qed

lemma agree_refl [simp]: "agree a n m m"
  by (simp add: agree_def)

lemma agree_trans: "agree a n m m' \<Longrightarrow> agree a n m' m'' \<Longrightarrow> agree a n m m''"
  by (simp add: agree_def)

lemma agree_sym: "agree a n m m' \<Longrightarrow> agree a n m' m"
  by (simp add: agree_def)

lemma agree_sub:
  "agree a n m m' \<Longrightarrow> k + j \<le> n \<Longrightarrow> n \<le> 4294967296 \<Longrightarrow> agree (a + word_of_nat k) j m m'"
  by (auto simp: agree_def intro: in_region_sub)

lemma agree_byte:
  "agree a n m m' \<Longrightarrow> k < n \<Longrightarrow> n \<le> 4294967296 \<Longrightarrow> m' (a + word_of_nat k) = m (a + word_of_nat k)"
  by (simp add: agree_def in_region_of_nat)

lemma agree_load_bytes:
  "agree a n m m' \<Longrightarrow> n \<le> 4294967296 \<Longrightarrow> load_bytes m' a n = load_bytes m a n"
  by (intro load_bytes_cong) (auto simp: agree_def)

lemma agree_load32: "agree a 4 m m' \<Longrightarrow> load32 m' a = load32 m a"
  by (intro load32_cong) (auto simp: agree_def)

lemma agree_load32_at:
  "agree a n m m' \<Longrightarrow> k + 4 \<le> n \<Longrightarrow> n \<le> 4294967296 \<Longrightarrow>
     load32 m' (a + word_of_nat k) = load32 m (a + word_of_nat k)"
  by (intro agree_load32 agree_sub)

lemma agree_store_bytes:
  assumes "separate a n d (length bs)"
  shows "agree a n m (store_bytes m d bs)"
  unfolding agree_def
proof (intro allI impI)
  fix x assume "in_region a n x"
  then have "\<not> in_region d (length bs) x" using separate_disjoint [OF assms] by blast
  moreover have "length bs \<le> 4294967296" using assms by (auto simp: separate_def)
  ultimately show "store_bytes m d bs x = m x" by (rule store_bytes_other)
qed

lemma agree_store32: "separate a n d 4 \<Longrightarrow> agree a n m (store32 m d v)"
  by (simp add: store32_def agree_store_bytes)

lemma agree_upd: "separate a n d 1 \<Longrightarrow> agree a n m (m(d := b))"
  using agree_store_bytes [of a n d "[b]" m] by simp

lemma separate_sub:
  assumes "separate a n b k" "i + j \<le> k"
  shows "separate a n (b + word_of_nat i) j"
proof (cases "unat b + i < 4294967296")
  case True
  then have "unat (b + word_of_nat i) = unat b + i"
    by (simp add: unat_word_ariths unat_u32_of_nat)
  then show ?thesis using assms by (auto simp: separate_def)
next
  case False
  have "unat b + k \<le> 4294967296" and "unat a + n \<le> 4294967296"
    using assms(1) unat_less_u32 [of a] unat_less_u32 [of b] by (auto simp: separate_def)
  with False assms(2) have "unat b + i = 4294967296" "j = 0" by simp_all
  moreover have "unat (b + word_of_nat i) = (unat b + i) mod 4294967296"
    by (simp add: unat_word_ariths unat_of_nat take_bit_eq_mod mod_simps)
  ultimately show ?thesis using \<open>unat a + n \<le> 4294967296\<close> by (auto simp: separate_def)
qed

section \<open>C strings\<close>

text \<open>
  The bytes \<open>s\<close> stand as a NUL-terminated string at \<open>a\<close>: none of them is NUL, they are
  followed by one NUL byte, and the terminated string fits into the address space.
\<close>

definition cstring_at :: "mem \<Rightarrow> u32 \<Rightarrow> u8 list \<Rightarrow> bool" where
  "cstring_at m a s \<longleftrightarrow>
     load_bytes m a (length s) = s \<and> m (a + word_of_nat (length s)) = 0 \<and>
     0 \<notin> set s \<and> length s < 2147483648"

lemma cstring_at_nth:
  assumes "cstring_at m a s" and "i < length s"
  shows "m (a + word_of_nat i) = s ! i" and "s ! i \<noteq> 0"
  using assms nth_load_bytes [of i "length s" m a]
  by (auto simp: cstring_at_def in_set_conv_nth)

lemma cstring_at_end: "cstring_at m a s \<Longrightarrow> m (a + word_of_nat (length s)) = 0"
  by (simp add: cstring_at_def)

lemma cstring_at_len: "cstring_at m a s \<Longrightarrow> length s < 2147483648"
  by (simp add: cstring_at_def)

lemma cstring_at_cong:
  assumes "\<And>x. in_region a (Suc (length s)) x \<Longrightarrow> m x = m' x"
  shows "cstring_at m a s = cstring_at m' a s"
proof (cases "length s < 2147483648")
  case True
  have "load_bytes m a (length s) = load_bytes m' a (length s)"
    using True by (intro load_bytes_cong assms) (auto elim!: in_region_mono)
  moreover have "m (a + word_of_nat (length s)) = m' (a + word_of_nat (length s))"
    using True by (intro assms in_region_of_nat) auto
  ultimately show ?thesis by (simp add: cstring_at_def)
qed (simp add: cstring_at_def)

text \<open>The bytes of a HOL string literal, for the string constants of the code.\<close>

definition bytes_of :: "string \<Rightarrow> u8 list" where
  "bytes_of s = map (\<lambda>c. word_of_nat (of_char c)) s"

end
