(* ===== verification/LibString.thy ===== *)
theory LibString
  imports Prelude
begin

text \<open>
  The C string routines of \<^verbatim>\<open>src/lib.c\<close>: \<^verbatim>\<open>strlen\<close>, \<^verbatim>\<open>strncmp\<close>, \<^verbatim>\<open>strcpy\<close>, \<^verbatim>\<open>strncpy\<close>,
  \<^verbatim>\<open>strrev\<close> and \<^verbatim>\<open>itoa\<close>.  Each takes the memory, works on it byte by byte in the order of
  the code and returns the C result with the new memory.  A routine whose loop is bounded
  only by a NUL byte in memory is a \<open>partial_function (option)\<close>: \<open>None\<close> is a call that never
  returns.  A counter of type \<^verbatim>\<open>int32_t\<close> that the code compares with a \<^verbatim>\<open>uint32_t\<close> is a
  \<open>u32\<close>, as C converts it.
\<close>

section \<open>Definitions\<close>

partial_function (option) strlen_loop :: "mem \<Rightarrow> u32 \<Rightarrow> u32 \<Rightarrow> u32 option" where
  "strlen_loop m s len = (if m (s + len) \<noteq> 0 then strlen_loop m s (len + 1) else Some len)"

definition strlen :: "mem \<Rightarrow> u32 \<Rightarrow> u32 option" where
  "strlen m s = strlen_loop m s 0"

function strncmp_loop :: "mem \<Rightarrow> u32 \<Rightarrow> u32 \<Rightarrow> u32 \<Rightarrow> u32 \<Rightarrow> i32" where
  "strncmp_loop m s1 s2 n i =
     (if i < n then
        if m (s1 + i) \<noteq> m (s2 + i) \<or> m (s1 + i) = 0
        then scast (m (s1 + i)) - scast (m (s2 + i))
        else strncmp_loop m s1 s2 n (i + 1)
      else 0)"
  by pat_completeness auto
termination
  by (relation "measure (\<lambda>(m, s1, s2, n, i). unat (n - i))") (auto intro: plus1_measure)

definition strncmp :: "mem \<Rightarrow> u32 \<Rightarrow> u32 \<Rightarrow> u32 \<Rightarrow> i32" where
  "strncmp m s1 s2 n = strncmp_loop m s1 s2 n 0"

partial_function (option) strcpy_loop :: "mem \<Rightarrow> u32 \<Rightarrow> u32 \<Rightarrow> u32 \<Rightarrow> mem option" where
  "strcpy_loop m dest src i =
     (if m (src + i) \<noteq> 0
      then strcpy_loop (m(dest + i := m (src + i))) dest src (i + 1)
      else Some (m(dest + i := 0)))"

definition strcpy :: "mem \<Rightarrow> u32 \<Rightarrow> u32 \<Rightarrow> (u32 \<times> mem) option" where
  "strcpy m dest src = map_option (\<lambda>m'. (dest, m')) (strcpy_loop m dest src 0)"

function strncpy_copy :: "mem \<Rightarrow> u32 \<Rightarrow> u32 \<Rightarrow> u32 \<Rightarrow> u32 \<Rightarrow> mem \<times> u32" where
  "strncpy_copy m dest src n i =
     (if m (src + i) \<noteq> 0 \<and> i < n
      then strncpy_copy (m(dest + i := m (src + i))) dest src n (i + 1)
      else (m, i))"
  by pat_completeness auto
termination
  by (relation "measure (\<lambda>(m, dest, src, n, i). unat (n - i))") (auto intro: plus1_measure)

function strncpy_pad :: "mem \<Rightarrow> u32 \<Rightarrow> u32 \<Rightarrow> u32 \<Rightarrow> mem" where
  "strncpy_pad m dest n i =
     (if i < n then strncpy_pad (m(dest + i := 0)) dest n (i + 1) else m)"
  by pat_completeness auto
termination
  by (relation "measure (\<lambda>(m, dest, n, i). unat (n - i))") (auto intro: plus1_measure)

definition strncpy :: "mem \<Rightarrow> u32 \<Rightarrow> u32 \<Rightarrow> u32 \<Rightarrow> u32 \<times> mem" where
  "strncpy m dest src n =
     (case strncpy_copy m dest src n 0 of (m', i) \<Rightarrow> (dest, strncpy_pad m' dest n i))"

text \<open>The two signed indices of \<^verbatim>\<open>strrev\<close> stay between \<open>-1\<close> and the length, so they are
  integers; \<^verbatim>\<open>end\<close> starts as the unsigned \<^verbatim>\<open>strlen(s) - 1\<close> read as an \<^verbatim>\<open>int32_t\<close>.\<close>

function strrev_loop :: "mem \<Rightarrow> u32 \<Rightarrow> int \<Rightarrow> int \<Rightarrow> mem" where
  "strrev_loop m s beg ende =
     (if beg < ende then
        let tmp = m (s + word_of_int ende);
            m1 = m(s + word_of_int ende := m (s + word_of_int beg));
            m2 = m1(s + word_of_int beg := tmp)
        in strrev_loop m2 s (beg + 1) (ende - 1)
      else m)"
  by pat_completeness auto
termination
  by (relation "measure (\<lambda>(m, s, beg, ende). nat (ende - beg))") auto

definition strrev :: "mem \<Rightarrow> u32 \<Rightarrow> (u32 \<times> mem) option" where
  "strrev m s = (case strlen m s of
     None \<Rightarrow> None
   | Some len \<Rightarrow> Some (s, strrev_loop m s 0 (sint (len - 1))))"

text \<open>The digit table of \<^verbatim>\<open>itoa\<close>, terminating NUL included; an index past it reads unknown
  memory, and a division by a zero radix raises an exception whose handler never returns.
  Both are \<open>None\<close>, like the endless loop of radix 1.\<close>

definition lookup :: "u8 list" where
  "lookup = bytes_of ''0123456789ABCDEFGHIJKLMNOPQRSTUVWXYZ'' @ [0]"

partial_function (option) itoa_loop :: "mem \<Rightarrow> u32 \<Rightarrow> u32 \<Rightarrow> i32 \<Rightarrow> (mem \<times> u32) option" where
  "itoa_loop m newbuf newval radix =
     (if newval > 0 then
        if radix = 0 then None
        else let i = unat (newval mod radix) in
          if i < length lookup
          then itoa_loop (m(newbuf := lookup ! i)) (newbuf + 1) (newval div radix) radix
          else None
      else Some (m, newbuf))"

definition itoa :: "mem \<Rightarrow> u32 \<Rightarrow> u32 \<Rightarrow> i32 \<Rightarrow> (u32 \<times> mem) option" where
  "itoa m value buf radix =
     (if value = 0 then Some (buf, m(buf := 0x30, buf + 1 := 0))
      else case itoa_loop m buf value radix of
        None \<Rightarrow> None
      | Some (m', newbuf) \<Rightarrow> strrev (m'(newbuf := 0)) buf)"

declare strncmp_loop.simps [simp del] strncpy_copy.simps [simp del] strncpy_pad.simps [simp del]
  strrev_loop.simps [simp del]

section \<open>Strings as seen by the routines\<close>

definition cstr_upto :: "mem \<Rightarrow> u32 \<Rightarrow> nat \<Rightarrow> u8 list" where
  "cstr_upto m a n = takeWhile (\<lambda>b. b \<noteq> 0) (load_bytes m a n)"

lemma cstr_upto_0 [simp]: "cstr_upto m a 0 = []"
  by (simp add: cstr_upto_def)

lemma cstr_upto_Suc:
  "cstr_upto m a (Suc n) = (if m a = 0 then [] else m a # cstr_upto m (a + 1) n)"
  by (simp add: cstr_upto_def)

lemma cstr_upto_cong:
  "(\<And>x. in_region a n x \<Longrightarrow> m x = m' x) \<Longrightarrow> n \<le> 4294967296 \<Longrightarrow>
     cstr_upto m a n = cstr_upto m' a n"
  using load_bytes_cong [of a n m m'] by (simp add: cstr_upto_def)

lemma cstring_at_upto:
  assumes "cstring_at m a s"
  shows "cstr_upto m a n = take n s"
proof (cases "n \<le> length s")
  case True
  then obtain k where "length s = n + k" using le_Suc_ex by blast
  with assms have "load_bytes m a n = take n s"
    by (metis append_eq_conv_conj cstring_at_def length_load_bytes load_bytes_add)
  moreover have "0 \<notin> set (take n s)"
    using assms by (auto simp: cstring_at_def dest: in_set_takeD)
  ultimately show ?thesis
    by (auto simp: cstr_upto_def takeWhile_eq_all_conv)
next
  case False
  then obtain k where k: "n = length s + Suc k"
    by (metis add_Suc_right less_imp_Suc_add not_le)
  have "load_bytes m a n = s @ 0 # load_bytes m (a + word_of_nat (length s) + 1) k"
    using assms unfolding k load_bytes_add by (simp add: cstring_at_def)
  moreover have "\<forall>b\<in>set s. b \<noteq> 0"
    using assms by (auto simp: cstring_at_def)
  ultimately show ?thesis
    using False by (simp add: cstr_upto_def takeWhile_append2)
qed

section \<open>strlen\<close>

lemma strlen_loop_cstring:
  assumes "cstring_at m a s" and "k \<le> length s"
  shows "strlen_loop m a (word_of_nat k) = Some (word_of_nat (length s))"
  using assms(2)
proof (induction rule: inc_induct)
  case base
  show ?case by (subst strlen_loop.simps) (simp add: cstring_at_end [OF assms(1)])
next
  case (step n)
  have "m (a + word_of_nat n) \<noteq> 0" using cstring_at_nth [OF assms(1) step(2)] by simp
  with step(3) show ?case
    by (subst strlen_loop.simps) (simp add: add.commute)
qed

lemma strlen_cstring: "cstring_at m a s \<Longrightarrow> strlen m a = Some (word_of_nat (length s))"
  using strlen_loop_cstring [of m a s 0] by (simp add: strlen_def)

section \<open>strncmp\<close>

lemma scast_u8_inject [simp]: "(scast (x :: u8) :: i32) = scast y \<longleftrightarrow> x = y"
proof
  assume "(scast x :: i32) = scast y"
  then have "sint (scast x :: i32) = sint (scast y :: i32)" by simp
  then have "sint x = sint y" by (simp add: sint_up_scast is_up)
  then show "x = y" by (rule signed_word_eqI)
qed simp

lemma scast_u8_zero [simp]: "(scast (x :: u8) :: i32) = 0 \<longleftrightarrow> x = 0"
  using scast_u8_inject [of x 0] by (simp del: scast_u8_inject)

lemma strncmp_loop_zero:
  assumes "k \<le> unat n"
  shows "strncmp_loop m s1 s2 n (word_of_nat k) = 0 \<longleftrightarrow>
    cstr_upto m (s1 + word_of_nat k) (unat n - k) = cstr_upto m (s2 + word_of_nat k) (unat n - k)"
  using assms
proof (induction rule: inc_induct)
  case base
  show ?case by (subst strncmp_loop.simps) simp
next
  case (step k)
  have less: "(word_of_nat k :: u32) < n"
    using step(2) unat_less_u32 [of n] by (simp add: word_less_nat_alt unat_u32_of_nat)
  have "unat n - k = Suc (unat n - Suc k)" using step(2) by simp
  moreover have "s1 + word_of_nat (Suc k) = s1 + word_of_nat k + 1"
    and "s2 + word_of_nat (Suc k) = s2 + word_of_nat k + 1"
    and "word_of_nat (Suc k) = word_of_nat k + (1 :: u32)" by simp_all
  ultimately show ?case
    using step(3) less
    by (subst strncmp_loop.simps) (simp add: cstr_upto_Suc add.assoc del: of_nat_Suc)
qed

lemma strncmp_zero_iff:
  "strncmp m s1 s2 n = 0 \<longleftrightarrow> cstr_upto m s1 (unat n) = cstr_upto m s2 (unat n)"
  using strncmp_loop_zero [of 0 n m s1 s2] by (simp add: strncmp_def)

section \<open>strcpy and strncpy\<close>

lemma store_take_Suc:
  assumes "k < length s"
  shows "(store_bytes m d (take k s))(d + word_of_nat k := s ! k) = store_bytes m d (take (Suc k) s)"
  using assms by (simp add: take_Suc_conv_app_nth store_bytes_snoc)

lemma strcpy_loop_cstring:
  assumes str: "cstring_at m src s"
    and sep: "separate dest (Suc (length s)) src (Suc (length s))"
    and "k \<le> length s"
  shows "strcpy_loop (store_bytes m dest (take k s)) dest src (word_of_nat k) =
    Some (store_bytes m dest (s @ [0]))"
  using assms(3)
proof (induction rule: inc_induct)
  case base
  have "\<not> in_region dest (length s) (src + word_of_nat (length s))"
    by (rule separate_not_in [OF sep]) simp_all
  then have "store_bytes m dest s (src + word_of_nat (length s)) = 0"
    using cstring_at_len [OF str] by (simp add: store_bytes_other cstring_at_end [OF str])
  then show ?case
    by (subst strcpy_loop.simps) (simp add: store_bytes_snoc)
next
  case (step k)
  have "\<not> in_region dest k (src + word_of_nat k)"
    using step(2) by (intro separate_not_in [OF sep]) simp_all
  then have "store_bytes m dest (take k s) (src + word_of_nat k) = s ! k"
    using cstring_at_len [OF str] step(2) cstring_at_nth(1) [OF str step(2)]
    by (simp add: store_bytes_other min_def)
  moreover have "word_of_nat (Suc k) = word_of_nat k + (1 :: u32)" by simp
  ultimately show ?case
    using step(3) cstring_at_nth(2) [OF str step(2)] step(2)
    by (subst strcpy_loop.simps) (simp add: store_take_Suc del: of_nat_Suc)
qed

lemma strcpy_cstring:
  assumes "cstring_at m src s" and "separate dest (Suc (length s)) src (Suc (length s))"
  shows "strcpy m dest src = Some (dest, store_bytes m dest (s @ [0]))"
  using strcpy_loop_cstring [OF assms, of 0] by (simp add: strcpy_def)

lemma strncpy_copy_cstring:
  assumes str: "cstring_at m src s"
    and sep: "separate dest (unat n) src (Suc (length s))"
    and "k \<le> min (length s) (unat n)"
  shows "strncpy_copy (store_bytes m dest (take k s)) dest src n (word_of_nat k) =
    (store_bytes m dest (take (unat n) s), word_of_nat (min (length s) (unat n)))"
  using assms(3)
proof (induction rule: inc_induct)
  case base
  let ?k = "min (length s) (unat n)"
  have "\<not> in_region dest ?k (src + word_of_nat ?k)"
    by (rule separate_not_in [OF sep]) simp_all
  moreover have len: "length (take ?k s) = ?k" by simp
  ultimately have "store_bytes m dest (take ?k s) (src + word_of_nat ?k) = m (src + word_of_nat ?k)"
    using cstring_at_len [OF str] by (subst store_bytes_other) (simp_all only: len, simp)
  moreover have "m (src + word_of_nat ?k) = 0 \<or> \<not> word_of_nat ?k < n"
    by (cases "length s \<le> unat n") (simp_all add: min_def cstring_at_end [OF str])
  moreover have "take (min (length s) (unat n)) s = take (unat n) s" by (simp add: min_def)
  ultimately show ?case by (subst strncpy_copy.simps) auto
next
  case (step k)
  then have k: "k < length s" "k < unat n" by simp_all
  then have less: "(word_of_nat k :: u32) < n"
    using unat_less_u32 [of n] by (simp add: word_less_nat_alt unat_u32_of_nat)
  have "\<not> in_region dest k (src + word_of_nat k)"
    using k by (intro separate_not_in [OF sep]) simp_all
  then have "store_bytes m dest (take k s) (src + word_of_nat k) = s ! k"
    using cstring_at_len [OF str] k cstring_at_nth(1) [OF str k(1)]
    by (simp add: store_bytes_other min_def)
  moreover have "word_of_nat (Suc k) = word_of_nat k + (1 :: u32)" by simp
  ultimately show ?case
    using step(3) cstring_at_nth(2) [OF str k(1)] k less
    by (subst strncpy_copy.simps) (simp add: store_take_Suc del: of_nat_Suc)
qed

lemma strncpy_pad_store:
  assumes "length xs \<le> unat n"
  shows "strncpy_pad (store_bytes m dest xs) dest n (word_of_nat (length xs)) =
    store_bytes m dest (xs @ replicate (unat n - length xs) 0)"
  using assms
proof (induction "unat n - length xs" arbitrary: xs)
  case 0
  then have "length xs = unat n" by simp
  then have "(word_of_nat (length xs) :: u32) = n" by simp
  with 0 show ?case by (subst strncpy_pad.simps) simp
next
  case (Suc d)
  then have less: "(word_of_nat (length xs) :: u32) < n"
    using unat_less_u32 [of n] by (simp add: word_less_nat_alt unat_u32_of_nat)
  have IH: "strncpy_pad (store_bytes m dest (xs @ [0])) dest n (word_of_nat (length (xs @ [0]))) =
      store_bytes m dest ((xs @ [0]) @ replicate (unat n - length (xs @ [0])) 0)"
    using Suc.hyps(2) by (intro Suc.hyps(1)) auto
  have "replicate (unat n - length xs) (0 :: u8) = 0 # replicate (unat n - length (xs @ [0])) 0"
    using Suc.hyps(2) by (metis Suc_diff_Suc diff_Suc_Suc length_append_singleton
        replicate_Suc zero_less_Suc zero_less_diff)
  with IH less show ?case
    by (subst strncpy_pad.simps) (simp add: store_bytes_snoc add.commute)
qed

lemma strncpy_cstring:
  assumes "cstring_at m src s" and "separate dest (unat n) src (Suc (length s))"
  shows "strncpy m dest src n =
    (dest, store_bytes m dest (take (unat n) s @ replicate (unat n - length s) 0))"
proof -
  have "min (length s) (unat n) = length (take (unat n) s)" by simp
  moreover have "unat n - length (take (unat n) s) = unat n - length s" by simp
  ultimately show ?thesis
    using strncpy_copy_cstring [OF assms, of 0] strncpy_pad_store [of "take (unat n) s" n m dest]
    by (simp add: strncpy_def)
qed

section \<open>strrev\<close>

lemma word_of_int_eq_u32:
  assumes "0 \<le> a" "a < 4294967296" "0 \<le> b" "b < 4294967296"
  shows "(word_of_int a :: u32) = word_of_int b \<longleftrightarrow> a = b"
proof -
  have "uint (word_of_int a :: u32) = a" "uint (word_of_int b :: u32) = b"
    using assms by (simp_all add: uint_word_of_int_eq take_bit_int_eq_self_iff)
  then show ?thesis by metis
qed

lemma strrev_loop_apply:
  "0 \<le> beg \<Longrightarrow> ende < 4294967296 \<Longrightarrow>
   strrev_loop m s beg ende x =
     (let j = uint (x - s) in
      if beg \<le> j \<and> j \<le> ende then m (s + word_of_int (beg + ende - j)) else m x)"
proof (induction m s beg ende rule: strrev_loop.induct)
  case (1 m s beg ende)
  show ?case
  proof (cases "beg < ende")
    case False
    have "m (s + word_of_int (beg + ende - uint (x - s))) = m x"
      if "beg \<le> uint (x - s)" "uint (x - s) \<le> ende"
    proof -
      have "beg + ende - uint (x - s) = uint (x - s)" using that False by simp
      moreover have "s + word_of_int (uint (x - s)) = x" by simp
      ultimately show ?thesis by metis
    qed
    then show ?thesis
      using False by (subst strrev_loop.simps) (simp add: Let_def)
  next
    case True
    define m2 where "m2 = m(s + word_of_int ende := m (s + word_of_int beg),
        s + word_of_int beg := m (s + word_of_int ende))"
    have "0 \<le> beg + 1" and "ende - 1 < 4294967296" using "1.prems" by simp_all
    note IH' = "1.IH" [OF True refl refl refl this]
    have "beg + 1 + (ende - 1) = beg + ende" by simp
    with IH' have IH: "strrev_loop m2 s (beg + 1) (ende - 1) x =
        (let j = uint (x - s) in
         if beg + 1 \<le> j \<and> j \<le> ende - 1 then m2 (s + word_of_int (beg + ende - j)) else m2 x)"
      by (simp only: m2_def)
    obtain j where j: "x = s + word_of_int j" "0 \<le> j" "j < 4294967296"
    proof (rule that [of "uint (x - s)"])
      show "x = s + word_of_int (uint (x - s))" by (simp only: word_of_int_uint add_diff_eq
          add_diff_cancel_left')
      show "uint (x - s) < 4294967296" using uint_lt2p [of "x - s"] by simp
    qed (rule uint_ge_0)
    then have uint_j: "uint (x - s) = j" by (simp add: uint_word_of_int_eq take_bit_int_eq_self_iff)
    have m2: "m2 (s + word_of_int k) =
        m (s + word_of_int (if k = beg then ende else if k = ende then beg else k))"
      if "0 \<le> k" "k < 4294967296" for k
      using that "1.prems" True by (simp add: m2_def word_of_int_eq_u32)
    have "strrev_loop m s beg ende x = strrev_loop m2 s (beg + 1) (ende - 1) x"
      using True by (subst strrev_loop.simps) (simp add: m2_def Let_def)
    also have "\<dots> = (let j = uint (x - s) in
      if beg \<le> j \<and> j \<le> ende then m (s + word_of_int (beg + ende - j)) else m x)"
      unfolding IH Let_def uint_j unfolding j(1)
      using True "1.prems" j(2,3) m2 [of j] m2 [of "beg + ende - j"]
      by (auto simp del: of_int_add of_int_diff)
    finally show ?thesis .
  qed
qed

lemma strrev_cstring:
  assumes str: "cstring_at m a s"
  shows "strrev m a = Some (a, store_bytes m a (rev s))"
proof -
  let ?n = "int (length s)"
  have n: "?n < 2147483648" using cstring_at_len [OF str] by simp
  have "sint (word_of_nat (length s) - 1 :: u32) = ?n - 1"
  proof -
    have "(word_of_nat (length s) - 1 :: u32) = word_of_int (?n - 1)" by simp
    then show ?thesis
      using n by (simp only: int_word_sint) simp
  qed
  moreover have "strrev_loop m a 0 (?n - 1) = store_bytes m a (rev s)"
  proof (rule ext)
    fix x
    have len: "length (rev s) \<le> 4294967296" using n by simp
    define j where "j = unat (x - a)"
    have x: "x = a + word_of_nat j" and uint: "uint (x - a) = int j"
      by (simp_all add: j_def)
    show "strrev_loop m a 0 (?n - 1) x = store_bytes m a (rev s) x"
    proof (cases "j < length s")
      case True
      then have "word_of_int (?n - 1 - int j) = (word_of_nat (length s - Suc j) :: u32)"
        by (simp add: of_nat_diff)
      with True cstring_at_nth(1) [OF str, of "length s - Suc j"] n show ?thesis
        unfolding store_bytes_apply [OF len]
        by (simp add: strrev_loop_apply Let_def rev_nth uint in_region_def j_def [symmetric]
            del: of_int_diff)
    next
      case False
      with n show ?thesis
        unfolding store_bytes_apply [OF len]
        by (simp add: strrev_loop_apply Let_def uint in_region_def j_def [symmetric])
    qed
  qed
  ultimately show ?thesis
    by (simp add: strrev_def strlen_cstring [OF str])
qed

section \<open>itoa\<close>

text \<open>The reference: the digits of a number, least significant first, and the value a string
  of digits denotes.\<close>

fun to_digits :: "nat \<Rightarrow> nat \<Rightarrow> nat list" where
  "to_digits r n = (if n = 0 \<or> r < 2 then [] else n mod r # to_digits r (n div r))"

declare to_digits.simps [simp del]

definition digit_of :: "u8 \<Rightarrow> nat" where
  "digit_of b = (if b \<le> 0x39 then unat b - 0x30 else unat b - 0x37)"

fun atou :: "nat \<Rightarrow> u8 list \<Rightarrow> nat" where
  "atou r [] = 0"
| "atou r (b # bs) = digit_of b * r ^ length bs + atou r bs"

lemma to_digits_less: "2 \<le> r \<Longrightarrow> d \<in> set (to_digits r n) \<Longrightarrow> d < r"
proof (induction r n rule: to_digits.induct)
  case (1 r n)
  then show ?case by (subst (asm) to_digits.simps) (auto split: if_splits)
qed

lemma to_digits_length: "2 \<le> r \<Longrightarrow> n < r ^ k \<Longrightarrow> length (to_digits r n) \<le> k"
proof (induction r n arbitrary: k rule: to_digits.induct)
  case (1 r n)
  show ?case
  proof (cases k)
    case 0
    with "1.prems" show ?thesis by (simp add: to_digits.simps)
  next
    case (Suc k')
    have "n div r < r ^ k'" using "1.prems" Suc by (simp add: less_mult_imp_div_less mult.commute)
    with "1.IH" [of k'] "1.prems" Suc show ?thesis
      by (subst to_digits.simps) auto
  qed
qed

lemma atou_append: "atou r (xs @ ys) = atou r xs * r ^ length ys + atou r ys"
  by (induction xs) (auto simp: algebra_simps power_add)

lemma lookup_digit: "d < 36 \<Longrightarrow> digit_of (lookup ! d) = d \<and> lookup ! d \<noteq> 0"
proof -
  have "\<forall>d\<in>set [0..<36]. digit_of (lookup ! d) = d \<and> lookup ! d \<noteq> 0" by code_simp
  then show "d < 36 \<Longrightarrow> digit_of (lookup ! d) = d \<and> lookup ! d \<noteq> 0" by simp
qed

lemma length_lookup [simp]: "length lookup = 37"
  by code_simp

lemma atou_digits:
  assumes "2 \<le> r" "r \<le> 36"
  shows "atou r (rev (map ((!) lookup) (to_digits r n))) = n"
  using assms
proof (induction r n rule: to_digits.induct)
  case (1 r n)
  show ?case
  proof (cases "n = 0")
    case False
    moreover have "n mod r < 36" using "1.prems" by (intro mod_less_bound) simp_all
    ultimately show ?thesis using "1" lookup_digit [of "n mod r"]
      by (subst to_digits.simps) (simp add: atou_append)
  qed (simp add: to_digits.simps)
qed

lemma itoa_loop_digits:
  assumes "2 \<le> unat radix" "unat radix \<le> 36"
  shows "itoa_loop m p v radix =
    (let ds = map ((!) lookup) (to_digits (unat radix) (unat v))
     in Some (store_bytes m p ds, p + word_of_nat (length ds)))"
proof (induction "unat v" arbitrary: m p v rule: less_induct)
  case less
  have radix: "radix \<noteq> 0" using assms(1) by auto
  show ?case
  proof (cases "v = 0")
    case True
    then show ?thesis by (subst itoa_loop.simps) (simp add: to_digits.simps)
  next
    case False
    then have "0 < unat v" by (simp add: unat_gt_0)
    then have "unat (v div radix) < unat v"
      using assms by (simp add: unat_div div_less_dividend)
    note IH = less [OF this]
    have "unat (v mod radix) < 37"
      unfolding unat_mod using assms by (intro mod_less_bound) simp_all
    moreover have "v > 0" using False by (simp add: word_neq_0_conv)
    moreover have "to_digits (unat radix) (unat v) =
        unat (v mod radix) # to_digits (unat radix) (unat (v div radix))"
      using False assms(1) by (subst to_digits.simps) (simp add: unat_div unat_mod unat_0_iff)
    ultimately show ?thesis
      using radix IH [of "m(p := lookup ! unat (v mod radix))" "p + 1"]
      by (subst itoa_loop.simps) (simp add: Let_def add.assoc)
  qed
qed

text \<open>What \<^verbatim>\<open>itoa\<close> prints.\<close>

definition number_text :: "nat \<Rightarrow> u32 \<Rightarrow> u8 list" where
  "number_text r v = (if v = 0 then [0x30] else rev (map ((!) lookup) (to_digits r (unat v))))"

lemma number_text:
  assumes "2 \<le> r" "r \<le> 36"
  shows "number_text r v \<noteq> []" "0 \<notin> set (number_text r v)" "length (number_text r v) \<le> 32"
    "atou r (number_text r v) = unat v"
proof -
  have "unat v < 2 ^ 32" using unat_less_u32 [of v] by simp
  also have "(2 :: nat) ^ 32 \<le> r ^ 32" using assms(1) by (intro power_mono) simp_all
  finally show "length (number_text r v) \<le> 32"
    using assms(1) by (simp add: number_text_def to_digits_length)
  have "v \<noteq> 0 \<Longrightarrow> to_digits r (unat v) \<noteq> []"
    using assms(1) by (subst to_digits.simps) (simp add: unat_0_iff)
  then show "number_text r v \<noteq> []" by (simp add: number_text_def)
  show "0 \<notin> set (number_text r v)"
  proof -
    have "0 \<noteq> lookup ! d" if "d \<in> set (to_digits r n)" for d n
      using lookup_digit [of d] to_digits_less [OF assms(1) that] assms(2) by simp
    then show ?thesis by (auto simp: number_text_def)
  qed
  show "atou r (number_text r v) = unat v"
    using atou_digits [OF assms] by (simp add: number_text_def digit_of_def)
qed

lemma itoa_text:
  assumes "2 \<le> unat radix" "unat radix \<le> 36"
  shows "itoa m v buf radix = Some (buf, store_bytes m buf (number_text (unat radix) v @ [0]))"
proof (cases "v = 0")
  case True
  then show ?thesis by (simp add: itoa_def number_text_def)
next
  case False
  define ds where "ds = map ((!) lookup) (to_digits (unat radix) (unat v))"
  have rev_ds: "number_text (unat radix) v = rev ds" using False by (simp add: number_text_def ds_def)
  have bounds: "length ds \<le> 32" "0 \<notin> set ds"
    using number_text(2,3) [OF assms, of v] by (simp_all add: rev_ds)
  have "itoa_loop m buf v radix = Some (store_bytes m buf ds, buf + word_of_nat (length ds))"
    using itoa_loop_digits [OF assms] by (simp add: ds_def Let_def)
  moreover have "(store_bytes m buf ds)(buf + word_of_nat (length ds) := 0) = store_bytes m buf (ds @ [0])"
    by (simp add: store_bytes_snoc)
  moreover have "cstring_at (store_bytes m buf (ds @ [0])) buf ds"
  proof -
    have "load_bytes (store_bytes m buf (ds @ [0])) buf (length ds + 1) = ds @ [0]"
      using load_store_bytes [of "ds @ [0]" m buf] bounds by simp
    then show ?thesis
      using bounds by (simp only: load_bytes_add) (simp add: cstring_at_def)
  qed
  ultimately show ?thesis
    using False bounds by (simp add: itoa_def strrev_cstring store_bytes_overwrite rev_ds)
qed

lemma itoa_digits:
  assumes "2 \<le> unat radix" "unat radix \<le> 36"
  shows "\<exists>s. itoa m value buf radix = Some (buf, store_bytes m buf (s @ [0])) \<and>
    s \<noteq> [] \<and> 0 \<notin> set s \<and> length s \<le> 32 \<and> atou (unat radix) s = unat value"
  using itoa_text [OF assms] number_text [OF assms] by blast

section \<open>The promises of the string routines\<close>

text \<open>C40: \<^verbatim>\<open>itoa\<close> terminates for every radix the digit table covers and leaves in the buffer a
  NUL-terminated string of at most 32 digits that denotes the value in that radix: parsing
  what it prints gives the number back, and memory outside the string is untouched.\<close>

theorem itoa_roundtrip:
  assumes "2 \<le> unat radix" "unat radix \<le> 36"
  shows "\<exists>s. itoa m v buf radix = Some (buf, store_bytes m buf (s @ [0])) \<and>
    0 < length s \<and> length s \<le> 32 \<and>
    cstring_at (store_bytes m buf (s @ [0])) buf s \<and> atou (unat radix) s = unat v"
proof -
  obtain s where s: "itoa m v buf radix = Some (buf, store_bytes m buf (s @ [0]))"
    "s \<noteq> []" "0 \<notin> set s" "length s \<le> 32" "atou (unat radix) s = unat v"
    using itoa_digits [OF assms] by blast
  have "load_bytes (store_bytes m buf (s @ [0])) buf (length s + 1) = s @ [0]"
    using load_store_bytes [of "s @ [0]" m buf] s by simp
  then have "cstring_at (store_bytes m buf (s @ [0])) buf s"
    using s by (simp only: load_bytes_add) (simp add: cstring_at_def)
  with s show ?thesis by auto
qed

theorem itoa_roundtrip_witness:
  "\<exists>s. itoa (\<lambda>_. 0) 3054 0x1000 16 = Some (0x1000, store_bytes (\<lambda>_. 0) 0x1000 (s @ [0])) \<and>
    atou 16 s = 3054"
  using itoa_roundtrip [where radix = 16 and m = "\<lambda>_. 0" and v = 3054 and buf = "0x1000"] by auto

text \<open>\<^verbatim>\<open>strncmp\<close> is zero exactly when the two C strings, each cut at its NUL or after \<open>n\<close>
  bytes, are equal.\<close>

theorem strncmp_equal_iff:
  "strncmp m s1 s2 n = 0 \<longleftrightarrow>
     takeWhile (\<lambda>b. b \<noteq> 0) (load_bytes m s1 (unat n)) =
     takeWhile (\<lambda>b. b \<noteq> 0) (load_bytes m s2 (unat n))"
  by (simp add: strncmp_zero_iff cstr_upto_def)

text \<open>\<^verbatim>\<open>strncpy\<close> from a C string writes exactly \<open>n\<close> bytes: the first \<open>n\<close> characters of the
  string and, when it is shorter, NUL bytes up to \<open>n\<close>.\<close>

theorem strncpy_writes_n:
  assumes "cstring_at m src s" "separate dest (unat n) src (Suc (length s))"
  shows "strncpy m dest src n =
      (dest, store_bytes m dest (take (unat n) s @ replicate (unat n - length s) 0)) \<and>
    length (take (unat n) s @ replicate (unat n - length s) (0 :: u8)) = unat n"
  using strncpy_cstring [OF assms] by simp

theorem strncpy_writes_n_witness:
  "strncpy (store_bytes (\<lambda>_. 7) 0x1000 [0x61, 0x62, 0]) 0x2000 0x1000 4 =
     (0x2000, store_bytes (store_bytes (\<lambda>_. 7) 0x1000 [0x61, 0x62, 0]) 0x2000 [0x61, 0x62, 0, 0])"
proof -
  let ?m = "store_bytes (\<lambda>_. 7) 0x1000 [0x61, 0x62, 0] :: mem"
  have str: "cstring_at ?m 0x1000 [0x61, 0x62]" by (simp add: cstring_at_def)
  have sep: "separate 0x2000 (unat (4 :: u32)) 0x1000 (Suc (length [0x61, 0x62 :: u8]))"
    by (simp add: separate_def)
  have pad: "replicate (unat (4 :: u32) - length [0x61, 0x62 :: u8]) (0 :: u8) = [0, 0]"
    by code_simp
  have "take (unat (4 :: u32)) [0x61, 0x62 :: u8] = [0x61, 0x62]" by code_simp
  with strncpy_writes_n [OF str sep] show ?thesis unfolding pad by (simp del: store_bytes.simps)
qed

end
