(* ===== verification/LibMem.thy ===== *)
theory LibMem
  imports Prelude
begin

text \<open>
  The block routines of \<^verbatim>\<open>src/lib.c\<close>: \<^verbatim>\<open>memset\<close>, \<^verbatim>\<open>memset_word\<close>, \<^verbatim>\<open>memset_dword\<close>,
  \<^verbatim>\<open>memcpy\<close> and \<^verbatim>\<open>memmove\<close>.  They are inline assembly: the model follows the registers
  \<^verbatim>\<open>edi\<close>, \<^verbatim>\<open>esi\<close>, \<^verbatim>\<open>ecx\<close>, \<^verbatim>\<open>edx\<close> through the alignment loop, the \<^verbatim>\<open>rep\<close> string instruction
  and the byte loop for the rest.  The segment registers it loads all hold the flat kernel
  data segment.  The equivalences show what each routine does to memory as one store of a
  run of bytes.
\<close>

section \<open>The rep-prefixed string instructions\<close>

text \<open>\<^verbatim>\<open>rep stosb/stosw/stosl\<close> and \<^verbatim>\<open>rep movsl/movsb\<close> repeat \<^verbatim>\<open>ecx\<close> times; upwards after
  \<^verbatim>\<open>cld\<close>, downwards after \<^verbatim>\<open>std\<close>.\<close>

fun rep_stosw :: "mem \<Rightarrow> u32 \<Rightarrow> u32 \<Rightarrow> nat \<Rightarrow> mem" where
  "rep_stosw m eax edi 0 = m"
| "rep_stosw m eax edi (Suc ecx) =
     rep_stosw (store_bytes m edi [ucast eax, ucast (drop_bit 8 eax)]) eax (edi + 2) ecx"

fun rep_stosl :: "mem \<Rightarrow> u32 \<Rightarrow> u32 \<Rightarrow> nat \<Rightarrow> mem \<times> u32" where
  "rep_stosl m eax edi 0 = (m, edi)"
| "rep_stosl m eax edi (Suc ecx) = rep_stosl (store32 m edi eax) eax (edi + 4) ecx"

fun rep_movsl :: "mem \<Rightarrow> u32 \<Rightarrow> u32 \<Rightarrow> nat \<Rightarrow> mem \<times> u32 \<times> u32" where
  "rep_movsl m esi edi 0 = (m, esi, edi)"
| "rep_movsl m esi edi (Suc ecx) =
     rep_movsl (store32 m edi (load32 m esi)) (esi + 4) (edi + 4) ecx"

fun rep_movsb :: "mem \<Rightarrow> u32 \<Rightarrow> u32 \<Rightarrow> bool \<Rightarrow> nat \<Rightarrow> mem" where
  "rep_movsb m esi edi df 0 = m"
| "rep_movsb m esi edi df (Suc ecx) =
     (let d = (if df then - 1 else 1)
      in rep_movsb (m(edi := m esi)) (esi + d) (edi + d) df ecx)"

section \<open>memset and its word-sized variants\<close>

function memset_top :: "mem \<Rightarrow> u8 \<Rightarrow> u32 \<Rightarrow> u32 \<Rightarrow> mem \<times> u32 \<times> u32" where
  "memset_top m al edi ecx =
     (if ecx = 0 then (m, edi, ecx)
      else if edi AND 3 = 0 then (m, edi, ecx)
      else memset_top (m(edi := al)) al (edi + 1) (ecx - 1))"
  by pat_completeness auto
termination
  by (relation "measure (\<lambda>(m, al, edi, ecx). unat ecx)") (auto intro: measure_unat)

fun memset_bottom :: "mem \<Rightarrow> u8 \<Rightarrow> u32 \<Rightarrow> nat \<Rightarrow> mem" where
  "memset_bottom m al edi 0 = m"
| "memset_bottom m al edi (Suc edx) = memset_bottom (m(edi := al)) al (edi + 1) edx"

definition memset_eax :: "i32 \<Rightarrow> u32" where
  "memset_eax c =
     (let c = c AND 0xFF in push_bit 24 c OR push_bit 16 c OR push_bit 8 c OR c)"

definition memset :: "mem \<Rightarrow> u32 \<Rightarrow> i32 \<Rightarrow> u32 \<Rightarrow> u32 \<times> mem" where
  "memset m s c n =
     (let eax = memset_eax c
      in case memset_top m (ucast eax) s n of (m1, edi, ecx) \<Rightarrow>
         if ecx = 0 then (s, m1)
         else case rep_stosl m1 eax edi (unat (drop_bit 2 ecx)) of (m2, edi') \<Rightarrow>
           (s, memset_bottom m2 (ucast eax) edi' (unat (ecx AND 3))))"

definition memset_word :: "mem \<Rightarrow> u32 \<Rightarrow> i32 \<Rightarrow> u32 \<Rightarrow> u32 \<times> mem" where
  "memset_word m s c n = (s, rep_stosw m c s (unat n))"

definition memset_dword :: "mem \<Rightarrow> u32 \<Rightarrow> i32 \<Rightarrow> u32 \<Rightarrow> u32 \<times> mem" where
  "memset_dword m s c n = (s, fst (rep_stosl m c s (unat n)))"

section \<open>memcpy and memmove\<close>

function memcpy_top :: "mem \<Rightarrow> u32 \<Rightarrow> u32 \<Rightarrow> u32 \<Rightarrow> mem \<times> u32 \<times> u32 \<times> u32" where
  "memcpy_top m esi edi ecx =
     (if ecx = 0 then (m, esi, edi, ecx)
      else if edi AND 3 = 0 then (m, esi, edi, ecx)
      else memcpy_top (m(edi := m esi)) (esi + 1) (edi + 1) (ecx - 1))"
  by pat_completeness auto
termination
  by (relation "measure (\<lambda>(m, esi, edi, ecx). unat ecx)") (auto intro: measure_unat)

fun memcpy_bottom :: "mem \<Rightarrow> u32 \<Rightarrow> u32 \<Rightarrow> nat \<Rightarrow> mem" where
  "memcpy_bottom m esi edi 0 = m"
| "memcpy_bottom m esi edi (Suc edx) = memcpy_bottom (m(edi := m esi)) (esi + 1) (edi + 1) edx"

definition memcpy :: "mem \<Rightarrow> u32 \<Rightarrow> u32 \<Rightarrow> u32 \<Rightarrow> u32 \<times> mem" where
  "memcpy m dest src n =
     (case memcpy_top m src dest n of (m1, esi, edi, ecx) \<Rightarrow>
        if ecx = 0 then (dest, m1)
        else case rep_movsl m1 esi edi (unat (drop_bit 2 ecx)) of (m2, esi', edi') \<Rightarrow>
          (dest, memcpy_bottom m2 esi' edi' (unat (ecx AND 3))))"

text \<open>The result of \<^verbatim>\<open>memmove\<close> holds, after the C return value and the memory, the direction
  flag it returns with: the backward branch sets it and nothing clears it again.\<close>

definition memmove :: "mem \<Rightarrow> u32 \<Rightarrow> u32 \<Rightarrow> u32 \<Rightarrow> u32 \<times> mem \<times> bool" where
  "memmove m dest src n =
     (if src \<ge> dest
      then (dest, rep_movsb m src dest False (unat n), False)
      else (dest, rep_movsb m (src + n - 1) (dest + n - 1) True (unat n), True))"

declare memset_top.simps [simp del] memcpy_top.simps [simp del]

section \<open>memset stores one byte throughout\<close>

lemma memset_top_store:
  "memset_top m al edi ecx = (m', edi', ecx') \<Longrightarrow>
     unat ecx' \<le> unat ecx \<and> edi' = edi + word_of_nat (unat ecx - unat ecx') \<and>
     m' = store_bytes m edi (replicate (unat ecx - unat ecx') al)"
proof (induction m al edi ecx rule: memset_top.induct)
  case (1 m al edi ecx)
  show ?case
  proof (cases "ecx = 0 \<or> edi AND 3 = 0")
    case True
    then show ?thesis using "1.prems" by (subst (asm) memset_top.simps) (auto split: if_splits)
  next
    case False
    then have "memset_top (m(edi := al)) al (edi + 1) (ecx - 1) = (m', edi', ecx')"
      using "1.prems" by (subst (asm) memset_top.simps) simp
    with "1.IH" False have IH: "unat ecx' \<le> unat (ecx - 1)"
      "edi' = edi + 1 + word_of_nat (unat (ecx - 1) - unat ecx')"
      "m' = store_bytes (m(edi := al)) (edi + 1) (replicate (unat (ecx - 1) - unat ecx') al)"
      by blast+
    have pos: "0 < unat ecx" and pred: "unat (ecx - 1) = unat ecx - 1"
      using False by (simp_all add: unat_gt_0 unat_minus_one)
    then have "unat ecx - unat ecx' = Suc (unat (ecx - 1) - unat ecx')"
      using IH(1) by linarith
    with IH pos pred show ?thesis by (simp add: add.assoc)
  qed
qed

lemma memset_bottom_store:
  "memset_bottom m al edi k = store_bytes m edi (replicate k al)"
  by (induction k arbitrary: m edi) auto

lemma rep_stosl_store:
  assumes "bytes32 eax = replicate 4 al"
  shows "rep_stosl m eax edi k = (store_bytes m edi (replicate (4 * k) al), edi + word_of_nat (4 * k))"
proof (induction k arbitrary: m edi)
  case (Suc k)
  have "replicate (4 * Suc k) al = replicate 4 al @ replicate (4 * k) al"
    by (simp only: replicate_add [symmetric]) simp
  moreover have "edi + word_of_nat (4 * Suc k) = edi + 4 + word_of_nat (4 * k)" by simp
  ultimately show ?case
    by (simp only: rep_stosl.simps Suc store32_def assms store_bytes_append length_replicate) simp
qed simp

lemma split_by_4: "4 * unat (drop_bit 2 (n :: u32)) + unat (n AND 3) = unat n"
proof -
  have "n AND 3 = take_bit 2 n" by (simp add: take_bit_eq_mask mask_eq_exp_minus_1)
  then have "unat (n AND 3) = unat n mod 4" by (simp add: unsigned_take_bit_eq take_bit_eq_mod unat_mod)
  moreover have "unat (drop_bit 2 n) = unat n div 4" by (simp only: unat_drop_bit_eq) (simp add: drop_bit_eq_div)
  ultimately show ?thesis by simp
qed

lemma bytes32_eax: "bytes32 (memset_eax c) = replicate 4 (ucast c)"
proof -
  have mask: "(0xFF :: u32) = mask 8" by (simp add: mask_eq_exp_minus_1)
  have "ucast (memset_eax c) = (ucast c :: u8)"
    by (rule bit_word_eqI) (auto simp: memset_eax_def mask Let_def bit_simps)
  moreover have "ucast (drop_bit 8 (memset_eax c)) = (ucast c :: u8)"
    by (rule bit_word_eqI) (auto simp: memset_eax_def mask Let_def bit_simps)
  moreover have "ucast (drop_bit 16 (memset_eax c)) = (ucast c :: u8)"
    by (rule bit_word_eqI) (auto simp: memset_eax_def mask Let_def bit_simps)
  moreover have "ucast (drop_bit 24 (memset_eax c)) = (ucast c :: u8)"
    by (rule bit_word_eqI) (auto simp: memset_eax_def mask Let_def bit_simps)
  ultimately show ?thesis by (simp add: bytes32_def numeral_eq_Suc)
qed

lemma memset_run:
  "memset m s c n = (s, store_bytes m s (replicate (unat n) (ucast c)))"
proof -
  note eax = bytes32_eax [of c]
  then have al: "ucast (memset_eax c) = (ucast c :: u8)" by (simp add: bytes32_def numeral_eq_Suc)
  obtain m1 edi ecx where top: "memset_top m (ucast c) s n = (m1, edi, ecx)" by (metis prod_cases3)
  note T = memset_top_store [OF top]
  have all: "store_bytes (store_bytes m s (replicate (unat n - unat ecx) (ucast c)))
      (s + word_of_nat (unat n - unat ecx)) (replicate (unat ecx) (ucast c)) =
    store_bytes m s (replicate (unat n) (ucast c))"
  proof -
    have rep: "replicate (unat n) (ucast c :: u8) =
        replicate (unat n - unat ecx) (ucast c) @ replicate (unat ecx) (ucast c)"
      using T by (simp add: replicate_add [symmetric])
    show ?thesis by (simp only: rep store_bytes_append length_replicate)
  qed
  have rest: "memset_bottom (store_bytes m1 edi (replicate (4 * unat (drop_bit 2 ecx)) (ucast c)))
      (ucast c) (edi + word_of_nat (4 * unat (drop_bit 2 ecx))) (unat (ecx AND 3)) =
    store_bytes m1 edi (replicate (unat ecx) (ucast c))"
  proof -
    have rep: "replicate (unat ecx) (ucast c :: u8) =
        replicate (4 * unat (drop_bit 2 ecx)) (ucast c) @ replicate (unat (ecx AND 3)) (ucast c)"
      using split_by_4 [of ecx] by (simp only: replicate_add [symmetric])
    show ?thesis by (simp only: rep store_bytes_append length_replicate memset_bottom_store)
  qed
  show ?thesis
  proof (cases "ecx = 0")
    case True
    with T top show ?thesis by (simp add: memset_def Let_def al)
  next
    case False
    with T top rest all show ?thesis
      by (simp add: memset_def Let_def al rep_stosl_store [OF eax])
  qed
qed

section \<open>memcpy copies the source run\<close>

text \<open>No byte of the \<open>n\<close>-byte source is a byte of the \<open>n\<close>-byte destination.\<close>

definition apart :: "u32 \<Rightarrow> u32 \<Rightarrow> nat \<Rightarrow> bool" where
  "apart d s n \<longleftrightarrow> (\<forall>i<n. \<forall>j<n. d + word_of_nat i \<noteq> s + word_of_nat j)"

lemma separate_apart: "separate d n s n \<Longrightarrow> apart d s n"
  unfolding apart_def
proof (intro allI impI notI)
  fix i j assume sep: "separate d n s n" and "i < n" "j < n"
    and eq: "d + word_of_nat i = s + word_of_nat j"
  have "n \<le> 4294967296" using sep by (auto simp: separate_def)
  then have "in_region d n (d + word_of_nat i)" and "in_region s n (s + word_of_nat j)"
    using \<open>i < n\<close> \<open>j < n\<close> by (auto intro: in_region_of_nat)
  with eq show False using separate_disjoint [OF sep] by simp
qed

lemma apart_le: "apart d s n \<Longrightarrow> k \<le> n \<Longrightarrow> apart d s k"
  by (simp add: apart_def)

lemma apart_shift:
  assumes "apart d s (k + n)"
  shows "apart (d + word_of_nat k) (s + word_of_nat k) n"
  unfolding apart_def
proof (intro allI impI)
  fix i j assume "i < n" "j < n"
  then have "d + word_of_nat (k + i) \<noteq> s + word_of_nat (k + j)"
    using assms by (simp add: apart_def del: of_nat_add)
  then show "d + word_of_nat k + word_of_nat i \<noteq> s + word_of_nat k + word_of_nat j"
    by (simp add: add.assoc)
qed

lemma load_after_store_apart:
  assumes "apart d s n" "length bs \<le> n" "k \<le> n" "n \<le> 4294967296"
  shows "load_bytes (store_bytes m d bs) s k = load_bytes m s k"
proof (rule nth_equalityI)
  fix i assume "i < length (load_bytes (store_bytes m d bs) s k)"
  then have i: "i < k" by simp
  have "\<not> in_region d (length bs) (s + word_of_nat i)"
  proof
    assume R: "in_region d (length bs) (s + word_of_nat i)"
    define j where "j = unat (s + word_of_nat i - d)"
    have "d + word_of_nat j = s + word_of_nat i" by (simp add: j_def)
    moreover have "j < n" using R assms(2) by (simp add: j_def in_region_def)
    ultimately show False using assms(1,3) i by (auto simp: apart_def)
  qed
  with i assms show "load_bytes (store_bytes m d bs) s k ! i = load_bytes m s k ! i"
    by (simp add: nth_load_bytes store_bytes_other)
qed simp

text \<open>Copying in two pieces, the second one reading what the first one left in place.\<close>

lemma copy_split:
  assumes "apart d s (a + b)" "a + b \<le> 4294967296"
  shows "store_bytes (store_bytes m d (load_bytes m s a)) (d + word_of_nat a)
      (load_bytes (store_bytes m d (load_bytes m s a)) (s + word_of_nat a) b) =
    store_bytes m d (load_bytes m s (a + b))"
proof -
  have "load_bytes (store_bytes m d (load_bytes m s a)) s (a + b) = load_bytes m s (a + b)"
    using assms by (intro load_after_store_apart) simp_all
  then have "load_bytes (store_bytes m d (load_bytes m s a)) (s + word_of_nat a) b =
      load_bytes m (s + word_of_nat a) b"
    by (simp only: load_bytes_add) simp
  then show ?thesis
    by (simp add: load_bytes_add store_bytes_append)
qed

lemma memcpy_bottom_copy:
  assumes "apart d s n" "n \<le> 4294967296"
  shows "memcpy_bottom m s d n = store_bytes m d (load_bytes m s n)"
  using assms
proof (induction n arbitrary: m s d)
  case (Suc n)
  have "apart (d + word_of_nat 1) (s + word_of_nat 1) n"
    using Suc.prems by (intro apart_shift) simp
  with Suc show ?case using copy_split [of d s 1 n m] by simp
qed simp

lemma bytes32_load32: "bytes32 (load32 m a) = load_bytes m a 4"
proof -
  have "ucast (load32 m a) = m a"
    by (rule bit_word_eqI) (auto simp: load32_def bit_simps)
  moreover have "ucast (drop_bit 8 (load32 m a)) = m (a + 1)"
    by (rule bit_word_eqI) (auto simp: load32_def bit_simps dest: bit_imp_le_length)
  moreover have "ucast (drop_bit 16 (load32 m a)) = m (a + 2)"
    by (rule bit_word_eqI) (auto simp: load32_def bit_simps dest: bit_imp_le_length)
  moreover have "ucast (drop_bit 24 (load32 m a)) = m (a + 3)"
    by (rule bit_word_eqI) (auto simp: load32_def bit_simps dest: bit_imp_le_length)
  ultimately show ?thesis by (simp add: bytes32_def numeral_eq_Suc add.assoc)
qed

lemma rep_movsl_copy:
  assumes "apart d s (4 * k)" "4 * k \<le> 4294967296"
  shows "rep_movsl m s d k =
    (store_bytes m d (load_bytes m s (4 * k)), s + word_of_nat (4 * k), d + word_of_nat (4 * k))"
  using assms
proof (induction k arbitrary: m s d)
  case (Suc k)
  have four: "4 * Suc k = 4 + 4 * k" by simp
  have "apart (d + word_of_nat 4) (s + word_of_nat 4) (4 * k)"
    using Suc.prems(1) unfolding four by (rule apart_shift)
  then show ?case
    using Suc.IH [of "d + 4" "s + 4" "store32 m d (load32 m s)"] Suc.prems(2)
      copy_split [of d s 4 "4 * k" m] Suc.prems
    by (simp add: store32_def bytes32_load32 four add.assoc)
qed simp

lemma memcpy_top_copy:
  "memcpy_top m esi edi ecx = (m', esi', edi', ecx') \<Longrightarrow> apart edi esi (unat ecx) \<Longrightarrow>
     unat ecx' \<le> unat ecx \<and>
     esi' = esi + word_of_nat (unat ecx - unat ecx') \<and>
     edi' = edi + word_of_nat (unat ecx - unat ecx') \<and>
     m' = store_bytes m edi (load_bytes m esi (unat ecx - unat ecx'))"
proof (induction m esi edi ecx rule: memcpy_top.induct)
  case (1 m esi edi ecx)
  show ?case
  proof (cases "ecx = 0 \<or> edi AND 3 = 0")
    case True
    then show ?thesis using "1.prems" by (subst (asm) memcpy_top.simps) (auto split: if_splits)
  next
    case False
    let ?m = "m(edi := m esi)"
    have pos: "0 < unat ecx" and pred: "unat (ecx - 1) = unat ecx - 1"
      using False by (simp_all add: unat_gt_0 unat_minus_one)
    then have ap: "apart edi esi (1 + unat (ecx - 1))" using "1.prems"(2) by simp
    then have "apart (edi + 1) (esi + 1) (unat (ecx - 1))"
      using apart_shift by fastforce
    moreover have "memcpy_top ?m (esi + 1) (edi + 1) (ecx - 1) = (m', esi', edi', ecx')"
      using False "1.prems"(1) by (subst (asm) memcpy_top.simps) simp
    ultimately have IH: "unat ecx' \<le> unat (ecx - 1)"
      "esi' = esi + 1 + word_of_nat (unat (ecx - 1) - unat ecx')"
      "edi' = edi + 1 + word_of_nat (unat (ecx - 1) - unat ecx')"
      "m' = store_bytes ?m (edi + 1) (load_bytes ?m (esi + 1) (unat (ecx - 1) - unat ecx'))"
      using "1.IH" False by blast+
    let ?k = "unat (ecx - 1) - unat ecx'"
    have k: "unat ecx - unat ecx' = 1 + ?k" using IH(1) pos pred by linarith
    have "apart edi esi (1 + ?k)" using ap by (rule apart_le) simp
    then have "m' = store_bytes m edi (load_bytes m esi (1 + ?k))"
      using copy_split [of edi esi 1 ?k m] IH(4) unat_less_u32 [of "ecx - 1"] by simp
    with IH pos pred k show ?thesis by (simp add: add.assoc)
  qed
qed

lemma memcpy_run:
  assumes "separate dest (unat n) src (unat n)"
  shows "memcpy m dest src n = (dest, store_bytes m dest (load_bytes m src (unat n)))"
proof -
  have ap: "apart dest src (unat n)" by (rule separate_apart [OF assms])
  obtain m1 esi edi ecx where top: "memcpy_top m src dest n = (m1, esi, edi, ecx)"
    by (metis prod_cases4)
  let ?a = "unat n - unat ecx" and ?b = "4 * unat (drop_bit 2 ecx)" and ?c = "unat (ecx AND 3)"
  from memcpy_top_copy [OF top ap] have T: "unat ecx \<le> unat n" "esi = src + word_of_nat ?a"
    "edi = dest + word_of_nat ?a" "m1 = store_bytes m dest (load_bytes m src ?a)" by blast+
  have n: "unat n = ?a + (?b + ?c)" using T(1) split_by_4 [of ecx] by simp
  then have bound: "?a + (?b + ?c) \<le> 4294967296" "?b + ?c \<le> 4294967296"
    "?c \<le> 4294967296"
    using unat_less_u32 [of n] by linarith+
  have ap1: "apart edi esi (?b + ?c)"
    using ap n unfolding T(2,3) by (intro apart_shift) simp
  then have ap2: "apart (edi + word_of_nat ?b) (esi + word_of_nat ?b) ?c"
    by (rule apart_shift)
  have "memcpy_bottom (store_bytes m1 edi (load_bytes m1 esi ?b)) (esi + word_of_nat ?b)
      (edi + word_of_nat ?b) ?c = store_bytes m1 edi (load_bytes m1 esi (?b + ?c))"
    by (simp only: memcpy_bottom_copy [OF ap2 bound(3)] copy_split [OF ap1 bound(2)])
  also have "\<dots> = store_bytes m dest (load_bytes m src (?a + (?b + ?c)))"
    unfolding T(2,3,4) using ap n bound by (intro copy_split) simp_all
  finally have rest: "memcpy_bottom (store_bytes m1 edi (load_bytes m1 esi ?b))
      (esi + word_of_nat ?b) (edi + word_of_nat ?b) ?c =
    store_bytes m dest (load_bytes m src (unat n))"
    by (simp only: n [symmetric])
  show ?thesis
  proof (cases "ecx = 0")
    case True
    with T(4) top show ?thesis by (simp add: memcpy_def)
  next
    case False
    have "rep_movsl m1 esi edi (unat (drop_bit 2 ecx)) =
        (store_bytes m1 edi (load_bytes m1 esi ?b), esi + word_of_nat ?b, edi + word_of_nat ?b)"
      using bound(2) by (intro rep_movsl_copy apart_le [OF ap1]) simp_all
    with False top rest show ?thesis by (simp add: memcpy_def)
  qed
qed

section \<open>memmove copies overlapping runs\<close>

lemma rep_movsb_forward:
  assumes "\<And>i j. i < j \<Longrightarrow> j < n \<Longrightarrow> d + word_of_nat i \<noteq> s + word_of_nat j" "n \<le> 4294967296"
  shows "rep_movsb m s d False n = store_bytes m d (load_bytes m s n)"
  using assms
proof (induction n arbitrary: m s d)
  case (Suc n)
  have "load_bytes (m(d := m s)) (s + 1) n = load_bytes m (s + 1) n"
    using Suc.prems(1) [of 0 "Suc _"]
    by (intro nth_equalityI) (auto simp: nth_load_bytes add.assoc)
  moreover have "rep_movsb (m(d := m s)) (s + 1) (d + 1) False n =
      store_bytes (m(d := m s)) (d + 1) (load_bytes (m(d := m s)) (s + 1) n)"
  proof (rule Suc.IH)
    fix i j assume "i < j" "j < n"
    then show "d + 1 + word_of_nat i \<noteq> s + 1 + word_of_nat j"
      using Suc.prems(1) [of "Suc i" "Suc j"] by (simp add: add.assoc)
  qed (use Suc.prems(2) in simp)
  ultimately show ?case by simp
qed simp

lemma rep_movsb_backward:
  assumes "\<And>i j. j < i \<Longrightarrow> i < n \<Longrightarrow> d + word_of_nat i \<noteq> s + word_of_nat j" "n \<le> 4294967296"
  shows "rep_movsb m (s + word_of_nat n - 1) (d + word_of_nat n - 1) True n =
    store_bytes m d (load_bytes m s n)"
  using assms
proof (induction n arbitrary: m)
  case (Suc n)
  let ?p = "d + word_of_nat n" and ?b = "m (s + word_of_nat n)"
  have "s + word_of_nat j \<noteq> ?p" if "j < n" for j
    using Suc.prems(1) [of j n] that by auto
  then have "load_bytes (m(?p := ?b)) s n = load_bytes m s n"
    by (intro nth_equalityI) (auto simp: nth_load_bytes)
  moreover have "store_bytes (m(?p := ?b)) d (load_bytes m s n) =
      store_bytes m d (load_bytes m s n @ [?b])"
    using Suc.prems(2) by (auto simp: store_bytes_apply store_bytes_snoc in_region_def
        unat_u32_of_nat)
  moreover have "rep_movsb (m(?p := ?b)) (s + word_of_nat n - 1) (d + word_of_nat n - 1) True n =
      store_bytes (m(?p := ?b)) d (load_bytes (m(?p := ?b)) s n)"
    using Suc.prems by (intro Suc.IH) simp_all
  moreover have "load_bytes m s (Suc n) = load_bytes m s n @ [?b]"
    using load_bytes_add [of m s n 1] by simp
  ultimately show ?case by simp
qed simp

lemma memmove_run:
  assumes "unat src + unat n \<le> 4294967296" "unat dest + unat n \<le> 4294967296"
  shows "memmove m dest src n =
    (dest, store_bytes m dest (load_bytes m src (unat n)), src < dest)"
proof -
  have pos: "unat (a + word_of_nat i) = unat a + i"
    if "i < unat n" "unat a + unat n \<le> 4294967296" for a :: u32 and i
  proof -
    have i: "unat (word_of_nat i :: u32) = i"
      using that unat_less_u32 [of n] by (simp add: unat_u32_of_nat)
    with that show ?thesis by (simp add: unat_word_ariths)
  qed
  show ?thesis
  proof (cases "src \<ge> dest")
    case True
    have "d + word_of_nat i \<noteq> src + word_of_nat j"
      if "i < j" "j < unat n" "d = dest" for i j d
    proof
      assume "d + word_of_nat i = src + word_of_nat j"
      then have "unat dest + i = unat src + j"
        using pos [of i dest] pos [of j src] assms that by simp
      with True that show False by (simp add: word_le_nat_alt)
    qed
    then have "rep_movsb m src dest False (unat n) = store_bytes m dest (load_bytes m src (unat n))"
      using unat_less_u32 [of n] by (intro rep_movsb_forward) auto
    with True show ?thesis by (auto simp: memmove_def)
  next
    case False
    have "d + word_of_nat i \<noteq> src + word_of_nat j"
      if "j < i" "i < unat n" "d = dest" for i j d
    proof
      assume "d + word_of_nat i = src + word_of_nat j"
      then have "unat dest + i = unat src + j"
        using pos [of i dest] pos [of j src] assms that by simp
      with False that show False by (simp add: word_le_nat_alt)
    qed
    then have "rep_movsb m (src + word_of_nat (unat n) - 1) (dest + word_of_nat (unat n) - 1) True (unat n) =
        store_bytes m dest (load_bytes m src (unat n))"
      using unat_less_u32 [of n] by (intro rep_movsb_backward) auto
    with False show ?thesis by (simp add: memmove_def)
  qed
qed

section \<open>The promises of the block routines\<close>

text \<open>\<^verbatim>\<open>memset\<close> returns its first argument, every byte of the \<open>n\<close>-byte region at \<open>s\<close>
  holds the low byte of \<open>c\<close> afterwards and no other byte of memory changes, whatever the
  alignment of \<open>s\<close> and the length.\<close>

theorem memset_fills:
  "fst (memset m s c n) = s \<and>
   snd (memset m s c n) x = (if in_region s (unat n) x then ucast c else m x)"
  using unat_less_u32 [of n] by (simp add: memset_run store_bytes_apply in_region_def)

text \<open>C39: \<^verbatim>\<open>memcpy\<close> between separate regions returns the destination, every destination byte
  holds the source byte at the same distance and no other byte of memory changes, whatever
  the alignment and the length.\<close>

theorem memcpy_copies:
  assumes "separate dest (unat n) src (unat n)"
  shows "fst (memcpy m dest src n) = dest \<and>
    snd (memcpy m dest src n) x =
      (if in_region dest (unat n) x then m (src + (x - dest)) else m x)"
  using unat_less_u32 [of n]
  by (simp add: memcpy_run [OF assms] store_bytes_apply in_region_def nth_load_bytes)

theorem memcpy_copies_witness:
  "snd (memcpy (\<lambda>a. ucast a) 0x2001 0x1003 11) 0x2008 = 0x0A"
  using memcpy_copies [where dest = "0x2001" and n = 11 and src = "0x1003" and m = "\<lambda>a. ucast a" and x = "0x2008"]
  by (simp add: separate_def in_region_def)

text \<open>\<^verbatim>\<open>memmove\<close> copies the original source bytes for any overlap of two regions that do not
  wrap around; it returns with the direction flag set exactly when the source lies below the
  destination.\<close>

theorem memmove_copies:
  assumes "unat src + unat n \<le> 4294967296" "unat dest + unat n \<le> 4294967296"
  shows "case memmove m dest src n of (r, m', df) \<Rightarrow>
    r = dest \<and> m' x = (if in_region dest (unat n) x then m (src + (x - dest)) else m x) \<and>
    df = (src < dest)"
  using unat_less_u32 [of n]
  by (simp add: memmove_run [OF assms] store_bytes_apply in_region_def nth_load_bytes)

theorem memmove_copies_witness:
  "fst (snd (memmove (\<lambda>a. ucast a) 0x1002 0x1000 8)) 0x1009 = 7"
  using memmove_copies [where src = "0x1000" and n = 8 and dest = "0x1002" and m = "\<lambda>a. ucast a" and x = "0x1009"]
  by (simp add: in_region_def split: prod.splits)

end
