(* ===== verification/FileSystem.thy ===== *)
theory FileSystem
  imports LibString LibMem
begin

text \<open>
  The read-only file system of \<^verbatim>\<open>src/file_system.c\<close>: the boot block with its 64-byte directory
  entries, the inodes and the 4 KB data blocks, all read through raw pointers from the image
  at \<^verbatim>\<open>bb_start\<close>.  The routines work on the kernel's memory; the address of a local
  structure or buffer of a routine (\<^verbatim>\<open>dentry\<close>, \<^verbatim>\<open>copy_buf\<close>) is an argument, since its place
  on the stack is chosen by the compiler.  A call of \<^verbatim>\<open>printf\<close> is recorded as the format
  string with its arguments.
\<close>

section \<open>Data and constants\<close>

abbreviation (input) BLOCK_4KB :: u32 where "BLOCK_4KB \<equiv> 0x1000"
abbreviation (input) ENTRY_SIZE_64B :: u32 where "ENTRY_SIZE_64B \<equiv> 0x40"
abbreviation (input) FILE_NAME_32B :: u32 where "FILE_NAME_32B \<equiv> 0x20"
abbreviation (input) OFFSET_4B :: u32 where "OFFSET_4B \<equiv> 4"
abbreviation (input) DIR_BUF_SIZE :: u32 where "DIR_BUF_SIZE \<equiv> 33"
abbreviation (input) MAX_FILE_NAME :: u32 where "MAX_FILE_NAME \<equiv> 32"
abbreviation (input) RTC_FILE :: u32 where "RTC_FILE \<equiv> 0"
abbreviation (input) DIR_FILE :: u32 where "DIR_FILE \<equiv> 1"
abbreviation (input) REGULAR_FILE :: u32 where "REGULAR_FILE \<equiv> 2"

text \<open>The offsets of the fields of \<^verbatim>\<open>dentry_t\<close>: a 32-byte name, the type, the inode number and
  24 reserved bytes.\<close>

definition dentry_file_name :: "u32 \<Rightarrow> u32" where "dentry_file_name d = d"
definition dentry_file_type :: "u32 \<Rightarrow> u32" where "dentry_file_type d = d + 32"
definition dentry_inode_number :: "u32 \<Rightarrow> u32" where "dentry_inode_number d = d + 36"

type_synonym printk = "string \<times> u32 list"

text \<open>The pointers a file operation table can hold, by the routine they point to.\<close>

datatype read_op = Read_terminal | Read_default | Read_rtc | Directory_read | Read_file
datatype write_op = Write_terminal | Write_default | Write_rtc | Directory_write | Write_file
datatype open_op = Open_terminal | Open_default | Open_rtc | Directory_open | Open_file
datatype close_op = Close_terminal | Close_default | Close_rtc | Directory_close | Close_file

record file_op =
  read_func :: read_op
  write_func :: write_op
  open_func :: open_op
  close_func :: close_op

text \<open>\<^verbatim>\<open>fop_jump\<close> is \<open>Some (p, i)\<close> for \<^verbatim>\<open>&fops[p][i]\<close> and \<open>None\<close> for a null pointer.\<close>

record file_t =
  fop_jump :: "(nat \<times> nat) option"
  inode_ptr :: u32
  file_pos :: u32
  flag :: u32

section \<open>Directory entries\<close>

definition entry_addr :: "u32 \<Rightarrow> u32 \<Rightarrow> u32" where
  "entry_addr bb_start i = bb_start + (i + 1) * ENTRY_SIZE_64B"

definition copy_entry_by_name :: "mem \<Rightarrow> u32 \<Rightarrow> u32 \<Rightarrow> u32 \<Rightarrow> (i32 \<times> mem) option" where
  "copy_entry_by_name m entry_address fname dentry =
     (case strcpy m (dentry_file_name dentry) fname of
        None \<Rightarrow> None
      | Some (_, m1) \<Rightarrow>
          let file_type = entry_address + FILE_NAME_32B;
              m2 = store32 m1 (dentry_file_type dentry) (load32 m1 file_type);
              m3 = (if load32 m2 file_type = REGULAR_FILE
                    then store32 m2 (dentry_inode_number dentry) (load32 m2 (file_type + OFFSET_4B))
                    else store32 m2 (dentry_inode_number dentry) 0)
          in Some (0, m3))"

function read_dentry_by_name_loop ::
    "mem \<Rightarrow> u32 \<Rightarrow> u32 \<Rightarrow> u32 \<Rightarrow> u32 \<Rightarrow> u32 \<Rightarrow> (i32 \<times> mem) option" where
  "read_dentry_by_name_loop m bb_start fname dentry entry_number i =
     (if i < entry_number then
        let entry_address = entry_addr bb_start i
        in if strncmp m entry_address fname MAX_FILE_NAME = 0
           then copy_entry_by_name m entry_address fname dentry
           else read_dentry_by_name_loop m bb_start fname dentry entry_number (i + 1)
      else Some (ERR, m))"
  by pat_completeness auto
termination
  by (relation "measure (\<lambda>(m, bb, f, d, n, i). unat (n - i))") (auto intro: plus1_measure)

definition read_dentry_by_name :: "mem \<Rightarrow> u32 \<Rightarrow> u32 \<Rightarrow> u32 \<Rightarrow> (i32 \<times> mem) option" where
  "read_dentry_by_name m bb_start fname dentry =
     read_dentry_by_name_loop m bb_start fname dentry (load32 m bb_start) 0"

definition read_dentry_by_index :: "mem \<Rightarrow> u32 \<Rightarrow> u32 \<Rightarrow> u32 \<Rightarrow> i32 \<times> mem" where
  "read_dentry_by_index m bb_start index dentry =
     (let entry_number = load32 m bb_start
      in if index < 0 \<or> index \<ge> entry_number then (ERR, m)
         else
           let entry_address = entry_addr bb_start index;
               file_type = entry_address + FILE_NAME_32B;
               m1 = snd (memcpy m (dentry_file_name dentry) entry_address (DIR_BUF_SIZE - 1));
               m2 = store32 m1 (dentry_file_type dentry) (load32 m1 file_type);
               m3 = (if load32 m2 file_type = REGULAR_FILE
                     then store32 m2 (dentry_inode_number dentry) (load32 m2 (file_type + OFFSET_4B))
                     else store32 m2 (dentry_inode_number dentry) 0)
           in (0, m3))"

section \<open>File data\<close>

text \<open>The copying loop of \<^verbatim>\<open>read_data\<close>: it moves to the next data block when the running
  offset \<^verbatim>\<open>i\<close> in the block is greater than the block size.\<close>

function read_data_loop ::
    "mem \<Rightarrow> u32 \<Rightarrow> u32 \<Rightarrow> u32 \<Rightarrow> u32 \<Rightarrow> u32 \<Rightarrow> u32 \<Rightarrow> u32 \<Rightarrow> u32 \<Rightarrow> mem" where
  "read_data_loop m bb_start num_of_inodes buf len data_block_ptr data_addr i j =
     (if j < len then
        let m1 = m(buf + j := m data_addr);
            data_addr1 = data_addr + 1;
            i1 = i + 1
        in if i1 > BLOCK_4KB then
             let data_block_ptr1 = data_block_ptr + 4;
                 data_block_num = load32 m1 data_block_ptr1;
                 data_block_addr = bb_start + BLOCK_4KB + num_of_inodes * BLOCK_4KB +
                   data_block_num * BLOCK_4KB
             in read_data_loop m1 bb_start num_of_inodes buf len data_block_ptr1
                  data_block_addr 0 (j + 1)
           else read_data_loop m1 bb_start num_of_inodes buf len data_block_ptr data_addr1 i1 (j + 1)
      else m)"
  by pat_completeness auto
termination
  by (relation "measure (\<lambda>(m, bb, ni, buf, len, p, a, i, j). unat (len - j))")
    (auto intro: plus1_measure)

definition read_data :: "mem \<Rightarrow> u32 \<Rightarrow> u32 \<Rightarrow> u32 \<Rightarrow> u32 \<Rightarrow> u32 \<Rightarrow> i32 \<times> mem \<times> printk list" where
  "read_data m bb_start inode offset buf len =
     (let num_of_inodes = load32 m (bb_start + OFFSET_4B);
          num_of_data_blocks = load32 m (bb_start + 2 * OFFSET_4B)
      in if inode < 0 \<or> inode > num_of_inodes - 1
         then (ERR, m, [('' incorrect inode  %d '' @ [CHR 0x0A], [inode])])
         else
           let inode_addr = bb_start + (inode + 1) * BLOCK_4KB;
               file_len_in_B = load32 m inode_addr
           in if offset \<ge> file_len_in_B then (0, m, [])
              else
                let len = (if len + offset > file_len_in_B then file_len_in_B - offset else len);
                    quotient = offset div BLOCK_4KB;
                    remain = offset mod BLOCK_4KB;
                    data_block_ptr = inode_addr + OFFSET_4B + OFFSET_4B * quotient;
                    data_block_num = load32 m data_block_ptr
                in if data_block_num < 0 \<or> data_block_num \<ge> num_of_data_blocks
                   then (ERR, m, [(''bad data block number %d found!'' @ [CHR 0x0A], [data_block_num])])
                   else
                     let data_block_addr = bb_start + BLOCK_4KB + num_of_inodes * BLOCK_4KB +
                           data_block_num * BLOCK_4KB;
                         data_addr = data_block_addr + remain
                     in (len, read_data_loop m bb_start num_of_inodes buf len data_block_ptr
                           data_addr remain 0, []))"

section \<open>The file and directory drivers\<close>

definition open_file :: i32 where "open_file = 0"
definition write_file :: "u32 \<Rightarrow> i32 \<Rightarrow> i32" where "write_file buf nbytes = ERR"
definition close_file :: i32 where "close_file = 0"

definition directory_open :: i32 where "directory_open = 0"
definition directory_write :: "u32 \<Rightarrow> i32 \<Rightarrow> i32" where "directory_write buf nbytes = ERR"
definition directory_close :: i32 where "directory_close = 0"

definition read_file ::
    "mem \<Rightarrow> u32 \<Rightarrow> file_t \<Rightarrow> u32 \<Rightarrow> i32 \<Rightarrow> i32 \<times> mem \<times> file_t \<times> printk list" where
  "read_file m bb_start fd buf nbytes =
     (let inode_number = (inode_ptr fd - bb_start) div BLOCK_4KB - 1
      in case read_data m bb_start inode_number (file_pos fd) buf nbytes of
           (num_read, m', msgs) \<Rightarrow>
             (num_read, m',
              (if 0 <s num_read then fd\<lparr>file_pos := file_pos fd + num_read\<rparr> else fd), msgs))"

text \<open>\<^verbatim>\<open>total_entries_num\<close> is the first byte of the boot block, not its first word.\<close>

definition total_entries_num :: "mem \<Rightarrow> u32 \<Rightarrow> i32" where
  "total_entries_num m bb_start = ucast (m bb_start)"

definition directory_read ::
    "mem \<Rightarrow> u32 \<Rightarrow> u32 \<Rightarrow> file_t \<Rightarrow> u32 \<Rightarrow> i32 \<Rightarrow> (i32 \<times> mem \<times> file_t) option" where
  "directory_read m bb_start dentry fd buf nbytes =
     (let current_entry_num = file_pos fd
      in if current_entry_num = total_entries_num m bb_start then Some (0, m, fd)
         else if current_entry_num <s total_entries_num m bb_start then
           let m1 = snd (read_dentry_by_index m bb_start current_entry_num dentry);
               m2 = snd (memcpy m1 buf (dentry_file_name dentry) (DIR_BUF_SIZE - 1));
               m3 = m2(buf + (DIR_BUF_SIZE - 1) := 0);
               fd1 = fd\<lparr>file_pos := file_pos fd + 1\<rparr>
           in case strlen m3 buf of
                None \<Rightarrow> None
              | Some ret_val \<Rightarrow> Some (ret_val, m3, fd1)
         else Some (0, m, fd))"

section \<open>The program loader\<close>

text \<open>The loop over whole blocks; \<^verbatim>\<open>size\<close> (here \<open>sz\<close>) is signed.\<close>

function loader_loop ::
    "mem \<Rightarrow> u32 \<Rightarrow> u32 \<Rightarrow> u32 \<Rightarrow> i32 \<Rightarrow> u32 \<Rightarrow> i32 \<Rightarrow> printk list \<Rightarrow>
     mem \<times> i32 \<times> u32 \<times> i32 \<times> printk list" where
  "loader_loop m bb_start inode copy_buf sz des i msgs =
     (if BLOCK_4KB <s sz then
        case read_data m bb_start inode (i * BLOCK_4KB) copy_buf BLOCK_4KB of (_, m1, msgs1) \<Rightarrow>
          let m2 = snd (memcpy m1 des copy_buf BLOCK_4KB)
          in loader_loop m2 bb_start inode copy_buf (sz - BLOCK_4KB) (des + BLOCK_4KB) (i + 1)
               (msgs @ msgs1)
      else (m, sz, des, i, msgs))"
  by pat_completeness auto
termination
proof (relation "measure (\<lambda>(m, bb, inode, cb, sz, des, i, msgs). nat (sint sz))", goal_cases)
  case (2 m bb inode cb sz des i msgs _ _ m1 msgs1 m2)
  then have "4096 < sint sz" by (simp add: word_sless_alt)
  moreover from this have "sint (sz - BLOCK_4KB) = sint sz - 4096"
    using sint_lt [of sz] by (subst sint_diff_u32) simp_all
  ultimately show ?case by simp
qed simp

definition loader :: "mem \<Rightarrow> u32 \<Rightarrow> u32 \<Rightarrow> u32 \<Rightarrow> u32 \<Rightarrow> u32 \<Rightarrow> (mem \<times> printk list) option" where
  "loader m bb_start new_dentry copy_buf destination name =
     (case read_dentry_by_name m bb_start name new_dentry of
        None \<Rightarrow> None
      | Some (_, m1) \<Rightarrow>
          let inode = load32 m1 (dentry_inode_number new_dentry);
              inode_index = inode + 1;
              file_size = load32 m1 (bb_start + inode_index * BLOCK_4KB)
          in if file_size > BLOCK_4KB then
               case loader_loop m1 bb_start inode copy_buf file_size destination 0 [] of
                 (m2, sz, des, i, msgs) \<Rightarrow>
                   (case read_data m2 bb_start inode (i * BLOCK_4KB) copy_buf sz of
                     (_, m3, msgs1) \<Rightarrow> Some (snd (memcpy m3 des copy_buf sz), msgs @ msgs1))
             else
               case read_data m1 bb_start inode (0 * BLOCK_4KB) copy_buf file_size of
                 (_, m2, msgs) \<Rightarrow> Some (snd (memcpy m2 destination copy_buf file_size), msgs))"

declare read_dentry_by_name_loop.simps [simp del] read_data_loop.simps [simp del]
  loader_loop.simps [simp del]

end
