(* ===== verification/FsImage.thy ===== *)
theory FsImage
  imports FileSystem
begin

text \<open>
  The file system image as an abstract structure, and what \<^verbatim>\<open>read_data\<close> of
  \<^verbatim>\<open>src/file_system.c\<close> delivers from it.  An image is well formed when it fits into the
  address space; an inode is well formed when it exists and all its data blocks do.  The
  content of a file is then a list of bytes, and reads are stated against that list.
\<close>

section \<open>The layout\<close>

definition num_inodes :: "mem \<Rightarrow> u32 \<Rightarrow> nat" where
  "num_inodes m bb = unat (load32 m (bb + 4))"

definition num_blocks :: "mem \<Rightarrow> u32 \<Rightarrow> nat" where
  "num_blocks m bb = unat (load32 m (bb + 8))"

definition image_size :: "mem \<Rightarrow> u32 \<Rightarrow> nat" where
  "image_size m bb = 4096 * (1 + num_inodes m bb + num_blocks m bb)"

definition inode_at :: "u32 \<Rightarrow> u32 \<Rightarrow> u32" where
  "inode_at bb ino = bb + word_of_nat (4096 * (unat ino + 1))"

definition file_length :: "mem \<Rightarrow> u32 \<Rightarrow> u32 \<Rightarrow> nat" where
  "file_length m bb ino = unat (load32 m (inode_at bb ino))"

definition block_num :: "mem \<Rightarrow> u32 \<Rightarrow> u32 \<Rightarrow> nat \<Rightarrow> nat" where
  "block_num m bb ino k = unat (load32 m (inode_at bb ino + word_of_nat (4 + 4 * k)))"

definition block_at :: "mem \<Rightarrow> u32 \<Rightarrow> nat \<Rightarrow> u32" where
  "block_at m bb b = bb + word_of_nat (4096 * (1 + num_inodes m bb + b))"

definition file_byte :: "mem \<Rightarrow> u32 \<Rightarrow> u32 \<Rightarrow> nat \<Rightarrow> u8" where
  "file_byte m bb ino p =
     m (block_at m bb (block_num m bb ino (p div 4096)) + word_of_nat (p mod 4096))"

definition file_content :: "mem \<Rightarrow> u32 \<Rightarrow> u32 \<Rightarrow> u8 list" where
  "file_content m bb ino = map (file_byte m bb ino) [0..<file_length m bb ino]"

definition wf_image :: "mem \<Rightarrow> u32 \<Rightarrow> bool" where
  "wf_image m bb \<longleftrightarrow> unat bb + image_size m bb < 4294967296 \<and> 0 < num_inodes m bb"

definition wf_inode :: "mem \<Rightarrow> u32 \<Rightarrow> u32 \<Rightarrow> bool" where
  "wf_inode m bb ino \<longleftrightarrow>
     unat ino < num_inodes m bb \<and> file_length m bb ino \<le> 1023 * 4096 \<and>
     (\<forall>k\<in>set [0..<(file_length m bb ino + 4095) div 4096]. block_num m bb ino k < num_blocks m bb)"

lemma length_file_content [simp]: "length (file_content m bb ino) = file_length m bb ino"
  by (simp add: file_content_def)

lemma wf_image_bounds:
  assumes "wf_image m bb"
  shows "image_size m bb < 4294967296" "num_inodes m bb < 1048576" "num_blocks m bb < 1048576"
  using assms by (auto simp: wf_image_def image_size_def)

lemma wf_inode_block:
  assumes "wf_inode m bb ino" "p < file_length m bb ino"
  shows "block_num m bb ino (p div 4096) < num_blocks m bb" "p div 4096 < 1023"
proof -
  have "p div 4096 < (file_length m bb ino + 4095) div 4096" using assms(2) by simp
  then show "block_num m bb ino (p div 4096) < num_blocks m bb"
    using assms(1) by (auto simp: wf_inode_def)
  have "p < 1023 * 4096" using assms by (simp add: wf_inode_def)
  then show "p div 4096 < 1023" by simp
qed

section \<open>The addresses the code computes\<close>

lemma code_inode_addr: "bb + (ino + 1) * BLOCK_4KB = inode_at bb ino"
  by (simp add: inode_at_def algebra_simps)

lemma code_block_ptr:
  "inode_at bb ino + 4 + 4 * word_of_nat k = inode_at bb ino + word_of_nat (4 + 4 * k)"
  by simp

lemma code_block_addr:
  "bb + BLOCK_4KB + load32 m (bb + 4) * BLOCK_4KB + v * BLOCK_4KB = block_at m bb (unat v)"
  by (simp add: block_at_def num_inodes_def algebra_simps)

text \<open>What lies in the image: header words, inode words and data bytes (and the byte behind
  a data block).\<close>

lemma image_header_word:
  assumes "agree bb (image_size m bb) m m'" "wf_image m bb" "k + 4 \<le> 4096"
  shows "load32 m' (bb + word_of_nat k) = load32 m (bb + word_of_nat k)"
  using assms wf_image_bounds [OF assms(2)]
  by (intro agree_load32_at [OF assms(1)]) (auto simp: image_size_def)

lemma image_num:
  assumes "agree bb (image_size m bb) m m'" "wf_image m bb"
  shows "load32 m' (bb + 4) = load32 m (bb + 4)" "load32 m' (bb + 8) = load32 m (bb + 8)"
    "load32 m' bb = load32 m bb"
  using image_header_word [OF assms, of 4] image_header_word [OF assms, of 8]
    image_header_word [OF assms, of 0] by simp_all

lemma image_inode_word:
  assumes "agree bb (image_size m bb) m m'" "wf_image m bb"
    "unat ino < num_inodes m bb" "k + 4 \<le> 4096"
  shows "load32 m' (inode_at bb ino + word_of_nat k) = load32 m (inode_at bb ino + word_of_nat k)"
proof -
  have "load32 m' (bb + word_of_nat (4096 * (unat ino + 1) + k)) =
      load32 m (bb + word_of_nat (4096 * (unat ino + 1) + k))"
    using assms wf_image_bounds [OF assms(2)]
    by (intro agree_load32_at [OF assms(1)]) (auto simp: image_size_def)
  then show ?thesis by (simp add: inode_at_def add.assoc)
qed

lemma image_inode_length:
  assumes "agree bb (image_size m bb) m m'" "wf_image m bb" "unat ino < num_inodes m bb"
  shows "load32 m' (inode_at bb ino) = load32 m (inode_at bb ino)"
  using image_inode_word [OF assms, of 0] by simp

lemma image_data_byte:
  assumes "agree bb (Suc (image_size m bb)) m m'" "wf_image m bb" "b < num_blocks m bb" "k \<le> 4096"
  shows "m' (block_at m bb b + word_of_nat k) = m (block_at m bb b + word_of_nat k)"
proof -
  have "m' (bb + word_of_nat (4096 * (1 + num_inodes m bb + b) + k)) =
      m (bb + word_of_nat (4096 * (1 + num_inodes m bb + b) + k))"
    using assms wf_image_bounds [OF assms(2)]
    by (intro agree_byte [OF assms(1)]) (auto simp: image_size_def)
  then show ?thesis by (simp add: block_at_def add.assoc)
qed

lemma agree_Suc: "agree a (Suc n) m m' \<Longrightarrow> agree a n m m'"
  by (auto simp: agree_def in_region_def)

section \<open>What the copying loop of read\_data delivers\<close>

text \<open>
  The loop leaves a block only after 4097 bytes.  So byte \<open>q\<close> behind the start of block
  \<open>quot\<close> of the file is fetched from block \<open>quot + q div 4097\<close> at offset \<open>q mod 4097\<close>.
\<close>

definition stride_byte :: "mem \<Rightarrow> u32 \<Rightarrow> u32 \<Rightarrow> nat \<Rightarrow> nat \<Rightarrow> u8" where
  "stride_byte m bb ino quot q =
     m (block_at m bb (block_num m bb ino (quot + q div 4097)) + word_of_nat (q mod 4097))"

lemma loop_offset_test:
  "(word_of_nat (q mod 4097) + 1 :: u32) > BLOCK_4KB \<longleftrightarrow> q mod 4097 = 4096"
proof -
  have q: "q mod 4097 < 4097" by simp
  have "(word_of_nat (q mod 4097) + 1 :: u32) = word_of_nat (q mod 4097 + 1)" by simp
  moreover have "unat (word_of_nat (q mod 4097 + 1) :: u32) = q mod 4097 + 1"
    using q by (intro unat_u32_of_nat) linarith
  ultimately have "(word_of_nat (q mod 4097) + 1 :: u32) > BLOCK_4KB \<longleftrightarrow> 4096 < q mod 4097 + 1"
    by (simp add: word_less_nat_alt del: of_nat_Suc of_nat_add)
  with q show ?thesis by linarith
qed

lemma read_data_loop_next [loop_step]:
  "j < len \<Longrightarrow> i + 1 > BLOCK_4KB \<Longrightarrow>
     read_data_loop m bb ni buf len p a i j =
     read_data_loop (m(buf + j := m a)) bb ni buf len (p + 4)
       (bb + BLOCK_4KB + ni * BLOCK_4KB + load32 (m(buf + j := m a)) (p + 4) * BLOCK_4KB) 0 (j + 1)"
  by (subst read_data_loop.simps) (simp add: Let_def)

lemma read_data_loop_same [loop_step]:
  "j < len \<Longrightarrow> \<not> i + 1 > BLOCK_4KB \<Longrightarrow>
     read_data_loop m bb ni buf len p a i j =
     read_data_loop (m(buf + j := m a)) bb ni buf len p (a + 1) (i + 1) (j + 1)"
  by (subst read_data_loop.simps) (simp add: Let_def)

lemma Suc_div_mod_stride:
  "q mod 4097 = 4096 \<Longrightarrow> Suc q div 4097 = Suc (q div 4097) \<and> Suc q mod 4097 = 0"
  "q mod 4097 \<noteq> 4096 \<Longrightarrow> Suc q div 4097 = q div 4097 \<and> Suc q mod 4097 = Suc (q mod 4097)"
  by (simp_all add: div_Suc mod_Suc)

lemma read_data_loop_stride:
  assumes wf: "wf_image m bb" "unat ino < num_inodes m bb"
    and sep: "separate bb (Suc (image_size m bb)) buf (unat len)"
    and ptrs: "quot + (r + unat len) div 4097 \<le> 1022"
    and blocks: "\<And>k. k \<le> (r + unat len) div 4097 \<Longrightarrow>
      block_num m bb ino (quot + k) < num_blocks m bb"
    and "n \<le> unat len"
  shows "read_data_loop (store_bytes m buf (map (stride_byte m bb ino quot) [r..<r + n])) bb
      (load32 m (bb + 4)) buf len
      (inode_at bb ino + word_of_nat (4 + 4 * (quot + (r + n) div 4097)))
      (block_at m bb (block_num m bb ino (quot + (r + n) div 4097)) + word_of_nat ((r + n) mod 4097))
      (word_of_nat ((r + n) mod 4097)) (word_of_nat n) =
    store_bytes m buf (map (stride_byte m bb ino quot) [r..<r + unat len])"
  using assms(6)
proof (induction rule: inc_induct)
  case base
  show ?case by (subst read_data_loop.simps) simp
next
  case (step n)
  let ?src = "stride_byte m bb ino quot" and ?q = "r + n"
  let ?M = "\<lambda>n. store_bytes m buf (map ?src [r..<r + n])"
  have L: "unat len < 4294967296" by (rule unat_less_u32)
  have agree: "agree bb (Suc (image_size m bb)) m (?M k)" if "k \<le> unat len" for k
    using separate_sub [OF sep, of 0 k] that by (intro agree_store_bytes) simp
  have less: "(word_of_nat n :: u32) < len"
    using step(2) L by (simp add: word_less_nat_alt unat_u32_of_nat)
  have "?q div 4097 \<le> (r + unat len) div 4097" using step(2) by (intro div_le_mono) simp
  note blk = blocks [OF this]
  have mod: "?q mod 4097 \<le> 4096" using mod_less_divisor [of 4097 ?q] by linarith
  have byte: "?M n (block_at m bb (block_num m bb ino (quot + ?q div 4097)) + word_of_nat (?q mod 4097))
      = ?src ?q"
    using step(2) image_data_byte [OF agree wf(1) blk mod] by (simp add: stride_byte_def)
  have store: "(?M n)(buf + word_of_nat n := ?src ?q) = ?M (Suc n)"
    using store_bytes_snoc [of m buf "map ?src [r..<r + n]"] by simp
  have j: "(word_of_nat (Suc n) :: u32) = word_of_nat n + 1" by simp
  show ?case
  proof (cases "?q mod 4097 = 4096")
    case True
    note S = Suc_div_mod_stride(1) [OF True, folded add_Suc_right]
    have "(r + Suc n) div 4097 \<le> (r + unat len) div 4097" using step(2) by (intro div_le_mono) simp
    then have "quot + (r + Suc n) div 4097 \<le> 1022" using ptrs by linarith
    then have "load32 (?M (Suc n)) (inode_at bb ino + word_of_nat (4 + 4 * (quot + (r + Suc n) div 4097))) =
        load32 m (inode_at bb ino + word_of_nat (4 + 4 * (quot + (r + Suc n) div 4097)))"
      using step(2) by (intro image_inode_word [OF agree_Suc [OF agree] wf]) simp_all
    moreover have "inode_at bb ino + word_of_nat (4 + 4 * (quot + ?q div 4097)) + 4 =
        inode_at bb ino + word_of_nat (4 + 4 * (quot + (r + Suc n) div 4097))"
      using S by simp
    ultimately have blk': "block_at m bb (unat (load32 (?M (Suc n))
          (inode_at bb ino + word_of_nat (4 + 4 * (quot + ?q div 4097)) + 4))) =
        block_at m bb (block_num m bb ino (quot + (r + Suc n) div 4097))"
      and ptr': "inode_at bb ino + word_of_nat (4 + 4 * (quot + ?q div 4097)) + 4 =
        inode_at bb ino + word_of_nat (4 + 4 * (quot + (r + Suc n) div 4097))"
      by (simp_all only: block_num_def)
    from step(3) show ?thesis
      unfolding read_data_loop_next [OF less loop_offset_test [THEN iffD2, OF True]]
        byte store code_block_addr blk'
      unfolding ptr' by (simp only: S j semiring_1_class.of_nat_0 add_0_right)
  next
    case False
    note S = Suc_div_mod_stride(2) [OF False]
    have less': "\<not> (word_of_nat (?q mod 4097) + 1 :: u32) > BLOCK_4KB"
      using False by (simp only: loop_offset_test) simp
    have q': "r + Suc n = Suc ?q" by simp
    from step(3) show ?thesis
      unfolding q' read_data_loop_same [OF less less'] byte store
      by (simp only: S j of_nat_Suc add.assoc add.commute [of 1])
  qed
qed

section \<open>read\_data\<close>

text \<open>The number of bytes a read of \<open>n\<close> bytes at \<open>offset\<close> can deliver.\<close>

definition clip :: "nat \<Rightarrow> nat \<Rightarrow> nat \<Rightarrow> nat" where
  "clip flen offset n = min n (flen - offset)"

lemma code_clip:
  assumes "offset < flen" "unat len + unat offset < 4294967296"
  shows "unat (if len + offset > flen then flen - offset else len) =
    clip (unat (flen :: u32)) (unat offset) (unat len)"
proof -
  have "unat (len + offset) = unat len + unat offset"
    using assms(2) by (simp add: unat_word_ariths)
  moreover have "unat (flen - offset) = unat flen - unat offset"
    using assms(1) by (intro unat_sub) (simp add: word_le_nat_alt word_less_nat_alt)
  ultimately show ?thesis by (auto simp: clip_def word_less_nat_alt)
qed

lemma of_nat_unat_u32: "word_of_nat (unat (x :: u32)) = x"
  by simp

lemma word_split_block:
  "(offset :: u32) div BLOCK_4KB = word_of_nat (unat offset div 4096)"
  "offset mod BLOCK_4KB = word_of_nat (unat offset mod 4096)"
proof -
  have "word_of_nat (unat (offset div BLOCK_4KB)) = (word_of_nat (unat offset div 4096) :: u32)"
    "word_of_nat (unat (offset mod BLOCK_4KB)) = (word_of_nat (unat offset mod 4096) :: u32)"
    by (simp_all only: unat_div unat_mod) simp_all
  then show "offset div BLOCK_4KB = word_of_nat (unat offset div 4096)"
    "offset mod BLOCK_4KB = word_of_nat (unat offset mod 4096)" by (simp_all only: of_nat_unat_u32)
qed

lemma block_div_mod:
  "r < 4096 \<Longrightarrow> (4096 * q + r) div 4096 = (q :: nat)"
  "r < 4096 \<Longrightarrow> (4096 * q + r) mod 4096 = (r :: nat)"
  by simp_all

text \<open>The exact result of a read in a well-formed image, for any range: byte \<open>j\<close> of the buffer
  follows the 4097-byte stride.\<close>

lemma read_data_stride:
  assumes wf: "wf_image m bb" "unat ino < num_inodes m bb"
    and off: "unat offset < file_length m bb ino" "unat len + unat offset < 4294967296"
    and L: "L = clip (file_length m bb ino) (unat offset) (unat len)"
    and ptrs: "unat offset div 4096 + (unat offset mod 4096 + L) div 4097 \<le> 1022"
    and blocks: "\<And>k. k \<le> (unat offset mod 4096 + L) div 4097 \<Longrightarrow>
      block_num m bb ino (unat offset div 4096 + k) < num_blocks m bb"
    and sep: "separate bb (Suc (image_size m bb)) buf L"
  shows "read_data m bb ino offset buf len =
    (word_of_nat L, store_bytes m buf (map (stride_byte m bb ino (unat offset div 4096))
       [unat offset mod 4096..<unat offset mod 4096 + L]), [])"
proof -
  let ?q = "unat offset div 4096" and ?r = "unat offset mod 4096"
  let ?flen = "load32 m (inode_at bb ino)"
  define l where "l = (if len + offset > ?flen then ?flen - offset else len)"
  have flen: "offset < ?flen" using off(1) by (simp add: file_length_def word_less_nat_alt)
  have l: "unat l = L"
    using code_clip [OF flen off(2)] by (simp add: l_def L file_length_def)
  have "load32 m (bb + 4) \<noteq> 0" using wf(2) by (auto simp: num_inodes_def)
  then have "unat (load32 m (bb + 4) - 1) = num_inodes m bb - 1"
    by (simp add: unat_minus_one_word num_inodes_def)
  then have ino: "\<not> ino > load32 m (bb + 4) - 1" "\<not> ino < 0"
    using wf(2) by (auto simp: word_less_nat_alt)
  have r: "?r mod 4097 = ?r" "?r div 4097 = 0" by simp_all
  note q' = word_split_block [of offset]
  have ptr: "inode_at bb ino + 4 + 4 * (offset div BLOCK_4KB) =
      inode_at bb ino + word_of_nat (4 + 4 * ?q)"
    unfolding q'(1) by (rule code_block_ptr)
  have blk: "\<not> load32 m (bb + 8) \<le> load32 m (inode_at bb ino + word_of_nat (4 + 4 * ?q))"
    using blocks [of 0] by (simp add: word_le_nat_alt block_num_def num_blocks_def)
  have loop: "read_data_loop m bb (load32 m (bb + 4)) buf l
      (inode_at bb ino + word_of_nat (4 + 4 * ?q))
      (block_at m bb (block_num m bb ino ?q) + word_of_nat ?r) (word_of_nat ?r) 0 =
    store_bytes m buf (map (stride_byte m bb ino ?q) [?r..<?r + L])"
    using read_data_loop_stride [OF wf, of buf l ?q ?r 0] sep ptrs blocks r by (simp add: l)
  have L': "word_of_nat L = l" using l by auto
  have guard: "(ino < 0 \<or> ino > load32 m (bb + OFFSET_4B) - 1) = False"
    "(offset \<ge> ?flen) = False"
    "(load32 m (inode_at bb ino + word_of_nat (4 + 4 * ?q)) < 0 \<or>
      load32 m (inode_at bb ino + word_of_nat (4 + 4 * ?q)) \<ge> load32 m (bb + 2 * OFFSET_4B)) = False"
    using ino flen blk by (simp_all add: not_le)
  show ?thesis
    unfolding read_data_def Let_def code_inode_addr ptr guard if_False l_def [symmetric]
      q'(2) code_block_addr block_num_def [symmetric] L'
    by (simp only: loop)
qed

text \<open>A read whose range stays inside one block delivers the bytes of the file.\<close>

lemma stride_in_block:
  assumes "offset mod 4096 + L \<le> 4096"
  shows "map (stride_byte m bb ino (offset div 4096)) [offset mod 4096..<offset mod 4096 + L] =
    map (file_byte m bb ino) [offset..<offset + L]"
proof (rule nth_equalityI)
  fix i assume "i < length (map (stride_byte m bb ino (offset div 4096)) [offset mod 4096..<offset mod 4096 + L])"
  then have i: "i < L" by simp
  have small: "offset mod 4096 + i < 4096" using i assms by simp
  have dm: "offset + i = 4096 * (offset div 4096) + (offset mod 4096 + i)" by simp
  have "(offset + i) div 4096 = offset div 4096 \<and> (offset + i) mod 4096 = offset mod 4096 + i"
    using block_div_mod [OF small, of "offset div 4096"] by (simp only: dm [symmetric] simp_thms)
  with i small show "map (stride_byte m bb ino (offset div 4096))
      [offset mod 4096..<offset mod 4096 + L] ! i = map (file_byte m bb ino) [offset..<offset + L] ! i"
    by (simp add: stride_byte_def file_byte_def)
qed simp

lemma read_data_in_block:
  assumes wf: "wf_image m bb" "wf_inode m bb ino"
    and off: "unat offset < file_length m bb ino" "unat len + unat offset < 4294967296"
    and L: "L = clip (file_length m bb ino) (unat offset) (unat len)"
    and "block": "unat offset mod 4096 + L \<le> 4096"
    and sep: "separate bb (Suc (image_size m bb)) buf L"
  shows "read_data m bb ino offset buf len =
    (word_of_nat L, store_bytes m buf (take L (drop (unat offset) (file_content m bb ino))), [])"
proof -
  have k: "(unat offset mod 4096 + L) div 4097 = 0" using "block" by simp
  have "read_data m bb ino offset buf len =
    (word_of_nat L, store_bytes m buf (map (stride_byte m bb ino (unat offset div 4096))
       [unat offset mod 4096..<unat offset mod 4096 + L]), [])"
    using wf_inode_block [OF wf(2) off(1)] wf(2) k
    by (intro read_data_stride [OF wf(1) _ off L _ _ sep]) (auto simp: wf_inode_def)
  also have "map (stride_byte m bb ino (unat offset div 4096))
       [unat offset mod 4096..<unat offset mod 4096 + L] =
     take L (drop (unat offset) (file_content m bb ino))"
    unfolding stride_in_block [OF "block"] using off(1)
    by (simp add: L clip_def file_content_def drop_map take_map)
  finally show ?thesis .
qed

lemma read_data_bad_inode:
  assumes "0 < num_inodes m bb" "num_inodes m bb \<le> unat ino"
  shows "read_data m bb ino offset buf len =
    (ERR, m, [('' incorrect inode  %d '' @ [CHR 0x0A], [ino])])"
proof -
  have "load32 m (bb + 4) \<noteq> 0" using assms(1) by (auto simp: num_inodes_def)
  then have "unat (load32 m (bb + 4) - 1) = num_inodes m bb - 1"
    by (simp add: unat_minus_one_word num_inodes_def)
  then have "ino > load32 m (bb + 4) - 1" using assms by (simp add: word_less_nat_alt)
  then show ?thesis by (simp add: read_data_def Let_def)
qed

lemma read_data_at_end:
  assumes "unat ino < num_inodes m bb" "file_length m bb ino \<le> unat offset"
  shows "read_data m bb ino offset buf len = (0, m, [])"
proof -
  have "load32 m (bb + 4) \<noteq> 0" using assms(1) by (auto simp: num_inodes_def)
  then have "unat (load32 m (bb + 4) - 1) = num_inodes m bb - 1"
    by (simp add: unat_minus_one_word num_inodes_def)
  then have "(ino < 0 \<or> ino > load32 m (bb + OFFSET_4B) - 1) = False"
    using assms by (simp add: word_less_nat_alt)
  moreover have "(offset \<ge> load32 m (inode_at bb ino)) = True"
    using assms(2) by (simp add: word_le_nat_alt file_length_def)
  ultimately show ?thesis
    unfolding read_data_def Let_def code_inode_addr by (simp only: if_True if_False)
qed

end
