(* ===== verification/FsLoader.thy ===== *)
theory FsLoader
  imports FsImage
begin

text \<open>
  What the directory routines, the program loader and the sequential readers of
  \<^verbatim>\<open>src/file_system.c\<close> deliver from a well-formed image: lookup by name finds the first entry
  whose 32-byte name field matches, lookup by index copies the entry, the loader places the
  whole file at its destination, and a sequence of reads in chunks that divide the block size
  yields the file from beginning to end.
\<close>

section \<open>The image under writes outside of it\<close>

text \<open>The image with the byte behind it, where the copying loop of \<^verbatim>\<open>read_data\<close> may look.\<close>

abbreviation (input) same_image :: "mem \<Rightarrow> u32 \<Rightarrow> mem \<Rightarrow> bool" where
  "same_image m bb m' \<equiv> agree bb (Suc (image_size m bb)) m m'"

lemma same_image_sizes:
  assumes "same_image m bb m'" "wf_image m bb"
  shows "num_inodes m' bb = num_inodes m bb" "num_blocks m' bb = num_blocks m bb"
    "image_size m' bb = image_size m bb" "wf_image m' bb"
  using image_num [OF agree_Suc [OF assms(1)] assms(2)] assms(2)
  by (simp_all add: num_inodes_def num_blocks_def image_size_def wf_image_def)

lemma same_image_inode:
  assumes "same_image m bb m'" "wf_image m bb" "unat ino < num_inodes m bb"
  shows "file_length m' bb ino = file_length m bb ino"
    "k < 1023 \<Longrightarrow> block_num m' bb ino k = block_num m bb ino k"
  using image_inode_length [OF agree_Suc [OF assms(1)] assms(2,3)]
    image_inode_word [OF agree_Suc [OF assms(1)] assms(2,3), of "4 + 4 * k"]
  by (simp_all add: file_length_def block_num_def)

lemma same_image_wf_inode:
  assumes "same_image m bb m'" "wf_image m bb" "wf_inode m bb ino"
  shows "wf_inode m' bb ino"
proof -
  have ino: "unat ino < num_inodes m bb" using assms(3) by (simp add: wf_inode_def)
  have "k < 1023" if "k < (file_length m bb ino + 4095) div 4096" for k
    using that assms(3) by (auto simp: wf_inode_def)
  then show ?thesis
    using assms(3) same_image_inode [OF assms(1,2) ino] same_image_sizes [OF assms(1,2)]
    by (auto simp: wf_inode_def)
qed

lemma same_image_content:
  assumes "same_image m bb m'" "wf_image m bb" "wf_inode m bb ino"
  shows "file_content m' bb ino = file_content m bb ino"
proof -
  have ino: "unat ino < num_inodes m bb" using assms(3) by (simp add: wf_inode_def)
  have "file_byte m' bb ino p = file_byte m bb ino p" if "p < file_length m bb ino" for p
  proof -
    have "p mod 4096 \<le> 4096" using mod_less_divisor [of 4096 p] by linarith
    with wf_inode_block [OF assms(3) that] show ?thesis
      using same_image_inode(2) [OF assms(1,2) ino] same_image_sizes [OF assms(1,2)]
        image_data_byte [OF assms(1,2)]
      by (simp add: file_byte_def block_at_def)
  qed
  then show ?thesis
    using same_image_inode(1) [OF assms(1,2) ino] by (simp add: file_content_def)
qed

lemmas same_image_facts = same_image_sizes same_image_wf_inode same_image_content

section \<open>Directory entries\<close>

definition dir_count :: "mem \<Rightarrow> u32 \<Rightarrow> nat" where
  "dir_count m bb = unat (load32 m bb)"

definition dir_entry :: "u32 \<Rightarrow> nat \<Rightarrow> u32" where
  "dir_entry bb i = bb + word_of_nat (64 * (i + 1))"

definition dir_name :: "mem \<Rightarrow> u32 \<Rightarrow> nat \<Rightarrow> u8 list" where
  "dir_name m bb i = cstr_upto m (dir_entry bb i) 32"

definition dir_type :: "mem \<Rightarrow> u32 \<Rightarrow> nat \<Rightarrow> u32" where
  "dir_type m bb i = load32 m (dir_entry bb i + 32)"

definition dir_inode :: "mem \<Rightarrow> u32 \<Rightarrow> nat \<Rightarrow> u32" where
  "dir_inode m bb i = (if dir_type m bb i = 2 then load32 m (dir_entry bb i + 36) else 0)"

definition wf_dir :: "mem \<Rightarrow> u32 \<Rightarrow> bool" where
  "wf_dir m bb \<longleftrightarrow> dir_count m bb \<le> 63 \<and> unat bb + 4096 < 4294967296"

text \<open>The directory search: the first index whose name agrees with the wanted name in the
  first 32 characters.\<close>

definition dir_find :: "mem \<Rightarrow> u32 \<Rightarrow> u8 list \<Rightarrow> nat option" where
  "dir_find m bb name = find (\<lambda>i. dir_name m bb i = take 32 name) [0..<dir_count m bb]"

text \<open>A directory entry written to memory: the name bytes, then the type and the inode.\<close>

definition put_dentry :: "mem \<Rightarrow> u32 \<Rightarrow> u8 list \<Rightarrow> u32 \<Rightarrow> u32 \<Rightarrow> mem" where
  "put_dentry m d name ty ino = store32 (store32 (store_bytes m d name) (d + 32) ty) (d + 36) ino"

lemma code_entry_addr: "entry_addr bb (word_of_nat i) = dir_entry bb i"
  by (simp add: entry_addr_def dir_entry_def)

lemma dir_entry_word:
  assumes "agree bb 4096 m m'" "i < 63" "k + 4 \<le> 64"
  shows "load32 m' (dir_entry bb i + word_of_nat k) = load32 m (dir_entry bb i + word_of_nat k)"
proof -
  have "load32 m' (bb + word_of_nat (64 * (i + 1) + k)) = load32 m (bb + word_of_nat (64 * (i + 1) + k))"
    using assms(2,3) by (intro agree_load32_at [OF assms(1)]) simp_all
  then show ?thesis by (simp add: dir_entry_def add.assoc)
qed

lemma dir_entry_type_inode:
  assumes "agree bb 4096 m m'" "i < 63"
  shows "load32 m' (dir_entry bb i + 32) = load32 m (dir_entry bb i + 32)"
    "load32 m' (dir_entry bb i + 36) = load32 m (dir_entry bb i + 36)"
  using dir_entry_word [OF assms, of 32] dir_entry_word [OF assms, of 36] by simp_all

lemma find_upt_from:
  "k \<le> n \<Longrightarrow> find P [k..<n] = (if k < n then if P k then Some k else find P [Suc k..<n] else None)"
  by (simp add: upt_rec)

text \<open>What both lookups store once the 32-byte name field has been filled from \<open>bs\<close>.\<close>

lemma fill_dentry:
  assumes "separate bb 4096 d (max 40 (length bs))" "i < 63"
  shows "(let m1 = store_bytes m d bs; file_type = dir_entry bb i + FILE_NAME_32B;
      m2 = store32 m1 (dentry_file_type d) (load32 m1 file_type)
    in if load32 m2 file_type = REGULAR_FILE
       then store32 m2 (dentry_inode_number d) (load32 m2 (file_type + OFFSET_4B))
       else store32 m2 (dentry_inode_number d) 0) =
    put_dentry m d bs (dir_type m bb i) (dir_inode m bb i)"
proof -
  have sub: "separate bb 4096 (d + word_of_nat k) 4" if "k + 4 \<le> 40" for k
    using that by (intro separate_sub [OF assms(1)]) simp
  have A1: "agree bb 4096 m (store_bytes m d bs)"
    using separate_sub [OF assms(1), of 0 "length bs"] by (intro agree_store_bytes) simp
  have A2: "agree bb 4096 m (store32 (store_bytes m d bs) (d + 32) v)" for v
    using sub [of 32] by (intro agree_trans [OF A1] agree_store32) simp
  have four: "dir_entry bb i + 32 + 4 = dir_entry bb i + 36" by simp
  show ?thesis
    using dir_entry_type_inode [OF A1 assms(2)] dir_entry_type_inode [OF A2 assms(2)]
    unfolding Let_def dentry_file_type_def dentry_inode_number_def four put_dentry_def dir_inode_def
      dir_type_def
    by simp
qed

lemma read_dentry_loop_find:
  assumes wf: "wf_dir m bb" and str: "cstring_at m fname s"
    and sep: "separate bb 4096 d (max 40 (Suc (length s)))"
      "separate d (Suc (length s)) fname (Suc (length s))"
    and "k \<le> dir_count m bb"
  shows "read_dentry_by_name_loop m bb fname d (load32 m bb) (word_of_nat k) =
    (case find (\<lambda>i. dir_name m bb i = take 32 s) [k..<dir_count m bb] of
       None \<Rightarrow> Some (ERR, m)
     | Some i \<Rightarrow> Some (0, put_dentry m d (s @ [0]) (dir_type m bb i) (dir_inode m bb i)))"
  using assms(5)
proof (induction rule: inc_induct)
  case base
  have "word_of_nat (dir_count m bb) = load32 m bb" by (simp add: dir_count_def)
  then show ?case by (subst read_dentry_by_name_loop.simps) simp
next
  case (step k)
  have k: "k < 63" "k < 4294967296" using step(2) wf by (simp_all add: wf_dir_def)
  then have less: "(word_of_nat k :: u32) < load32 m bb"
    using step(2) by (simp add: word_less_nat_alt unat_u32_of_nat dir_count_def)
  have cmp: "strncmp m (dir_entry bb k) fname MAX_FILE_NAME = 0 \<longleftrightarrow> dir_name m bb k = take 32 s"
    by (simp add: strncmp_zero_iff dir_name_def cstring_at_upto [OF str])
  have copy: "copy_entry_by_name m (dir_entry bb k) fname d =
      Some (0, put_dentry m d (s @ [0]) (dir_type m bb k) (dir_inode m bb k))"
    using fill_dentry [of bb d "s @ [0]" k m] sep(1) k strcpy_cstring [OF str, of d] sep(2)
    by (simp add: copy_entry_by_name_def dentry_file_name_def Let_def)
  show ?case
    using step less
    by (subst read_dentry_by_name_loop.simps)
      (simp add: Let_def code_entry_addr cmp copy find_upt_from [of k] add.commute)
qed

lemma read_dentry_by_name_run:
  assumes "wf_dir m bb" "cstring_at m fname s"
    "separate bb 4096 d (max 40 (Suc (length s)))"
    "separate d (Suc (length s)) fname (Suc (length s))"
  shows "read_dentry_by_name m bb fname d =
    (case dir_find m bb s of
       None \<Rightarrow> Some (ERR, m)
     | Some i \<Rightarrow> Some (0, put_dentry m d (s @ [0]) (dir_type m bb i) (dir_inode m bb i)))"
  using read_dentry_loop_find [OF assms, of 0]
  by (simp add: read_dentry_by_name_def dir_find_def)

lemma dir_find_SomeD:
  assumes "dir_find m bb s = Some i"
  shows "i < dir_count m bb" "dir_name m bb i = take 32 s"
    "j < i \<Longrightarrow> dir_name m bb j \<noteq> take 32 s"
  using assms by (auto simp: dir_find_def find_Some_iff)

lemma dir_find_NoneD: "dir_find m bb s = None \<Longrightarrow> j < dir_count m bb \<Longrightarrow> dir_name m bb j \<noteq> take 32 s"
  by (auto simp: dir_find_def find_None_iff)

lemma put_dentry_fields:
  assumes "length name \<le> 33" "unat d + 40 \<le> 4294967296"
  shows "load32 (put_dentry m d name ty ino) (dentry_file_type d) = ty"
    "load32 (put_dentry m d name ty ino) (dentry_inode_number d) = ino"
    "load_bytes (put_dentry m d name ty ino) d (min 32 (length name)) = take 32 name"
proof -
  have u: "unat (d + 32) = unat d + 32" "unat (d + 36) = unat d + 36"
    using assms(2) by (simp_all add: unat_word_ariths)
  have sep: "separate (d + 32) 4 (d + 36) 4" "separate d 32 (d + 32) 4" "separate d 32 (d + 36) 4"
    using assms(2) u by (auto simp: separate_def)
  show "load32 (put_dentry m d name ty ino) (dentry_file_type d) = ty"
    using agree_load32 [OF agree_store32 [OF sep(1)]]
    by (simp add: put_dentry_def dentry_file_type_def load32_store32)
  show "load32 (put_dentry m d name ty ino) (dentry_inode_number d) = ino"
    by (simp add: put_dentry_def dentry_inode_number_def load32_store32)
  have "load_bytes (put_dentry m d name ty ino) d 32 = load_bytes (store_bytes m d name) d 32"
    using sep(2,3) unfolding put_dentry_def store32_def by (simp add: load_store_separate separate_sym)
  moreover have "load_bytes (store_bytes m d name) d (length name) = name"
    using assms(1) by (intro load_store_bytes) simp
  ultimately show "load_bytes (put_dentry m d name ty ino) d (min 32 (length name)) = take 32 name"
    by (metis load_bytes_take min.commute take_take)
qed

lemma read_dentry_by_index_run:
  assumes wf: "wf_dir m bb" and sep: "separate bb 4096 d 40"
  shows "read_dentry_by_index m bb index d =
    (if unat index < dir_count m bb
     then (0, put_dentry m d (load_bytes m (dir_entry bb (unat index)) 32)
            (dir_type m bb (unat index)) (dir_inode m bb (unat index)))
     else (ERR, m))"
proof (cases "unat index < dir_count m bb")
  case False
  then have "index \<ge> load32 m bb" by (simp add: word_le_nat_alt dir_count_def)
  with False show ?thesis by (simp add: read_dentry_by_index_def Let_def)
next
  case True
  let ?e = "dir_entry bb (unat index)"
  have i: "unat index < 63" using True wf by (simp add: wf_dir_def)
  have d: "separate d 32 bb 4096" using sep by (auto simp: separate_def)
  have "n < 63 \<Longrightarrow> 64 * (n + 1) + 32 \<le> (4096 :: nat)" for n by simp
  note bound = this [OF i]
  from separate_sub [OF d bound]
  have "separate d 32 (bb + word_of_nat (64 * (unat index + 1))) 32" .
  then have "separate d (unat (DIR_BUF_SIZE - 1)) ?e (unat (DIR_BUF_SIZE - 1))"
    by (simp add: dir_entry_def)
  from memcpy_run [OF this]
  have copy: "snd (memcpy m d ?e (DIR_BUF_SIZE - 1)) = store_bytes m d (load_bytes m ?e 32)"
    by simp
  have entry: "entry_addr bb index = ?e" using code_entry_addr [of bb "unat index"] by simp
  have in_range: "(index < 0 \<or> index \<ge> load32 m bb) = False"
    using True by (simp add: word_le_nat_alt dir_count_def not_le)
  have "separate bb 4096 d (max 40 (length (load_bytes m ?e 32)))" using sep by simp
  from fill_dentry [OF this i, of m] True show ?thesis
    unfolding read_dentry_by_index_def Let_def entry dentry_file_name_def in_range if_False copy
    by simp
qed

section \<open>The loader\<close>

text \<open>Block \<open>i\<close> of a load: the copy buffer is filled from the file and copied on to its place.\<close>

definition outside :: "u32 \<Rightarrow> nat \<Rightarrow> u32 \<Rightarrow> nat \<Rightarrow> mem \<Rightarrow> mem \<Rightarrow> bool" where
  "outside a n b k m m' \<longleftrightarrow> (\<forall>x. in_region a n x \<or> in_region b k x \<or> m' x = m x)"

lemma outside_agree:
  assumes "outside a n b k m m'" "separate c j a n" "separate c j b k"
  shows "agree c j m m'"
  unfolding agree_def
proof (intro allI impI)
  fix x assume "in_region c j x"
  then have "\<not> in_region a n x" "\<not> in_region b k x"
    using separate_disjoint [OF assms(2)] separate_disjoint [OF assms(3)] by blast+
  with assms(1) show "m' x = m x" by (auto simp: outside_def)
qed

lemma outside_trans: "outside a n b k m m' \<Longrightarrow> outside a n b k m' m'' \<Longrightarrow> outside a n b k m m''"
  unfolding outside_def by metis

lemma outside_store:
  assumes "\<And>x. in_region d (length bs) x \<Longrightarrow> in_region a n x \<or> in_region b k x"
    "length bs \<le> 4294967296"
  shows "outside a n b k m (store_bytes m d bs)"
  using assms by (auto simp: outside_def store_bytes_apply)

lemma load_step:
  assumes wf: "wf_image m bb" "wf_inode m bb ino"
    and sep: "separate bb (Suc (image_size m bb)) cb 4096"
      "separate dest (file_length m bb ino) cb 4096"
    and pos: "4096 * i < file_length m bb ino"
    and c: "c = min 4096 (file_length m bb ino - 4096 * i)"
    and same: "same_image m bb m1"
    and old: "load_bytes m1 dest (4096 * i) = take (4096 * i) (file_content m bb ino)"
  shows "\<exists>m2. read_data m1 bb ino (word_of_nat i * BLOCK_4KB) cb (word_of_nat c) =
      (word_of_nat c, m2, []) \<and>
    outside cb 4096 dest (file_length m bb ino) m1
      (snd (memcpy m2 (dest + word_of_nat (4096 * i)) cb (word_of_nat c))) \<and>
    load_bytes (snd (memcpy m2 (dest + word_of_nat (4096 * i)) cb (word_of_nat c))) dest (4096 * i + c) =
      take (4096 * i + c) (file_content m bb ino)"
proof -
  let ?L = "file_length m bb ino" and ?new = "take c (drop (4096 * i) (file_content m bb ino))"
  have ino: "unat ino < num_inodes m bb" using wf(2) by (simp add: wf_inode_def)
  have L: "?L \<le> 1023 * 4096" using wf(2) by (simp add: wf_inode_def)
  have cle: "c \<le> 4096" "4096 * i + c \<le> ?L" using c pos by simp_all
  then have len: "length ?new = c" by simp
  have ucn: "unat (word_of_nat c :: u32) = c" using cle by (intro unat_u32_of_nat) linarith
  have "word_of_nat i * BLOCK_4KB = (word_of_nat (4096 * i) :: u32)" by (simp add: mult.commute)
  moreover have "unat (word_of_nat (4096 * i) :: u32) = 4096 * i"
    using pos L by (intro unat_u32_of_nat) linarith
  ultimately have off: "unat (word_of_nat i * BLOCK_4KB :: u32) = 4096 * i" by (simp only:)
  note F = same_image_facts [OF same wf(1)] same_image_inode(1) [OF same wf(1) ino]
  have clip: "c = clip ?L (4096 * i) c" using cle by (simp add: clip_def)
  have "read_data m1 bb ino (word_of_nat i * BLOCK_4KB) cb (word_of_nat c) =
      (word_of_nat c, store_bytes m1 cb (take c (drop (4096 * i) (file_content m1 bb ino))), [])"
    using read_data_in_block [OF F(4) F(5) [OF wf(2)], of "word_of_nat i * BLOCK_4KB" "word_of_nat c" c cb]
      pos L cle clip separate_sub [OF sep(1), of 0 c]
    by (simp only: off ucn F) simp
  then have rd: "read_data m1 bb ino (word_of_nat i * BLOCK_4KB) cb (word_of_nat c) =
      (word_of_nat c, store_bytes m1 cb ?new, [])"
    by (simp only: F(6) [OF wf(2)])
  define m2 where "m2 = store_bytes m1 cb ?new"
  let ?d = "dest + word_of_nat (4096 * i)"
  have "separate cb 4096 dest ?L" using sep(2) by (simp add: separate_sym)
  then have "separate cb 4096 ?d c" using cle by (intro separate_sub)
  then have sepd: "separate ?d c cb 4096" by (simp add: separate_sym)
  have "separate ?d (unat (word_of_nat c :: u32)) cb (unat (word_of_nat c :: u32))"
    using separate_sub [OF sepd, of 0 c] cle by (simp only: ucn) simp
  from memcpy_run [OF this]
  have cp: "snd (memcpy m2 ?d cb (word_of_nat c)) = store_bytes m2 ?d ?new"
    using load_store_bytes [of ?new m1 cb] len cle by (simp add: ucn m2_def)
  have a1: "outside cb 4096 dest ?L m1 m2"
    unfolding m2_def using len cle by (intro outside_store) (auto elim: in_region_mono)
  have "in_region dest ?L x" if "in_region ?d (length ?new) x" for x
    using in_region_sub [of dest "4096 * i" c x ?L] that len cle L by simp
  then have a2: "outside cb 4096 dest ?L m2 (store_bytes m2 ?d ?new)"
    using len cle by (intro outside_store) simp_all
  have keep: "load_bytes (store_bytes m2 ?d ?new) dest (4096 * i) = take (4096 * i) (file_content m bb ino)"
  proof -
    have "load_bytes (store_bytes m2 ?d ?new) dest (4096 * i) = load_bytes m2 dest (4096 * i)"
    proof (rule load_bytes_cong)
      fix x assume x: "in_region dest (4096 * i) x"
      have "\<not> in_region ?d c x"
      proof
        assume "in_region ?d c x"
        then have k: "x = dest + word_of_nat (4096 * i + unat (x - ?d))" "unat (x - ?d) < c"
          by (simp_all add: in_region_def)
        define k where "k = 4096 * i + unat (x - ?d)"
        have "k < 4294967296" using k(2) cle L by (simp add: k_def)
        then have "unat (x - dest) = k" using k(1) by (simp only: k_def [symmetric]) (simp add: unat_u32_of_nat)
        with x show False by (simp add: in_region_def k_def)
      qed
      with len cle show "store_bytes m2 ?d ?new x = m2 x" by (simp add: store_bytes_other)
    qed (use pos L in simp)
    also have "\<dots> = load_bytes m1 dest (4096 * i)"
    proof -
      have "separate cb (length ?new) dest (4096 * i)"
        using separate_sub [of dest "4096 * i" cb 4096 0 c] separate_sub [of cb 4096 dest ?L 0 "4096 * i"]
          sep(2) len cle by (simp add: separate_sym)
      then show ?thesis unfolding m2_def using pos L len cle by (intro load_store_separate) simp_all
    qed
    finally show ?thesis using old by simp
  qed
  have fresh: "load_bytes (store_bytes m2 ?d ?new) ?d c = ?new"
    using load_store_bytes [of ?new m2 ?d] len cle by simp
  have "load_bytes (store_bytes m2 ?d ?new) dest (4096 * i + c) =
      take (4096 * i + c) (file_content m bb ino)"
    unfolding load_bytes_add keep fresh by (simp add: take_add)
  with rd cp outside_trans [OF a1 a2] show ?thesis
    unfolding m2_def [symmetric] by (intro exI [of _ m2]) simp
qed

lemma loader_loop_next [loop_step]:
  "BLOCK_4KB <s sz \<Longrightarrow> read_data m bb ino (i * BLOCK_4KB) cb BLOCK_4KB = (r, m2, msgs1) \<Longrightarrow>
     loader_loop m bb ino cb sz des i msgs =
     loader_loop (snd (memcpy m2 des cb BLOCK_4KB)) bb ino cb (sz - BLOCK_4KB) (des + BLOCK_4KB) (i + 1)
       (msgs @ msgs1)"
  by (subst loader_loop.simps) (simp add: Let_def)

lemma loader_loop_copies:
  assumes wf: "wf_image m bb" "wf_inode m bb ino"
    and sep: "separate bb (Suc (image_size m bb)) cb 4096"
      "separate dest (file_length m bb ino) cb 4096"
      "separate bb (Suc (image_size m bb)) dest (file_length m bb ino)"
    and "4096 * i < file_length m bb ino"
    and "outside cb 4096 dest (file_length m bb ino) m m1"
    and "load_bytes m1 dest (4096 * i) = take (4096 * i) (file_content m bb ino)"
  shows "\<exists>k m2. loader_loop m1 bb ino cb (word_of_nat (file_length m bb ino - 4096 * i))
      (dest + word_of_nat (4096 * i)) (word_of_nat i) msgs =
      (m2, word_of_nat (file_length m bb ino - 4096 * k), dest + word_of_nat (4096 * k), word_of_nat k, msgs) \<and>
    4096 * k < file_length m bb ino \<and> file_length m bb ino - 4096 * k \<le> 4096 \<and>
    outside cb 4096 dest (file_length m bb ino) m m2 \<and>
    load_bytes m2 dest (4096 * k) = take (4096 * k) (file_content m bb ino)"
  using assms(6-8)
proof (induction "file_length m bb ino - 4096 * i" arbitrary: i m1 rule: less_induct)
  case less
  let ?L = "file_length m bb ino"
  let ?sz = "word_of_nat (?L - 4096 * i) :: u32"
  have L: "?L \<le> 1023 * 4096" using wf(2) by (simp add: wf_inode_def)
  have same: "same_image m bb m1" using outside_agree [OF less(3) sep(1,3)] .
  have "sint ?sz = int (?L - 4096 * i)" using L by (intro sint_u32_of_nat) linarith
  then have test: "BLOCK_4KB <s ?sz \<longleftrightarrow> 4096 < ?L - 4096 * i"
    by (simp add: word_sless_alt)
  show ?case
  proof (cases "4096 < ?L - 4096 * i")
    case False
    with test less.prems show ?thesis
      by (intro exI [of _ i] exI [of _ m1]) (subst loader_loop.simps, simp)
  next
    case True
    have c: "4096 = min 4096 (?L - 4096 * i)" using True by simp
    obtain m2 where rd: "read_data m1 bb ino (word_of_nat i * BLOCK_4KB) cb (word_of_nat 4096) =
        (word_of_nat 4096, m2, [])"
      and out: "outside cb 4096 dest ?L m1
        (snd (memcpy m2 (dest + word_of_nat (4096 * i)) cb (word_of_nat 4096)))"
      and new: "load_bytes (snd (memcpy m2 (dest + word_of_nat (4096 * i)) cb (word_of_nat 4096)))
          dest (4096 * i + 4096) = take (4096 * i + 4096) (file_content m bb ino)"
      using load_step [OF wf sep(1,2) less(2) c same less(4)] by blast
    define m3 where "m3 = snd (memcpy m2 (dest + word_of_nat (4096 * i)) cb (word_of_nat 4096))"
    have S: "4096 * Suc i = 4096 * i + 4096" by simp
    have sz: "?sz - BLOCK_4KB = word_of_nat (?L - 4096 * Suc i)"
      using True by (simp add: of_nat_diff)
    have des: "dest + word_of_nat (4096 * i) + BLOCK_4KB = dest + word_of_nat (4096 * Suc i)" by simp
    have ii: "word_of_nat i + 1 = (word_of_nat (Suc i) :: u32)" by simp
    have step: "loader_loop m1 bb ino cb ?sz (dest + word_of_nat (4096 * i)) (word_of_nat i) msgs =
        loader_loop m3 bb ino cb (word_of_nat (?L - 4096 * Suc i)) (dest + word_of_nat (4096 * Suc i))
          (word_of_nat (Suc i)) msgs"
      unfolding loader_loop_next [OF test [THEN iffD2, OF True] rd [unfolded of_nat_numeral]]
        sz des ii append_Nil2 by (simp only: m3_def of_nat_numeral)
    have "?L - 4096 * Suc i < ?L - 4096 * i" "4096 * Suc i < ?L" using True by simp_all
    moreover have "outside cb 4096 dest ?L m m3"
      using outside_trans [OF less(3) out] by (simp add: m3_def)
    moreover have "load_bytes m3 dest (4096 * Suc i) = take (4096 * Suc i) (file_content m bb ino)"
      using new unfolding m3_def S .
    ultimately show ?thesis unfolding step by (rule less(1))
  qed
qed

lemma put_dentry_other:
  assumes "\<not> in_region d (max 40 (length name)) x" "length name \<le> 4294967296"
  shows "put_dentry m d name ty ino x = m x"
proof -
  have "\<not> in_region (d + word_of_nat k) 4 x" if "k + 4 \<le> 40" for k
    using assms in_region_sub [OF _ le_trans [OF that max.cobounded1 [of 40 "length name"]]] by auto
  from this [of 32] this [of 36] have "\<not> in_region (d + 32) 4 x" "\<not> in_region (d + 36) 4 x"
    by simp_all
  moreover have "\<not> in_region d (length name) x" using assms(1) by (auto simp: in_region_def)
  ultimately show ?thesis using assms(2)
    by (simp add: put_dentry_def store32_other store_bytes_other)
qed

lemma put_dentry_agree:
  assumes "separate a n d (max 40 (length name))"
  shows "agree a n m (put_dentry m d name ty ino)"
  unfolding agree_def
proof (intro allI impI put_dentry_other notI)
  show "length name \<le> 4294967296" using assms by (auto simp: separate_def)
qed (rule separate_disjoint [OF assms])

lemma loader_run:
  assumes wf: "wf_image m bb" "wf_dir m bb" "cstring_at m name s"
    and entry: "dir_find m bb s = Some e" "dir_type m bb e = 2" "wf_inode m bb (dir_inode m bb e)"
    and L: "L = file_length m bb (dir_inode m bb e)"
    and sep: "separate bb (Suc (image_size m bb)) nd (max 40 (Suc (length s)))"
      "separate nd (Suc (length s)) name (Suc (length s))"
      "separate bb (Suc (image_size m bb)) cb 4096"
      "separate bb (Suc (image_size m bb)) dest L"
      "separate dest L cb 4096"
  shows "\<exists>m1 m'. loader m bb nd cb dest name = Some (m', []) \<and>
    m1 = put_dentry m nd (s @ [0]) 2 (dir_inode m bb e) \<and>
    outside cb 4096 dest L m1 m' \<and>
    load_bytes m' dest L = file_content m bb (dir_inode m bb e)"
proof -
  define ino where "ino = dir_inode m bb e"
  define m1 where "m1 = put_dentry m nd (s @ [0]) 2 ino"
  note wi = entry(3) [folded ino_def]
  have Lb: "L \<le> 1023 * 4096" using wi L by (simp add: wf_inode_def ino_def)
  have inob: "unat ino < num_inodes m bb" using wi by (simp add: wf_inode_def)
  have "separate bb 4096 nd (max 40 (Suc (length s)))"
    using sep(1) by (auto simp: separate_def image_size_def)
  from read_dentry_by_name_run [OF wf(2,3) this sep(2)]
  have look: "read_dentry_by_name m bb name nd = Some (0, m1)"
    by (simp add: entry m1_def ino_def)
  have same: "same_image m bb m1"
    unfolding m1_def using sep(1) by (intro put_dentry_agree) simp
  have ino1: "load32 m1 (dentry_inode_number nd) = ino"
    by (simp add: m1_def put_dentry_def dentry_inode_number_def load32_store32)
  note F = same_image_facts [OF same wf(1)] same_image_inode(1) [OF same wf(1) inob]
  have wf1: "wf_image m1 bb" "wf_inode m1 bb ino" using F wi by simp_all
  have L1: "L = file_length m1 bb ino" using F(7) by (simp add: L ino_def)
  have isz: "image_size m1 bb = image_size m bb" by (rule F(3))
  have size: "load32 m1 (bb + (ino + 1) * BLOCK_4KB) = word_of_nat L"
    unfolding code_inode_addr by (simp add: L1 file_length_def)
  have uL: "unat (word_of_nat L :: u32) = L" using Lb by (intro unat_u32_of_nat) linarith
  have sep1: "separate bb (Suc (image_size m1 bb)) cb 4096"
    "separate dest (file_length m1 bb ino) cb 4096"
    "separate bb (Suc (image_size m1 bb)) dest (file_length m1 bb ino)"
    using sep by (simp_all add: isz L1 [symmetric])
  have self: "outside cb 4096 dest (file_length m1 bb ino) m1 m1" by (simp add: outside_def)
  have content: "file_content m1 bb ino = file_content m bb ino" by (rule F(6) [OF wi])
  have full: "take L (file_content m1 bb ino) = file_content m bb ino"
    unfolding content by (simp add: L ino_def)
  have goal: "\<exists>m'. loader m bb nd cb dest name = Some (m', []) \<and> outside cb 4096 dest L m1 m' \<and>
      load_bytes m' dest L = file_content m bb ino"
  proof (cases "4096 < L")
    case True
    then have test: "(load32 m1 (bb + (ino + 1) * BLOCK_4KB) > BLOCK_4KB) = True"
      unfolding size by (simp add: word_less_nat_alt uL)
    have pos: "4096 * 0 < file_length m1 bb ino" using True by (simp add: L1 [symmetric])
    obtain k m2 where loop: "loader_loop m1 bb ino cb (word_of_nat L) dest 0 [] =
        (m2, word_of_nat (L - 4096 * k), dest + word_of_nat (4096 * k), word_of_nat k, [])"
      and k: "4096 * k < L" "L - 4096 * k \<le> 4096"
      and out: "outside cb 4096 dest L m1 m2"
      and part: "load_bytes m2 dest (4096 * k) = take (4096 * k) (file_content m1 bb ino)"
      using loader_loop_copies [OF wf1 sep1 pos self, of "[]"] by (auto simp: L1 [symmetric])
    have c: "L - 4096 * k = min 4096 (file_length m1 bb ino - 4096 * k)"
      using k by (simp add: L1 [symmetric])
    note step = load_step [OF wf1 sep1(1,2) k(1) [unfolded L1] c
        outside_agree [OF out [unfolded L1] sep1(1,3)] part]
    obtain m3 where rd: "read_data m2 bb ino (word_of_nat k * BLOCK_4KB) cb (word_of_nat (L - 4096 * k)) =
        (word_of_nat (L - 4096 * k), m3, [])"
      and new: "outside cb 4096 dest L m2 (snd (memcpy m3 (dest + word_of_nat (4096 * k)) cb
          (word_of_nat (L - 4096 * k))))"
        "load_bytes (snd (memcpy m3 (dest + word_of_nat (4096 * k)) cb (word_of_nat (L - 4096 * k))))
          dest (4096 * k + (L - 4096 * k)) = take (4096 * k + (L - 4096 * k)) (file_content m1 bb ino)"
      using step by (auto simp: L1 [symmetric])
    have "loader m bb nd cb dest name = Some (snd (memcpy m3 (dest + word_of_nat (4096 * k)) cb
        (word_of_nat (L - 4096 * k))), [])"
      unfolding loader_def look
      by (simp only: option.case prod.case Let_def ino1 test if_True)
        (simp only: size loop prod.case rd append_Nil)
    moreover have "4096 * k + (L - 4096 * k) = L" using k by simp
    ultimately show ?thesis using outside_trans [OF out new(1)] new(2) full
      by (intro exI conjI) (simp_all only:)
  next
    case False
    then have test: "(load32 m1 (bb + (ino + 1) * BLOCK_4KB) > BLOCK_4KB) = False"
      unfolding size by (simp add: word_less_nat_alt uL)
    have rd: "\<exists>m3. read_data m1 bb ino (0 * BLOCK_4KB) cb (word_of_nat L) = (word_of_nat L, m3, []) \<and>
        outside cb 4096 dest L m1 (snd (memcpy m3 dest cb (word_of_nat L))) \<and>
        load_bytes (snd (memcpy m3 dest cb (word_of_nat L))) dest L = take L (file_content m1 bb ino)"
    proof (cases "L = 0")
      case True
      have rd0: "read_data m1 bb ino (0 * BLOCK_4KB) cb (word_of_nat L) = (0, m1, [])"
        using inob F(1) L1 True by (intro read_data_at_end) simp_all
      have "snd (memcpy m1 dest cb (word_of_nat L)) = m1"
        using memcpy_run [of dest "word_of_nat L" cb m1] separate_sub [OF sep(5), of 0 0] True by simp
      then show ?thesis using rd0 self True by (simp add: outside_def)
    next
      case pos: False
      then have p: "4096 * 0 < file_length m1 bb ino" by (simp add: L1 [symmetric])
      have c: "L = min 4096 (file_length m1 bb ino - 4096 * 0)" using False by (simp add: L1 [symmetric])
      have "same_image m1 bb m1" by simp
      from load_step [OF wf1 sep1(1,2) p c this] show ?thesis by (auto simp: L1 [symmetric])
    qed
    then obtain m3 where rd: "read_data m1 bb ino (0 * BLOCK_4KB) cb (word_of_nat L) = (word_of_nat L, m3, [])"
      and new: "outside cb 4096 dest L m1 (snd (memcpy m3 dest cb (word_of_nat L)))"
        "load_bytes (snd (memcpy m3 dest cb (word_of_nat L))) dest L = take L (file_content m1 bb ino)"
      by blast
    have "loader m bb nd cb dest name = Some (snd (memcpy m3 dest cb (word_of_nat L)), [])"
      unfolding loader_def look
      by (simp only: option.case prod.case Let_def ino1 test if_False)
        (simp only: size rd prod.case)
    with new full show ?thesis by (intro exI conjI) (simp_all only:)
  qed
  then show ?thesis by (auto simp: m1_def ino_def)
qed

end
