(* ===== verification/FsReaders.thy ===== *)
theory FsReaders
  imports FsLoader
begin

text \<open>
  The two drivers of \<^verbatim>\<open>src/file_system.c\<close> that hand out their data piece by piece, \<^verbatim>\<open>read_file\<close>
  and \<^verbatim>\<open>directory_read\<close>, as instances of one interface: a reader with a position, of which
  every call returns the next piece and the calls together return everything.
\<close>

section \<open>The interface of a sequential reader\<close>

locale sequential_reader =
  fixes read_next :: "'s \<Rightarrow> 'a list \<times> 's"
    and rest :: "'s \<Rightarrow> 'a list"
    and ok :: "'s \<Rightarrow> bool"
  assumes split: "ok s \<Longrightarrow> rest s = fst (read_next s) @ rest (snd (read_next s))"
    and keep: "ok s \<Longrightarrow> ok (snd (read_next s))"
    and progress: "ok s \<Longrightarrow> rest s \<noteq> [] \<Longrightarrow> fst (read_next s) \<noteq> []"
begin

primrec drain :: "nat \<Rightarrow> 's \<Rightarrow> 'a list \<times> 's" where
  "drain 0 s = ([], s)"
| "drain (Suc k) s =
     (case drain k (snd (read_next s)) of (xs, s') \<Rightarrow> (fst (read_next s) @ xs, s'))"

lemma drain_split:
  "ok s \<Longrightarrow> rest s = fst (drain k s) @ rest (snd (drain k s)) \<and> ok (snd (drain k s))"
proof (induction k arbitrary: s)
  case (Suc k)
  let ?s = "snd (read_next s)"
  have "rest s = fst (read_next s) @ fst (drain k ?s) @ rest (snd (drain k ?s))"
    by (subst split [OF Suc.prems]) (subst Suc.IH [OF keep [OF Suc.prems], THEN conjunct1], rule refl)
  with Suc.IH [OF keep [OF Suc.prems]] show ?case by (simp add: case_prod_beta)
qed simp

lemma drain_progress:
  "ok s \<Longrightarrow> length (rest (snd (drain k s))) \<le> length (rest s) - k"
proof (induction k arbitrary: s)
  case (Suc k)
  have "length (rest s) = length (fst (read_next s)) + length (rest (snd (read_next s)))"
    by (subst split [OF Suc.prems]) simp
  moreover have "length (rest s) = 0 \<or> 0 < length (fst (read_next s))"
    using progress [OF Suc.prems] by auto
  ultimately have "length (rest (snd (read_next s))) \<le> length (rest s) - 1" by arith
  with Suc.IH [OF keep [OF Suc.prems]] show ?case by (simp add: case_prod_beta)
qed simp

lemma drain_all:
  assumes "ok s" "length (rest s) \<le> k"
  shows "fst (drain k s) = rest s"
  using drain_split [OF assms(1), of k] drain_progress [OF assms(1), of k] assms(2) by auto

end

section \<open>read\_file\<close>

text \<open>What a client sees of one call: the bytes the call reports in its buffer, and the new
  memory and descriptor.\<close>

definition read_file_client ::
    "u32 \<Rightarrow> u32 \<Rightarrow> u32 \<Rightarrow> mem \<times> file_t \<Rightarrow> u8 list \<times> mem \<times> file_t" where
  "read_file_client bb buf n s =
     (case s of (m, fd) \<Rightarrow>
        (case read_file m bb fd buf n of (r, m', fd', _) \<Rightarrow> (load_bytes m' buf (unat r), m', fd')))"

definition file_rest :: "u32 \<Rightarrow> u32 \<Rightarrow> mem \<times> file_t \<Rightarrow> u8 list" where
  "file_rest bb ino s = drop (unat (file_pos (snd s))) (file_content (fst s) bb ino)"

definition file_ok :: "u32 \<Rightarrow> u32 \<Rightarrow> u32 \<Rightarrow> u32 \<Rightarrow> mem \<times> file_t \<Rightarrow> bool" where
  "file_ok bb ino buf n s \<longleftrightarrow>
     wf_image (fst s) bb \<and> wf_inode (fst s) bb ino \<and>
     inode_ptr (snd s) = inode_at bb ino \<and>
     separate bb (Suc (image_size (fst s) bb)) buf (unat n) \<and>
     0 < unat n \<and> 4096 mod unat n = 0 \<and>
     (unat (file_pos (snd s)) mod unat n = 0 \<or>
      unat (file_pos (snd s)) = file_length (fst s) bb ino)"

lemma code_inode_number:
  assumes "wf_image m bb" "unat ino < num_inodes m bb"
  shows "(inode_at bb ino - bb) div BLOCK_4KB - 1 = ino"
proof -
  have "k < num_inodes m bb \<Longrightarrow> 4096 * (k + 1) < 4294967296" for k
    using wf_image_bounds(2) [OF assms(1)] by simp
  note b = this [OF assms(2)]
  have "inode_at bb ino - bb = word_of_nat (4096 * (unat ino + 1))" by (simp add: inode_at_def)
  then have "unat (inode_at bb ino - bb) = 4096 * (unat ino + 1)"
    using unat_u32_of_nat [OF b] by (simp only:)
  then have "(inode_at bb ino - bb) div BLOCK_4KB = word_of_nat (4096 * (unat ino + 1) div 4096)"
    by (simp only: word_split_block)
  then show ?thesis by simp
qed

lemma chunk_in_block:
  assumes "0 < n" "4096 mod n = 0" "p mod n = (0 :: nat)"
  shows "p mod 4096 + n \<le> 4096"
proof -
  have "n dvd 4096" "n dvd p" using assms(2,3) by (simp_all only: dvd_eq_mod_eq_0)
  then obtain a b where b: "4096 = n * b" and a: "p mod 4096 = n * a"
    by (metis dvd_def dvd_mod)
  have "n * a < n * b" using a b mod_less_divisor [of 4096 p] by simp
  then have "a + 1 \<le> b" by simp
  then have "n * (a + 1) \<le> n * b" by (rule mult_le_mono2)
  then show ?thesis using a b by simp
qed

lemma read_file_step:
  assumes ok: "file_ok bb ino buf n (m, fd)"
    and c: "c = min (unat n) (file_length m bb ino - unat (file_pos fd))"
  shows "read_file m bb fd buf n =
    (word_of_nat c, store_bytes m buf (take c (drop (unat (file_pos fd)) (file_content m bb ino))),
     fd\<lparr>file_pos := file_pos fd + word_of_nat c\<rparr>, [])"
proof -
  let ?L = "file_length m bb ino" and ?p = "unat (file_pos fd)"
  note w = ok [unfolded file_ok_def, simplified]
  have ino: "unat ino < num_inodes m bb" using w by (simp add: wf_inode_def)
  have inr: "(inode_ptr fd - bb) div BLOCK_4KB - 1 = ino"
    using w code_inode_number [OF _ ino] by simp
  show ?thesis
  proof (cases "?p < ?L")
    case False
    have "c = 0" using False c by simp
    moreover have "read_data m bb ino (file_pos fd) buf n = (0, m, [])"
      using False ino by (intro read_data_at_end) simp_all
    ultimately show ?thesis by (simp add: read_file_def inr)
  next
    case True
    have L: "?L \<le> 1023 * 4096" using w by (simp add: wf_inode_def)
    have dv: "?p mod unat n = 0" using w True by auto
    have blk: "?p mod 4096 + unat n \<le> 4096" using w dv by (intro chunk_in_block) simp_all
    have cn: "c \<le> unat n" "0 < c" using c True w by auto
    have "unat n + ?p < 4294967296" using blk True L by linarith
    moreover have "c = clip ?L ?p (unat n)" by (simp add: clip_def c)
    moreover have "?p mod 4096 + c \<le> 4096" using blk cn by linarith
    moreover have "separate bb (Suc (image_size m bb)) buf c"
      using separate_sub [of bb "Suc (image_size m bb)" buf "unat n" 0 c] w cn by simp
    ultimately have rd: "read_data m bb ino (file_pos fd) buf n =
        (word_of_nat c, store_bytes m buf (take c (drop ?p (file_content m bb ino))), [])"
      using w True by (intro read_data_in_block) simp_all
    have "sint (word_of_nat c :: u32) = int c" using cn blk by (intro sint_u32_of_nat) linarith
    then have "0 <s (word_of_nat c :: u32)" using cn by (simp add: word_sless_alt)
    with rd show ?thesis by (simp add: read_file_def inr)
  qed
qed

lemma read_file_client_step:
  assumes ok: "file_ok bb ino buf n (m, fd)"
    and c: "c = min (unat n) (file_length m bb ino - unat (file_pos fd))"
  defines "piece \<equiv> take c (drop (unat (file_pos fd)) (file_content m bb ino))"
  shows "read_file_client bb buf n (m, fd) =
      (piece, store_bytes m buf piece, fd\<lparr>file_pos := file_pos fd + word_of_nat c\<rparr>)"
    and "unat (file_pos fd + word_of_nat c) = unat (file_pos fd) + c"
    and "same_image m bb (store_bytes m buf piece)"
proof -
  let ?L = "file_length m bb ino" and ?p = "unat (file_pos fd)"
  note w = ok [unfolded file_ok_def, simplified]
  have L: "?L \<le> 1023 * 4096" using w by (simp add: wf_inode_def)
  have cn: "c \<le> unat n" and cl: "c \<le> ?L - ?p" using c by simp_all
  have uc: "unat (word_of_nat c :: u32) = c" using cl L by (intro unat_u32_of_nat) linarith
  have len: "length piece = c" using c by (simp add: piece_def)
  show "read_file_client bb buf n (m, fd) =
      (piece, store_bytes m buf piece, fd\<lparr>file_pos := file_pos fd + word_of_nat c\<rparr>)"
    using load_store_bytes [of piece m buf] cl L len
    by (simp add: read_file_client_def read_file_step [OF ok c] piece_def [symmetric] uc)
  have "?p + c < 4294967296"
  proof (cases "?p < ?L")
    case True
    with cl L show ?thesis by linarith
  next
    case False
    with cl unat_less_u32 [of "file_pos fd"] show ?thesis by linarith
  qed
  then show "unat (file_pos fd + word_of_nat c) = ?p + c"
    using uc by (simp add: unat_word_ariths)
  show "same_image m bb (store_bytes m buf piece)"
    using separate_sub [of bb "Suc (image_size m bb)" buf "unat n" 0 c] w cn len
    by (intro agree_store_bytes) simp
qed

lemma next_position:
  assumes "p mod n = 0 \<or> p = (L :: nat)"
  shows "(p + min n (L - p)) mod n = 0 \<or> p + min n (L - p) = L"
proof (cases "n \<le> L - p")
  case True
  then show ?thesis using assms by (auto simp: min_absorb1)
next
  case False
  then show ?thesis using assms by (cases "p \<le> L") (auto simp: min_absorb2)
qed

interpretation file_reader: sequential_reader
  "read_file_client bb buf n" "file_rest bb ino" "file_ok bb ino buf n"
  for bb buf n ino
proof
  fix s :: "mem \<times> file_t"
  assume ok: "file_ok bb ino buf n s"
  obtain m fd where s: "s = (m, fd)" by fastforce
  let ?L = "file_length m bb ino" and ?p = "unat (file_pos fd)"
  define c where "c = min (unat n) (?L - ?p)"
  note step = read_file_client_step [OF ok [unfolded s] c_def]
  note w = ok [unfolded file_ok_def s, simplified]
  have ino: "unat ino < num_inodes m bb" using w by (simp add: wf_inode_def)
  from w have wi: "wf_inode m bb ino" and wfm: "wf_image m bb" by simp_all
  note F = same_image_facts [OF step(3) wfm]
    same_image_inode(1) [OF step(3) wfm ino]
  show "file_rest bb ino s = fst (read_file_client bb buf n s) @
      file_rest bb ino (snd (read_file_client bb buf n s))"
    using append_take_drop_id [of c "drop ?p (file_content m bb ino)"]
    by (simp add: s step(1) file_rest_def step(2) F(6) [OF wi] add.commute)
  have "(?p + c) mod unat n = 0 \<or> ?p + c = ?L"
    using w next_position [of ?p "unat n" ?L] by (simp only: c_def)
  then show "file_ok bb ino buf n (snd (read_file_client bb buf n s))"
    using w F by (simp add: s step(1) file_ok_def step(2))
  assume "file_rest bb ino s \<noteq> []"
  then have "?p < ?L" by (simp add: s file_rest_def)
  then show "fst (read_file_client bb buf n s) \<noteq> []"
    using w by (simp add: s step(1) c_def)
qed

section \<open>directory\_read\<close>

definition directory_client ::
    "u32 \<Rightarrow> u32 \<Rightarrow> u32 \<Rightarrow> i32 \<Rightarrow> mem \<times> file_t \<Rightarrow> u8 list list \<times> mem \<times> file_t" where
  "directory_client bb dentry buf n s =
     (case s of (m, fd) \<Rightarrow>
        (case directory_read m bb dentry fd buf n of
           None \<Rightarrow> ([], m, fd)
         | Some (r, m', fd') \<Rightarrow> (if r = 0 then [] else [load_bytes m' buf (unat r)], m', fd')))"

definition directory_rest :: "u32 \<Rightarrow> mem \<times> file_t \<Rightarrow> u8 list list" where
  "directory_rest bb s = map (dir_name (fst s) bb) [unat (file_pos (snd s))..<dir_count (fst s) bb]"

definition directory_ok :: "u32 \<Rightarrow> u32 \<Rightarrow> u32 \<Rightarrow> mem \<times> file_t \<Rightarrow> bool" where
  "directory_ok bb dentry buf s \<longleftrightarrow>
     wf_dir (fst s) bb \<and> [] \<notin> set (map (dir_name (fst s) bb) [0..<dir_count (fst s) bb]) \<and>
     separate bb 4096 dentry 40 \<and> separate bb 4096 buf 33 \<and> separate dentry 40 buf 33 \<and>
     unat (file_pos (snd s)) \<le> dir_count (fst s) bb"

lemma total_entries_count:
  assumes "wf_dir m bb"
  shows "total_entries_num m bb = load32 m bb"
proof -
  have "unat (load32 m bb) < 256" using assms by (simp add: wf_dir_def dir_count_def)
  then have "unat (ucast (ucast (load32 m bb) :: u8) :: u32) = unat (load32 m bb)"
    by (simp add: unsigned_ucast_eq unsigned_take_bit_eq take_bit_nat_eq_self)
  moreover have "(ucast (load32 m bb) :: u8) = m bb"
    using bytes32_load32 [of m bb] by (simp add: bytes32_def numeral_eq_Suc)
  ultimately show ?thesis by (simp add: total_entries_num_def word_unat_eq_iff)
qed

lemma strlen_of_field:
  assumes "length raw < 2147483647"
  shows "strlen (store_bytes m buf (raw @ [0])) buf =
      Some (word_of_nat (length (takeWhile (\<lambda>b. b \<noteq> 0) raw)))" (is ?len)
    and "load_bytes (store_bytes m buf (raw @ [0])) buf (length (takeWhile (\<lambda>b. b \<noteq> 0) raw)) =
      takeWhile (\<lambda>b. b \<noteq> 0) raw" (is ?load)
proof -
  let ?s = "takeWhile (\<lambda>b. b \<noteq> 0) raw" and ?m = "store_bytes m buf (raw @ [0])"
  have k: "length ?s \<le> length raw" by (rule length_takeWhile_le)
  have "load_bytes ?m buf (length (raw @ [0])) = raw @ [0]"
    using assms by (intro load_store_bytes) simp
  then have "take (length ?s) (load_bytes ?m buf (length (raw @ [0]))) = ?s"
    using k by (simp add: takeWhile_eq_take [symmetric])
  moreover have "min (length ?s) (length (raw @ [0])) = length ?s" using k by simp
  ultimately show load: ?load by (simp only: load_bytes_take)
  have "(raw @ [0]) ! length ?s = 0"
  proof (cases "length ?s < length raw")
    case True
    with nth_length_takeWhile [OF this] show ?thesis by (simp add: nth_append)
  next
    case False
    with k show ?thesis by (simp add: nth_append)
  qed
  then have "?m (buf + word_of_nat (length ?s)) = 0"
    using k assms by (subst store_bytes_nth) simp_all
  then have "cstring_at ?m buf ?s"
    using load k assms by (auto simp: cstring_at_def dest: set_takeWhileD)
  then show ?len by (rule strlen_cstring)
qed

lemma directory_read_step:
  assumes ok: "directory_ok bb d buf (m, fd)" and more: "unat (file_pos fd) < dir_count m bb"
  shows "\<exists>m3. directory_read m bb d fd buf n =
      Some (word_of_nat (length (dir_name m bb (unat (file_pos fd)))), m3,
        fd\<lparr>file_pos := file_pos fd + 1\<rparr>) \<and>
    load_bytes m3 buf (length (dir_name m bb (unat (file_pos fd)))) = dir_name m bb (unat (file_pos fd)) \<and>
    agree bb 4096 m m3"
proof -
  let ?i = "unat (file_pos fd)"
  let ?raw = "load_bytes m (dir_entry bb ?i) 32"
  note w = ok [unfolded directory_ok_def, simplified]
  have cnt: "dir_count m bb \<le> 63" using w by (simp add: wf_dir_def)
  define m1 where "m1 = put_dentry m d ?raw (dir_type m bb ?i) (dir_inode m bb ?i)"
  have "read_dentry_by_index m bb (file_pos fd) d = (0, m1)"
    using read_dentry_by_index_run [of m bb d "file_pos fd"] w more by (simp add: m1_def)
  then have idx: "snd (read_dentry_by_index m bb (file_pos fd) d) = m1" by simp
  have "unat d + 40 \<le> 4294967296" using w by (auto simp: separate_def)
  from put_dentry_fields(3) [OF _ this, of ?raw m]
  have field: "load_bytes m1 d 32 = ?raw" by (simp add: m1_def)
  have "separate d 32 buf 33" using separate_sub [of buf 33 d 40 0 32] w by (simp add: separate_sym)
  then have "separate d 32 buf 32" using separate_sub [of d 32 buf 33 0 32] by simp
  then have "separate buf (unat (DIR_BUF_SIZE - 1)) d (unat (DIR_BUF_SIZE - 1))"
    by (simp add: separate_sym)
  from memcpy_run [OF this]
  have copy: "snd (memcpy m1 buf d (DIR_BUF_SIZE - 1)) = store_bytes m1 buf ?raw"
    by (simp add: field)
  have nul: "(store_bytes m1 buf ?raw)(buf + (DIR_BUF_SIZE - 1) := 0) = store_bytes m1 buf (?raw @ [0])"
    by (simp add: store_bytes_snoc)
  have name: "takeWhile (\<lambda>b. b \<noteq> 0) ?raw = dir_name m bb ?i"
    by (simp add: dir_name_def cstr_upto_def)
  have tot: "total_entries_num m bb = load32 m bb" using w by (intro total_entries_count) simp
  have "sint (word_of_nat ?i :: u32) = int ?i"
    "sint (word_of_nat (dir_count m bb) :: u32) = int (dir_count m bb)"
    using more cnt by (intro sint_u32_of_nat; linarith)+
  then have sints: "sint (file_pos fd) = int ?i" "sint (load32 m bb) = int (dir_count m bb)"
    by (simp_all only: of_nat_unat_u32 dir_count_def)
  have test: "(file_pos fd <s load32 m bb) = True" "(file_pos fd = load32 m bb) = False"
    using more by (simp_all only: word_sless_alt sints of_nat_less_iff) (auto simp: dir_count_def)
  have "directory_read m bb d fd buf n = Some (word_of_nat (length (dir_name m bb ?i)),
      store_bytes m1 buf (?raw @ [0]), fd\<lparr>file_pos := file_pos fd + 1\<rparr>)"
    using strlen_of_field(1) [of ?raw m1 buf]
    unfolding directory_read_def Let_def tot test if_True if_False idx dentry_file_name_def copy nul
    by (simp add: name)
  moreover have "load_bytes (store_bytes m1 buf (?raw @ [0])) buf (length (dir_name m bb ?i)) =
      dir_name m bb ?i"
    using strlen_of_field(2) [of ?raw m1 buf] by (simp add: name)
  moreover have "agree bb 4096 m (store_bytes m1 buf (?raw @ [0]))"
    using w unfolding m1_def
    by (intro agree_trans [OF put_dentry_agree agree_store_bytes]) simp_all
  ultimately show ?thesis by blast
qed

lemma agree_dir:
  assumes "agree bb 4096 m m'"
  shows "dir_count m' bb = dir_count m bb" "i < 63 \<Longrightarrow> dir_name m' bb i = dir_name m bb i"
proof -
  show "dir_count m' bb = dir_count m bb"
    using agree_load32_at [OF assms, of 0] by (simp add: dir_count_def)
  assume "i < 63"
  then have "agree (bb + word_of_nat (64 * (i + 1))) 32 m m'" by (intro agree_sub [OF assms]) simp_all
  then show "dir_name m' bb i = dir_name m bb i"
    using agree_load_bytes [of "dir_entry bb i" 32 m m'] by (simp add: dir_name_def cstr_upto_def dir_entry_def)
qed

interpretation directory_reader: sequential_reader
  "directory_client bb d buf n" "directory_rest bb" "directory_ok bb d buf"
  for bb d buf n
proof
  fix s :: "mem \<times> file_t"
  assume ok: "directory_ok bb d buf s"
  obtain m fd where s: "s = (m, fd)" by fastforce
  let ?i = "unat (file_pos fd)"
  note w = ok [unfolded directory_ok_def s, simplified]
  have cnt: "dir_count m bb \<le> 63" using w by (simp add: wf_dir_def)
  have all: "directory_rest bb s = fst (directory_client bb d buf n s) @
      directory_rest bb (snd (directory_client bb d buf n s)) \<and>
    directory_ok bb d buf (snd (directory_client bb d buf n s)) \<and>
    (directory_rest bb s \<noteq> [] \<longrightarrow> fst (directory_client bb d buf n s) \<noteq> [])"
  proof (cases "?i < dir_count m bb")
    case False
    then have "file_pos fd = load32 m bb" using w by (simp add: dir_count_def word_unat_eq_iff)
    moreover have "total_entries_num m bb = load32 m bb" using w by (intro total_entries_count) simp
    ultimately have "directory_client bb d buf n s = ([], s)"
      by (simp add: directory_client_def s directory_read_def Let_def)
    with False ok show ?thesis by (simp add: s directory_rest_def)
  next
    case True
    let ?name = "dir_name m bb ?i"
    obtain m3 where rd: "directory_read m bb d fd buf n =
          Some (word_of_nat (length ?name), m3, fd\<lparr>file_pos := file_pos fd + 1\<rparr>)"
      and ld: "load_bytes m3 buf (length ?name) = ?name" and ag: "agree bb 4096 m m3"
      using directory_read_step [OF ok [unfolded s] True] by blast
    have len: "length ?name \<le> 32" 
      using length_takeWhile_le [of "\<lambda>b. b \<noteq> 0" "load_bytes m (dir_entry bb ?i) 32"]
      by (simp add: dir_name_def cstr_upto_def)
    then have un: "unat (word_of_nat (length ?name) :: u32) = length ?name"
      by (intro unat_u32_of_nat) linarith
    have "?name \<in> dir_name m bb ` {0..<dir_count m bb}" using True by (intro imageI) simp
    then have "?name \<noteq> []" using w by metis
    then have nz: "(word_of_nat (length ?name) :: u32) \<noteq> 0" using un by (metis length_0_conv unat_0)
    have client: "directory_client bb d buf n s = ([?name], m3, fd\<lparr>file_pos := file_pos fd + 1\<rparr>)"
      using nz un ld by (simp add: directory_client_def s rd)
    have "file_pos fd < load32 m bb" using True by (simp add: word_less_nat_alt dir_count_def)
    then have pos: "unat (file_pos fd + 1) = Suc ?i" using unat_plus1_less by fastforce
    have names: "dir_name m3 bb k = dir_name m bb k" if "k < dir_count m bb" for k
      using agree_dir(2) [OF ag, of k] that cnt by simp
    then have "map (dir_name m3 bb) [Suc ?i..<dir_count m bb] = map (dir_name m bb) [Suc ?i..<dir_count m bb]"
      "dir_name m3 bb ` {0..<dir_count m bb} = dir_name m bb ` {0..<dir_count m bb}"
      by simp_all
    moreover have "[?i..<dir_count m bb] = ?i # [Suc ?i..<dir_count m bb]"
      using True by (simp add: upt_rec)
    ultimately show ?thesis
      using w True agree_dir(1) [OF ag]
      by (simp add: client [unfolded s] s directory_rest_def directory_ok_def pos wf_dir_def)
  qed
  from all show "directory_rest bb s = fst (directory_client bb d buf n s) @
      directory_rest bb (snd (directory_client bb d buf n s))"
    "directory_ok bb d buf (snd (directory_client bb d buf n s))"
    "directory_rest bb s \<noteq> [] \<Longrightarrow> fst (directory_client bb d buf n s) \<noteq> []" by blast+
qed

end
