(* ===== verification/FsProperties.thy ===== *)
theory FsProperties
  imports FsReaders
begin

text \<open>
  The properties of the file system of \<^verbatim>\<open>src/file_system.c\<close>, over the facts of \<open>FsImage\<close>,
  \<open>FsLoader\<close> and \<open>FsReaders\<close>, and a small concrete image on which they are applied: two
  directory entries, two inodes and three data blocks at \<open>0x10000\<close>, the file \<^verbatim>\<open>sh\<close> of 5000 bytes
  in the data blocks 2 and 1 (inode 1), and a file of 5000 bytes in the blocks 0 and 1 (inode 0).
\<close>

section \<open>A sample image\<close>

definition sample_image :: mem where
  "sample_image a =
    (if a < 0x13000 then
       if a = 0x10000 then 2 else if a = 0x10004 then 2 else if a = 0x10008 then 3
       else if a = 0x10040 then 0x2E else if a = 0x10060 then 1
       else if a = 0x10080 then 0x73 else if a = 0x10081 then 0x68 else if a = 0x100A0 then 2
       else if a = 0x100A4 then 1
       else if a = 0x11000 then 0x88 else if a = 0x11001 then 0x13 else if a = 0x11008 then 1
       else if a = 0x12000 then 0x88 else if a = 0x12001 then 0x13
       else if a = 0x12004 then 2 else if a = 0x12008 then 1
       else if a = 0x500 then 0x73 else if a = 0x501 then 0x68
       else 0
     else ucast (drop_bit 8 a))"

lemma cstr_upto_numeral:
  "cstr_upto m a (numeral k) = (if m a = 0 then [] else m a # cstr_upto m (a + 1) (pred_numeral k))"
  by (simp add: numeral_eq_Suc cstr_upto_Suc)

lemma upt_2: "[0..<2] = [0, 1]" "{0..<2 :: nat} = {0, 1}"
  by (simp_all add: upt_rec) auto

lemma sample_words:
  "load32 sample_image 0x10000 = 2" "load32 sample_image 0x10004 = 2"
  "load32 sample_image 0x10008 = 3" "load32 sample_image 0x100A0 = 2"
  "load32 sample_image 0x100A4 = 1" "load32 sample_image 0x12000 = 5000"
  "load32 sample_image 0x12004 = 2" "load32 sample_image 0x12008 = 1"
  "load32 sample_image 0x11000 = 5000" "load32 sample_image 0x11004 = 0"
  "load32 sample_image 0x11008 = 1"
  by (simp_all add: load32_def sample_image_def)

lemma sample_sizes:
  "num_inodes sample_image 0x10000 = 2" "num_blocks sample_image 0x10000 = 3"
  "image_size sample_image 0x10000 = 24576" "dir_count sample_image 0x10000 = 2"
  "file_length sample_image 0x10000 1 = 5000"
  "file_length sample_image 0x10000 0 = 5000"
  "block_num sample_image 0x10000 0 0 = 0" "block_num sample_image 0x10000 0 (Suc 0) = 1"
  "block_num sample_image 0x10000 1 0 = 2" "block_num sample_image 0x10000 1 (Suc 0) = 1"
  by (simp_all add: num_inodes_def num_blocks_def image_size_def dir_count_def file_length_def
      inode_at_def block_num_def sample_words)

lemma sample_wf:
  "wf_image sample_image 0x10000" "wf_inode sample_image 0x10000 1" "wf_dir sample_image 0x10000"
  by (simp_all add: wf_image_def wf_inode_def wf_dir_def sample_sizes upt_2 del: One_nat_def)
    (simp_all add: sample_sizes)

lemma sample_entry:
  "dir_name sample_image 0x10000 0 = [0x2E]" "dir_name sample_image 0x10000 (Suc 0) = [0x73, 0x68]"
  "dir_type sample_image 0x10000 (Suc 0) = 2" "dir_inode sample_image 0x10000 (Suc 0) = 1"
  by (simp_all add: dir_name_def dir_type_def dir_inode_def dir_entry_def sample_words
      cstr_upto_numeral sample_image_def)

lemma sample_find:
  "dir_find sample_image 0x10000 [0x73, 0x68] = Some 1"
  by (simp add: dir_find_def sample_sizes upt_2 sample_entry)

lemma sample_name: "cstring_at sample_image 0x500 [0x73, 0x68]"
  by (simp add: cstring_at_def sample_image_def)

lemmas sample_facts = sample_wf sample_sizes sample_entry sample_find sample_name separate_def

section \<open>read\_data\<close>

text \<open>on a well-formed image, \<^verbatim>\<open>read_data\<close> of a range that stays inside one 4 KB block
  returns the requested length cut at the end of the file, puts exactly those bytes of the
  file into the buffer, logs nothing and leaves the image as it was.\<close>

theorem read_data_reads_file:
  assumes "wf_image m bb" "wf_inode m bb ino"
    "unat offset < file_length m bb ino" "unat len + unat offset < 4294967296"
    "L = min (unat len) (file_length m bb ino - unat offset)"
    "unat offset mod 4096 + L \<le> 4096"
    "separate bb (Suc (image_size m bb)) buf L"
  shows "\<exists>m'. read_data m bb ino offset buf len = (word_of_nat L, m', []) \<and>
    load_bytes m' buf L = take L (drop (unat offset) (file_content m bb ino)) \<and>
    file_content m' bb ino = file_content m bb ino"
proof -
  let ?piece = "take L (drop (unat offset) (file_content m bb ino))"
  have len: "length ?piece = L" using assms(5) by simp
  have "L \<le> 4294967296" using assms(7) by (auto simp: separate_def)
  then have "load_bytes (store_bytes m buf ?piece) buf L = ?piece"
    using load_store_bytes [of ?piece m buf] len by simp
  moreover have "same_image m bb (store_bytes m buf ?piece)"
    using assms(7) len by (intro agree_store_bytes) simp
  from same_image_content [OF this assms(1,2)]
  have "file_content (store_bytes m buf ?piece) bb ino = file_content m bb ino" .
  ultimately show ?thesis
    using read_data_in_block [OF assms(1-4) _ assms(6,7)] assms(5) by (simp add: clip_def)
qed

theorem read_data_reads_file_witness:
  "\<exists>m'. read_data sample_image 0x10000 1 4096 0x20000 2000 = (904, m', []) \<and>
    load_bytes m' 0x20000 904 = take 904 (drop 4096 (file_content sample_image 0x10000 1))"
  using read_data_reads_file [where m = sample_image and bb = "0x10000" and ino = 1
      and offset = 4096 and len = 2000 and L = 904 and buf = "0x20000"]
  by (auto simp: sample_facts)

text \<open>C11: what \<^verbatim>\<open>read_data\<close> delivers for any range, across block boundaries included: byte \<open>j\<close>
  of the buffer follows a stride of 4097 bytes per block, because the copying loop moves to
  the next block only after 4097 bytes.\<close>

theorem read_data_stride_exact:
  assumes "wf_image m bb" "unat ino < num_inodes m bb"
    "unat offset < file_length m bb ino" "unat len + unat offset < 4294967296"
    "L = min (unat len) (file_length m bb ino - unat offset)"
    "unat offset div 4096 + (unat offset mod 4096 + L) div 4097 \<le> 1022"
    "\<And>k. k \<le> (unat offset mod 4096 + L) div 4097 \<Longrightarrow>
      block_num m bb ino (unat offset div 4096 + k) < num_blocks m bb"
    "separate bb (Suc (image_size m bb)) buf L"
  shows "read_data m bb ino offset buf len =
    (word_of_nat L, store_bytes m buf (map (\<lambda>q.
        m (block_at m bb (block_num m bb ino (unat offset div 4096 + q div 4097)) + word_of_nat (q mod 4097)))
       [unat offset mod 4096..<unat offset mod 4096 + L]), [])"
  using read_data_stride [OF assms(1-4) _ assms(6-8)] assms(5)
  by (simp add: clip_def stride_byte_def [abs_def])

lemma sample_blocks:
  "k \<le> Suc 0 \<Longrightarrow> block_num sample_image 0x10000 1 k < 3"
  "k \<le> Suc 0 \<Longrightarrow> block_num sample_image 0x10000 0 k = block_num sample_image 0x10000 0 0 + k"
  by (cases k; simp add: sample_sizes)+

theorem read_data_stride_exact_witness:
  "\<exists>m'. read_data sample_image 0x10000 1 0 0x20000 5000 = (word_of_nat 5000, m', []) \<and>
    m' (0x20000 + word_of_nat 4096) = 0x60 \<and> m' (0x20000 + word_of_nat 4097) = 0x40"
proof (intro exI conjI)
  let ?bs = "map (\<lambda>q. sample_image (block_at sample_image 0x10000
      (block_num sample_image 0x10000 1 (unat (0 :: u32) div 4096 + q div 4097)) + word_of_nat (q mod 4097)))
     [unat (0 :: u32) mod 4096..<unat (0 :: u32) mod 4096 + 5000]"
  show "read_data sample_image 0x10000 1 0 0x20000 5000 =
      (word_of_nat 5000, store_bytes sample_image 0x20000 ?bs, [])"
    by (rule read_data_stride_exact) (simp_all add: sample_facts sample_blocks)
  show "store_bytes sample_image 0x20000 ?bs (0x20000 + word_of_nat 4096) = 0x60"
    by (subst store_bytes_nth) (simp_all add: sample_sizes block_at_def sample_image_def)
  show "store_bytes sample_image 0x20000 ?bs (0x20000 + word_of_nat 4097) = 0x40"
    by (subst store_bytes_nth) (simp_all add: sample_sizes block_at_def sample_image_def)
qed

lemma stride_shift: "q = 4097 * d + r \<Longrightarrow> q - d = 4096 * d + (r :: nat)"
  by simp

text \<open>C12: on a file whose blocks are consecutive, a read from the start that crosses block
  boundaries delivers the byte at each boundary twice and shifts everything behind it: byte
  \<open>j\<close> of the buffer is byte \<open>j - j div 4097\<close> of the file.\<close>

theorem read_data_repeats_boundary_bytes:
  assumes "wf_image m bb" "unat ino < num_inodes m bb"
    "0 < L" "L \<le> file_length m bb ino" "L div 4097 \<le> 1022"
    "\<And>k. k \<le> L div 4097 \<Longrightarrow> block_num m bb ino k = block_num m bb ino 0 + k"
    "block_num m bb ino 0 + L div 4097 < num_blocks m bb"
    "separate bb (Suc (image_size m bb)) buf L"
  shows "read_data m bb ino 0 buf (word_of_nat L) =
    (word_of_nat L, store_bytes m buf (map (\<lambda>j. file_byte m bb ino (j - j div 4097)) [0..<L]), [])"
proof -
  have "L < 4294967296" using assms(4) unat_less_u32 [of "load32 m (inode_at bb ino)"]
    by (simp add: file_length_def)
  then have L: "unat (word_of_nat L :: u32) = L" by (rule unat_u32_of_nat)
  have "stride_byte m bb ino 0 q = file_byte m bb ino (q - q div 4097)" if "q < L" for q
  proof (cases "q mod 4097 = 4096")
    case False
    then have small: "q mod 4097 < 4096" using mod_less_divisor [of 4097 q] by linarith
    have "q = 4097 * (q div 4097) + q mod 4097" by simp
    then have "q - q div 4097 = 4096 * (q div 4097) + q mod 4097" by (rule stride_shift)
    then show ?thesis
      using block_div_mod [OF small, of "q div 4097"] by (simp add: stride_byte_def file_byte_def)
  next
    case True
    have "q = 4097 * (q div 4097) + q mod 4097" by simp
    then have "q - q div 4097 = 4096 * (q div 4097) + q mod 4097" by (rule stride_shift)
    then have split: "q - q div 4097 = 4096 * Suc (q div 4097) + 0" unfolding True by simp
    have "Suc (q div 4097) = Suc q div 4097" using Suc_div_mod_stride(1) [OF True] by simp
    also have "\<dots> \<le> L div 4097" using that by (intro div_le_mono) simp
    finally have le: "Suc (q div 4097) \<le> L div 4097" .
    have "block_num m bb ino (Suc (q div 4097)) = Suc (block_num m bb ino (q div 4097))"
      using assms(6) [OF le] assms(6) [of "q div 4097"] le by simp
    moreover have "block_at m bb b + 4096 = block_at m bb (Suc b)" for b
      by (simp add: block_at_def)
    ultimately show ?thesis
      using block_div_mod [of 0 "Suc (q div 4097)"] True
      unfolding split stride_byte_def file_byte_def by simp
  qed
  then have bytes: "map (stride_byte m bb ino 0) [0..<L] =
      map (\<lambda>j. file_byte m bb ino (j - j div 4097)) [0..<L]" by simp
  have "block_num m bb ino k < num_blocks m bb" if "k \<le> L div 4097" for k
    using assms(6) [OF that] assms(7) that by simp
  then show ?thesis
    unfolding bytes [symmetric] using read_data_stride [OF assms(1,2), of 0 "word_of_nat L" L buf] assms(3-5,8) L
      \<open>L < 4294967296\<close> by (simp add: clip_def)
qed

theorem read_data_repeats_boundary_bytes_witness:
  "\<exists>m'. read_data sample_image 0x10000 0 0 0x20000 (word_of_nat 5000) = (word_of_nat 5000, m', []) \<and>
    m' (0x20000 + word_of_nat 4096) = file_byte sample_image 0x10000 0 4096 \<and>
    m' (0x20000 + word_of_nat 4097) = file_byte sample_image 0x10000 0 4096"
proof (intro exI conjI)
  let ?bs = "map (\<lambda>j. file_byte sample_image 0x10000 0 (j - j div 4097)) [0..<5000]"
  show "read_data sample_image 0x10000 0 0 0x20000 (word_of_nat 5000) =
      (word_of_nat 5000, store_bytes sample_image 0x20000 ?bs, [])"
    by (rule read_data_repeats_boundary_bytes) (simp_all add: sample_facts sample_blocks)
  show "store_bytes sample_image 0x20000 ?bs (0x20000 + word_of_nat 4096) =
      file_byte sample_image 0x10000 0 4096"
    by (subst store_bytes_nth) simp_all
  show "store_bytes sample_image 0x20000 ?bs (0x20000 + word_of_nat 4097) =
      file_byte sample_image 0x10000 0 4096"
    by (subst store_bytes_nth) simp_all
qed

section \<open>The directory\<close>

text \<open>C14: \<^verbatim>\<open>read_dentry_by_name\<close> succeeds exactly when some directory entry agrees with the
  wanted name in the first 32 characters; it then fills the caller's entry with the name, the
  type and the inode number (0 for anything but a regular file) of the first such entry.  On
  failure memory is untouched.\<close>

theorem read_dentry_by_name_finds:
  assumes "wf_dir m bb" "cstring_at m fname s" "length s \<le> 32"
    "separate bb 4096 d 40" "separate d 40 fname (Suc (length s))"
  shows "case read_dentry_by_name m bb fname d of
      None \<Rightarrow> False
    | Some (r, m') \<Rightarrow>
        (case find (\<lambda>i. dir_name m bb i = s) [0..<dir_count m bb] of
           None \<Rightarrow> r = - 1 \<and> m' = m
         | Some i \<Rightarrow> r = 0 \<and> load_bytes m' d (length s) = s \<and>
             load32 m' (dentry_file_type d) = dir_type m bb i \<and>
             load32 m' (dentry_inode_number d) = dir_inode m bb i \<and> agree bb 4096 m m')"
proof -
  have d: "separate bb 4096 d (max 40 (Suc (length s)))" "unat d + 40 \<le> 4294967296"
    using assms(3,4) by (auto simp: separate_def max_def)
  have "separate d (Suc (length s)) fname (Suc (length s))"
    using separate_sub [of fname "Suc (length s)" d 40 0 "Suc (length s)"] assms(3,5)
    by (simp add: separate_sym)
  from read_dentry_by_name_run [OF assms(1,2) d(1) this]
  have run: "read_dentry_by_name m bb fname d =
    (case find (\<lambda>i. dir_name m bb i = s) [0..<dir_count m bb] of
       None \<Rightarrow> Some (ERR, m)
     | Some i \<Rightarrow> Some (0, put_dentry m d (s @ [0]) (dir_type m bb i) (dir_inode m bb i)))"
    using assms(3) by (simp add: dir_find_def)
  have name: "load_bytes (put_dentry m d (s @ [0]) ty ino) d (length s) = s" for ty ino
  proof -
    have "take (length s) (load_bytes (put_dentry m d (s @ [0]) ty ino) d (min 32 (length (s @ [0])))) = s"
      using put_dentry_fields(3) [of "s @ [0]" d m ty ino] d(2) assms(3) by simp
    then show ?thesis using assms(3) by (simp only: load_bytes_take) simp
  qed
  have "agree bb 4096 m (put_dentry m d (s @ [0]) ty ino)" for ty ino
    using d(1) by (intro put_dentry_agree) simp
  with name put_dentry_fields(1,2) [of "s @ [0]" d m] assms(3) d(2) show ?thesis
    by (auto simp: run split: option.split)
qed

theorem read_dentry_by_name_finds_witness:
  "\<exists>m'. read_dentry_by_name sample_image 0x10000 0x500 0x20000 = Some (0, m') \<and>
    load_bytes m' 0x20000 (Suc (Suc 0)) = [0x73, 0x68] \<and> load32 m' (dentry_inode_number 0x20000) = 1"
proof -
  have "find (\<lambda>i. dir_name sample_image 0x10000 i = [0x73, 0x68]) [0..<dir_count sample_image 0x10000] =
      Some 1"
    by (simp add: upt_2 sample_sizes sample_entry)
  with read_dentry_by_name_finds [OF sample_wf(3) sample_name, of "0x20000"] show ?thesis
    by (auto simp: separate_def sample_entry split: option.splits)
qed

text \<open>\<^verbatim>\<open>read_dentry_by_index\<close> fails exactly for an index outside the directory, leaving
  memory untouched; otherwise it copies the 32-byte name field, the type and the inode number
  of that entry.\<close>

theorem read_dentry_by_index_copies:
  assumes "wf_dir m bb" "separate bb 4096 d 40"
  shows "if unat index < dir_count m bb
    then \<exists>m'. read_dentry_by_index m bb index d = (0, m') \<and>
      load_bytes m' d 32 = load_bytes m (dir_entry bb (unat index)) 32 \<and>
      load32 m' (dentry_file_type d) = dir_type m bb (unat index) \<and>
      load32 m' (dentry_inode_number d) = dir_inode m bb (unat index) \<and> agree bb 4096 m m'
    else read_dentry_by_index m bb index d = (- 1, m)"
proof -
  let ?raw = "load_bytes m (dir_entry bb (unat index)) 32"
  have "unat d + 40 \<le> 4294967296" using assms(2) by (auto simp: separate_def)
  note put_dentry_fields [of ?raw d m, OF _ this]
  moreover have "agree bb 4096 m (put_dentry m d ?raw ty ino)" for ty ino
    using assms(2) by (intro put_dentry_agree) simp
  ultimately show ?thesis by (simp add: read_dentry_by_index_run [OF assms])
qed

theorem read_dentry_by_index_copies_witness:
  "read_dentry_by_index sample_image 0x10000 2 0x20000 = (- 1, sample_image) \<and>
   fst (read_dentry_by_index sample_image 0x10000 1 0x20000) = 0"
  using read_dentry_by_index_copies [of sample_image "0x10000" "0x20000" 2]
    read_dentry_by_index_copies [of sample_image "0x10000" "0x20000" 1]
  by (auto simp: sample_facts)

section \<open>The loader\<close>

text \<open>C10: for a name the directory knows as a regular file with a well-formed inode, \<^verbatim>\<open>loader\<close>
  returns, with exactly the content of the file at the destination, whatever its length; it
  logs nothing and changes no byte outside the destination, the copy buffer and the entry.\<close>

theorem loader_loads_file:
  assumes "wf_image m bb" "wf_dir m bb" "cstring_at m name s"
    "dir_find m bb s = Some e" "dir_type m bb e = 2" "wf_inode m bb (dir_inode m bb e)"
    "L = file_length m bb (dir_inode m bb e)"
    "separate bb (Suc (image_size m bb)) nd (max 40 (Suc (length s)))"
    "separate nd (Suc (length s)) name (Suc (length s))"
    "separate bb (Suc (image_size m bb)) cb 4096"
    "separate bb (Suc (image_size m bb)) dest L"
    "separate dest L cb 4096"
  shows "\<exists>m'. loader m bb nd cb dest name = Some (m', []) \<and>
    load_bytes m' dest L = file_content m bb (dir_inode m bb e) \<and>
    (\<forall>x. in_region dest L x \<or> in_region cb 4096 x \<or> in_region nd (max 40 (Suc (length s))) x \<or>
       m' x = m x)"
proof -
  obtain m1 m' where run: "loader m bb nd cb dest name = Some (m', [])"
    "m1 = put_dentry m nd (s @ [0]) 2 (dir_inode m bb e)" "outside cb 4096 dest L m1 m'"
    "load_bytes m' dest L = file_content m bb (dir_inode m bb e)"
    using loader_run [OF assms] by blast
  have "in_region nd (max 40 (Suc (length s))) x \<or> m1 x = m x" for x
    using put_dentry_other [of nd "s @ [0]" x m] cstring_at_len [OF assms(3)] by (auto simp: run(2))
  then have "in_region dest L x \<or> in_region cb 4096 x \<or> in_region nd (max 40 (Suc (length s))) x \<or>
      m' x = m x" for x
    using run(3) unfolding outside_def by metis
  with run show ?thesis by blast
qed

theorem loader_loads_file_witness:
  "\<exists>m'. loader sample_image 0x10000 0x20000 0x30000 0x08048000 0x500 = Some (m', []) \<and>
    load_bytes m' 0x08048000 5000 = file_content sample_image 0x10000 1"
  using loader_loads_file [OF sample_wf(1,3) sample_name sample_find, of 5000 "0x20000" "0x30000" "0x08048000"]
  by (auto simp: sample_facts max_def)

section \<open>Reading piece by piece\<close>

text \<open>C13: a client that reads a file from position 0 in pieces of a size that divides the
  block size gets, after enough calls of \<^verbatim>\<open>read_file\<close>, the content of the file, no byte lost,
  repeated or invented: reads of such sizes never cross a block boundary.\<close>

theorem read_file_all:
  assumes "file_ok bb ino buf n (m, fd)" "file_pos fd = 0" "file_length m bb ino \<le> k"
  shows "fst (file_reader.drain bb buf n k (m, fd)) = file_content m bb ino"
  using file_reader.drain_all [OF assms(1), of k] assms(2,3) by (simp add: file_rest_def)

definition sample_fd :: file_t where
  "sample_fd = \<lparr>fop_jump = Some (0, 3), inode_ptr = 0x12000, file_pos = 0, flag = 1\<rparr>"

theorem read_file_all_witness:
  "fst (file_reader.drain 0x10000 0x20000 1024 5000 (sample_image, sample_fd)) =
     file_content sample_image 0x10000 1"
proof (rule read_file_all)
  show "file_ok 0x10000 1 0x20000 1024 (sample_image, sample_fd)"
    by (simp add: file_ok_def sample_facts sample_fd_def inode_at_def)
qed (simp_all add: sample_sizes sample_fd_def)

text \<open>C15: a client that reads a directory from position 0 gets the names of all its entries
  in order, one per call of \<^verbatim>\<open>directory_read\<close>, when every entry has a non-empty name.\<close>

theorem directory_read_all:
  assumes "directory_ok bb d buf (m, fd)" "file_pos fd = 0" "dir_count m bb \<le> k"
  shows "fst (directory_reader.drain bb d buf n k (m, fd)) = map (dir_name m bb) [0..<dir_count m bb]"
  using directory_reader.drain_all [OF assms(1), of k n] assms(2,3) by (simp add: directory_rest_def)

theorem directory_read_all_witness:
  "fst (directory_reader.drain 0x10000 0x20000 0x30000 32 2 (sample_image, sample_fd)) =
     [[0x2E], [0x73, 0x68]]"
proof -
  have "directory_ok 0x10000 0x20000 0x30000 (sample_image, sample_fd)"
    by (simp add: directory_ok_def sample_facts sample_fd_def upt_2)
  from directory_read_all [OF this, of 2 32] show ?thesis
    by (simp add: sample_facts sample_fd_def upt_2)
qed

end
