(* ===== verification/Machine.thy ===== *)
theory Machine
  imports Prelude
begin

text \<open>
  The processor and its ports as the C code sees them: memory, the interrupt flag and the
  trace of all port accesses, oldest first (\<^verbatim>\<open>outb\<close>, \<^verbatim>\<open>inb\<close>, the wider accesses, \<^verbatim>\<open>cli\<close> and
  \<^verbatim>\<open>sti\<close> of \<^verbatim>\<open>src/lib.h\<close>).  The devices behind the ports are not code of the kernel: what a port
  delivers is a parameter \<open>dev\<close>, a function of the accesses so far.  The components extend the
  record with their own variables.
\<close>

datatype io_event = Out u16 u8 | In u16 u8

type_synonym device = "io_event list \<Rightarrow> u16 \<Rightarrow> u8"

record machine =
  ram :: mem
  io :: "io_event list"
  intf :: bool

definition outb :: "u32 \<Rightarrow> u16 \<Rightarrow> 'a machine_scheme \<Rightarrow> 'a machine_scheme" where
  "outb data port s = s\<lparr>io := io s @ [Out port (ucast data)]\<rparr>"

definition inb :: "device \<Rightarrow> u16 \<Rightarrow> 'a machine_scheme \<Rightarrow> u32 \<times> 'a machine_scheme" where
  "inb dev port s =
     (let v = dev (io s) port in (ucast v, s\<lparr>io := io s @ [In port v]\<rparr>))"

definition cli :: "'a machine_scheme \<Rightarrow> 'a machine_scheme" where
  "cli s = s\<lparr>intf := False\<rparr>"

definition sti :: "'a machine_scheme \<Rightarrow> 'a machine_scheme" where
  "sti s = s\<lparr>intf := True\<rparr>"

text \<open>The wider accesses are accesses to consecutive ports, the low byte first.\<close>

definition inw :: "device \<Rightarrow> u16 \<Rightarrow> 'a machine_scheme \<Rightarrow> u32 \<times> 'a machine_scheme" where
  "inw dev port s =
     (let (v0, s) = inb dev port s; (v1, s) = inb dev (port + 1) s in (v0 OR push_bit 8 v1, s))"

definition inl :: "device \<Rightarrow> u16 \<Rightarrow> 'a machine_scheme \<Rightarrow> u32 \<times> 'a machine_scheme" where
  "inl dev port s =
     (let (v0, s) = inw dev port s; (v1, s) = inw dev (port + 2) s in (v0 OR push_bit 16 v1, s))"

definition outw :: "u32 \<Rightarrow> u16 \<Rightarrow> 'a machine_scheme \<Rightarrow> 'a machine_scheme" where
  "outw data port s = outb (drop_bit 8 data) (port + 1) (outb data port s)"

definition outl :: "u32 \<Rightarrow> u16 \<Rightarrow> 'a machine_scheme \<Rightarrow> 'a machine_scheme" where
  "outl data port s = outw (drop_bit 16 data) (port + 2) (outw data port s)"

text \<open>The interrupt flag is bit 9 of the flags register; its other bits are the argument \<open>flags\<close>.\<close>

definition cli_and_save :: "u32 \<Rightarrow> 'a machine_scheme \<Rightarrow> u32 \<times> 'a machine_scheme" where
  "cli_and_save flags s = (if intf s then set_bit 9 flags else unset_bit 9 flags, cli s)"

definition restore_flags :: "u32 \<Rightarrow> 'a machine_scheme \<Rightarrow> 'a machine_scheme" where
  "restore_flags flags s = s\<lparr>intf := bit flags 9\<rparr>"

lemma restore_saved_flags:
  "case cli_and_save flags s of (saved, t) \<Rightarrow> intf t = False \<and> restore_flags saved t = s"
  by (simp add: cli_and_save_def restore_flags_def cli_def bit_simps)

text \<open>The 32-bit shift of the processor: only the low five bits of the count matter.\<close>

definition shl32 :: "u32 \<Rightarrow> u32 \<Rightarrow> u32" where
  "shl32 x n = push_bit (unat (n AND 31)) x"

named_theorems machine_simps \<open>unfoldings of port accesses and of the interrupt flag\<close>

lemmas [machine_simps] = outb_def inb_def cli_def sti_def Let_def

text \<open>The last byte written to a port.\<close>

fun last_out :: "u16 \<Rightarrow> io_event list \<Rightarrow> u8 option" where
  "last_out p [] = None"
| "last_out p (e # es) =
     (case last_out p es of
        Some v \<Rightarrow> Some v
      | None \<Rightarrow> (case e of Out q v \<Rightarrow> if q = p then Some v else None | In q v \<Rightarrow> None))"

lemma last_out_append:
  "last_out p (xs @ ys) = (case last_out p ys of Some v \<Rightarrow> Some v | None \<Rightarrow> last_out p xs)"
  by (induction xs) (auto split: option.splits io_event.splits)

lemma last_out_snoc [simp]:
  "last_out p (xs @ [Out q v]) = (if q = p then Some v else last_out p xs)"
  "last_out p (xs @ [In q v]) = last_out p xs"
  by (simp_all add: last_out_append)

lemma ucast_u8_u32 [simp]: "ucast (ucast (x :: u8) :: u32) = x"
  by (rule bit_word_eqI) (auto simp: bit_simps)

end
