(* ===== verification/I8259.thy ===== *)
theory I8259
  imports Machine
begin

text \<open>
  The driver of the two interrupt controllers, \<^verbatim>\<open>src/i8259.c\<close>: its shadow copies of the two
  mask registers and the routines that program the controllers.  The lemmas relate the shadow
  masks to what the controllers were last told and to the set of enabled interrupt lines.
\<close>

section \<open>The driver\<close>

abbreviation (input) MASTER_8259_CMD :: u16 where "MASTER_8259_CMD \<equiv> 0x20"
abbreviation (input) MASTER_8259_IMR :: u16 where "MASTER_8259_IMR \<equiv> 0x21"
abbreviation (input) SLAVE_8259_CMD :: u16 where "SLAVE_8259_CMD \<equiv> 0xA0"
abbreviation (input) SLAVE_8259_IMR :: u16 where "SLAVE_8259_IMR \<equiv> 0xA1"
abbreviation (input) MASK_ALL :: u32 where "MASK_ALL \<equiv> 0xFF"
abbreviation (input) MASTER_NUM :: u32 where "MASTER_NUM \<equiv> 8"
abbreviation (input) SLAVE_PIC_IRQ :: u32 where "SLAVE_PIC_IRQ \<equiv> 2"
abbreviation (input) ICW1 :: u32 where "ICW1 \<equiv> 0x11"
abbreviation (input) ICW2_MASTER :: u32 where "ICW2_MASTER \<equiv> 0x20"
abbreviation (input) ICW2_SLAVE :: u32 where "ICW2_SLAVE \<equiv> 0x28"
abbreviation (input) ICW3_MASTER :: u32 where "ICW3_MASTER \<equiv> 0x04"
abbreviation (input) ICW3_SLAVE :: u32 where "ICW3_SLAVE \<equiv> 0x02"
abbreviation (input) ICW4 :: u32 where "ICW4 \<equiv> 0x01"
abbreviation (input) EOI :: u32 where "EOI \<equiv> 0x60"

record pic = machine +
  master_mask :: u8
  slave_mask :: u8

definition i8259_init :: "'a pic_scheme \<Rightarrow> 'a pic_scheme" where
  "i8259_init s0 =
     (let s = cli s0;
          s = outb MASK_ALL MASTER_8259_IMR s;
          s = outb MASK_ALL SLAVE_8259_IMR s;
          s = outb ICW1 MASTER_8259_CMD s;
          s = outb ICW2_MASTER MASTER_8259_IMR s;
          s = outb ICW3_MASTER MASTER_8259_IMR s;
          s = outb ICW4 MASTER_8259_IMR s;
          s = outb ICW1 SLAVE_8259_CMD s;
          s = outb ICW2_SLAVE SLAVE_8259_IMR s;
          s = outb ICW3_SLAVE SLAVE_8259_IMR s;
          s = outb ICW4 SLAVE_8259_IMR s;
          s = outb (ucast (master_mask s)) MASTER_8259_IMR s;
          s = outb (ucast (slave_mask s)) SLAVE_8259_IMR s
      in sti s)"

definition enable_irq :: "u32 \<Rightarrow> 'a pic_scheme \<Rightarrow> 'a pic_scheme" where
  "enable_irq irq_num s0 =
     (let s = cli s0
      in if irq_num < MASTER_NUM then
           let mask = ucast (NOT (shl32 1 irq_num));
               s = s\<lparr>master_mask := master_mask s AND mask\<rparr>
           in outb (ucast (master_mask s)) MASTER_8259_IMR s
         else
           let irq_num = irq_num - MASTER_NUM;
               mask = ucast (NOT (shl32 1 irq_num));
               s = s\<lparr>slave_mask := slave_mask s AND mask\<rparr>
           in outb (ucast (slave_mask s)) SLAVE_8259_IMR s)"

definition disable_irq :: "u32 \<Rightarrow> 'a pic_scheme \<Rightarrow> 'a pic_scheme" where
  "disable_irq irq_num s0 =
     (let s = cli s0;
          s = (if irq_num < MASTER_NUM then
                 let mask = ucast (shl32 1 irq_num);
                     s = s\<lparr>master_mask := master_mask s OR mask\<rparr>
                 in outb (ucast (master_mask s)) MASTER_8259_IMR s
               else
                 let irq_num = irq_num - MASTER_NUM;
                     mask = ucast (shl32 1 irq_num);
                     s = s\<lparr>slave_mask := slave_mask s OR mask\<rparr>
                 in outb (ucast (slave_mask s)) SLAVE_8259_IMR s)
      in sti s)"

definition send_eoi :: "u32 \<Rightarrow> 'a pic_scheme \<Rightarrow> 'a pic_scheme" where
  "send_eoi irq_num s0 =
     (let s = cli s0;
          s = (if irq_num < MASTER_NUM then outb (irq_num + EOI) MASTER_8259_CMD s
               else
                 let irq_num = irq_num - MASTER_NUM;
                     s = outb (irq_num + EOI) SLAVE_8259_CMD s
                 in outb (SLAVE_PIC_IRQ + EOI) MASTER_8259_CMD s)
      in sti s)"

section \<open>Lines and masks\<close>

text \<open>Line \<open>k\<close> of the sixteen is enabled when its mask bit is clear.\<close>

definition line_enabled :: "'a pic_scheme \<Rightarrow> nat \<Rightarrow> bool" where
  "line_enabled s k =
     (if k < 8 then \<not> bit (master_mask s) k else \<not> bit (slave_mask s) (k - 8))"

text \<open>The controllers were last told the masks the driver remembers.\<close>

definition masks_written :: "'a pic_scheme \<Rightarrow> bool" where
  "masks_written s \<longleftrightarrow>
     last_out MASTER_8259_IMR (io s) = Some (master_mask s) \<and>
     last_out SLAVE_8259_IMR (io s) = Some (slave_mask s)"

lemma bit_shl1: "n < 8 \<Longrightarrow> bit (ucast (shl32 1 (word_of_nat n)) :: u8) k \<longleftrightarrow> k = n"
proof -
  assume "n < 8"
  then have "n \<in> {0, 1, 2, 3, 4, 5, 6, 7}" by auto
  then have "shl32 1 (word_of_nat n) = push_bit n 1" by (auto simp: shl32_def)
  then show ?thesis using \<open>n < 8\<close> by (auto simp: bit_simps)
qed

lemma bit_not_shl1:
  "n < 8 \<Longrightarrow> k < 8 \<Longrightarrow> bit (ucast (NOT (shl32 1 (word_of_nat n))) :: u8) k \<longleftrightarrow> k \<noteq> n"
proof -
  assume n: "n < 8" and k: "k < 8"
  have "(ucast (NOT x) :: u8) = NOT (ucast x)" for x :: u32
    by (rule bit_word_eqI) (auto simp: bit_simps)
  then show ?thesis using bit_shl1 [OF n, of k] k by (simp add: bit_simps)
qed

lemma irq_master: "n < 16 \<Longrightarrow> (word_of_nat n :: u32) < MASTER_NUM \<longleftrightarrow> n < 8"
  by (simp add: word_less_nat_alt unat_u32_of_nat)

lemma irq_slave: "8 \<le> n \<Longrightarrow> (word_of_nat n - MASTER_NUM :: u32) = word_of_nat (n - 8)"
  by (simp add: of_nat_diff)

lemma enable_irq_line:
  assumes "n < 16" "k < 16"
  shows "line_enabled (enable_irq (word_of_nat n) s) k \<longleftrightarrow> k = n \<or> line_enabled s k"
  using assms bit_not_shl1 [of n k] bit_not_shl1 [of "n - 8" "k - 8"]
  by (auto simp: enable_irq_def line_enabled_def machine_simps irq_master irq_slave bit_and_iff
      simp del: of_nat_diff)

lemma disable_irq_line:
  assumes "n < 16" "k < 16"
  shows "line_enabled (disable_irq (word_of_nat n) s) k \<longleftrightarrow> k \<noteq> n \<and> line_enabled s k"
  using assms bit_shl1 [of n k] bit_shl1 [of "n - 8" "k - 8"]
  by (auto simp: disable_irq_def line_enabled_def machine_simps irq_master irq_slave bit_or_iff
      simp del: of_nat_diff)

lemma send_eoi_line [simp]: "line_enabled (send_eoi n s) k = line_enabled s k"
  by (simp add: send_eoi_def line_enabled_def machine_simps)

lemma enable_irq_written: "masks_written s \<Longrightarrow> masks_written (enable_irq n s)"
  by (simp add: masks_written_def enable_irq_def machine_simps last_out_append)

lemma disable_irq_written: "masks_written s \<Longrightarrow> masks_written (disable_irq n s)"
  by (simp add: masks_written_def disable_irq_def machine_simps last_out_append)

lemma send_eoi_written: "masks_written s \<Longrightarrow> masks_written (send_eoi n s)"
  by (simp add: masks_written_def send_eoi_def machine_simps last_out_append)

lemma i8259_init_written: "masks_written (i8259_init s)"
  by (simp add: masks_written_def i8259_init_def machine_simps last_out_append)

lemmas masks_written_intros =
  enable_irq_written disable_irq_written send_eoi_written i8259_init_written

lemma pic_ram [simp]:
  "ram (enable_irq n s) = ram s" "ram (disable_irq n s) = ram s" "ram (send_eoi n s) = ram s"
  "ram (i8259_init s) = ram s"
  by (simp_all add: enable_irq_def disable_irq_def send_eoi_def i8259_init_def machine_simps)

lemma pic_intf [simp]:
  "intf (enable_irq n s) = False" "intf (disable_irq n s) = True" "intf (send_eoi n s) = True"
  "intf (i8259_init s) = True"
  by (simp_all add: enable_irq_def disable_irq_def send_eoi_def i8259_init_def machine_simps)

lemma pic_more [simp]:
  "pic.more (enable_irq n s) = pic.more s" "pic.more (disable_irq n s) = pic.more s"
  "pic.more (send_eoi n s) = pic.more s" "pic.more (i8259_init s) = pic.more s"
  by (simp_all add: enable_irq_def disable_irq_def send_eoi_def i8259_init_def machine_simps)

end
