(* ===== verification/Irq.thy ===== *)
theory Irq
  imports I8259
begin

text \<open>
  The interrupt dispatcher \<^verbatim>\<open>src/irq.c\<close> with its table of handlers.  What the
  dispatcher does to the interrupt lines is derived once from the laws of
  enabling and disabling a line, and those laws are discharged for the driver of \<open>I8259\<close>.
\<close>

section \<open>The interface of a set of interrupt lines\<close>

locale irq_lines =
  fixes enable disable :: "u32 \<Rightarrow> 's \<Rightarrow> 's"
    and enabled :: "'s \<Rightarrow> nat \<Rightarrow> bool"
  assumes enable_law: "n < 16 \<Longrightarrow> k < 16 \<Longrightarrow> enabled (enable (word_of_nat n) s) k = (k = n \<or> enabled s k)"
    and disable_law: "n < 16 \<Longrightarrow> k < 16 \<Longrightarrow> enabled (disable (word_of_nat n) s) k = (k \<noteq> n \<and> enabled s k)"
begin

lemma bracket:
  assumes "n < 16" "k < 16" and "enabled t k = enabled (disable (word_of_nat n) s) k"
  shows "enabled (enable (word_of_nat n) t) k = (k = n \<or> enabled s k)"
  using assms by (simp add: enable_law disable_law) blast

lemma enable_all:
  assumes "k < 16" "\<forall>n\<in>set ns. n < 16"
  shows "enabled (fold (\<lambda>n. enable (word_of_nat n)) ns s) k = (k \<in> set ns \<or> enabled s k)"
  using assms(2)
proof (induction ns arbitrary: s)
  case (Cons n ns)
  then show ?case using assms(1) by (auto simp: enable_law)
qed simp

end

interpretation pic_lines: irq_lines enable_irq disable_irq line_enabled
  by unfold_locales (simp_all add: enable_irq_line disable_irq_line)

section \<open>The dispatcher\<close>

text \<open>The handlers the kernel installs, by name: a \<^verbatim>\<open>do_irq\<close> pointer is one of them or null.\<close>

datatype do_irq = Pit_handler | Kb_handler | Rtc_handler

text \<open>The registers the entry stubs of \<^verbatim>\<open>idt_gate.S\<close> leave on the stack.\<close>

record stack_register =
  r_gs :: u16
  r_fs :: u16
  r_es :: u16
  r_ds :: u16
  r_edi :: u32
  r_esi :: u32
  r_ebp :: u32
  r_esp :: u32
  r_edx :: u32
  r_ecx :: u32
  r_ebx :: u32
  r_eax :: u32
  interrupt_num :: u32
  error_code :: u32

record irqs = pic +
  irq_handler :: "do_irq option list"

text \<open>An index outside the sixteen entries of the table calls whatever word lies there, and a
  handler that does not return never gives a state: both are \<open>None\<close>.  \<open>call\<close> runs a handler.\<close>

definition interrupt_handler ::
    "(do_irq \<Rightarrow> stack_register \<Rightarrow> 'a irqs_scheme \<Rightarrow> 'a irqs_scheme option) \<Rightarrow>
     stack_register \<Rightarrow> 'a irqs_scheme \<Rightarrow> 'a irqs_scheme option" where
  "interrupt_handler call reg s =
     (let irq_num = - 1 * interrupt_num reg - 1
      in if unat irq_num < length (irq_handler s) then
           let handler = irq_handler s ! unat irq_num;
               s1 = disable_irq irq_num s;
               s2 = send_eoi irq_num s1
           in map_option (enable_irq irq_num)
                (case handler of None \<Rightarrow> Some s2 | Some h \<Rightarrow> call h reg s2)
         else None)"

definition set_interrupt :: "u32 \<Rightarrow> do_irq \<Rightarrow> 'a irqs_scheme \<Rightarrow> 'a irqs_scheme option" where
  "set_interrupt irq_num handler s0 =
     (let s = cli s0
      in if unat irq_num < length (irq_handler s) then
           let s = s\<lparr>irq_handler := (irq_handler s)[unat irq_num := Some handler]\<rparr>;
               s = enable_irq irq_num s
           in Some (sti s)
         else None)"

definition unset_interrupt :: "u32 \<Rightarrow> 'a irqs_scheme \<Rightarrow> 'a irqs_scheme option" where
  "unset_interrupt irq_num s0 =
     (let s = cli s0
      in if unat irq_num < length (irq_handler s) then
           let s = s\<lparr>irq_handler := (irq_handler s)[unat irq_num := None]\<rparr>;
               s = disable_irq irq_num s
           in Some (sti s)
         else None)"

section \<open>What dispatching does\<close>

text \<open>The entry stub of line \<open>n\<close> pushes \<open>- (n + 1)\<close>.\<close>

definition stub_number :: "nat \<Rightarrow> u32" where
  "stub_number n = - word_of_nat (n + 1)"

lemma irq_number: "- 1 * stub_number n - 1 = word_of_nat n"
  by (simp add: stub_number_def)

lemma line_enabled_update [simp]:
  "line_enabled (irq_handler_update f s) k = line_enabled s k"
  "line_enabled (cli s) k = line_enabled s k" "line_enabled (sti s) k = line_enabled s k"
  by (simp_all add: line_enabled_def cli_def sti_def)

lemma irq_handler_pic [simp]:
  "irq_handler (enable_irq n s) = irq_handler s" "irq_handler (disable_irq n s) = irq_handler s"
  "irq_handler (send_eoi n s) = irq_handler s" "irq_handler (cli s) = irq_handler s"
  "irq_handler (sti s) = irq_handler s"
  by (simp_all add: enable_irq_def disable_irq_def send_eoi_def machine_simps)

lemma masks_written_update [simp]:
  "masks_written (irq_handler_update f s) = masks_written s"
  "masks_written (cli s) = masks_written s" "masks_written (sti s) = masks_written s"
  by (simp_all add: masks_written_def cli_def sti_def)

lemma interrupt_handler_run:
  assumes "interrupt_num reg = stub_number n" "n < length (irq_handler s)" "n < 16"
  shows "interrupt_handler call reg s =
    map_option (enable_irq (word_of_nat n))
      (case irq_handler s ! n of
         None \<Rightarrow> Some (send_eoi (word_of_nat n) (disable_irq (word_of_nat n) s))
       | Some h \<Rightarrow> call h reg (send_eoi (word_of_nat n) (disable_irq (word_of_nat n) s)))"
proof -
  have u: "unat (word_of_nat n :: u32) = n" using assms(3) by (intro unat_u32_of_nat) simp
  show ?thesis
    unfolding interrupt_handler_def Let_def assms(1) irq_number u using assms(2) by simp
qed

section \<open>The promises of the controllers and the dispatcher\<close>

text \<open>enabling or disabling one of the sixteen lines changes exactly that line, on
  whichever controller it lies; an end-of-interrupt changes none.\<close>

theorem irq_masks:
  assumes "n < 16" "k < 16"
  shows "line_enabled (enable_irq (word_of_nat n) s) k = (k = n \<or> line_enabled s k) \<and>
    line_enabled (disable_irq (word_of_nat n) s) k = (k \<noteq> n \<and> line_enabled s k) \<and>
    line_enabled (send_eoi (word_of_nat n) s) k = line_enabled s k"
  by (simp add: pic_lines.enable_law [OF assms] pic_lines.disable_law [OF assms])

definition sample_irqs :: irqs where
  "sample_irqs = \<lparr>ram = (\<lambda>_. 0), io = [], intf = True, master_mask = 0xFD, slave_mask = 0xFF,
     irq_handler = (replicate 16 None)[1 := Some Kb_handler, 8 := Some Rtc_handler]\<rparr>"

theorem irq_masks_witness:
  "line_enabled (enable_irq (word_of_nat 8) sample_irqs) 8 \<and>
   \<not> line_enabled (enable_irq (word_of_nat 8) sample_irqs) 0 \<and>
   \<not> line_enabled (disable_irq (word_of_nat 1) sample_irqs) 1"
  using irq_masks [of 8 8 sample_irqs] irq_masks [of 8 0 sample_irqs] irq_masks [of 1 1 sample_irqs]
  by (simp add: line_enabled_def sample_irqs_def)

text \<open>the driver's shadow masks are what the two controllers were last told: initialising
  establishes it from any state, and every routine that touches the controllers preserves it.\<close>

theorem shadow_masks_in_step:
  assumes "masks_written (s :: 'a irqs_scheme)"
  shows "masks_written (i8259_init t) \<and> masks_written (enable_irq n s) \<and>
    masks_written (disable_irq n s) \<and> masks_written (send_eoi n s) \<and>
    pred_option masks_written (set_interrupt n h s) \<and> pred_option masks_written (unset_interrupt n s)"
  using assms by (auto simp: masks_written_intros set_interrupt_def unset_interrupt_def Let_def)

theorem shadow_masks_in_step_witness:
  "masks_written (disable_irq 12 (i8259_init sample_irqs)) \<and>
   pred_option masks_written (set_interrupt 1 Kb_handler (i8259_init sample_irqs))"
  using shadow_masks_in_step [OF i8259_init_written [of sample_irqs]] by blast

text \<open>when the stub of line \<open>n\<close> enters the dispatcher, it finds line \<open>n\<close> again from the
  negated number on the stack, runs the installed handler with line \<open>n\<close> masked and
  acknowledged, and afterwards exactly the lines that the handler left enabled and line \<open>n\<close>
  itself are enabled; with no handler it only acknowledges.\<close>

theorem interrupt_dispatch:
  assumes "n < 16" "length (irq_handler s) = 16" "interrupt_num reg = stub_number n"
    and "\<And>h t t'. call h reg t = Some t' \<Longrightarrow> k < 16 \<Longrightarrow> line_enabled t' k = line_enabled t k"
    and "interrupt_handler call reg s = Some s'" "k < 16"
  shows "line_enabled s' k = (k = n \<or> line_enabled s k) \<and> intf s' = False \<and>
    (irq_handler s ! n = None \<longrightarrow>
      s' = enable_irq (word_of_nat n) (send_eoi (word_of_nat n) (disable_irq (word_of_nat n) s)))"
proof -
  let ?s2 = "send_eoi (word_of_nat n) (disable_irq (word_of_nat n) s)"
  have n: "n < length (irq_handler s)" using assms(1,2) by simp
  obtain t where t: "(case irq_handler s ! n of None \<Rightarrow> Some ?s2 | Some h \<Rightarrow> call h reg ?s2) = Some t"
    and s': "s' = enable_irq (word_of_nat n) t"
    using assms(5) interrupt_handler_run [OF assms(3) n assms(1)] by auto
  have "line_enabled t k = line_enabled (disable_irq (word_of_nat n) s) k"
    using t assms(4) [OF _ assms(6)] by (auto split: option.splits)
  from pic_lines.bracket [OF assms(1,6) this] t s' show ?thesis by (auto split: option.splits)
qed

definition sample_reg :: "u32 \<Rightarrow> stack_register" where
  "sample_reg num = \<lparr>r_gs = 0, r_fs = 0, r_es = 0, r_ds = 0, r_edi = 0, r_esi = 0, r_ebp = 0, r_esp = 0,
     r_edx = 0, r_ecx = 0, r_ebx = 0, r_eax = 0, interrupt_num = num, error_code = 0\<rparr>"

theorem interrupt_dispatch_witness:
  "\<exists>s'. interrupt_handler (\<lambda>h reg t. Some t) (sample_reg 0xFFFFFFF7) sample_irqs = Some s' \<and>
    line_enabled s' 8 \<and> line_enabled s' 1"
proof -
  let ?call = "\<lambda>h reg t. Some t" and ?reg = "sample_reg 0xFFFFFFF7"
  have stub: "interrupt_num ?reg = stub_number 8" by (simp add: sample_reg_def stub_number_def)
  have len: "length (irq_handler sample_irqs) = 16" by (simp add: sample_irqs_def)
  obtain s' where s': "interrupt_handler ?call ?reg sample_irqs = Some s'"
    using interrupt_handler_run [OF stub, of sample_irqs ?call] len by (auto split: option.splits)
  have keep: "?call h ?reg t = Some t' \<Longrightarrow> k < 16 \<Longrightarrow> line_enabled t' k = line_enabled t k" for h t t' k
    by simp
  have "line_enabled sample_irqs 1" by (simp add: line_enabled_def sample_irqs_def)
  then show ?thesis
    using interrupt_dispatch [OF _ len stub keep s', of 8] interrupt_dispatch [OF _ len stub keep s', of 1] s'
    by auto
qed

end
