(* ===== verification/Idt.thy ===== *)
theory Idt
  imports Prelude
begin

text \<open>
  The interrupt descriptor table of \<^verbatim>\<open>src/idt.c\<close>: the bit fields of a descriptor
  (\<^verbatim>\<open>idt_desc_t\<close> of \<^verbatim>\<open>src/x86_desc.h\<close>), the routine that fills one, and the installation of
  all gates.  The addresses of the entry stubs are assembled by the linker: they are a
  parameter \<open>addr\<close>.  The two words of a descriptor are then read the way the processor
  reads a gate.
\<close>

section \<open>Descriptors\<close>

datatype entry_stub = Exception_num nat | Interrupt_num nat | System_call

record idt_desc =
  offset_15_00 :: u16
  seg_selector :: u16
  reserved4 :: u8
  reserved3 :: u1
  reserved2 :: u1
  reserved1 :: u1
  gate_size :: u1
  reserved0 :: u1
  dpl :: "2 word"
  present :: u1
  offset_31_16 :: u16

abbreviation (input) KERNEL_CS :: u16 where "KERNEL_CS \<equiv> 0x10"
abbreviation (input) USER_MODE :: i32 where "USER_MODE \<equiv> 3"

text \<open>The union's other view, \<^verbatim>\<open>val\<close>: the packed bit fields from the lowest bit up.\<close>

definition idt_val0 :: "idt_desc \<Rightarrow> u32" where
  "idt_val0 d = ucast (offset_15_00 d) OR push_bit 16 (ucast (seg_selector d))"

definition idt_val1 :: "idt_desc \<Rightarrow> u32" where
  "idt_val1 d =
     ucast (reserved4 d) OR push_bit 8 (ucast (reserved3 d)) OR push_bit 9 (ucast (reserved2 d)) OR
     push_bit 10 (ucast (reserved1 d)) OR push_bit 11 (ucast (gate_size d)) OR
     push_bit 12 (ucast (reserved0 d)) OR push_bit 13 (ucast (dpl d)) OR
     push_bit 15 (ucast (present d)) OR push_bit 16 (ucast (offset_31_16 d))"

text \<open>\<^verbatim>\<open>SET_IDT_ENTRY\<close>.\<close>

definition SET_IDT_ENTRY :: "idt_desc \<Rightarrow> u32 \<Rightarrow> idt_desc" where
  "SET_IDT_ENTRY d handler =
     d\<lparr>offset_31_16 := ucast (drop_bit 16 (handler AND 0xFFFF0000)),
       offset_15_00 := ucast (handler AND 0xFFFF)\<rparr>"

definition set_idt_gate ::
    "(nat \<Rightarrow> idt_desc) \<Rightarrow> nat \<Rightarrow> u32 \<Rightarrow> u16 \<Rightarrow> i32 \<Rightarrow> i32 \<Rightarrow> nat \<Rightarrow> idt_desc" where
  "set_idt_gate idt num handler seg size_flag dpl_val =
     (let d = (idt num)\<lparr>reserved4 := 0, reserved3 := 0, reserved2 := 1, reserved1 := 1,
                 reserved0 := 0, present := 1\<rparr>;
          d = SET_IDT_ENTRY d handler;
          d = d\<lparr>gate_size := ucast size_flag, dpl := ucast dpl_val, seg_selector := seg\<rparr>
      in idt(num := d))"

text \<open>The calls of \<^verbatim>\<open>install_idt\<close>, in order: vectors 0 to 31 for the exceptions, 32 to 47 for the
  interrupt lines, \<^verbatim>\<open>0x80\<close> for the system call.\<close>

definition gate_calls :: "(nat \<times> entry_stub \<times> i32) list" where
  "gate_calls =
     map (\<lambda>n. (n, Exception_num n, 0)) [0..<32] @
     map (\<lambda>n. (32 + n, Interrupt_num n, 0)) [0..<16] @
     [(0x80, System_call, USER_MODE)]"

definition install_idt :: "(entry_stub \<Rightarrow> u32) \<Rightarrow> (nat \<Rightarrow> idt_desc) \<Rightarrow> nat \<Rightarrow> idt_desc" where
  "install_idt addr idt =
     foldl (\<lambda>idt (num, stub, dpl_val). set_idt_gate idt num (addr stub) KERNEL_CS 1 dpl_val)
       idt gate_calls"

section \<open>How the processor reads a gate\<close>

definition gate_offset :: "u32 \<Rightarrow> u32 \<Rightarrow> u32" where
  "gate_offset v0 v1 = (v1 AND 0xFFFF0000) OR (v0 AND 0xFFFF)"

definition gate_selector :: "u32 \<Rightarrow> u32" where
  "gate_selector v0 = drop_bit 16 v0"

definition gate_attributes :: "u32 \<Rightarrow> u32" where
  "gate_attributes v1 = v1 AND 0xFFFF"

text \<open>Present, the privilege level, and type \<open>0xE\<close>: a 32-bit interrupt gate.\<close>

definition interrupt_gate :: "u32 \<Rightarrow> u32" where
  "interrupt_gate dpl_val = 0x8E00 OR push_bit 13 dpl_val"

lemma half_masks: "(0xFFFF :: u32) = mask 16" "(0xFFFF0000 :: u32) = push_bit 16 (mask 16)"
  by (simp_all add: mask_eq_exp_minus_1 push_bit_eq_mult)

lemma half_words:
  "push_bit 16 (x :: u32) AND 0xFFFF = 0" "push_bit 16 (x :: u32) AND 0xFFFF0000 = push_bit 16 x"
  "drop_bit 16 ((x :: u32) AND 0xFFFF) = 0"
  unfolding half_masks by (rule bit_word_eqI; auto simp: bit_simps)+

lemma high_half: "push_bit 16 (ucast (ucast (drop_bit 16 (h AND 0xFFFF0000)) :: u16)) = (h AND 0xFFFF0000 :: u32)"
  unfolding half_masks by (rule bit_word_eqI) (auto simp: bit_simps dest: bit_imp_le_length)

lemma low_half: "ucast (ucast (h AND 0xFFFF) :: u16) = (h AND 0xFFFF :: u32)"
  unfolding half_masks by (rule bit_word_eqI) (auto simp: bit_simps)

lemma join_halves: "(h AND 0xFFFF0000) OR (h AND 0xFFFF) = (h :: u32)"
  unfolding half_masks by (rule bit_word_eqI) (auto simp: bit_simps)

lemma high_half_masks:
  "(h AND 0xFFFF0000) AND 0xFFFF = (0 :: u32)" "(h AND 0xFFFF) AND 0xFFFF0000 = (0 :: u32)"
  unfolding half_masks by (rule bit_word_eqI; auto simp: bit_simps)+

lemma set_idt_gate_val0:
  "idt_val0 (set_idt_gate idt n h 0x10 sz dp n) = (h AND 0xFFFF) OR push_bit 16 0x10"
  by (simp add: idt_val0_def set_idt_gate_def SET_IDT_ENTRY_def Let_def low_half)

lemma set_idt_gate_val1:
  assumes "dp = 0 \<or> dp = 3"
  shows "idt_val1 (set_idt_gate idt n h seg 1 dp n) = interrupt_gate dp OR (h AND 0xFFFF0000)"
proof -
  define x :: u16 where "x = ucast (drop_bit 16 (h AND 0xFFFF0000))"
  have "idt_val1 (set_idt_gate idt n h seg 1 dp n) = interrupt_gate dp OR push_bit 16 (ucast x)"
    unfolding set_idt_gate_def SET_IDT_ENTRY_def idt_val1_def Let_def x_def [symmetric]
    using assms by (auto simp: interrupt_gate_def simp flip: or.assoc)
  then show ?thesis unfolding x_def high_half .
qed

lemma gate_decode:
  assumes "dp = 0 \<or> dp = 3"
  shows "gate_offset ((h AND 0xFFFF) OR push_bit 16 0x10) (interrupt_gate dp OR (h AND 0xFFFF0000)) = h"
    "gate_selector ((h AND 0xFFFF) OR push_bit 16 0x10) = 0x10"
    "gate_attributes (interrupt_gate dp OR (h AND 0xFFFF0000)) = interrupt_gate dp"
proof -
  have low: "interrupt_gate dp AND 0xFFFF0000 = 0" "interrupt_gate dp AND 0xFFFF = interrupt_gate dp"
    using assms by (auto simp: interrupt_gate_def)
  show "gate_offset ((h AND 0xFFFF) OR push_bit 16 0x10) (interrupt_gate dp OR (h AND 0xFFFF0000)) = h"
    unfolding gate_offset_def bit.conj_disj_distrib2 low half_words and.assoc and.idem
    by (simp only: join_halves or.left_neutral or.right_neutral)
  show "gate_selector ((h AND 0xFFFF) OR push_bit 16 0x10) = 0x10"
    unfolding gate_selector_def drop_bit_or half_words by simp
  show "gate_attributes (interrupt_gate dp OR (h AND 0xFFFF0000)) = interrupt_gate dp"
    unfolding gate_attributes_def bit.conj_disj_distrib2 low high_half_masks by simp
qed

lemma foldl_gates_other:
  "num \<notin> set (map fst cs) \<Longrightarrow>
     foldl (\<lambda>idt (num, stub, d). set_idt_gate idt num (addr stub) KERNEL_CS 1 d) idt cs num = idt num"
  by (induction cs arbitrary: idt) (auto simp: set_idt_gate_def Let_def)

lemma foldl_gates:
  assumes "distinct (map fst cs)" "(num, stub, d) \<in> set cs"
  shows "\<exists>idt'. foldl (\<lambda>idt (num, stub, d). set_idt_gate idt num (addr stub) KERNEL_CS 1 d) idt cs num =
    set_idt_gate idt' num (addr stub) KERNEL_CS 1 d num"
  using assms
proof (induction cs arbitrary: idt)
  case (Cons c cs)
  show ?case
  proof (cases "c = (num, stub, d)")
    case True
    with Cons.prems have "num \<notin> set (map fst cs)" by auto
    from foldl_gates_other [OF this] True show ?thesis by auto
  next
    case False
    with Cons show ?thesis by auto
  qed
qed simp

lemma distinct_gate_calls: "distinct (map fst gate_calls)"
  by (simp add: gate_calls_def distinct_map inj_on_def comp_def)

text \<open>C35: after \<^verbatim>\<open>install_idt\<close> every vector it names is, as the processor reads the two words of
  its descriptor, a present 32-bit interrupt gate in the kernel's code segment that leads to
  its own entry stub; only the system call gate may be used from user mode, and no other
  vector is touched.\<close>

theorem install_idt_gates:
  assumes "(num, stub, d) \<in> set gate_calls"
  shows "gate_offset (idt_val0 (install_idt addr idt num)) (idt_val1 (install_idt addr idt num)) = addr stub \<and>
    gate_selector (idt_val0 (install_idt addr idt num)) = 0x10 \<and>
    gate_attributes (idt_val1 (install_idt addr idt num)) = interrupt_gate (if num = 0x80 then 3 else 0) \<and>
    (num' \<notin> set (map fst gate_calls) \<longrightarrow> install_idt addr idt num' = idt num')"
proof -
  obtain idt' where g: "install_idt addr idt num = set_idt_gate idt' num (addr stub) KERNEL_CS 1 d num"
    using foldl_gates [OF distinct_gate_calls assms] unfolding install_idt_def by blast
  have d: "d = (if num = 0x80 then 3 else 0)" using assms by (auto simp: gate_calls_def)
  have "d = 0 \<or> d = 3" using d by auto
  note dec = gate_decode [OF this] set_idt_gate_val1 [OF this]
  show ?thesis
    unfolding g set_idt_gate_val0 dec
    using foldl_gates_other [of num' gate_calls addr idt] by (auto simp: d install_idt_def)
qed

definition sample_desc :: idt_desc where
  "sample_desc = \<lparr>offset_15_00 = 0xFFFF, seg_selector = 0, reserved4 = 1, reserved3 = 1, reserved2 = 0,
     reserved1 = 0, gate_size = 0, reserved0 = 1, dpl = 1, present = 0, offset_31_16 = 0xFFFF\<rparr>"

theorem install_idt_gates_witness:
  "gate_offset (idt_val0 (install_idt (\<lambda>_. 0x401234) (\<lambda>_. sample_desc) 0x80))
     (idt_val1 (install_idt (\<lambda>_. 0x401234) (\<lambda>_. sample_desc) 0x80)) = 0x401234"
  using install_idt_gates [of 128 System_call 3 "\<lambda>_. 0x401234" "\<lambda>_. sample_desc"]
  by (simp add: gate_calls_def)

end
