(* ===== verification/Paging.thy ===== *)
theory Paging
  imports Irq
begin

text \<open>
  The paging structures of \<^verbatim>\<open>src/paging.c\<close>: ten page directories, each with one table for the
  first 4 MB and one for the user's video pages, filled by \<^verbatim>\<open>set_paging\<close> and \<^verbatim>\<open>map_page\<close>, and
  the control registers.  CR3 holds the index of the page directory it points to; the
  addresses of the tables come from the linker and are parameters.  The page walk of the
  processor is then compared with the address space the kernel is meant to have.
  \<^verbatim>\<open>remap_page\<close> and \<^verbatim>\<open>restore_page\<close> follow in \<open>Syscall\<close>, as they read the process table.
\<close>

section \<open>Entries\<close>

record pde =
  P :: u1
  R_W :: u1
  U_S :: u1
  PWT :: u1
  PCD :: u1
  A :: u1
  zero :: u1
  PS :: u1
  G :: u1
  avail :: "3 word"
  base_address :: u20

text \<open>A \<^verbatim>\<open>pte\<close> has the same layout, with \<^verbatim>\<open>D\<close> and \<^verbatim>\<open>PAT\<close> in the places of \<^verbatim>\<open>zero\<close> and \<^verbatim>\<open>PS\<close>; the
  kernel never writes either.\<close>

type_synonym pte = pde

record paging = irqs +
  pd :: "nat \<Rightarrow> nat \<Rightarrow> pde"
  pt :: "nat \<Rightarrow> nat \<Rightarrow> pte"
  vidmem_pt :: "nat \<Rightarrow> nat \<Rightarrow> pte"
  cr0 :: u32
  cr3 :: nat
  cr4 :: u32

abbreviation (input) PAGE_DIRECTORY_SIZE :: nat where "PAGE_DIRECTORY_SIZE \<equiv> 1024"
abbreviation (input) PAGE_TABLE_SIZE :: nat where "PAGE_TABLE_SIZE \<equiv> 1024"
abbreviation (input) TASK_NUMBER :: nat where "TASK_NUMBER \<equiv> 10"
abbreviation (input) START :: nat where "START \<equiv> 0"
abbreviation (input) KERNEL :: nat where "KERNEL \<equiv> 1"
abbreviation (input) PROGRAM :: nat where "PROGRAM \<equiv> 32"
abbreviation (input) USER_VIDEO :: nat where "USER_VIDEO \<equiv> 33"
abbreviation (input) VIDEO_MEM :: nat where "VIDEO_MEM \<equiv> 0xB8"
abbreviation (input) VIDEO :: u32 where "VIDEO \<equiv> 0xB8000"
abbreviation (input) KERNEL_ADDR :: u32 where "KERNEL_ADDR \<equiv> 0x400000"
abbreviation (input) USER_VIDEO_ADDR :: u32 where "USER_VIDEO_ADDR \<equiv> 0x8400000"
abbreviation (input) PROG_START :: u32 where "PROG_START \<equiv> 0x8000000"
abbreviation (input) FOUR_KB :: u32 where "FOUR_KB \<equiv> 0x1000"
abbreviation (input) FOUR_MB :: u32 where "FOUR_MB \<equiv> 0x400000"
abbreviation (input) EIGHT_MB :: u32 where "EIGHT_MB \<equiv> 0x800000"
abbreviation (input) CR4_VAL :: u32 where "CR4_VAL \<equiv> 0x10"
abbreviation (input) CR0_VAL :: u32 where "CR0_VAL \<equiv> 0x80000001"

text \<open>Updates of one entry of a two-dimensional table.\<close>

definition upd2 :: "(nat \<Rightarrow> nat \<Rightarrow> 'e) \<Rightarrow> nat \<Rightarrow> nat \<Rightarrow> ('e \<Rightarrow> 'e) \<Rightarrow> nat \<Rightarrow> nat \<Rightarrow> 'e" where
  "upd2 t i j f = t(i := (t i)(j := f (t i j)))"

lemma upd2_apply: "upd2 t i j f i' j' = (if i' = i \<and> j' = j then f (t i j) else t i' j')"
  by (auto simp: upd2_def)

section \<open>Filling the tables\<close>

definition set_register :: "nat \<Rightarrow> 'a paging_scheme \<Rightarrow> 'a paging_scheme" where
  "set_register i s = s\<lparr>cr3 := i, cr4 := CR4_VAL, cr0 := CR0_VAL\<rparr>"

text \<open>One round of \<^verbatim>\<open>map_page\<close>, for the task \<open>i\<close>.\<close>

definition map_task ::
    "(nat \<Rightarrow> u32) \<Rightarrow> (nat \<Rightarrow> u32) \<Rightarrow> nat \<Rightarrow> 'a paging_scheme \<Rightarrow> 'a paging_scheme" where
  "map_task pt_addr vidmem_addr i s0 =
     (let vid = (\<lambda>k addr s. s\<lparr>vidmem_pt := upd2 (vidmem_pt s) i k (\<lambda>e. e\<lparr>P := 1, R_W := 1, U_S := 1,
                   base_address := ucast (drop_bit 12 (addr :: u32))\<rparr>)\<rparr>);
          s = vid 0 VIDEO s0;
          s = vid 1 (VIDEO + FOUR_KB) s;
          s = vid 2 (VIDEO + 2 * FOUR_KB) s;
          s = vid 3 (VIDEO + 3 * FOUR_KB) s;
          s = s\<lparr>pd := upd2 (pd s) i START (\<lambda>e. e\<lparr>P := 1, R_W := 1, U_S := 0, PS := 0, G := 1,
                   base_address := ucast (drop_bit 12 (pt_addr i))\<rparr>)\<rparr>;
          s = s\<lparr>pt := upd2 (pt s) i VIDEO_MEM (\<lambda>e. e\<lparr>P := 1, R_W := 1, U_S := 0, G := 1,
                   base_address := ucast (drop_bit 12 VIDEO)\<rparr>)\<rparr>;
          s = s\<lparr>pd := upd2 (pd s) i KERNEL (\<lambda>e. e\<lparr>P := 1, R_W := 0, U_S := 0, PS := 1, G := 1,
                   base_address := ucast (push_bit 10 (drop_bit 22 KERNEL_ADDR))\<rparr>)\<rparr>;
          s = s\<lparr>pd := upd2 (pd s) i PROGRAM (\<lambda>e. e\<lparr>P := 1, R_W := 1, U_S := 1, PS := 1,
                   base_address := ucast (push_bit 10 (drop_bit 22 (EIGHT_MB + word_of_nat i * FOUR_MB)))\<rparr>)\<rparr>
      in s\<lparr>pd := upd2 (pd s) i USER_VIDEO (\<lambda>e. e\<lparr>P := 1, R_W := 1, U_S := 1, PS := 0,
                   base_address := ucast (drop_bit 12 (vidmem_addr i))\<rparr>)\<rparr>)"

definition map_page ::
    "(nat \<Rightarrow> u32) \<Rightarrow> (nat \<Rightarrow> u32) \<Rightarrow> 'a paging_scheme \<Rightarrow> 'a paging_scheme" where
  "map_page pt_addr vidmem_addr s = fold (map_task pt_addr vidmem_addr) [0..<TASK_NUMBER] s"

text \<open>The clearing loops of \<^verbatim>\<open>set_paging\<close>: they leave the bits they do not name as they were,
  and give every entry of table \<open>i\<close> the same frame number \<open>i\<close>.\<close>

definition clear_pd :: "nat \<Rightarrow> nat \<Rightarrow> 'a paging_scheme \<Rightarrow> 'a paging_scheme" where
  "clear_pd j i s = s\<lparr>pd := upd2 (pd s) j i
     (\<lambda>e. e\<lparr>P := 0, R_W := 1, U_S := 0, PCD := 1, base_address := 0\<rparr>)\<rparr>"

definition clear_pt :: "nat \<Rightarrow> nat \<Rightarrow> 'a paging_scheme \<Rightarrow> 'a paging_scheme" where
  "clear_pt i j s = s\<lparr>pt := upd2 (pt s) i j
     (\<lambda>e. e\<lparr>P := 0, R_W := 1, U_S := 0, PCD := 1, base_address := word_of_nat i\<rparr>)\<rparr>"

definition set_paging ::
    "(nat \<Rightarrow> u32) \<Rightarrow> (nat \<Rightarrow> u32) \<Rightarrow> 'a paging_scheme \<Rightarrow> 'a paging_scheme" where
  "set_paging pt_addr vidmem_addr s0 =
     (let s = fold (\<lambda>j. fold (clear_pd j) [0..<PAGE_DIRECTORY_SIZE]) [0..<TASK_NUMBER] s0;
          s = fold (\<lambda>i. fold (clear_pt i) [0..<PAGE_TABLE_SIZE]) [0..<TASK_NUMBER] s;
          s = map_page pt_addr vidmem_addr s
      in set_register 0 s)"

definition set_new_task :: "nat \<Rightarrow> i32 \<Rightarrow> 'a paging_scheme \<Rightarrow> 'a paging_scheme" where
  "set_new_task task flg s0 =
     (let s = (if flg = 1
               then s0\<lparr>vidmem_pt := upd2 (vidmem_pt s0) task 0
                        (\<lambda>e. e\<lparr>base_address := ucast (drop_bit 12 VIDEO)\<rparr>)\<rparr>
               else s0);
          s = cli s
      in set_register task s)"

section \<open>The page walk\<close>

text \<open>The table a directory entry names, found by its address among the tables of the kernel.\<close>

definition table_of ::
    "(nat \<Rightarrow> u32) \<Rightarrow> (nat \<Rightarrow> u32) \<Rightarrow> 'a paging_scheme \<Rightarrow> u32 \<Rightarrow> (nat \<Rightarrow> pte) option" where
  "table_of pt_addr vidmem_addr s a =
     (case find (\<lambda>i. pt_addr i = a) [0..<TASK_NUMBER] of
        Some i \<Rightarrow> Some (pt s i)
      | None \<Rightarrow> map_option (vidmem_pt s) (find (\<lambda>i. vidmem_addr i = a) [0..<TASK_NUMBER]))"

definition frame :: "u20 \<Rightarrow> u32" where
  "frame b = push_bit 12 (ucast b)"

text \<open>What the processor does with a linear address: the physical address and whether user code
  may use it, or a page fault.\<close>

definition translate ::
    "(nat \<Rightarrow> u32) \<Rightarrow> (nat \<Rightarrow> u32) \<Rightarrow> 'a paging_scheme \<Rightarrow> u32 \<Rightarrow> (u32 \<times> bool) option" where
  "translate pt_addr vidmem_addr s va =
     (let e = pd s (cr3 s) (unat va div 4194304)
      in if P e = 0 then None
         else if PS e = 1 then Some (frame (base_address e) + word_of_nat (unat va mod 4194304), U_S e = 1)
         else case table_of pt_addr vidmem_addr s (frame (base_address e)) of
                None \<Rightarrow> None
              | Some t \<Rightarrow>
                  let e' = t (unat va div 4096 mod 1024)
                  in if P e' = 0 then None
                     else Some (frame (base_address e') + word_of_nat (unat va mod 4096), U_S e = 1 \<and> U_S e' = 1))"

text \<open>The address space the kernel means a task to have.\<close>

definition task_space :: "nat \<Rightarrow> nat \<Rightarrow> (nat \<times> bool) option" where
  "task_space i va =
     (if 0xB8000 \<le> va \<and> va < 0xB9000 then Some (va, False)
      else if 0x400000 \<le> va \<and> va < 0x800000 then Some (va, False)
      else if 0x8000000 \<le> va \<and> va < 0x8400000 then Some (0x800000 + 0x400000 * i + (va - 0x8000000), True)
      else if 0x8400000 \<le> va \<and> va < 0x8404000 then Some (0xB8000 + (va - 0x8400000), True)
      else None)"

section \<open>What the filled tables hold\<close>

definition cleared :: "u20 \<Rightarrow> pde \<Rightarrow> pde" where
  "cleared b e = e\<lparr>P := 0, R_W := 1, U_S := 0, PCD := 1, base_address := b\<rparr>"

definition mapped_pd :: "(nat \<Rightarrow> u32) \<Rightarrow> (nat \<Rightarrow> u32) \<Rightarrow> nat \<Rightarrow> nat \<Rightarrow> pde \<Rightarrow> pde" where
  "mapped_pd pa va i k e =
     (if k = START then e\<lparr>P := 1, R_W := 1, U_S := 0, PS := 0, G := 1,
        base_address := ucast (drop_bit 12 (pa i))\<rparr>
      else if k = KERNEL then e\<lparr>P := 1, R_W := 0, U_S := 0, PS := 1, G := 1, base_address := 0x400\<rparr>
      else if k = PROGRAM then e\<lparr>P := 1, R_W := 1, U_S := 1, PS := 1,
        base_address := ucast (push_bit 10 (drop_bit 22 (EIGHT_MB + word_of_nat i * FOUR_MB)))\<rparr>
      else if k = USER_VIDEO then e\<lparr>P := 1, R_W := 1, U_S := 1, PS := 0,
        base_address := ucast (drop_bit 12 (va i))\<rparr>
      else e)"

definition mapped_pt :: "nat \<Rightarrow> pte \<Rightarrow> pte" where
  "mapped_pt k e =
     (if k = VIDEO_MEM then e\<lparr>P := 1, R_W := 1, U_S := 0, G := 1, base_address := 0xB8\<rparr> else e)"

definition mapped_vid :: "nat \<Rightarrow> pte \<Rightarrow> pte" where
  "mapped_vid k e =
     (if k < 4 then e\<lparr>P := 1, R_W := 1, U_S := 1, base_address := 0xB8 + word_of_nat k\<rparr> else e)"

lemma map_task_tables:
  "pd (map_task pa va i s) = (\<lambda>i' k. if i' = i then mapped_pd pa va i k (pd s i k) else pd s i' k)"
  "pt (map_task pa va i s) = (\<lambda>i' k. if i' = i then mapped_pt k (pt s i k) else pt s i' k)"
  "vidmem_pt (map_task pa va i s) = (\<lambda>i' k. if i' = i then mapped_vid k (vidmem_pt s i k) else vidmem_pt s i' k)"
proof -
  have k4: "k < 4 \<longleftrightarrow> k = 0 \<or> k = 1 \<or> k = 2 \<or> k = (3 :: nat)" for k by auto
  show "pd (map_task pa va i s) = (\<lambda>i' k. if i' = i then mapped_pd pa va i k (pd s i k) else pd s i' k)"
    by (intro ext) (simp add: map_task_def Let_def upd2_apply mapped_pd_def)
  show "pt (map_task pa va i s) = (\<lambda>i' k. if i' = i then mapped_pt k (pt s i k) else pt s i' k)"
    by (intro ext) (simp add: map_task_def Let_def upd2_apply mapped_pt_def)
  show "vidmem_pt (map_task pa va i s) = (\<lambda>i' k. if i' = i then mapped_vid k (vidmem_pt s i k) else vidmem_pt s i' k)"
    by (intro ext) (auto simp: map_task_def Let_def upd2_apply mapped_vid_def k4)
qed

lemma map_tasks_tables:
  "pd (fold (map_task pa va) [0..<n] s) = (\<lambda>i k. if i < n then mapped_pd pa va i k (pd s i k) else pd s i k)"
  "pt (fold (map_task pa va) [0..<n] s) = (\<lambda>i k. if i < n then mapped_pt k (pt s i k) else pt s i k)"
  "vidmem_pt (fold (map_task pa va) [0..<n] s) =
     (\<lambda>i k. if i < n then mapped_vid k (vidmem_pt s i k) else vidmem_pt s i k)"
  by (induction n) (auto simp: map_task_tables fun_eq_iff less_Suc_eq)

lemma clear_pd_row:
  "pd (fold (clear_pd j) [0..<n] s) = (\<lambda>i k. if i = j \<and> k < n then cleared 0 (pd s i k) else pd s i k)"
  "pt (fold (clear_pd j) [0..<n] s) = pt s" "vidmem_pt (fold (clear_pd j) [0..<n] s) = vidmem_pt s"
  by (induction n) (auto simp: clear_pd_def upd2_apply fun_eq_iff less_Suc_eq cleared_def)

lemma clear_pt_row:
  "pt (fold (clear_pt j) [0..<n] s) =
     (\<lambda>i k. if i = j \<and> k < n then cleared (word_of_nat j) (pt s i k) else pt s i k)"
  "pd (fold (clear_pt j) [0..<n] s) = pd s" "vidmem_pt (fold (clear_pt j) [0..<n] s) = vidmem_pt s"
  by (induction n) (auto simp: clear_pt_def upd2_apply fun_eq_iff less_Suc_eq cleared_def)

lemma clear_pd_all:
  "pd (fold (\<lambda>j. fold (clear_pd j) [0..<1024]) [0..<n] s) =
     (\<lambda>i k. if i < n \<and> k < 1024 then cleared 0 (pd s i k) else pd s i k)"
  "pt (fold (\<lambda>j. fold (clear_pd j) [0..<1024]) [0..<n] s) = pt s"
  "vidmem_pt (fold (\<lambda>j. fold (clear_pd j) [0..<1024]) [0..<n] s) = vidmem_pt s"
  by (induction n) (auto simp: clear_pd_row fun_eq_iff less_Suc_eq simp del: upt_rec_numeral)

lemma clear_pt_all:
  "pt (fold (\<lambda>j. fold (clear_pt j) [0..<1024]) [0..<n] s) =
     (\<lambda>i k. if i < n \<and> k < 1024 then cleared (word_of_nat i) (pt s i k) else pt s i k)"
  "pd (fold (\<lambda>j. fold (clear_pt j) [0..<1024]) [0..<n] s) = pd s"
  "vidmem_pt (fold (\<lambda>j. fold (clear_pt j) [0..<1024]) [0..<n] s) = vidmem_pt s"
  by (induction n) (auto simp: clear_pt_row fun_eq_iff less_Suc_eq simp del: upt_rec_numeral)

lemma set_paging_tables:
  assumes "i < 10"
  shows "k < 1024 \<Longrightarrow> pd (set_paging pa va s) i k = mapped_pd pa va i k (cleared 0 (pd s i k))"
    "k < 1024 \<Longrightarrow> pt (set_paging pa va s) i k = mapped_pt k (cleared (word_of_nat i) (pt s i k))"
    "vidmem_pt (set_paging pa va s) i k = mapped_vid k (vidmem_pt s i k)"
  using assms
  by (simp_all add: set_paging_def Let_def set_register_def map_page_def map_tasks_tables clear_pd_all
      clear_pt_all del: upt_rec_numeral)

lemma set_new_task_tables [simp]:
  "pd (set_new_task i 0 s) = pd s" "pt (set_new_task i 0 s) = pt s"
  "vidmem_pt (set_new_task i 0 s) = vidmem_pt s" "cr3 (set_new_task i f s) = i"
  by (simp_all add: set_new_task_def Let_def set_register_def cli_def)

text \<open>Where the linker puts the tables: page-aligned, all different.\<close>

definition tables_placed :: "(nat \<Rightarrow> u32) \<Rightarrow> (nat \<Rightarrow> u32) \<Rightarrow> bool" where
  "tables_placed pa va \<longleftrightarrow>
     distinct (map pa [0..<10] @ map va [0..<10]) \<and>
     list_all (\<lambda>a. take_bit 12 a = 0) (map pa [0..<10] @ map va [0..<10])"

lemma frame_aligned: "take_bit 12 a = 0 \<Longrightarrow> frame (ucast (drop_bit 12 a)) = a"
proof -
  assume a: "take_bit 12 a = 0"
  have "(ucast (ucast (drop_bit 12 a) :: u20) :: u32) = drop_bit 12 a"
    by (rule bit_word_eqI) (auto simp: bit_simps dest: bit_imp_le_length)
  moreover have "push_bit 12 (drop_bit 12 a) = a"
    using bits_ident [of 12 a] a by simp
  ultimately show ?thesis by (simp add: frame_def)
qed

lemma find_index:
  assumes "inj_on f {0..<n}" "i < n"
  shows "find (\<lambda>j. f j = f i) [0..<n] = Some i"
proof -
  have "f j \<noteq> f i" if "j < i" for j
    using inj_onD [OF assms(1), of j i] assms(2) that by auto
  then show ?thesis using assms(2) by (auto simp: find_Some_iff intro!: exI [of _ i])
qed

lemma table_of_placed:
  assumes "tables_placed pa va" "i < 10"
  shows "table_of pa va s (pa i) = Some (pt s i)" "table_of pa va s (va i) = Some (vidmem_pt s i)"
    "take_bit 12 (pa i) = 0" "take_bit 12 (va i) = 0"
proof -
  have inj: "inj_on pa {0..<10}" "inj_on va {0..<10}" "pa ` {0..<10} \<inter> va ` {0..<10} = {}"
    using assms(1) by (auto simp: tables_placed_def distinct_map)
  have 1: "find (\<lambda>j. pa j = pa i) [0..<10] = Some i"
    using inj(1) assms(2) by (rule find_index)
  have 2: "find (\<lambda>j. pa j = va i) [0..<10] = None"
    using inj(3) assms(2) by (fastforce simp: find_None_iff disjoint_iff)
  have 3: "find (\<lambda>j. va j = va i) [0..<10] = Some i"
    using inj(2) assms(2) by (rule find_index)
  show "table_of pa va s (pa i) = Some (pt s i)" "table_of pa va s (va i) = Some (vidmem_pt s i)"
    by (simp_all add: table_of_def 1 2 3 del: upt_rec_numeral)
  show "take_bit 12 (pa i) = 0" "take_bit 12 (va i) = 0"
    using assms by (auto simp: tables_placed_def list_all_iff)
qed

lemma program_frame:
  "i < 10 \<Longrightarrow> frame (ucast (push_bit 10 (drop_bit 22 (EIGHT_MB + word_of_nat i * FOUR_MB)))) =
     EIGHT_MB + word_of_nat i * FOUR_MB"
proof -
  assume "i < 10"
  then have "i \<in> {0, 1, 2, 3, 4, 5, 6, 7, 8, 9}" by auto
  then show ?thesis by (auto simp: frame_def)
qed

lemma vid_frame: "k < 4 \<Longrightarrow> frame (0xB8 + word_of_nat k) = word_of_nat (0xB8000 + 4096 * k)"
proof -
  assume "k < 4"
  then have "k \<in> {0, 1, 2, 3}" by auto
  then show ?thesis by (auto simp: frame_def)
qed

section \<open>The address spaces\<close>

lemma translate_task:
  assumes "tables_placed pa va" "i < 10"
    and blank: "\<And>k. P (vidmem_pt s0 i k) = 0"
  defines "s \<equiv> set_new_task i 0 (set_paging pa va s0)"
  shows "translate pa va s a =
    (let q = unat a div 4194304; k = unat a div 4096 mod 1024 in
       if q = 0 then
         if k = 0xB8 then Some (0xB8000 + word_of_nat (unat a mod 4096), False) else None
       else if q = 1 then Some (0x400000 + word_of_nat (unat a mod 4194304), False)
       else if q = 32 then Some (EIGHT_MB + word_of_nat i * FOUR_MB + word_of_nat (unat a mod 4194304), True)
       else if q = 33 then
         if k < 4 then Some (word_of_nat (0xB8000 + 4096 * k) + word_of_nat (unat a mod 4096), True) else None
       else None)"
proof -
  have q: "unat a div 4194304 < 1024"
    using unat_less_u32 [of a] by (intro less_mult_imp_div_less) simp
  have k: "unat a div 4096 mod 1024 < 1024" by simp
  note tabs = set_paging_tables [OF assms(2), where pa = pa and va = va and s = s0]
  note placed = table_of_placed(1,2) [OF assms(1,2), where s = "set_new_task i 0 (set_paging pa va s0)"]
    table_of_placed(3,4) [OF assms(1,2)]
  have vid: "mapped_vid k (vidmem_pt s0 i k) =
      (if k < 4 then (vidmem_pt s0 i k)\<lparr>P := 1, R_W := 1, U_S := 1, base_address := 0xB8 + word_of_nat k\<rparr>
       else vidmem_pt s0 i k)" for k by (simp add: mapped_vid_def)
  have start: "mapped_pt k (cleared b (pt s0 i k)) =
      (if k = 0xB8 then (cleared b (pt s0 i k))\<lparr>P := 1, R_W := 1, U_S := 0, G := 1, base_address := 0xB8\<rparr>
       else cleared b (pt s0 i k))" for k b by (simp add: mapped_pt_def)
  have frames: "frame 0xB8 = 0xB8000" "frame 0x400 = 0x400000" by (simp_all add: frame_def)
  have walk: "translate pa va s a =
    (let e = mapped_pd pa va i (unat a div 4194304) (cleared 0 (pd s0 i (unat a div 4194304))) in
      if P e = 0 then None
      else if PS e = 1 then Some (frame (base_address e) + word_of_nat (unat a mod 4194304), U_S e = 1)
      else case table_of pa va s (frame (base_address e)) of
             None \<Rightarrow> None
           | Some t \<Rightarrow>
               let e' = t (unat a div 4096 mod 1024)
               in if P e' = 0 then None
                  else Some (frame (base_address e') + word_of_nat (unat a mod 4096), U_S e = 1 \<and> U_S e' = 1))"
    unfolding translate_def s_def set_new_task_tables tabs(1) [OF q] ..
  consider "unat a div 4194304 = 0" | "unat a div 4194304 = 1" | "unat a div 4194304 = 32"
    | "unat a div 4194304 = 33"
    | "unat a div 4194304 \<noteq> 0 \<and> unat a div 4194304 \<noteq> 1 \<and> unat a div 4194304 \<noteq> 32 \<and>
       unat a div 4194304 \<noteq> 33" by blast
  then show ?thesis
  proof cases
    case 1
    have "table_of pa va s (frame (ucast (drop_bit 12 (pa i)))) = Some (pt (set_paging pa va s0) i)"
      using placed by (simp add: frame_aligned s_def)
    then show ?thesis
      unfolding walk 1 mapped_pd_def Let_def
      by (simp add: tabs(2) start frames) (simp add: cleared_def)
  next
    case 2
    then show ?thesis unfolding walk 2 mapped_pd_def Let_def by (simp add: frames)
  next
    case 3
    then show ?thesis unfolding walk 3 mapped_pd_def Let_def by (simp add: program_frame [OF assms(2)])
  next
    case 4
    have "table_of pa va s (frame (ucast (drop_bit 12 (va i)))) = Some (vidmem_pt (set_paging pa va s0) i)"
      using placed by (simp add: frame_aligned s_def)
    then show ?thesis
      unfolding walk 4 mapped_pd_def Let_def
      by (simp add: tabs(3) vid vid_frame blank)
  next
    case 5
    then show ?thesis unfolding walk mapped_pd_def Let_def by (simp add: cleared_def)
  qed
qed

lemma split_4096: "(v :: nat) div 4096 = 1024 * (v div 4194304) + v div 4096 mod 1024"
  using div_mult2_eq [of v 4096 1024] by simp

lemma join_4096:
  "v = 4096 * d + r \<Longrightarrow> d = 1024 * q + k \<Longrightarrow> v = 4194304 * q + R \<Longrightarrow> R = 4096 * k + (r :: nat)"
  by simp

text \<open>The specification by the two indices that the page walk takes from an address.\<close>

lemma task_space_indices:
  "task_space i v = (let q = v div 4194304; k = v div 4096 mod 1024 in
     if q = 0 then if k = 0xB8 then Some (0xB8000 + v mod 4096, False) else None
     else if q = 1 then Some (0x400000 + v mod 4194304, False)
     else if q = 32 then Some (0x800000 + 0x400000 * i + v mod 4194304, True)
     else if q = 33 then if k < 4 then Some (0xB8000 + 4096 * k + v mod 4096, True) else None
     else None)"
proof -
  define q where "q = v div 4194304"
  define k where "k = v div 4096 mod 1024"
  have v: "v = 4194304 * q + v mod 4194304" "v mod 4194304 < 4194304" by (simp_all add: q_def)
  have "v = 4096 * (v div 4096) + v mod 4096" by simp
  from join_4096 [OF this split_4096 v(1) [unfolded q_def]]
  have w: "v mod 4194304 = 4096 * k + v mod 4096" "v mod 4096 < 4096" "k < 1024" by (simp_all add: k_def)
  consider "q = 0" | "q = 1" | "q = 32" | "q = 33" | "q \<noteq> 0 \<and> q \<noteq> 1 \<and> q \<noteq> 32 \<and> q \<noteq> 33" by blast
  then show ?thesis
  proof cases
    case 1
    then have "v = 4096 * k + v mod 4096" using v w by simp
    then show ?thesis using 1 w(2,3) by (auto simp: task_space_def Let_def simp flip: q_def k_def)
  next
    case 4
    then have "v = 0x8400000 + (4096 * k + v mod 4096)" using v w by simp
    then show ?thesis using 4 w(2,3) by (auto simp: task_space_def Let_def simp flip: q_def k_def)
  qed (use v in \<open>auto simp: task_space_def Let_def simp flip: q_def\<close>)
qed

text \<open>C24: once paging is set up, the page walk of the processor gives every task exactly the
  address space it is meant to have: the kernel's 4 MB at their own place, the text screen,
  the program in the task's own 4 MB of physical memory and the video pages, with user access
  to the last two only; every other address faults.\<close>

theorem address_space:
  assumes "tables_placed pa va" "i < 10" "\<And>k. P (vidmem_pt s0 i k) = 0"
  shows "translate pa va (set_new_task i 0 (set_paging pa va s0)) a =
    map_option (\<lambda>(p, user). (word_of_nat p, user)) (task_space i (unat a))"
  unfolding translate_task [OF assms] task_space_indices Let_def by (simp add: mult.commute)

definition sample_pt_addr :: "nat \<Rightarrow> u32" where
  "sample_pt_addr i = 0x500000 + word_of_nat (4096 * i)"

definition sample_vidmem_addr :: "nat \<Rightarrow> u32" where
  "sample_vidmem_addr i = 0x510000 + word_of_nat (4096 * i)"

definition blank_entry :: pde where
  "blank_entry = \<lparr>P = 0, R_W = 0, U_S = 0, PWT = 0, PCD = 0, A = 0, zero = 0, PS = 0, G = 0, avail = 0,
     base_address = 0\<rparr>"

definition sample_paging :: paging where
  "sample_paging = irqs.extend sample_irqs
     \<lparr>pd = \<lambda>_ _. blank_entry, pt = \<lambda>_ _. blank_entry, vidmem_pt = \<lambda>_ _. blank_entry,
      cr0 = 1, cr3 = 0, cr4 = 0\<rparr>"

lemma sample_placed: "tables_placed sample_pt_addr sample_vidmem_addr"
  by (simp add: tables_placed_def upt_rec sample_pt_addr_def sample_vidmem_addr_def)

lemma sample_blank: "P (vidmem_pt sample_paging i k) = 0"
  by (simp add: sample_paging_def irqs.extend_def blank_entry_def)

theorem address_space_witness:
  "translate sample_pt_addr sample_vidmem_addr
     (set_new_task 2 0 (set_paging sample_pt_addr sample_vidmem_addr sample_paging)) 0x08048000 =
     Some (0x01048000, True) \<and>
   translate sample_pt_addr sample_vidmem_addr
     (set_new_task 2 0 (set_paging sample_pt_addr sample_vidmem_addr sample_paging)) 0x1234 = None"
  using address_space [OF sample_placed, of 2 sample_paging "0x08048000"]
    address_space [OF sample_placed, of 2 sample_paging "0x1234"]
  by (simp add: sample_blank task_space_def)

lemma task_space_bound: "i < 10 \<Longrightarrow> task_space i v = Some (p, u) \<Longrightarrow> p < 4294967296"
  by (auto simp: task_space_def split: if_splits)

text \<open>C25: no linear address of one task reaches the physical memory of another task's
  program.\<close>

theorem task_isolation:
  assumes "tables_placed pa va" "i < 10" "j < 10" "i \<noteq> j" "\<And>t k. P (vidmem_pt s0 t k) = 0"
    and "0x8000000 \<le> unat a" "unat a < 0x8400000"
    and "translate pa va (set_new_task i 0 (set_paging pa va s0)) a = Some (p, u)"
    and "translate pa va (set_new_task j 0 (set_paging pa va s0)) b = Some (p', u')"
  shows "p \<noteq> p'"
proof -
  have "task_space i (unat a) = Some (0x800000 + 0x400000 * i + (unat a - 0x8000000), True)"
    using assms(6,7) by (simp add: task_space_def)
  then have p: "p = word_of_nat (0x800000 + 0x400000 * i + (unat a - 0x8000000))"
    using assms(8) address_space [OF assms(1,2,5)] by simp
  obtain n where n: "task_space j (unat b) = Some (n, u')" "p' = word_of_nat n"
    using assms(9) address_space [OF assms(1,3,5)] by auto
  have "n \<noteq> 0x800000 + 0x400000 * i + (unat a - 0x8000000)"
  proof (cases "i < j")
    case True
    with n(1) assms(6,7) show ?thesis by (auto simp: task_space_def split: if_splits)
  next
    case False
    with assms(4) have "j < i" by simp
    with n(1) assms(6,7) show ?thesis by (auto simp: task_space_def split: if_splits)
  qed
  moreover have "n < 4294967296" by (rule task_space_bound [OF assms(3) n(1)])
  moreover have "0x800000 + 0x400000 * i + (unat a - 0x8000000) < 4294967296"
    using assms(2,6,7) by simp
  ultimately show ?thesis using n(2) p by (metis unat_u32_of_nat)
qed

theorem task_isolation_witness:
  "(0x00C48000 :: u32) \<noteq> 0x00848000"
proof (rule task_isolation [OF sample_placed])
  show "translate sample_pt_addr sample_vidmem_addr
      (set_new_task 1 0 (set_paging sample_pt_addr sample_vidmem_addr sample_paging)) 0x08048000 =
      Some (0x00C48000, True)"
    using address_space [OF sample_placed, of 1 sample_paging "0x08048000"]
    by (simp add: sample_blank task_space_def)
  show "translate sample_pt_addr sample_vidmem_addr
      (set_new_task 0 0 (set_paging sample_pt_addr sample_vidmem_addr sample_paging)) 0x08048000 =
      Some (0x00848000, True)"
    using address_space [OF sample_placed, of 0 sample_paging "0x08048000"]
    by (simp add: sample_blank task_space_def)
qed (simp_all add: sample_blank)

end
