(* ===== verification/AddressSpace.thy ===== *)
theory AddressSpace
  imports Paging
begin

text \<open>
  Memory as code running in the current task sees it.  \<open>ram\<close> is physical memory; a linear
  address in the program's 4 MB or in the user video pages goes through the entries the
  kernel installed, any other address the kernel uses is mapped to itself.  Routines on plain
  memory (\<open>LibString\<close>, \<open>LibMem\<close>, \<open>FileSystem\<close>) run on the view \<open>vmem\<close> and are written back
  with \<open>set_vmem\<close>, which leaves alone the physical memory whose addresses equal the linear ones of the
  programs' pages, as no page maps it; their buffers lie in the kernel or in the program's pages, never in the
  video pages.  The record also gets the variable of \<^verbatim>\<open>src/scheduling.c\<close> that says which
  terminal's process runs, with its two accessors.
\<close>

section \<open>The view\<close>

definition prog_frame :: "'a paging_scheme \<Rightarrow> u32" where
  "prog_frame s = frame (base_address (pd s (cr3 s) PROGRAM))"

definition vid_page :: "'a paging_scheme \<Rightarrow> nat \<Rightarrow> u32" where
  "vid_page s k = frame (base_address (vidmem_pt s (cr3 s) k))"

definition phys :: "'a paging_scheme \<Rightarrow> u32 \<Rightarrow> u32" where
  "phys s a =
     (if in_region PROG_START 4194304 a then prog_frame s + (a - PROG_START)
      else if in_region USER_VIDEO_ADDR 4194304 a
      then vid_page s (unat (a - USER_VIDEO_ADDR) div 4096) +
           word_of_nat (unat (a - USER_VIDEO_ADDR) mod 4096)
      else a)"

definition vmem :: "'a paging_scheme \<Rightarrow> mem" where
  "vmem s = (\<lambda>a. ram s (phys s a))"

definition vread :: "'a paging_scheme \<Rightarrow> u32 \<Rightarrow> u8" where
  "vread s a = ram s (phys s a)"

definition vwrite :: "'a paging_scheme \<Rightarrow> u32 \<Rightarrow> u8 \<Rightarrow> 'a paging_scheme" where
  "vwrite s a b = s\<lparr>ram := (ram s)(phys s a := b)\<rparr>"

definition set_vmem :: "mem \<Rightarrow> 'a paging_scheme \<Rightarrow> 'a paging_scheme" where
  "set_vmem m s = s\<lparr>ram := (\<lambda>p. if in_region (prog_frame s) 4194304 p
                               then m (PROG_START + (p - prog_frame s))
                               else if in_region PROG_START 8388608 p then ram s p else m p)\<rparr>"

lemma phys_cong:
  "pd s' = pd s \<Longrightarrow> vidmem_pt s' = vidmem_pt s \<Longrightarrow> cr3 s' = cr3 s \<Longrightarrow> phys s' = phys s"
  by (intro ext) (simp add: phys_def prog_frame_def vid_page_def)

lemma vwrite_fields [simp]:
  "pd (vwrite s a b) = pd s" "pt (vwrite s a b) = pt s" "vidmem_pt (vwrite s a b) = vidmem_pt s"
  "cr3 (vwrite s a b) = cr3 s" "io (vwrite s a b) = io s" "intf (vwrite s a b) = intf s"
  "master_mask (vwrite s a b) = master_mask s" "slave_mask (vwrite s a b) = slave_mask s"
  "irq_handler (vwrite s a b) = irq_handler s" "ram (vwrite s a b) = (ram s)(phys s a := b)"
  "paging.more (vwrite s a b) = paging.more s"
  by (simp_all add: vwrite_def)

lemma phys_vwrite [simp]: "phys (vwrite s a b) = phys s"
  by (rule phys_cong) simp_all

text \<open>The mapping the kernel relies on: the tables as \<^verbatim>\<open>set_paging\<close> leaves them, except for
  the frame behind the first user video page of a task.\<close>

definition paging_ok :: "'a paging_scheme \<Rightarrow> bool" where
  "paging_ok s \<longleftrightarrow> cr3 s < 10 \<and>
     (\<forall>i\<in>set [0..<10].
        P (pd s i PROGRAM) = 1 \<and> PS (pd s i PROGRAM) = 1 \<and>
        frame (base_address (pd s i PROGRAM)) = EIGHT_MB + word_of_nat i * FOUR_MB \<and>
        P (pd s i KERNEL) = 1 \<and> PS (pd s i KERNEL) = 1 \<and>
        frame (base_address (pd s i KERNEL)) = KERNEL_ADDR \<and>
        (\<forall>k\<in>set [1..<4]. frame (base_address (vidmem_pt s i k)) = VIDEO + word_of_nat k * FOUR_KB) \<and>
        (\<exists>j\<in>set [0..<4]. frame (base_address (vidmem_pt s i 0)) = VIDEO + word_of_nat j * FOUR_KB))"

lemma set_paging_ok: "paging_ok (set_paging pa va s)"
  unfolding paging_ok_def
proof (intro conjI ballI)
  show "cr3 (set_paging pa va s) < 10" by (simp add: set_paging_def set_register_def Let_def)
  fix i assume "i \<in> set [0..<10 :: nat]"
  then have i: "i < 10" by simp
  note tabs = set_paging_tables [OF i, where pa = pa and va = va and s = s]
  show "P (pd (set_paging pa va s) i PROGRAM) = 1" "PS (pd (set_paging pa va s) i PROGRAM) = 1"
    "frame (base_address (pd (set_paging pa va s) i PROGRAM)) = EIGHT_MB + word_of_nat i * FOUR_MB"
    "P (pd (set_paging pa va s) i KERNEL) = 1" "PS (pd (set_paging pa va s) i KERNEL) = 1"
    "frame (base_address (pd (set_paging pa va s) i KERNEL)) = KERNEL_ADDR"
    using program_frame [OF i] by (simp_all add: tabs(1) mapped_pd_def frame_def)
  show "frame (base_address (vidmem_pt (set_paging pa va s) i k)) = VIDEO + word_of_nat k * FOUR_KB"
    if "k \<in> set [1..<4 :: nat]" for k
    using that by (simp add: tabs(3) mapped_vid_def vid_frame)
  show "\<exists>j\<in>set [0..<4]. frame (base_address (vidmem_pt (set_paging pa va s) i 0)) =
      VIDEO + word_of_nat j * FOUR_KB"
    by (intro bexI [of _ 0]) (simp_all add: tabs(3) mapped_vid_def frame_def)
qed

text \<open>Everything but the tables and the control registers is left alone.\<close>

definition retabled :: "'a paging_scheme \<Rightarrow> 'a paging_scheme \<Rightarrow> bool" where
  "retabled s s' \<longleftrightarrow> s' = s\<lparr>pd := pd s', pt := pt s', vidmem_pt := vidmem_pt s', cr0 := cr0 s',
     cr3 := cr3 s', cr4 := cr4 s'\<rparr>"

lemma retabled_refl: "retabled s s"
  by (simp add: retabled_def)

lemma retabled_upd:
  "retabled s s' \<Longrightarrow> retabled s (s'\<lparr>pd := a\<rparr>)" "retabled s s' \<Longrightarrow> retabled s (s'\<lparr>pt := a\<rparr>)"
  "retabled s s' \<Longrightarrow> retabled s (s'\<lparr>vidmem_pt := a\<rparr>)" "retabled s s' \<Longrightarrow> retabled s (s'\<lparr>cr0 := b\<rparr>)"
  "retabled s s' \<Longrightarrow> retabled s (s'\<lparr>cr3 := c\<rparr>)" "retabled s s' \<Longrightarrow> retabled s (s'\<lparr>cr4 := b\<rparr>)"
  unfolding retabled_def by (cases s; cases s'; simp)+

lemma retabled_fold:
  "(\<And>e t. e \<in> set es \<Longrightarrow> retabled s t \<Longrightarrow> retabled s (f e t)) \<Longrightarrow> retabled s t \<Longrightarrow> retabled s (fold f es t)"
  by (induction es arbitrary: t) simp_all

lemma retabled_set_paging: "retabled s (set_paging pa va s)"
  unfolding set_paging_def Let_def set_register_def map_page_def clear_pd_def clear_pt_def map_task_def
  by (intro retabled_upd retabled_fold retabled_refl; assumption)

lemma set_paging_fields [simp]:
  "ram (set_paging pa va s) = ram s" "io (set_paging pa va s) = io s" "intf (set_paging pa va s) = intf s"
  "master_mask (set_paging pa va s) = master_mask s" "slave_mask (set_paging pa va s) = slave_mask s"
  "irq_handler (set_paging pa va s) = irq_handler s" "paging.more (set_paging pa va s) = paging.more s"
  by (subst retabled_set_paging [unfolded retabled_def]; simp)+

lemma paging_ok_cong:
  "pd s' = pd s \<Longrightarrow> vidmem_pt s' = vidmem_pt s \<Longrightarrow> cr3 s' = cr3 s \<Longrightarrow> paging_ok s' = paging_ok s"
  by (simp add: paging_ok_def)

lemma paging_okD:
  assumes "paging_ok s"
  shows "prog_frame s = EIGHT_MB + word_of_nat (cr3 s) * FOUR_MB"
    "unat (prog_frame s) = 8388608 + 4194304 * cr3 s"
    "\<exists>j<4. vid_page s 0 = VIDEO + word_of_nat j * FOUR_KB"
    "1 \<le> k \<Longrightarrow> k < 4 \<Longrightarrow> vid_page s k = VIDEO + word_of_nat k * FOUR_KB"
proof -
  have c: "cr3 s < 10" using assms by (simp add: paging_ok_def)
  then show f: "prog_frame s = EIGHT_MB + word_of_nat (cr3 s) * FOUR_MB"
    using assms by (auto simp: paging_ok_def prog_frame_def)
  have "EIGHT_MB + word_of_nat (cr3 s) * FOUR_MB = (word_of_nat (8388608 + 4194304 * cr3 s) :: u32)"
    by (simp add: mult.commute)
  moreover have "8388608 + 4194304 * cr3 s < 4294967296" using c by simp
  ultimately show "unat (prog_frame s) = 8388608 + 4194304 * cr3 s"
    unfolding f using unat_u32_of_nat by (simp only:)
  show "\<exists>j<4. vid_page s 0 = VIDEO + word_of_nat j * FOUR_KB"
    "1 \<le> k \<Longrightarrow> k < 4 \<Longrightarrow> vid_page s k = VIDEO + word_of_nat k * FOUR_KB"
    using bspec [of "set [0..<10]" _ "cr3 s"] assms c by (simp_all add: paging_ok_def vid_page_def Bex_def)
qed

text \<open>Writing a view back and looking again: the kernel's low 8 MB and the program's pages show
  what was written.\<close>

lemma vmem_set_vmem:
  assumes "paging_ok s" "unat a < 8388608 \<or> in_region PROG_START 4194304 a"
  shows "vmem (set_vmem m s) a = m a"
proof -
  note F = paging_okD(1,2) [OF assms(1)]
  have c: "cr3 s < 10" using assms(1) by (simp add: paging_ok_def)
  have ph: "phys (set_vmem m s) = phys s" by (rule phys_cong) (simp_all add: set_vmem_def)
  have bound: "unat (prog_frame s) + 4194304 \<le> 4294967296" using F(2) c by simp
  show ?thesis
  proof (cases "in_region PROG_START 4194304 a")
    case True
    have "in_region (prog_frame s) 4194304 (prog_frame s + (a - PROG_START))"
      using True by (simp add: in_region_def)
    moreover have "phys s a = prog_frame s + (a - PROG_START)" using True by (simp add: phys_def)
    ultimately show ?thesis by (simp add: vmem_def ph) (simp add: set_vmem_def)
  next
    case False
    then have a: "unat a < 8388608" using assms(2) by simp
    have v: "\<not> in_region USER_VIDEO_ADDR 4194304 a" using a by (subst in_region_iff) simp_all
    have "\<not> in_region (prog_frame s) 4194304 a"
      unfolding in_region_iff [OF bound] F(2) using a by simp
    moreover have "\<not> in_region PROG_START 8388608 a" using a by (subst in_region_iff) simp_all
    moreover have "phys s a = a" using False v by (simp add: phys_def)
    ultimately show ?thesis by (simp add: vmem_def ph) (simp add: set_vmem_def)
  qed
qed

lemma set_vmem_fields [simp]:
  "pd (set_vmem m s) = pd s" "pt (set_vmem m s) = pt s" "vidmem_pt (set_vmem m s) = vidmem_pt s"
  "cr3 (set_vmem m s) = cr3 s" "io (set_vmem m s) = io s" "intf (set_vmem m s) = intf s"
  "master_mask (set_vmem m s) = master_mask s" "slave_mask (set_vmem m s) = slave_mask s"
  "irq_handler (set_vmem m s) = irq_handler s" "paging.more (set_vmem m s) = paging.more s"
  "paging_ok (set_vmem m s) = paging_ok s"
  by (simp_all add: set_vmem_def paging_ok_def)

text \<open>Nothing that runs in one task touches the program memory of another one.\<close>

lemma set_vmem_other_task:
  assumes "paging_ok s" "i < 10" "i \<noteq> cr3 s" "in_region (EIGHT_MB + word_of_nat i * FOUR_MB) 4194304 p"
    and "m p = ram s p"
  shows "ram (set_vmem m s) p = ram s p"
proof -
  note F = paging_okD(1,2) [OF assms(1)]
  have c: "cr3 s < 10" using assms(1) by (simp add: paging_ok_def)
  have "EIGHT_MB + word_of_nat i * FOUR_MB = (word_of_nat (8388608 + 4194304 * i) :: u32)"
    by (simp add: mult.commute)
  moreover have "8388608 + 4194304 * i < 4294967296" using assms(2) by simp
  ultimately have b: "unat (EIGHT_MB + word_of_nat i * FOUR_MB :: u32) = 8388608 + 4194304 * i"
    using unat_u32_of_nat by (simp only:)
  have "unat (EIGHT_MB + word_of_nat i * FOUR_MB :: u32) + 4194304 \<le> 4294967296"
    unfolding b using assms(2) by simp
  note p = assms(4) [unfolded in_region_iff [OF this] b]
  have bound: "unat (prog_frame s) + 4194304 \<le> 4294967296" using F(2) c by simp
  have "\<not> in_region (prog_frame s) 4194304 p"
  proof (cases "i < cr3 s")
    case True
    with p show ?thesis unfolding in_region_iff [OF bound] F(2) by simp
  next
    case False
    with assms(3) have "cr3 s < i" by simp
    with p show ?thesis unfolding in_region_iff [OF bound] F(2) by simp
  qed
  with assms(5) show ?thesis by (simp add: set_vmem_def)
qed

text \<open>Only the bytes that differ in the view are written.\<close>

lemma set_vmem_ram:
  assumes "paging_ok s" "\<And>a. \<not> in_region b n a \<Longrightarrow> m a = vmem s a" "unat b + n \<le> 8388608" "\<not> in_region b n p"
  shows "ram (set_vmem m s) p = ram s p"
proof -
  consider "in_region (prog_frame s) 4194304 p" | "\<not> in_region (prog_frame s) 4194304 p" "in_region PROG_START 8388608 p"
    | "\<not> in_region (prog_frame s) 4194304 p" "\<not> in_region PROG_START 8388608 p" by blast
  then show ?thesis
  proof cases
    case 1
    let ?a = "PROG_START + (p - prog_frame s)"
    have a: "in_region PROG_START 4194304 ?a" using 1 by (simp add: in_region_def)
    then have "unat PROG_START \<le> unat ?a" by (subst (asm) in_region_iff) simp_all
    then have "\<not> in_region b n ?a" using assms(3) by (subst in_region_iff) simp_all
    then have "m ?a = ram s p" using assms(2) a by (simp add: vmem_def phys_def)
    then show ?thesis using 1 by (simp add: set_vmem_def)
  next
    case 3
    have "in_region PROG_START 4194304 p \<Longrightarrow> in_region PROG_START 8388608 p"
      using in_region_mono [of PROG_START 4194304 p 8388608] by simp
    moreover have "in_region USER_VIDEO_ADDR 4194304 p \<Longrightarrow> in_region PROG_START 8388608 p"
      by (subst (asm) in_region_iff; simp; subst in_region_iff; simp)
    ultimately have "phys s p = p" using 3(2) by (auto simp: phys_def)
    then show ?thesis using 3 assms(2,4) by (simp add: set_vmem_def vmem_def)
  qed (simp add: set_vmem_def)
qed

section \<open>The running terminal\<close>

record sched = paging +
  current_terminal :: u32

definition set_next_process :: "u32 \<Rightarrow> 'a sched_scheme \<Rightarrow> 'a sched_scheme" where
  "set_next_process i s = s\<lparr>current_terminal := i\<rparr>"

definition get_current_process :: "'a sched_scheme \<Rightarrow> u32" where
  "get_current_process s = current_terminal s"

end
