(* ===== verification/Rtc.thy ===== *)
theory Rtc
  imports AddressSpace
begin

text \<open>
  The real-time clock driver \<^verbatim>\<open>src/rtc.c\<close> and the timer initialisation of
  \<^verbatim>\<open>src/scheduling.c\<close>: programming the rate through register A, the per-terminal flags that the
  interrupt handler sets, and the read that waits for one.  The waiting loop runs against an
  environment \<open>env\<close>: \<open>env k\<close> is what interrupts do between the \<open>k\<close>-th look at the flag and the
  next; \<open>None\<close> is a read that waits for ever.
\<close>

section \<open>The driver\<close>

abbreviation (input) RA :: u32 where "RA \<equiv> 0x8A"
abbreviation (input) RB :: u32 where "RB \<equiv> 0x8B"
abbreviation (input) RC :: u32 where "RC \<equiv> 0x0C"
abbreviation (input) CMD_P :: u16 where "CMD_P \<equiv> 0x70"
abbreviation (input) DATA_P :: u16 where "DATA_P \<equiv> 0x71"
abbreviation (input) PIE_BIT :: u32 where "PIE_BIT \<equiv> 0x40"
abbreviation (input) RTC_IRQ_NUMBER :: u32 where "RTC_IRQ_NUMBER \<equiv> 8"
abbreviation (input) thirtytwo :: u32 where "thirtytwo \<equiv> 0x0B"

record rtc = sched +
  rtc_interrupt_occured :: "i32 list"
  test_mode :: i32

definition set_test_mode :: "'a rtc_scheme \<Rightarrow> 'a rtc_scheme" where
  "set_test_mode s = s\<lparr>test_mode := 1\<rparr>"

definition clear_test_mode :: "'a rtc_scheme \<Rightarrow> 'a rtc_scheme" where
  "clear_test_mode s = s\<lparr>test_mode := 0\<rparr>"

definition init_rtc :: "device \<Rightarrow> 'a rtc_scheme \<Rightarrow> 'a rtc_scheme option" where
  "init_rtc dev s0 =
     (let s = cli s0;
          s = outb RB CMD_P s;
          (temp, s) = inb dev DATA_P s;
          s = outb RB CMD_P s;
          s = outb (PIE_BIT OR temp) DATA_P s;
          s = sti s;
          s = outb RA CMD_P s;
          (prev, s) = inb dev DATA_P s;
          s = outb RA CMD_P s;
          s = outb (thirtytwo OR (prev AND 0xF0)) DATA_P s;
          s = cli s
      in map_option sti (set_interrupt RTC_IRQ_NUMBER Rtc_handler s))"

definition open_rtc :: "device \<Rightarrow> 'a rtc_scheme \<Rightarrow> (i32 \<times> 'a rtc_scheme) option" where
  "open_rtc dev s = map_option (\<lambda>s'. (0, s')) (init_rtc dev s)"

partial_function (option) rtc_wait ::
    "(nat \<Rightarrow> 'a rtc_scheme \<Rightarrow> 'a rtc_scheme) \<Rightarrow> nat \<Rightarrow> nat \<Rightarrow> 'a rtc_scheme \<Rightarrow> 'a rtc_scheme option" where
  "rtc_wait env process k s =
     (if rtc_interrupt_occured s ! process = 1 then Some s
      else rtc_wait env process (k + 1) (env k s))"

text \<open>A process number outside the array of three flags is undefined behaviour, \<open>None\<close>.\<close>

definition read_rtc ::
    "(nat \<Rightarrow> 'a rtc_scheme \<Rightarrow> 'a rtc_scheme) \<Rightarrow> 'a rtc_scheme \<Rightarrow> u32 \<Rightarrow> i32 \<Rightarrow>
     (i32 \<times> 'a rtc_scheme) option" where
  "read_rtc env s buf nbytes =
     (let current_process = unat (get_current_process s)
      in if current_process < length (rtc_interrupt_occured s) then
           map_option (\<lambda>s'. (0, s'))
             (rtc_wait env current_process 0
                (s\<lparr>rtc_interrupt_occured := (rtc_interrupt_occured s)[current_process := 0]\<rparr>))
         else None)"

definition rate_of :: "i32 \<Rightarrow> u32 option" where
  "rate_of frequency =
     (if frequency = 2 then Some 0x0F
      else if frequency = 4 then Some 0x0E
      else if frequency = 8 then Some 0x0D
      else if frequency = 16 then Some 0x0C
      else if frequency = 32 then Some 0x0B
      else if frequency = 64 then Some 0x0A
      else if frequency = 128 then Some 0x09
      else if frequency = 256 then Some 0x08
      else if frequency = 512 then Some 0x07
      else if frequency = 1024 then Some 0x06
      else None)"

definition write_rtc :: "device \<Rightarrow> 'a rtc_scheme \<Rightarrow> u32 \<Rightarrow> i32 \<Rightarrow> i32 \<times> 'a rtc_scheme" where
  "write_rtc dev s0 buf nbytes =
     (if nbytes \<noteq> 4 then (ERR, s0)
      else case rate_of (load32 (vmem s0) buf) of
             None \<Rightarrow> (ERR, s0)
           | Some rate \<Rightarrow>
               let s = outb RA CMD_P s0;
                   (prev, s) = inb dev DATA_P s;
                   s = outb RA CMD_P s;
                   s = outb (rate OR (prev AND 0xF0)) DATA_P s
               in (0, s))"

definition close_rtc :: i32 where "close_rtc = 0"

definition rtc_handler :: "device \<Rightarrow> 'a rtc_scheme \<Rightarrow> 'a rtc_scheme" where
  "rtc_handler dev s0 =
     (let s = cli s0;
          s = outb RC CMD_P s;
          (_, s) = inb dev DATA_P s;
          s = s\<lparr>rtc_interrupt_occured := (rtc_interrupt_occured s)[0 := 1]\<rparr>;
          s = s\<lparr>rtc_interrupt_occured := (rtc_interrupt_occured s)[1 := 1]\<rparr>;
          s = s\<lparr>rtc_interrupt_occured := (rtc_interrupt_occured s)[2 := 1]\<rparr>
      in sti s)"

text \<open>The programmable interval timer.\<close>

definition initialize_pit :: "'a irqs_scheme \<Rightarrow> 'a irqs_scheme option" where
  "initialize_pit s0 =
     (let s = cli s0;
          divisor = 1193180 div 100;
          s = outb 0x34 0x43 s;
          s = outb (ucast (ucast (divisor AND 0xFF :: u32) :: u8)) 0x40 s;
          s = outb (ucast (ucast (drop_bit 8 (divisor AND 0xFF00 :: u32)) :: u8)) 0x40 s;
          s = sti s
      in set_interrupt 0 Pit_handler s)"

section \<open>The rate register\<close>

text \<open>The clock's interrupt frequency for a rate, by its data sheet.\<close>

definition rtc_frequency :: "u32 \<Rightarrow> nat" where
  "rtc_frequency rate = 32768 div 2 ^ (unat (rate AND 0xF) - 1)"

lemma rate_of_elim:
  assumes "rate_of f = Some r"
  obtains "f = 2" "r = 15" | "f = 4" "r = 14" | "f = 8" "r = 13" | "f = 16" "r = 12"
    | "f = 32" "r = 11" | "f = 64" "r = 10" | "f = 128" "r = 9" | "f = 256" "r = 8"
    | "f = 512" "r = 7" | "f = 1024" "r = 6"
  using assms unfolding rate_of_def by (simp split: if_split_asm)

lemma rate_of_cases:
  "rate_of f = Some r \<longleftrightarrow> (\<exists>k. 1 \<le> k \<and> k \<le> 10 \<and> f = 2 ^ k \<and> r = word_of_nat (16 - k))"
proof
  assume "rate_of f = Some r"
  then show "\<exists>k. 1 \<le> k \<and> k \<le> 10 \<and> f = 2 ^ k \<and> r = word_of_nat (16 - k)"
    by (cases rule: rate_of_elim; intro exI [of _ "16 - unat r"]) simp_all
next
  assume "\<exists>k. 1 \<le> k \<and> k \<le> 10 \<and> f = 2 ^ k \<and> r = word_of_nat (16 - k)"
  then obtain k where k: "1 \<le> k" "k \<le> 10" "f = 2 ^ k" "r = word_of_nat (16 - k)" by blast
  then have "k = 1 \<or> k = 2 \<or> k = 3 \<or> k = 4 \<or> k = 5 \<or> k = 6 \<or> k = 7 \<or> k = 8 \<or> k = 9 \<or> k = 10"
    by arith
  with k(3,4) show "rate_of f = Some r" by (elim disjE) (simp_all add: rate_of_def)
qed

lemma rate_of_frequency:
  assumes "rate_of f = Some r"
  shows "rtc_frequency r = unat f" "r < 16" "r AND 0xF = r"
proof -
  have "r \<in> {6, 7, 8, 9, 10, 11, 12, 13, 14, 15}" "unat f = rtc_frequency r"
    using assms by (auto simp: rate_of_def rtc_frequency_def split: if_splits)
  then show "rtc_frequency r = unat f" "r < 16" "r AND 0xF = r" by auto
qed

lemma low_byte_rate:
  "(ucast ((r :: u32) OR (ucast (v :: u8) AND 0xF0)) :: u8) = ucast r OR (v AND 0xF0)"
  by (rule bit_word_eqI) (auto simp: bit_simps)

lemma valid_frequency: "(\<exists>k\<in>{1..10}. f = 2 ^ k) \<longleftrightarrow> (\<exists>r. rate_of f = Some r)"
  unfolding rate_of_cases by auto

text \<open>C37: \<^verbatim>\<open>write_rtc\<close> accepts exactly four bytes holding a power of two from 2 to 1024; it then
  reads register A and writes it back with its high half kept and a rate that makes the clock
  tick at the wanted frequency.  Everything else, in particular every other number of bytes, which the
  comment in the source says is ignored, is refused without touching a port.\<close>

theorem write_rtc_sets_frequency:
  "case write_rtc dev s buf nbytes of (r, s') \<Rightarrow>
     (if nbytes = 4 \<and> (\<exists>k\<in>{1..10}. load32 (vmem s) buf = 2 ^ k)
      then r = 0 \<and> (\<exists>prev rate.
        io s' = io s @ [Out CMD_P 0x8A, In DATA_P prev, Out CMD_P 0x8A,
                        Out DATA_P (ucast rate OR (prev AND 0xF0))] \<and>
        rate < 16 \<and> rtc_frequency rate = unat (load32 (vmem s) buf)) \<and> s'\<lparr>io := io s\<rparr> = s
      else r = - 1 \<and> s' = s)"
proof -
  let ?f = "load32 (vmem s) buf"
  show ?thesis
  proof (cases "nbytes = 4 \<and> (\<exists>rate. rate_of ?f = Some rate)")
    case True
    then obtain rate where rate: "rate_of ?f = Some rate" by blast
    have "write_rtc dev s buf nbytes = (0, s\<lparr>io := io s @ [Out CMD_P 0x8A,
        In DATA_P (dev (io s @ [Out CMD_P 0x8A]) DATA_P), Out CMD_P 0x8A,
        Out DATA_P (ucast rate OR (dev (io s @ [Out CMD_P 0x8A]) DATA_P AND 0xF0))]\<rparr>)"
      using True rate by (simp add: write_rtc_def machine_simps low_byte_rate)
    with True rate rate_of_frequency [OF rate] show ?thesis
      unfolding valid_frequency by (auto intro!: exI [of _ rate])
  next
    case False
    then have "write_rtc dev s buf nbytes = (- 1, s)"
      by (auto simp: write_rtc_def split: option.split)
    with False show ?thesis unfolding valid_frequency by simp
  qed
qed

section \<open>Waiting for the clock\<close>

lemma rtc_handler_sets:
  assumes "length (rtc_interrupt_occured s) = 3" "i < 3"
  shows "rtc_interrupt_occured (rtc_handler dev s) ! i = 1"
proof -
  have "i = 0 \<or> i = 1 \<or> i = 2" using assms(2) by arith
  then show ?thesis using assms(1) by (elim disjE) (simp_all add: rtc_handler_def machine_simps)
qed

text \<open>The state of the waiting loop after \<open>k\<close> looks.\<close>

primrec env_run :: "(nat \<Rightarrow> 's \<Rightarrow> 's) \<Rightarrow> 's \<Rightarrow> nat \<Rightarrow> 's" where
  "env_run env s 0 = s"
| "env_run env s (Suc k) = env k (env_run env s k)"

lemma rtc_wait_steps:
  assumes "\<forall>j<k. rtc_interrupt_occured (env_run env s j) ! p \<noteq> 1"
  shows "rtc_wait env p 0 s = rtc_wait env p k (env_run env s k)"
  using assms
proof (induction k)
  case (Suc k)
  then have "rtc_wait env p 0 s = rtc_wait env p k (env_run env s k)" by simp
  also have "\<dots> = rtc_wait env p (Suc k) (env_run env s (Suc k))"
    using Suc.prems by (subst rtc_wait.simps) simp
  finally show ?case .
qed simp

lemma rtc_wait_returns:
  assumes "rtc_interrupt_occured (env_run env s k) ! p = 1"
  shows "\<exists>j\<le>k. rtc_wait env p 0 s = Some (env_run env s j) \<and> rtc_interrupt_occured (env_run env s j) ! p = 1"
proof -
  define j where "j = (LEAST j. rtc_interrupt_occured (env_run env s j) ! p = 1)"
  have j: "rtc_interrupt_occured (env_run env s j) ! p = 1" "j \<le> k"
    unfolding j_def using assms by (auto intro: LeastI Least_le)
  have "rtc_interrupt_occured (env_run env s i) ! p \<noteq> 1" if "i < j" for i
    using that not_less_Least unfolding j_def by blast
  then have "rtc_wait env p 0 s = rtc_wait env p j (env_run env s j)" by (intro rtc_wait_steps) blast
  also have "\<dots> = Some (env_run env s j)" using j(1) by (subst rtc_wait.simps) simp
  finally show ?thesis using j by blast
qed

lemma rtc_wait_result:
  "rtc_wait env p k s = Some s' \<Longrightarrow> rtc_interrupt_occured s' ! p = 1"
  by (rule rtc_wait.raw_induct [where P = "\<lambda>env p k s s'. rtc_interrupt_occured s' ! p = 1"])
    (auto split: if_splits)

text \<open>C38: a read of the clock clears the flag of the running terminal and then returns exactly
  when an interrupt of the clock is handled while it waits: if the environment runs the
  handler at some point it returns 0 no later than at that point, and it never returns while
  the flag is clear.\<close>

theorem read_rtc_waits:
  assumes "length (rtc_interrupt_occured s) = 3" "unat (current_terminal s) < 3"
    and "\<And>j t. length (rtc_interrupt_occured (env j t)) = length (rtc_interrupt_occured t)"
    and "\<And>t. env n t = rtc_handler dev t"
  defines "s0 \<equiv> s\<lparr>rtc_interrupt_occured := (rtc_interrupt_occured s)[unat (current_terminal s) := 0]\<rparr>"
  shows "\<exists>j\<le>Suc n. read_rtc env s buf nbytes = Some (0, env_run env s0 j) \<and> 0 < j \<and>
    rtc_interrupt_occured (env_run env s0 j) ! unat (current_terminal s) = 1"
proof -
  let ?p = "unat (current_terminal s)"
  have len: "length (rtc_interrupt_occured (env_run env s0 k)) = 3" for k
    using assms(1,3) by (induction k) (simp_all add: s0_def)
  have "rtc_interrupt_occured (env_run env s0 (Suc n)) ! ?p = 1"
    using rtc_handler_sets [OF len assms(2)] assms(4) by simp
  then obtain j where j: "j \<le> Suc n" "rtc_wait env ?p 0 s0 = Some (env_run env s0 j)"
    "rtc_interrupt_occured (env_run env s0 j) ! ?p = 1"
    using rtc_wait_returns by blast
  have "rtc_interrupt_occured (env_run env s0 0) ! ?p = 0" using assms(1,2) by (simp add: s0_def)
  with j(3) have "0 < j" by (cases j) simp_all
  moreover have "read_rtc env s buf nbytes = Some (0, env_run env s0 j)"
    using j(2) assms(1,2) by (simp add: read_rtc_def get_current_process_def s0_def)
  ultimately show ?thesis using j by blast
qed

definition sample_rtc :: rtc where
  "sample_rtc = sched.extend (paging.extend sample_paging \<lparr>current_terminal = 1\<rparr>)
     \<lparr>rtc_interrupt_occured = [0, 1, 0], test_mode = 0\<rparr>"

theorem read_rtc_waits_witness:
  "\<exists>s'. read_rtc (\<lambda>k t. if k = 2 then rtc_handler (\<lambda>_ _. 0) t else t) sample_rtc 0 4 = Some (0, s') \<and>
     rtc_interrupt_occured s' ! 1 = 1"
proof -
  let ?env = "\<lambda>(k :: nat) t. if k = 2 then rtc_handler (\<lambda>_ _. 0) t else (t :: rtc)"
  have a: "length (rtc_interrupt_occured sample_rtc) = 3" "unat (current_terminal sample_rtc) = 1"
    by (simp_all add: sample_rtc_def sched.extend_def paging.extend_def)
  have keep: "length (rtc_interrupt_occured (?env j t)) = length (rtc_interrupt_occured t)" for j t
    by (simp add: rtc_handler_def machine_simps)
  have at: "?env 2 t = rtc_handler (\<lambda>_ _. 0) t" for t by simp
  show ?thesis
    using read_rtc_waits [where env = ?env and n = 2 and s = sample_rtc and buf = 0 and nbytes = 4,
        OF a(1) _ keep at] unfolding a(2) by auto
qed

end
