(* ===== verification/Terminal.thy ===== *)
theory Terminal
  imports Rtc
begin

text \<open>
  The terminals of \<^verbatim>\<open>src/kb.c\<close>: the record of a terminal, the console routines in their two
  variants (the \<^verbatim>\<open>terminal_\<close> routines act for the running process through the user video pages,
  the \<^verbatim>\<open>keyboard_\<close> routines for the displayed terminal on the text screen itself), the line
  buffer, and reading and writing a terminal.  The keyboard's interrupt handler is in
  \<open>Keyboard\<close>.  The arrays are lists; a terminal index outside the three is undefined behaviour
  that the invariants of the later theories exclude.
\<close>

section \<open>State\<close>

record termis_t =
  buffer_size :: i32
  ctrl :: u8
  caps_lock :: u8
  shift :: u8
  caps_on :: u8
  caps_off :: u8
  video_memory :: u32
  kmap :: u8
  up :: u8
  down :: u8
  left :: u8
  right :: u8
  scroll_index :: u8
  run_shell :: u8
  terminal_id :: u8
  buffer_flag :: i32
  enter_flag :: u8
  cursor_x :: u16
  cursor_y :: u16
  kbuffer :: "u8 list"
  storage_buffer :: "u8 list"

record tty = rtc +
  termis :: "termis_t list"
  terminal_number :: i32
  alt_pressed :: i32

abbreviation (input) HEIGHT :: nat where "HEIGHT \<equiv> 25"
abbreviation (input) WIDTH :: nat where "WIDTH \<equiv> 80"
abbreviation (input) WHITE :: u8 where "WHITE \<equiv> 0x0F"
abbreviation (input) MAX_BUFFER_SIZE :: nat where "MAX_BUFFER_SIZE \<equiv> 128"
abbreviation (input) MAX_SIZE :: nat where "MAX_SIZE \<equiv> 4096"
abbreviation (input) TAB_SPACE_NUM :: nat where "TAB_SPACE_NUM \<equiv> 4"
abbreviation (input) REG_PORT :: u16 where "REG_PORT \<equiv> 0x3D4"
abbreviation (input) DATA_PORT :: u16 where "DATA_PORT \<equiv> 0x3D5"

text \<open>\<^verbatim>\<open>termis[t]\<close> and its update.\<close>

definition termi :: "u32 \<Rightarrow> 'a tty_scheme \<Rightarrow> termis_t" where
  "termi t s = termis s ! unat t"

definition upd_termi :: "u32 \<Rightarrow> (termis_t \<Rightarrow> termis_t) \<Rightarrow> 'a tty_scheme \<Rightarrow> 'a tty_scheme" where
  "upd_termi t f s = s\<lparr>termis := (termis s)[unat t := f (termis s ! unat t)]\<rparr>"

definition get_terminal_number :: "'a tty_scheme \<Rightarrow> i32" where
  "get_terminal_number s = terminal_number s"

definition blank :: "u8 list \<Rightarrow> nat \<Rightarrow> u8 list" where
  "blank xs n = fold (\<lambda>i xs. xs[i := 0]) [0..<n] xs"

definition init_termis :: "u8 \<Rightarrow> 'a tty_scheme \<Rightarrow> 'a tty_scheme" where
  "init_termis t s = upd_termi (ucast t)
     (\<lambda>r. r\<lparr>ctrl := 0, caps_lock := 0, shift := 0, caps_on := 0, caps_off := 1,
            video_memory := USER_VIDEO_ADDR, kmap := 0, up := 0, down := 0, left := 0, right := 0,
            scroll_index := 0, run_shell := 0, terminal_id := t, buffer_flag := 1, enter_flag := 0,
            cursor_x := 0, cursor_y := 0, buffer_size := 0,
            kbuffer := blank (kbuffer r) MAX_SIZE,
            storage_buffer := blank (storage_buffer r) MAX_SIZE\<rparr>) s"

definition open_terminal :: i32 where "open_terminal = 0"

section \<open>The screen as the running process sees it\<close>

text \<open>The 16-bit offset of a character cell.\<close>

definition cell_offset :: "u16 \<Rightarrow> u16 \<Rightarrow> u16" where
  "cell_offset x y = (y * 80 + x) * 2"

definition terminal_console_putc :: "u16 \<Rightarrow> u16 \<Rightarrow> u8 \<Rightarrow> 'a tty_scheme \<Rightarrow> 'a tty_scheme" where
  "terminal_console_putc x y ch s =
     (let current_process = get_current_process s;
          high_byte_addr = ucast (cell_offset x y) + video_memory (termi current_process s);
          s = vwrite s high_byte_addr ch
      in vwrite s (high_byte_addr + 1) WHITE)"

definition terminal_console_getc :: "u16 \<Rightarrow> u16 \<Rightarrow> 'a tty_scheme \<Rightarrow> u8" where
  "terminal_console_getc x y s = vread s (USER_VIDEO_ADDR + (ucast y * 80 + ucast x) * 2)"

text \<open>The two loops of a scroll, for either variant: move the rows up, blank the rest.\<close>

definition scroll_rows ::
    "(u16 \<Rightarrow> u16 \<Rightarrow> u8 \<Rightarrow> 's \<Rightarrow> 's) \<Rightarrow> (u16 \<Rightarrow> u16 \<Rightarrow> 's \<Rightarrow> u8) \<Rightarrow> nat \<Rightarrow> 's \<Rightarrow> 's" where
  "scroll_rows putc getc n s0 =
     (let s = fold (\<lambda>y. fold (\<lambda>x s. putc (word_of_nat x) (word_of_nat y)
                (getc (word_of_nat x) (word_of_nat (y + n)) s) s) [0..<WIDTH]) [0..<HEIGHT - n] s0
      in fold (\<lambda>y. fold (\<lambda>x. putc (word_of_nat x) (word_of_nat y) 0) [0..<WIDTH])
           (if n \<le> HEIGHT then [HEIGHT - n..<HEIGHT] else []) s)"

definition terminal_scroll_up :: "u16 \<Rightarrow> 'a tty_scheme \<Rightarrow> 'a tty_scheme" where
  "terminal_scroll_up n s =
     scroll_rows terminal_console_putc terminal_console_getc (unat n)
       (upd_termi (get_current_process s) (\<lambda>r. r\<lparr>scroll_index := scroll_index r + ucast n\<rparr>) s)"

definition terminal_set_cursor :: "u16 \<Rightarrow> u16 \<Rightarrow> 'a tty_scheme \<Rightarrow> 'a tty_scheme" where
  "terminal_set_cursor x y s =
     (let position = y * 80 + x;
          s = outb 14 REG_PORT s;
          s = outb (ucast (drop_bit 8 position AND 0xFF)) DATA_PORT s;
          s = outb 15 REG_PORT s
      in outb (ucast (position AND 0xFF)) DATA_PORT s)"

definition terminal_update_cursor :: "u16 \<Rightarrow> u16 \<Rightarrow> 'a tty_scheme \<Rightarrow> 'a tty_scheme" where
  "terminal_update_cursor x y s =
     (let current_process = get_current_process s
      in if x = 80 - 1 \<and> y = 25 - 1 then
           upd_termi current_process (\<lambda>r. r\<lparr>cursor_x := 0, cursor_y := 25 - 1\<rparr>) (terminal_scroll_up 1 s)
         else if x = 80 - 1 then
           upd_termi current_process (\<lambda>r. r\<lparr>cursor_x := 0, cursor_y := cursor_y r + 1\<rparr>) s
         else upd_termi current_process (\<lambda>r. r\<lparr>cursor_x := cursor_x r + 1\<rparr>) s)"

definition terminal_revert_cursor :: "u16 \<Rightarrow> u16 \<Rightarrow> 'a tty_scheme \<Rightarrow> 'a tty_scheme" where
  "terminal_revert_cursor x y s =
     (let current_process = get_current_process s
      in if x = 0 \<and> y = 0 then s
         else if x = 0 then
           upd_termi current_process (\<lambda>r. r\<lparr>cursor_x := 80 - 1, cursor_y := cursor_y r - 1\<rparr>) s
         else upd_termi current_process (\<lambda>r. r\<lparr>cursor_x := cursor_x r - 1\<rparr>) s)"

definition terminal_clean_buffer :: "'a tty_scheme \<Rightarrow> 'a tty_scheme" where
  "terminal_clean_buffer s =
     upd_termi (get_current_process s)
       (\<lambda>r. r\<lparr>kbuffer := blank (kbuffer r) MAX_BUFFER_SIZE, buffer_size := 0, buffer_flag := 1\<rparr>) s"

definition close_terminal :: "'a tty_scheme \<Rightarrow> i32 \<times> 'a tty_scheme" where
  "close_terminal s =
     (let process_num = get_current_process s;
          s = upd_termi process_num (\<lambda>r. r\<lparr>storage_buffer := blank (storage_buffer r) MAX_SIZE\<rparr>) s
      in (0, terminal_clean_buffer s))"

section \<open>Writing to the terminal of the running process\<close>

text \<open>Show the hardware cursor only when the running terminal is the displayed one.\<close>

definition sync_cursor :: "'a tty_scheme \<Rightarrow> 'a tty_scheme" where
  "sync_cursor s =
     (let p = get_current_process s
      in if p = get_terminal_number s
         then terminal_set_cursor (cursor_x (termi p s)) (cursor_y (termi p s)) s else s)"

definition terminal_put :: "u8 \<Rightarrow> 'a tty_scheme \<Rightarrow> 'a tty_scheme" where
  "terminal_put ch s0 =
     (let p = get_current_process s0;
          s = terminal_console_putc (cursor_x (termi p s0)) (cursor_y (termi p s0)) ch s0;
          s = terminal_update_cursor (cursor_x (termi p s)) (cursor_y (termi p s)) s
      in sync_cursor s)"

definition write_terminal_char :: "u8 \<Rightarrow> 'a tty_scheme \<Rightarrow> 'a tty_scheme" where
  "write_terminal_char character s0 =
     (let p = get_current_process s0
      in if character = 8 then
           if \<not> (cursor_x (termi p s0) = 0 \<and> cursor_y (termi p s0) = 0) \<and> buffer_flag (termi p s0) = 0 then
             let s = terminal_revert_cursor (cursor_x (termi p s0)) (cursor_y (termi p s0)) s0;
                 s = sync_cursor s
             in terminal_console_putc (cursor_x (termi p s)) (cursor_y (termi p s)) 0 s
           else s0
         else if character = 10 then
           let s = upd_termi p (\<lambda>r. r\<lparr>cursor_x := 80 - 1\<rparr>) s0;
               s = terminal_update_cursor (cursor_x (termi p s)) (cursor_y (termi p s)) s
           in sync_cursor s
         else if character = 9 then fold (\<lambda>_. terminal_put 0x20) [0..<TAB_SPACE_NUM] s0
         else terminal_put character s0)"

definition write_terminal :: "'a tty_scheme \<Rightarrow> u32 \<Rightarrow> i32 \<Rightarrow> i32 \<times> 'a tty_scheme" where
  "write_terminal s buf nbytes =
     (0, fold (\<lambda>i s. write_terminal_char (vread s (buf + word_of_nat i)) s) [0..<nat (sint nbytes)] s)"

section \<open>Reading a line\<close>

text \<open>The copy in the body of the waiting loop: clear \<open>length\<close> bytes, then fill them.\<close>

definition copy_line :: "u32 \<Rightarrow> u32 \<Rightarrow> nat \<Rightarrow> 'a tty_scheme \<Rightarrow> 'a tty_scheme" where
  "copy_line t buf len s0 =
     (let s = fold (\<lambda>i s. vwrite s (buf + word_of_nat i) 0) [0..<len] s0
      in fold (\<lambda>j s. vwrite s (buf + word_of_nat j) (storage_buffer (termi t s) ! j)) [0..<len] s)"

partial_function (option) line_wait ::
    "(nat \<Rightarrow> 'a tty_scheme \<Rightarrow> 'a tty_scheme) \<Rightarrow> u32 \<Rightarrow> u32 \<Rightarrow> nat \<Rightarrow> nat \<Rightarrow> 'a tty_scheme \<Rightarrow>
     'a tty_scheme option" where
  "line_wait env t buf len k s =
     (if enter_flag (termi t s) \<noteq> 1 then line_wait env t buf len (k + 1) (env k (copy_line t buf len s))
      else Some s)"

partial_function (option) line_end :: "'a tty_scheme \<Rightarrow> u32 \<Rightarrow> u32 \<Rightarrow> u32 option" where
  "line_end s buf len = (if vread s (buf + len) \<noteq> 0 then line_end s buf (len + 1) else Some len)"

definition read_terminal ::
    "(nat \<Rightarrow> 'a tty_scheme \<Rightarrow> 'a tty_scheme) \<Rightarrow> 'a tty_scheme \<Rightarrow> u32 \<Rightarrow> i32 \<Rightarrow>
     (i32 \<times> 'a tty_scheme) option" where
  "read_terminal env s0 buf nbytes =
     (let t = get_current_process s0;
          len = (if sint nbytes \<le> int MAX_BUFFER_SIZE then nat (sint nbytes) else MAX_BUFFER_SIZE)
      in case line_wait env t buf len 0 (upd_termi t (\<lambda>r. r\<lparr>enter_flag := 0\<rparr>) s0) of
           None \<Rightarrow> None
         | Some s1 \<Rightarrow>
             let s2 = vwrite s1 (buf + (128 - 1)) 0
             in case line_end s2 buf 0 of
                  None \<Rightarrow> None
                | Some n \<Rightarrow>
                    let s3 = vwrite s2 (buf + n) 10;
                        s4 = vwrite s3 (buf + (128 - 1)) 10;
                        s5 = upd_termi t (\<lambda>r. r\<lparr>enter_flag := 0\<rparr>) s4;
                        s6 = upd_termi t (\<lambda>r. r\<lparr>storage_buffer := blank (storage_buffer r) MAX_SIZE\<rparr>) s5
                    in Some (n + 1, s6))"

section \<open>The displayed terminal\<close>

definition keyboard_console_putc :: "u16 \<Rightarrow> u16 \<Rightarrow> u8 \<Rightarrow> 'a tty_scheme \<Rightarrow> 'a tty_scheme" where
  "keyboard_console_putc x y ch s =
     (let high_byte_addr = ucast (cell_offset x y) + VIDEO;
          s = vwrite s high_byte_addr ch
      in vwrite s (high_byte_addr + 1) WHITE)"

definition keyboard_console_getc :: "u16 \<Rightarrow> u16 \<Rightarrow> 'a tty_scheme \<Rightarrow> u8" where
  "keyboard_console_getc x y s = vread s (VIDEO + (ucast y * 80 + ucast x) * 2)"

definition keyboard_scroll_up :: "u16 \<Rightarrow> 'a tty_scheme \<Rightarrow> 'a tty_scheme" where
  "keyboard_scroll_up n s =
     scroll_rows keyboard_console_putc keyboard_console_getc (unat n)
       (upd_termi (terminal_number s) (\<lambda>r. r\<lparr>scroll_index := scroll_index r + ucast n\<rparr>) s)"

definition keyboard_set_cursor :: "u16 \<Rightarrow> u16 \<Rightarrow> 'a tty_scheme \<Rightarrow> 'a tty_scheme" where
  "keyboard_set_cursor x y s =
     (let position = y * 80 + x;
          s = outb 14 REG_PORT s;
          s = outb (ucast (drop_bit 8 position AND 0xFF)) DATA_PORT s;
          s = outb 15 REG_PORT s
      in outb (ucast (position AND 0xFF)) DATA_PORT s)"

definition clean_screen :: "'a tty_scheme \<Rightarrow> 'a tty_scheme" where
  "clean_screen s0 =
     (let s = fold (\<lambda>y. fold (\<lambda>x. keyboard_console_putc (word_of_nat x) (word_of_nat y) 0x20) [0..<WIDTH])
                [0..<HEIGHT] s0;
          s = upd_termi (terminal_number s) (\<lambda>r. r\<lparr>cursor_x := 0, cursor_y := 0\<rparr>) s
      in keyboard_set_cursor (cursor_x (termi (terminal_number s) s))
           (cursor_y (termi (terminal_number s) s)) s)"

definition keyboard_buffer_clean :: "'a tty_scheme \<Rightarrow> 'a tty_scheme" where
  "keyboard_buffer_clean s =
     upd_termi (terminal_number s)
       (\<lambda>r. r\<lparr>kbuffer := blank (kbuffer r) MAX_BUFFER_SIZE, buffer_size := 0, buffer_flag := 1\<rparr>) s"

definition keyboard_copy_buffer :: "'a tty_scheme \<Rightarrow> 'a tty_scheme" where
  "keyboard_copy_buffer s =
     upd_termi (terminal_number s)
       (\<lambda>r. r\<lparr>storage_buffer := fold (\<lambda>i sb. sb[i := kbuffer r ! i]) [0..<MAX_BUFFER_SIZE]
                (storage_buffer r)\<rparr>) s"

definition keyboard_cursor_update :: "u16 \<Rightarrow> u16 \<Rightarrow> 'a tty_scheme \<Rightarrow> 'a tty_scheme" where
  "keyboard_cursor_update x y s =
     (if x = 80 - 1 \<and> y = 25 - 1 then
        upd_termi (terminal_number s) (\<lambda>r. r\<lparr>cursor_x := 0, cursor_y := 25 - 1\<rparr>) (keyboard_scroll_up 1 s)
      else if x = 80 - 1 then
        upd_termi (terminal_number s) (\<lambda>r. r\<lparr>cursor_x := 0, cursor_y := cursor_y r + 1\<rparr>) s
      else upd_termi (terminal_number s) (\<lambda>r. r\<lparr>cursor_x := cursor_x r + 1\<rparr>) s)"

definition keyboard_cursor_revert :: "u16 \<Rightarrow> u16 \<Rightarrow> 'a tty_scheme \<Rightarrow> 'a tty_scheme" where
  "keyboard_cursor_revert x y s =
     (if x = 0 \<and> y = 0 then s
      else if x = 0 then
        upd_termi (terminal_number s) (\<lambda>r. r\<lparr>cursor_x := 80 - 1, cursor_y := cursor_y r - 1\<rparr>) s
      else upd_termi (terminal_number s) (\<lambda>r. r\<lparr>cursor_x := cursor_x r - 1\<rparr>) s)"

definition keyboard_put :: "u8 \<Rightarrow> 'a tty_scheme \<Rightarrow> 'a tty_scheme" where
  "keyboard_put ch s0 =
     (let t = terminal_number s0;
          s = keyboard_console_putc (cursor_x (termi t s0)) (cursor_y (termi t s0)) ch s0;
          s = keyboard_cursor_update (cursor_x (termi t s)) (cursor_y (termi t s)) s
      in keyboard_set_cursor (cursor_x (termi t s)) (cursor_y (termi t s)) s)"

text \<open>One character of \<^verbatim>\<open>write_terminal_from_keyboard\<close>, and the routine on the \<open>nbytes\<close>
  characters of its buffer.\<close>

definition keyboard_write_char :: "u8 \<Rightarrow> 'a tty_scheme \<Rightarrow> 'a tty_scheme" where
  "keyboard_write_char character s0 =
     (let t = terminal_number s0
      in if character = 8 then
           if \<not> (cursor_x (termi t s0) = 0 \<and> cursor_y (termi t s0) = 0) \<and> buffer_flag (termi t s0) = 0 then
             let s = keyboard_cursor_revert (cursor_x (termi t s0)) (cursor_y (termi t s0)) s0;
                 s = keyboard_set_cursor (cursor_x (termi t s)) (cursor_y (termi t s)) s
             in keyboard_console_putc (cursor_x (termi t s)) (cursor_y (termi t s)) 0 s
           else s0
         else if character = 10 then
           let s = upd_termi t (\<lambda>r. r\<lparr>cursor_x := 80 - 1\<rparr>) s0;
               s = keyboard_cursor_update (cursor_x (termi t s)) (cursor_y (termi t s)) s
           in keyboard_set_cursor (cursor_x (termi t s)) (cursor_y (termi t s)) s
         else if character = 9 then fold (\<lambda>_. keyboard_put 0x20) [0..<TAB_SPACE_NUM] s0
         else keyboard_put character s0)"

definition write_terminal_from_keyboard :: "u8 list \<Rightarrow> 'a tty_scheme \<Rightarrow> i32 \<times> 'a tty_scheme" where
  "write_terminal_from_keyboard bs s = (0, fold keyboard_write_char bs s)"

section \<open>The line buffer\<close>

definition upd_cur :: "(termis_t \<Rightarrow> termis_t) \<Rightarrow> 'a tty_scheme \<Rightarrow> 'a tty_scheme" where
  "upd_cur f s = upd_termi (terminal_number s) f s"

text \<open>Append a character to the buffer: \<^verbatim>\<open>buffer[buffer_size] = ch; buffer_size ++\<close>.\<close>

definition buffer_push :: "u8 \<Rightarrow> termis_t \<Rightarrow> termis_t" where
  "buffer_push ch r =
     r\<lparr>kbuffer := (kbuffer r)[nat (sint (buffer_size r)) := ch], buffer_size := buffer_size r + 1\<rparr>"

definition keyboard_fill_buffer :: "u8 \<Rightarrow> 'a tty_scheme \<Rightarrow> 'a tty_scheme" where
  "keyboard_fill_buffer ch s0 =
     (let cur = (\<lambda>s. termi (terminal_number s) s)
      in if ch = 8 then
           if buffer_size (cur s0) = 0 then
             let s = keyboard_copy_buffer s0 in upd_cur (\<lambda>r. r\<lparr>buffer_flag := 1\<rparr>) s
           else
             let s = upd_cur (\<lambda>r. r\<lparr>kbuffer := (kbuffer r)[nat (sint (buffer_size r - 1)) := 0],
                                 buffer_size := buffer_size r - 1, buffer_flag := 0\<rparr>) s0;
                 s = snd (write_terminal_from_keyboard [ch] s)
             in keyboard_copy_buffer s
         else if ch = 10 then
           let s = keyboard_copy_buffer s0;
               s = keyboard_buffer_clean s;
               s = snd (write_terminal_from_keyboard [ch] s)
           in upd_cur (\<lambda>r. r\<lparr>enter_flag := 1\<rparr>) s
         else if ctrl (cur s0) = 1 \<and> ch = 0x6C then
           let s = keyboard_buffer_clean s0;
               s = clean_screen s
           in keyboard_copy_buffer s
         else if ch = 9 then
           let s = upd_cur (\<lambda>r. r\<lparr>buffer_flag := 0\<rparr>) s0;
               room = int MAX_BUFFER_SIZE - sint (buffer_size (cur s));
               len = (if room < int TAB_SPACE_NUM then nat room else TAB_SPACE_NUM)
           in fold (\<lambda>_ s. keyboard_copy_buffer (upd_cur (buffer_push 0x20) s)) [0..<len] s
         else if buffer_size (cur s0) <s 128 then
           let s = upd_cur (buffer_push ch) s0;
               s = upd_cur (\<lambda>r. r\<lparr>buffer_flag := 0\<rparr>) s;
               s = snd (write_terminal_from_keyboard [ch] s)
           in keyboard_copy_buffer s
         else s0)"

end
