(* ===== verification/Console.thy ===== *)
theory Console
  imports Terminal
begin

text \<open>
  The text console as a contract.  \<^verbatim>\<open>src/kb.c\<close> has its console routines twice, for the running
  process and for the displayed terminal; both follow one specification: a screen of 80 by 25
  characters with a cursor, written character by character.  The specification is stated
  first, the locale proves it from the laws of writing and reading one cell and of moving the
  cursor, and the two interpretations discharge those laws for the two variants of the code.
\<close>

section \<open>The specification\<close>

record console_view =
  cells :: "nat \<Rightarrow> nat \<Rightarrow> u8"
  col :: nat
  row :: nat
  erasable :: bool

definition spec_set :: "nat \<Rightarrow> nat \<Rightarrow> u8 \<Rightarrow> console_view \<Rightarrow> console_view" where
  "spec_set x y c v = v\<lparr>cells := (\<lambda>x' y'. if x' = x \<and> y' = y then c else cells v x' y')\<rparr>"

definition spec_advance :: "console_view \<Rightarrow> console_view" where
  "spec_advance v =
     (if col v = 79 \<and> row v = 24
      then v\<lparr>cells := (\<lambda>x y. if y < 24 then cells v x (y + 1) else 0), col := 0, row := 24\<rparr>
      else if col v = 79 then v\<lparr>col := 0, row := row v + 1\<rparr>
      else v\<lparr>col := col v + 1\<rparr>)"

definition spec_retreat :: "console_view \<Rightarrow> console_view" where
  "spec_retreat v =
     (if col v = 0 \<and> row v = 0 then v
      else if col v = 0 then v\<lparr>col := 79, row := row v - 1\<rparr>
      else v\<lparr>col := col v - 1\<rparr>)"

definition spec_put :: "u8 \<Rightarrow> console_view \<Rightarrow> console_view" where
  "spec_put c v = spec_advance (spec_set (col v) (row v) c v)"

definition spec_char :: "u8 \<Rightarrow> console_view \<Rightarrow> console_view" where
  "spec_char c v =
     (if c = 8 then
        if (col v, row v) \<noteq> (0, 0) \<and> erasable v
        then let v' = spec_retreat v in spec_set (col v') (row v') 0 v' else v
      else if c = 10 then spec_advance (v\<lparr>col := 79\<rparr>)
      else if c = 9 then ((spec_put 0x20) ^^ 4) v
      else spec_put c v)"

definition on_screen :: "console_view \<Rightarrow> bool" where
  "on_screen v \<longleftrightarrow> col v < 80 \<and> row v < 25"

lemma on_screen_spec [simp]:
  "on_screen v \<Longrightarrow> on_screen (spec_advance v)" "on_screen v \<Longrightarrow> on_screen (spec_retreat v)"
  "on_screen v \<Longrightarrow> on_screen (spec_set x y c v)" "on_screen v \<Longrightarrow> on_screen (spec_put c v)"
  by (auto simp: on_screen_def spec_advance_def spec_retreat_def spec_set_def spec_put_def)

lemma on_screen_char: "on_screen v \<Longrightarrow> on_screen (spec_char c v)"
proof -
  assume v: "on_screen v"
  have "on_screen ((spec_put 0x20 ^^ n) v)" for n by (induction n) (simp_all add: v)
  moreover have "on_screen (v\<lparr>col := 79\<rparr>)" using v by (simp add: on_screen_def)
  ultimately show ?thesis using v by (simp add: spec_char_def Let_def)
qed

section \<open>The contract\<close>

locale console =
  fixes putc :: "u16 \<Rightarrow> u16 \<Rightarrow> u8 \<Rightarrow> 's \<Rightarrow> 's"
    and getc :: "u16 \<Rightarrow> u16 \<Rightarrow> 's \<Rightarrow> u8"
    and cx cy :: "'s \<Rightarrow> u16"
    and move :: "u16 \<Rightarrow> u16 \<Rightarrow> 's \<Rightarrow> 's"
    and note_scroll :: "'s \<Rightarrow> 's"
    and sync :: "'s \<Rightarrow> 's"
    and erase_ok :: "'s \<Rightarrow> bool"
    and ok :: "'s \<Rightarrow> bool"
  assumes getc_putc: "ok s \<Longrightarrow> x < 80 \<Longrightarrow> y < 25 \<Longrightarrow> x' < 80 \<Longrightarrow> y' < 25 \<Longrightarrow>
      getc (word_of_nat x') (word_of_nat y') (putc (word_of_nat x) (word_of_nat y) c s) =
      (if x' = x \<and> y' = y then c else getc (word_of_nat x') (word_of_nat y') s)"
    and putc_frame: "cx (putc x1 y1 c s) = cx s" "cy (putc x1 y1 c s) = cy s"
      "erase_ok (putc x1 y1 c s) = erase_ok s" "ok s \<Longrightarrow> ok (putc x1 y1 c s)"
    and move_law: "ok s \<Longrightarrow> cx (move x1 y1 s) = x1" "ok s \<Longrightarrow> cy (move x1 y1 s) = y1"
      "getc x2 y2 (move x1 y1 s) = getc x2 y2 s" "ok s \<Longrightarrow> erase_ok (move x1 y1 s) = erase_ok s"
      "ok s \<Longrightarrow> ok (move x1 y1 s)"
    and note_law: "ok s \<Longrightarrow> cx (note_scroll s) = cx s" "ok s \<Longrightarrow> cy (note_scroll s) = cy s"
      "getc x2 y2 (note_scroll s) = getc x2 y2 s"
      "ok s \<Longrightarrow> erase_ok (note_scroll s) = erase_ok s" "ok s \<Longrightarrow> ok (note_scroll s)"
    and sync_law: "cx (sync s) = cx s" "cy (sync s) = cy s" "getc x2 y2 (sync s) = getc x2 y2 s"
      "erase_ok (sync s) = erase_ok s" "ok s \<Longrightarrow> ok (sync s)"
begin

definition cell :: "'s \<Rightarrow> nat \<Rightarrow> nat \<Rightarrow> u8" where
  "cell s x y = (if x < 80 \<and> y < 25 then getc (word_of_nat x) (word_of_nat y) s else 0)"

definition view :: "'s \<Rightarrow> console_view" where
  "view s = \<lparr>cells = cell s, col = unat (cx s), row = unat (cy s), erasable = erase_ok s\<rparr>"

definition same_rest :: "'s \<Rightarrow> 's \<Rightarrow> bool" where
  "same_rest s s' \<longleftrightarrow> ok s \<and> ok s' \<and> cx s' = cx s \<and> cy s' = cy s \<and> erase_ok s' = erase_ok s"

lemma same_rest_refl: "ok s \<Longrightarrow> same_rest s s"
  by (simp add: same_rest_def)

lemma same_rest_putc: "same_rest s t \<Longrightarrow> same_rest s (putc x y c t)"
  by (simp add: same_rest_def putc_frame)

lemma cell_putc:
  "ok s \<Longrightarrow> x < 80 \<Longrightarrow> y < 25 \<Longrightarrow>
     cell (putc (word_of_nat x) (word_of_nat y) c s) =
     (\<lambda>x' y'. if x' = x \<and> y' = y then c else cell s x' y')"
  by (auto simp: cell_def getc_putc fun_eq_iff)

text \<open>One row moved up by \<open>n\<close>, then all rows, then the blank rows.\<close>

lemma move_row:
  assumes "same_rest s0 s" "y + n < 25" "0 < n" "k \<le> 80"
  shows "same_rest s0 (fold (\<lambda>x s. putc (word_of_nat x) (word_of_nat y)
      (getc (word_of_nat x) (word_of_nat (y + n)) s) s) [0..<k] s) \<and>
    cell (fold (\<lambda>x s. putc (word_of_nat x) (word_of_nat y)
      (getc (word_of_nat x) (word_of_nat (y + n)) s) s) [0..<k] s) =
    (\<lambda>x' y'. if y' = y \<and> x' < k then cell s x' (y + n) else cell s x' y')"
  using assms(4)
proof (induction k)
  case (Suc k)
  let ?s = "fold (\<lambda>x s. putc (word_of_nat x) (word_of_nat y)
      (getc (word_of_nat x) (word_of_nat (y + n)) s) s) [0..<k] s"
  have IH: "same_rest s0 ?s"
    "cell ?s = (\<lambda>x' y'. if y' = y \<and> x' < k then cell s x' (y + n) else cell s x' y')"
    using Suc by simp_all
  have "getc (word_of_nat k) (word_of_nat (y + n)) ?s = cell ?s k (y + n)"
    using Suc.prems assms(2) by (simp add: cell_def)
  also have "\<dots> = cell s k (y + n)" by (subst IH(2)) (use assms(3) in simp)
  finally have get: "getc (word_of_nat k) (word_of_nat (y + n)) ?s = cell s k (y + n)" .
  have "ok ?s" using IH(1) by (simp add: same_rest_def)
  from cell_putc [OF this, of k y "cell s k (y + n)"] show ?case
    using Suc.prems assms(2) IH get same_rest_putc [OF IH(1)] by (auto simp: fun_eq_iff less_Suc_eq)
qed (simp add: assms(1))

lemma move_rows:
  assumes "ok s0" "0 < n" "k \<le> 25 - n"
  defines "f \<equiv> \<lambda>y. fold (\<lambda>x s. putc (word_of_nat x) (word_of_nat y)
      (getc (word_of_nat x) (word_of_nat (y + n)) s) s) [0..<80]"
  shows "same_rest s0 (fold f [0..<k] s0) \<and>
    (\<forall>x y. x < 80 \<longrightarrow> cell (fold f [0..<k] s0) x y = (if y < k then cell s0 x (y + n) else cell s0 x y))"
  using assms(3)
proof (induction k)
  case 0
  show ?case by (simp add: same_rest_refl [OF assms(1)])
next
  case (Suc k)
  let ?s = "fold f [0..<k] s0"
  have IH: "same_rest s0 ?s"
    "\<And>x y. x < 80 \<Longrightarrow> cell ?s x y = (if y < k then cell s0 x (y + n) else cell s0 x y)"
    using Suc by simp_all
  have "k + n < 25" using Suc.prems by simp
  from move_row [OF IH(1) this assms(2), of 80] IH(2) show ?case
    by (auto simp: f_def less_Suc_eq)
qed

lemma blank_row:
  assumes "same_rest s0 s" "y < 25" "k \<le> 80"
  shows "same_rest s0 (fold (\<lambda>x. putc (word_of_nat x) (word_of_nat y) c) [0..<k] s) \<and>
    cell (fold (\<lambda>x. putc (word_of_nat x) (word_of_nat y) c) [0..<k] s) =
    (\<lambda>x' y'. if y' = y \<and> x' < k then c else cell s x' y')"
  using assms(3)
proof (induction k)
  case (Suc k)
  let ?s = "fold (\<lambda>x. putc (word_of_nat x) (word_of_nat y) c) [0..<k] s"
  have "same_rest s0 ?s" using Suc by simp
  moreover from this have "ok ?s" by (simp add: same_rest_def)
  ultimately show ?case
    using Suc cell_putc [of ?s k y c] assms(2) by (auto simp: same_rest_putc fun_eq_iff less_Suc_eq)
qed (simp add: assms(1))

lemma blank_rows:
  assumes "same_rest s0 s" "k \<le> j" "j \<le> 25"
  shows "same_rest s0 (fold (\<lambda>y. fold (\<lambda>x. putc (word_of_nat x) (word_of_nat y) c) [0..<80]) [k..<j] s) \<and>
    (\<forall>x y. x < 80 \<longrightarrow>
      cell (fold (\<lambda>y. fold (\<lambda>x. putc (word_of_nat x) (word_of_nat y) c) [0..<80]) [k..<j] s) x y =
      (if k \<le> y \<and> y < j then c else cell s x y))"
  using assms(2,3)
proof (induction rule: dec_induct)
  case base
  show ?case by (auto simp: assms(1))
next
  case (step j)
  let ?s = "fold (\<lambda>y. fold (\<lambda>x. putc (word_of_nat x) (word_of_nat y) c) [0..<80]) [k..<j] s"
  have IH: "same_rest s0 ?s" "\<And>x y. x < 80 \<Longrightarrow> cell ?s x y = (if k \<le> y \<and> y < j then c else cell s x y)"
    using step by simp_all
  have "j < 25" using step by simp
  from blank_row [OF IH(1) this, of 80 c] IH(2) step(1) show ?case
    by (auto simp: less_Suc_eq)
qed

lemma scroll_view:
  assumes "ok s" "0 < n" "n \<le> 25"
  shows "same_rest s (scroll_rows putc getc n s) \<and>
    cell (scroll_rows putc getc n s) = (\<lambda>x y. if y < 25 - n then cell s x (y + n) else 0)"
proof -
  define s1 where "s1 = fold (\<lambda>y. fold (\<lambda>x s. putc (word_of_nat x) (word_of_nat y)
      (getc (word_of_nat x) (word_of_nat (y + n)) s) s) [0..<80]) [0..<25 - n] s"
  have s1: "same_rest s s1"
    "\<And>x y. x < 80 \<Longrightarrow> cell s1 x y = (if y < 25 - n then cell s x (y + n) else cell s x y)"
    using move_rows [OF assms(1,2), of "25 - n"] by (simp_all add: s1_def)
  have eq: "scroll_rows putc getc n s =
      fold (\<lambda>y. fold (\<lambda>x. putc (word_of_nat x) (word_of_nat y) 0) [0..<80]) [25 - n..<25] s1"
    using assms(3) by (simp add: scroll_rows_def s1_def)
  note B = blank_rows [OF s1(1), of "25 - n" 25 0]
  have "cell (scroll_rows putc getc n s) x y = (if y < 25 - n then cell s x (y + n) else 0)" for x y
  proof (cases "x < 80")
    case True
    then show ?thesis using B s1(2) by (auto simp: eq cell_def)
  qed (simp add: cell_def)
  then show ?thesis using B by (simp add: eq fun_eq_iff)
qed

section \<open>The routines of the contract\<close>

definition advance :: "'s \<Rightarrow> 's" where
  "advance s =
     (if cx s = 79 \<and> cy s = 24 then move 0 24 (scroll_rows putc getc 1 (note_scroll s))
      else if cx s = 79 then move 0 (cy s + 1) s
      else move (cx s + 1) (cy s) s)"

definition retreat :: "'s \<Rightarrow> 's" where
  "retreat s =
     (if cx s = 0 \<and> cy s = 0 then s
      else if cx s = 0 then move 79 (cy s - 1) s
      else move (cx s - 1) (cy s) s)"

definition put_char :: "u8 \<Rightarrow> 's \<Rightarrow> 's" where
  "put_char c s = sync (advance (putc (cx s) (cy s) c s))"

definition write_char :: "u8 \<Rightarrow> 's \<Rightarrow> 's" where
  "write_char c s =
     (if c = 8 then
        if \<not> (cx s = 0 \<and> cy s = 0) \<and> erase_ok s
        then let s' = sync (retreat s) in putc (cx s') (cy s') 0 s' else s
      else if c = 10 then sync (advance (move 79 (cy s) s))
      else if c = 9 then fold (\<lambda>_. put_char 0x20) [0..<4] s
      else put_char c s)"

definition good :: "'s \<Rightarrow> bool" where
  "good s \<longleftrightarrow> ok s \<and> on_screen (view s)"

lemma cursor_cases:
  assumes "good s"
  shows "unat (cx s) < 80" "unat (cy s) < 25" "ok s"
    "cx s = 79 \<longleftrightarrow> unat (cx s) = 79" "cy s = 24 \<longleftrightarrow> unat (cy s) = 24"
    "cx s = 0 \<longleftrightarrow> unat (cx s) = 0" "cy s = 0 \<longleftrightarrow> unat (cy s) = 0"
    "unat (cx s + 1) = unat (cx s) + 1" "unat (cy s + 1) = unat (cy s) + 1"
    "cx s \<noteq> 0 \<Longrightarrow> unat (cx s - 1) = unat (cx s) - 1" "cy s \<noteq> 0 \<Longrightarrow> unat (cy s - 1) = unat (cy s) - 1"
proof -
  show b: "unat (cx s) < 80" "unat (cy s) < 25" "ok s"
    using assms by (simp_all add: good_def on_screen_def view_def)
  show "cx s = 79 \<longleftrightarrow> unat (cx s) = 79" "cy s = 24 \<longleftrightarrow> unat (cy s) = 24"
    "cx s = 0 \<longleftrightarrow> unat (cx s) = 0" "cy s = 0 \<longleftrightarrow> unat (cy s) = 0"
    by (simp_all add: word_unat_eq_iff)
  have "cx s < 80" "cy s < 25" using b by (simp_all add: word_less_nat_alt)
  then show "unat (cx s + 1) = unat (cx s) + 1" "unat (cy s + 1) = unat (cy s) + 1"
    using unat_plus1_less by blast+
  show "cx s \<noteq> 0 \<Longrightarrow> unat (cx s - 1) = unat (cx s) - 1" "cy s \<noteq> 0 \<Longrightarrow> unat (cy s - 1) = unat (cy s) - 1"
    by (simp_all add: unat_minus_one_word)
qed

lemma cell_frame:
  "cell (move x y s) = cell s" "cell (note_scroll s) = cell s" "cell (sync s) = cell s"
  by (intro ext; simp add: cell_def move_law note_law sync_law)+

lemma view_move:
  "ok s \<Longrightarrow> view (move x y s) = (view s)\<lparr>col := unat x, row := unat y\<rparr>"
  by (simp add: view_def move_law cell_frame)

lemma view_sync: "view (sync s) = view s"
  by (simp add: view_def sync_law cell_frame)

lemma view_putc:
  "good s \<Longrightarrow> view (putc (cx s) (cy s) c s) = spec_set (col (view s)) (row (view s)) c (view s)"
  using cursor_cases [of s] cell_putc [of s "unat (cx s)" "unat (cy s)" c]
  by (simp add: view_def spec_set_def putc_frame cong: if_cong)

lemma view_advance: "good s \<Longrightarrow> view (advance s) = spec_advance (view s)"
proof -
  assume g: "good s"
  note C = cursor_cases [OF g]
  have note_ok: "ok (note_scroll s)" by (rule note_law(5) [OF C(3)])
  have "view (move 0 24 (scroll_rows putc getc 1 (note_scroll s))) =
      (view s)\<lparr>cells := (\<lambda>x y. if y < 24 then cell s x (y + 1) else 0), col := 0, row := 24\<rparr>"
    using scroll_view [OF note_ok, of 1] C(3)
    by (simp add: view_move same_rest_def) (simp add: view_def note_law cell_frame cong: if_cong)
  with C show ?thesis
    by (simp add: advance_def view_move) (simp add: spec_advance_def view_def cong: if_cong)
qed

lemma view_retreat: "good s \<Longrightarrow> view (retreat s) = spec_retreat (view s)"
  using cursor_cases [of s]
  by (simp add: retreat_def view_move) (simp add: spec_retreat_def view_def)

lemma good_putc: "good s \<Longrightarrow> good (putc (cx s) (cy s) c s)"
  using view_putc [of s c] by (simp add: good_def putc_frame)

lemma ok_advance: "good s \<Longrightarrow> ok (advance s)"
proof -
  assume g: "good s"
  note C = cursor_cases [OF g]
  have "ok (scroll_rows putc getc 1 (note_scroll s))"
    using scroll_view [OF note_law(5) [OF C(3)], of 1] by (simp add: same_rest_def)
  with C show ?thesis by (simp add: advance_def move_law)
qed

lemma good_advance: "good s \<Longrightarrow> good (advance s)"
  using ok_advance view_advance by (simp add: good_def)

lemma good_retreat: "good s \<Longrightarrow> good (retreat s)"
  using view_retreat cursor_cases(3) by (simp add: good_def retreat_def move_law)

lemma good_sync: "good s \<Longrightarrow> good (sync s)"
  by (simp add: good_def view_sync sync_law)

lemma put_char_spec: "good s \<Longrightarrow> good (put_char c s) \<and> view (put_char c s) = spec_put c (view s)"
  by (simp add: put_char_def good_sync good_advance good_putc view_sync view_advance view_putc spec_put_def)

lemma put_chars_spec:
  "good s \<Longrightarrow> good (fold (\<lambda>_. put_char c) [0..<n] s) \<and>
     view (fold (\<lambda>_. put_char c) [0..<n] s) = (spec_put c ^^ n) (view s)"
  by (induction n) (simp_all add: put_char_spec)

lemma write_char_spec:
  assumes "good s"
  shows "good (write_char c s) \<and> view (write_char c s) = spec_char c (view s)"
proof -
  note C = cursor_cases [OF assms]
  have zero: "\<not> (cx s = 0 \<and> cy s = 0) \<longleftrightarrow> (col (view s), row (view s)) \<noteq> (0, 0)"
    using C by (simp add: view_def)
  have erase: "erase_ok s = erasable (view s)" by (simp add: view_def)
  have m: "good (move 79 (cy s) s)" "view (move 79 (cy s) s) = (view s)\<lparr>col := 79\<rparr>"
    using C by (simp_all add: good_def view_move move_law) (simp_all add: on_screen_def view_def)
  have b: "good (sync (retreat s))" "view (sync (retreat s)) = spec_retreat (view s)"
    using assms by (simp_all add: good_sync good_retreat view_sync view_retreat)
  show ?thesis
    unfolding write_char_def spec_char_def Let_def zero erase
    using assms m b put_chars_spec [OF assms, of "0x20" 4] put_char_spec [OF assms]
    by (simp add: good_putc view_putc good_sync good_advance view_sync view_advance
        del: upt_rec_numeral)
qed

lemma write_chars_spec:
  "good s \<Longrightarrow> good (fold write_char cs s) \<and> view (fold write_char cs s) = fold spec_char cs (view s)"
  by (induction cs arbitrary: s) (simp_all add: write_char_spec)

end

section \<open>A console with a frame\<close>

text \<open>The same contract with a relation that bounds what the console may change.\<close>

locale framed_console = console putc getc cx cy move note_scroll sync erase_ok ok
  for putc :: "u16 \<Rightarrow> u16 \<Rightarrow> u8 \<Rightarrow> 's \<Rightarrow> 's" and getc cx cy move note_scroll sync erase_ok ok +
  fixes frame_rel :: "'s \<Rightarrow> 's \<Rightarrow> bool"
  assumes frame_refl: "frame_rel s s"
    and frame_trans: "frame_rel s t \<Longrightarrow> frame_rel t u \<Longrightarrow> frame_rel s u"
    and frame_putc: "ok s \<Longrightarrow> x < 80 \<Longrightarrow> y < 25 \<Longrightarrow>
      frame_rel s (putc (word_of_nat x) (word_of_nat y) c s)"
    and frame_move: "ok s \<Longrightarrow> frame_rel s (move x1 y1 s)"
    and frame_note: "ok s \<Longrightarrow> frame_rel s (note_scroll s)"
    and frame_sync: "ok s \<Longrightarrow> frame_rel s (sync s)"
begin

lemma frame_fold:
  assumes "ok s" "\<And>t e. e \<in> set es \<Longrightarrow> ok t \<Longrightarrow> ok (f e t) \<and> frame_rel t (f e t)"
  shows "ok (fold f es s) \<and> frame_rel s (fold f es s)"
  using assms
proof (induction es arbitrary: s)
  case (Cons e es)
  have e: "ok (f e s)" "frame_rel s (f e s)" using Cons.prems by auto
  with Cons.IH [of "f e s"] Cons.prems(2) show ?case using frame_trans by fastforce
qed (simp add: frame_refl)

lemma frame_scroll:
  assumes "ok s"
  shows "frame_rel s (scroll_rows putc getc n s)"
proof -
  define s1 where "s1 = fold (\<lambda>y. fold (\<lambda>x s. putc (word_of_nat x) (word_of_nat y)
      (getc (word_of_nat x) (word_of_nat (y + n)) s) s) [0..<80]) [0..<25 - n] s"
  have 1: "ok s1 \<and> frame_rel s s1"
    unfolding s1_def
  proof (rule frame_fold [OF assms])
    fix t y assume "y \<in> set [0..<25 - n]" "ok t"
    then show "ok (fold (\<lambda>x s. putc (word_of_nat x) (word_of_nat y)
        (getc (word_of_nat x) (word_of_nat (y + n)) s) s) [0..<80] t) \<and>
      frame_rel t (fold (\<lambda>x s. putc (word_of_nat x) (word_of_nat y)
        (getc (word_of_nat x) (word_of_nat (y + n)) s) s) [0..<80] t)"
      by (intro frame_fold) (auto intro: putc_frame frame_putc)
  qed
  let ?rows = "if n \<le> 25 then [25 - n..<25] else []"
  have "ok (fold (\<lambda>y. fold (\<lambda>x. putc (word_of_nat x) (word_of_nat y) 0) [0..<80]) ?rows s1) \<and>
    frame_rel s1 (fold (\<lambda>y. fold (\<lambda>x. putc (word_of_nat x) (word_of_nat y) 0) [0..<80]) ?rows s1)"
  proof (rule frame_fold)
    show "ok s1" using 1 by blast
    fix t y assume y: "y \<in> set ?rows" and t: "ok t"
    have "y < 25" using y by (simp split: if_splits)
    then show "ok (fold (\<lambda>x. putc (word_of_nat x) (word_of_nat y) 0) [0..<80] t) \<and>
      frame_rel t (fold (\<lambda>x. putc (word_of_nat x) (word_of_nat y) 0) [0..<80] t)"
      using t by (intro frame_fold) (auto intro: putc_frame frame_putc)
  qed
  with 1 show ?thesis unfolding scroll_rows_def Let_def s1_def [symmetric]
    by (blast intro: frame_trans)
qed

lemma frame_putc_here: "good s \<Longrightarrow> frame_rel s (putc (cx s) (cy s) c s)"
  using cursor_cases [of s] frame_putc [of s "unat (cx s)" "unat (cy s)" c] by simp

lemma frame_advance: "good s \<Longrightarrow> frame_rel s (advance s)"
proof -
  assume g: "good s"
  note C = cursor_cases(3) [OF g]
  have n: "ok (note_scroll s)" by (rule note_law(5) [OF C])
  have r: "ok (scroll_rows putc getc 1 (note_scroll s))"
    using scroll_view [OF n, of 1] by (simp add: same_rest_def)
  have "frame_rel s (move 0 24 (scroll_rows putc getc 1 (note_scroll s)))"
    by (rule frame_trans [OF frame_note [OF C] frame_trans [OF frame_scroll [OF n] frame_move [OF r]]])
  with C show ?thesis by (simp add: advance_def frame_move)
qed

lemma frame_retreat: "good s \<Longrightarrow> frame_rel s (retreat s)"
  using cursor_cases(3) by (simp add: retreat_def frame_move frame_refl)

lemma frame_put_char: "good s \<Longrightarrow> frame_rel s (put_char c s)"
  unfolding put_char_def
  by (rule frame_trans [OF frame_putc_here frame_trans [OF frame_advance frame_sync]])
    (simp_all add: good_putc ok_advance)

lemma frame_put_chars: "good s \<Longrightarrow> frame_rel s (fold (\<lambda>_. put_char c) [0..<n] s)"
proof (induction n)
  case (Suc n)
  then have "good (fold (\<lambda>_. put_char c) [0..<n] s)" using put_chars_spec by blast
  from frame_put_char [OF this] Suc show ?case by (auto intro: frame_trans)
qed (simp add: frame_refl)

lemma frame_write_char:
  assumes "good s"
  shows "frame_rel s (write_char c s)"
proof -
  have ok: "ok s" by (rule cursor_cases(3) [OF assms])
  have ret: "frame_rel s (sync (retreat s))" "good (sync (retreat s))"
    using assms good_retreat [OF assms] cursor_cases(3) [OF good_retreat [OF assms]]
    by (auto intro: frame_trans [OF frame_retreat frame_sync] good_sync)
  have m: "good (move 79 (cy s) s)"
    using cursor_cases [OF assms] by (simp add: good_def view_move move_law)
      (simp add: on_screen_def view_def)
  have nl: "frame_rel s (sync (advance (move 79 (cy s) s)))"
    by (rule frame_trans [OF frame_move [OF ok] frame_trans [OF frame_advance [OF m] frame_sync [OF ok_advance [OF m]]]])
  show ?thesis
    unfolding write_char_def Let_def
    using nl frame_put_chars [OF assms, of "0x20" 4] frame_put_char [OF assms]
      frame_trans [OF ret(1) frame_putc_here [OF ret(2)]]
    by (simp add: frame_refl del: upt_rec_numeral)
qed

lemma frame_write_chars: "good s \<Longrightarrow> frame_rel s (fold write_char cs s)"
proof (induction cs arbitrary: s)
  case (Cons c cs)
  then show ?case
    using frame_trans [OF frame_write_char [OF Cons.prems, of c] Cons.IH] write_char_spec by auto
qed (simp add: frame_refl)

end

section \<open>Terminals one at a time\<close>

lemma upd_termi_same:
  "unat t < length (termis s) \<Longrightarrow> termi t (upd_termi t f s) = f (termi t s)"
  by (simp add: termi_def upd_termi_def)

lemma upd_termi_fields [simp]:
  "length (termis (upd_termi t f s)) = length (termis s)"
  "terminal_number (upd_termi t f s) = terminal_number s"
  "alt_pressed (upd_termi t f s) = alt_pressed s"
  "current_terminal (upd_termi t f s) = current_terminal s"
  "get_current_process (upd_termi t f s) = get_current_process s"
  "ram (upd_termi t f s) = ram s" "io (upd_termi t f s) = io s" "intf (upd_termi t f s) = intf s"
  "pd (upd_termi t f s) = pd s" "vidmem_pt (upd_termi t f s) = vidmem_pt s" "cr3 (upd_termi t f s) = cr3 s"
  "pt (upd_termi t f s) = pt s"
  by (simp_all add: upd_termi_def get_current_process_def)

lemma phys_upd_termi [simp]: "phys (upd_termi t f s) = phys s"
  by (rule phys_cong) simp_all

lemma vread_upd_termi [simp]: "vread (upd_termi t f s) a = vread s a"
  by (simp add: vread_def)

lemma vwrite_termis [simp]:
  "termis (vwrite s a b) = termis s" "terminal_number (vwrite s a b) = terminal_number s"
  "current_terminal (vwrite s a b) = current_terminal s" "termi t (vwrite s a b) = termi t s"
  "get_current_process (vwrite s a b) = get_current_process s" "alt_pressed (vwrite s a b) = alt_pressed s"
  by (simp_all add: vwrite_def termi_def get_current_process_def)

lemma vread_vwrite: "vread (vwrite s a b) a' = (if phys s a' = phys s a then b else vread s a')"
  by (simp add: vread_def)

lemma set_cursor_fields [simp]:
  "termis (keyboard_set_cursor x y s) = termis s" "termis (terminal_set_cursor x y s) = termis s"
  "terminal_number (keyboard_set_cursor x y s) = terminal_number s"
  "terminal_number (terminal_set_cursor x y s) = terminal_number s"
  "current_terminal (keyboard_set_cursor x y s) = current_terminal s"
  "current_terminal (terminal_set_cursor x y s) = current_terminal s"
  "ram (keyboard_set_cursor x y s) = ram s" "ram (terminal_set_cursor x y s) = ram s"
  "pd (keyboard_set_cursor x y s) = pd s" "pd (terminal_set_cursor x y s) = pd s"
  "vidmem_pt (keyboard_set_cursor x y s) = vidmem_pt s" "vidmem_pt (terminal_set_cursor x y s) = vidmem_pt s"
  "cr3 (keyboard_set_cursor x y s) = cr3 s" "cr3 (terminal_set_cursor x y s) = cr3 s"
  by (simp_all add: keyboard_set_cursor_def terminal_set_cursor_def outb_def Let_def)

section \<open>Cells in memory\<close>

definition cell_pos :: "nat \<Rightarrow> nat \<Rightarrow> nat" where
  "cell_pos x y = (y * 80 + x) * 2"

lemma cell_pos_bound: "x < 80 \<Longrightarrow> y < 25 \<Longrightarrow> cell_pos x y + 1 < 4000"
  by (simp add: cell_pos_def)

lemma cell_pos_parity: "cell_pos x' y' \<noteq> cell_pos x y + 1"
proof -
  have "even (cell_pos x' y')" "odd (cell_pos x y + 1)" by (simp_all add: cell_pos_def)
  then show ?thesis by metis
qed

lemma cell_pos_inj:
  assumes "x < 80" "x' < 80"
  shows "cell_pos x' y' = cell_pos x y \<longleftrightarrow> x' = x \<and> y' = y"
proof
  assume "cell_pos x' y' = cell_pos x y"
  then have e: "y' * 80 + x' = y * 80 + x" by (simp add: cell_pos_def)
  have "y' = (y' * 80 + x') div 80" "y = (y * 80 + x) div 80" using assms by simp_all
  with e have "y' = y" by metis
  with e show "x' = x \<and> y' = y" by simp
qed simp

lemma ucast_u16_u32: "ucast (v :: u16) = (word_of_nat (unat v) :: u32)"
  by simp

lemma cell_addresses:
  assumes "x < 80" "y < 25"
  shows "ucast (cell_offset (word_of_nat x) (word_of_nat y)) = (word_of_nat (cell_pos x y) :: u32)"
    "(ucast (word_of_nat y :: u16) * 80 + ucast (word_of_nat x :: u16)) * 2 = (word_of_nat (cell_pos x y) :: u32)"
proof -
  have u16: "unat (word_of_nat n :: u16) = n" if "n < 65536" for n
    using that by (simp add: unat_of_nat take_bit_nat_eq_self)
  have "cell_offset (word_of_nat x) (word_of_nat y) = word_of_nat (cell_pos x y)"
    by (simp add: cell_offset_def cell_pos_def)
  moreover have "unat (word_of_nat (cell_pos x y) :: u16) = cell_pos x y"
    using cell_pos_bound [OF assms] by (intro u16) simp
  ultimately have "unat (cell_offset (word_of_nat x) (word_of_nat y)) = cell_pos x y" by simp
  then show "ucast (cell_offset (word_of_nat x) (word_of_nat y)) = (word_of_nat (cell_pos x y) :: u32)"
    by (metis ucast_u16_u32)
  have c: "ucast (word_of_nat n :: u16) = (word_of_nat n :: u32)" if "n < 65536" for n
    using u16 [OF that] by (metis ucast_u16_u32)
  show "(ucast (word_of_nat y :: u16) * 80 + ucast (word_of_nat x :: u16)) * 2 = (word_of_nat (cell_pos x y) :: u32)"
    using assms by (simp add: c cell_pos_def)
qed

lemma word_offset_eq:
  assumes "i < 4096" "j < 4096"
  shows "(b :: u32) + word_of_nat i = b + word_of_nat j \<longleftrightarrow> i = j"
proof -
  have "unat (word_of_nat i :: u32) = i" "unat (word_of_nat j :: u32) = j"
    using assms by (simp_all add: unat_u32_of_nat)
  then show ?thesis by (metis add_left_cancel)
qed

lemma phys_screen:
  assumes "i < 4096"
  shows "phys s (VIDEO + word_of_nat i) = VIDEO + word_of_nat i"
    "phys s (USER_VIDEO_ADDR + word_of_nat i) = vid_page s 0 + word_of_nat i"
proof -
  have i: "unat (word_of_nat i :: u32) = i" using assms by (simp add: unat_u32_of_nat)
  have a: "unat (VIDEO + word_of_nat i :: u32) = 753664 + i"
    "unat (USER_VIDEO_ADDR + word_of_nat i :: u32) = 138412032 + i"
    using assms i by (simp_all add: unat_word_ariths)
  show "phys s (VIDEO + word_of_nat i) = VIDEO + word_of_nat i"
    using assms unfolding phys_def by (subst (1 2) in_region_iff) (simp_all add: a)
  have "\<not> in_region PROG_START 4194304 (USER_VIDEO_ADDR + word_of_nat i)"
    by (subst in_region_iff) (simp_all add: a)
  moreover have "in_region USER_VIDEO_ADDR 4194304 (USER_VIDEO_ADDR + word_of_nat i)"
    using assms i by (simp add: in_region_def)
  ultimately show "phys s (USER_VIDEO_ADDR + word_of_nat i) = vid_page s 0 + word_of_nat i"
    using assms i by (simp add: phys_def)
qed

text \<open>Writing a cell and reading a cell, when the page of the screen starts at \<open>b\<close>.\<close>

lemma write_cell:
  assumes "x < 80" "y < 25" "x' < 80" "y' < 25"
    and ph: "\<And>i. i < 4096 \<Longrightarrow> phys s (a + word_of_nat i) = b + word_of_nat i"
  shows "vread (vwrite (vwrite s (a + word_of_nat (cell_pos x y)) c) (a + word_of_nat (cell_pos x y) + 1) w)
      (a + word_of_nat (cell_pos x' y')) =
    (if x' = x \<and> y' = y then c else vread s (a + word_of_nat (cell_pos x' y')))"
proof -
  have p: "cell_pos x y + 1 < 4096" "cell_pos x' y' < 4096"
    using cell_pos_bound [OF assms(1,2)] cell_pos_bound [OF assms(3,4)] by simp_all
  have s: "a + word_of_nat (cell_pos x y) + 1 = a + word_of_nat (cell_pos x y + 1)" by (simp add: add.assoc)
  have "phys s (a + word_of_nat (cell_pos x' y')) = phys s (a + word_of_nat (cell_pos x y)) \<longleftrightarrow> x' = x \<and> y' = y"
    using p ph [of "cell_pos x y"] ph [OF p(2)] word_offset_eq [OF p(2), of "cell_pos x y" b]
      cell_pos_inj [OF assms(1,3)] by simp
  moreover have "phys s (a + word_of_nat (cell_pos x' y')) \<noteq> phys s (a + word_of_nat (cell_pos x y + 1))"
    using ph [OF p(1)] ph [OF p(2)] word_offset_eq [OF p(2,1), of b] cell_pos_parity [of x' y' x y]
    by (simp del: of_nat_add of_nat_Suc)
  ultimately show ?thesis unfolding s by (simp add: vread_vwrite)
qed

end
