(* ===== verification/Consoles.thy ===== *)
theory Consoles
  imports Console
begin

text \<open>
  The two variants of the console code as instances of the contract of \<open>Console\<close>: the
  \<^verbatim>\<open>keyboard_\<close> routines on the text screen with the displayed terminal's cursor, and the
  \<^verbatim>\<open>terminal_\<close> routines on the first user video page with the cursor of the running process's
  terminal.  The properties of writing to a terminal follow from the contract.
\<close>

section \<open>Frame facts of the two variants\<close>

lemma upd_termi_cong: "f (termi t s) = g (termi t s) \<Longrightarrow> upd_termi t f s = upd_termi t g s"
  by (simp add: upd_termi_def termi_def)

lemma termi_other: "unat t' \<noteq> unat t \<Longrightarrow> termi t' (upd_termi t f s) = termi t' s"
  by (simp add: termi_def upd_termi_def)

lemma kbd_putc_frame [simp]:
  "termis (keyboard_console_putc x y c s) = termis s"
  "terminal_number (keyboard_console_putc x y c s) = terminal_number s"
  "current_terminal (keyboard_console_putc x y c s) = current_terminal s"
  "io (keyboard_console_putc x y c s) = io s" "phys (keyboard_console_putc x y c s) = phys s"
  "termi t (keyboard_console_putc x y c s) = termi t s"
  by (simp_all add: keyboard_console_putc_def Let_def)

lemma proc_putc_frame [simp]:
  "termis (terminal_console_putc x y c s) = termis s"
  "terminal_number (terminal_console_putc x y c s) = terminal_number s"
  "current_terminal (terminal_console_putc x y c s) = current_terminal s"
  "io (terminal_console_putc x y c s) = io s" "phys (terminal_console_putc x y c s) = phys s"
  "termi t (terminal_console_putc x y c s) = termi t s"
  by (simp_all add: terminal_console_putc_def Let_def)

lemma termi_set_cursor [simp]:
  "termi t (keyboard_set_cursor x y s) = termi t s" "termi t (terminal_set_cursor x y s) = termi t s"
  by (simp_all add: termi_def)

lemma phys_set_cursor [simp]:
  "phys (keyboard_set_cursor x y s) = phys s" "phys (terminal_set_cursor x y s) = phys s"
  by (rule phys_cong; simp)+

lemma vread_set_cursor [simp]:
  "vread (keyboard_set_cursor x y s) a = vread s a" "vread (terminal_set_cursor x y s) a = vread s a"
  by (simp_all add: vread_def)

lemma fold_keeps: "(\<And>e s. f (g e s) = f s) \<Longrightarrow> f (fold g es s) = f s"
  by (induction es arbitrary: s) simp_all

lemma scroll_keeps: "(\<And>x y c s. f (putc x y c s) = f s) \<Longrightarrow> f (scroll_rows putc getc n s) = f s"
  by (simp add: scroll_rows_def Let_def fold_keeps)

lemma scroll_terminal [simp]:
  "terminal_number (scroll_rows keyboard_console_putc getc n s) = terminal_number s"
  "current_terminal (scroll_rows terminal_console_putc getc n s) = current_terminal s"
  by (simp_all add: scroll_keeps)

text \<open>A terminal's record without its cursor.\<close>

definition sans_cursor :: "termis_t \<Rightarrow> termis_t" where
  "sans_cursor r = r\<lparr>cursor_x := 0, cursor_y := 0, scroll_index := 0\<rparr>"

lemma sans_cursor_upd [simp]:
  "sans_cursor (r\<lparr>cursor_x := x\<rparr>) = sans_cursor r" "sans_cursor (r\<lparr>cursor_y := y\<rparr>) = sans_cursor r"
  "sans_cursor (r\<lparr>scroll_index := n\<rparr>) = sans_cursor r"
  by (cases r; simp add: sans_cursor_def)+

lemma sans_cursorD:
  "sans_cursor r' = sans_cursor r \<Longrightarrow>
     kbuffer r' = kbuffer r \<and> storage_buffer r' = storage_buffer r \<and> buffer_size r' = buffer_size r \<and>
     buffer_flag r' = buffer_flag r \<and> enter_flag r' = enter_flag r \<and> ctrl r' = ctrl r \<and>
     video_memory r' = video_memory r"
  by (cases r; cases r'; simp add: sans_cursor_def)

section \<open>The displayed terminal\<close>

definition shown :: "'a tty_scheme \<Rightarrow> termis_t" where
  "shown s = termi (terminal_number s) s"

definition kbd_cx :: "'a tty_scheme \<Rightarrow> u16" where "kbd_cx s = cursor_x (shown s)"
definition kbd_cy :: "'a tty_scheme \<Rightarrow> u16" where "kbd_cy s = cursor_y (shown s)"

definition kbd_move :: "u16 \<Rightarrow> u16 \<Rightarrow> 'a tty_scheme \<Rightarrow> 'a tty_scheme" where
  "kbd_move x y s = upd_termi (terminal_number s) (\<lambda>r. r\<lparr>cursor_x := x, cursor_y := y\<rparr>) s"

definition kbd_note :: "'a tty_scheme \<Rightarrow> 'a tty_scheme" where
  "kbd_note s = upd_termi (terminal_number s) (\<lambda>r. r\<lparr>scroll_index := scroll_index r + ucast (1 :: u16)\<rparr>) s"

definition kbd_sync :: "'a tty_scheme \<Rightarrow> 'a tty_scheme" where
  "kbd_sync s = keyboard_set_cursor (kbd_cx s) (kbd_cy s) s"

definition kbd_erase :: "'a tty_scheme \<Rightarrow> bool" where
  "kbd_erase s \<longleftrightarrow> buffer_flag (shown s) = 0"

definition kbd_ok :: "'a tty_scheme \<Rightarrow> bool" where
  "kbd_ok s \<longleftrightarrow> unat (terminal_number s) < length (termis s)"

lemmas kbd_defs = shown_def kbd_cx_def kbd_cy_def kbd_move_def kbd_note_def kbd_sync_def kbd_erase_def kbd_ok_def

text \<open>What the displayed terminal's console may change: the text screen, the cursor ports and
  the cursor of that terminal's record.\<close>

definition kbd_frame :: "'a tty_scheme \<Rightarrow> 'a tty_scheme \<Rightarrow> bool" where
  "kbd_frame s s' \<longleftrightarrow>
     phys s' = phys s \<and> terminal_number s' = terminal_number s \<and> current_terminal s' = current_terminal s \<and>
     (\<forall>p. \<not> in_region VIDEO 4096 p \<longrightarrow> ram s' p = ram s p) \<and>
     (\<forall>t. unat t \<noteq> unat (terminal_number s) \<longrightarrow> termi t s' = termi t s) \<and>
     sans_cursor (shown s') = sans_cursor (shown s) \<and> length (termis s') = length (termis s)"

lemma in_region_cell:
  assumes "x < 80" "y < 25"
  shows "in_region b 4096 (b + word_of_nat (cell_pos x y))"
    "in_region b 4096 (b + word_of_nat (cell_pos x y) + 1)"
proof -
  show "in_region b 4096 (b + word_of_nat (cell_pos x y))"
    using cell_pos_bound [OF assms] by (intro in_region_of_nat) simp_all
  have "in_region b 4096 (b + word_of_nat (cell_pos x y + 1))"
    using cell_pos_bound [OF assms] by (intro in_region_of_nat) simp_all
  moreover have "b + word_of_nat (cell_pos x y) + 1 = b + word_of_nat (cell_pos x y + 1)" by simp
  ultimately show "in_region b 4096 (b + word_of_nat (cell_pos x y) + 1)" by (simp only:)
qed

lemma write_cell_ram:
  assumes "x < 80" "y < 25"
    and ph: "\<And>i. i < 4096 \<Longrightarrow> phys s (a + word_of_nat i) = b + word_of_nat i"
  shows "in_region b 4096 p \<or>
    ram (vwrite (vwrite s (a + word_of_nat (cell_pos x y)) c) (a + word_of_nat (cell_pos x y) + 1) w) p = ram s p"
proof -
  have e: "d + word_of_nat (cell_pos x y) + 1 = d + word_of_nat (cell_pos x y + 1)" for d :: u32 by simp
  have "phys s (a + word_of_nat (cell_pos x y)) = b + word_of_nat (cell_pos x y)"
    "phys s (a + word_of_nat (cell_pos x y) + 1) = b + word_of_nat (cell_pos x y) + 1"
    unfolding e using cell_pos_bound [OF assms(1,2)] by (intro ph; simp)+
  then show ?thesis using in_region_cell [OF assms(1,2), of b] by auto
qed

lemma kbd_putc_cell:
  assumes "x < 80" "y < 25"
  shows "keyboard_console_putc (word_of_nat x) (word_of_nat y) c s =
    vwrite (vwrite s (VIDEO + word_of_nat (cell_pos x y)) c) (VIDEO + word_of_nat (cell_pos x y) + 1) WHITE"
  unfolding keyboard_console_putc_def Let_def cell_addresses(1) [OF assms]
  by (simp only: add.commute [of _ VIDEO])

lemma kbd_getc_cell:
  assumes "x < 80" "y < 25"
  shows "keyboard_console_getc (word_of_nat x) (word_of_nat y) s = vread s (VIDEO + word_of_nat (cell_pos x y))"
  unfolding keyboard_console_getc_def cell_addresses(2) [OF assms] ..

interpretation kbd: framed_console keyboard_console_putc keyboard_console_getc
  kbd_cx kbd_cy kbd_move kbd_note kbd_sync kbd_erase kbd_ok kbd_frame
proof (unfold_locales, goal_cases)
  case (1 s x y x' y' c)
  show ?case
    unfolding kbd_putc_cell [OF 1(2,3)] kbd_getc_cell [OF 1(4,5)]
    by (rule write_cell [OF 1(2-5)]) (rule phys_screen(1))
next
  case (23 s x y c)
  have "in_region VIDEO 4096 p \<or> ram (keyboard_console_putc (word_of_nat x) (word_of_nat y) c s) p = ram s p" for p
    unfolding kbd_putc_cell [OF 23(2,3)] by (rule write_cell_ram [OF 23(2,3)]) (rule phys_screen(1))
  then show ?case by (auto simp: kbd_frame_def shown_def)
next
  case (22 s t u)
  then show ?case unfolding kbd_frame_def by simp
qed (auto simp: kbd_defs kbd_frame_def upd_termi_same termi_other keyboard_console_getc_def)

lemma kbd_number [simp]:
  "terminal_number (keyboard_cursor_update x y s) = terminal_number s"
  "terminal_number (keyboard_cursor_revert x y s) = terminal_number s"
  "terminal_number (keyboard_put ch s) = terminal_number s"
  by (simp_all add: keyboard_cursor_update_def keyboard_cursor_revert_def keyboard_scroll_up_def
      keyboard_put_def Let_def)

lemma kbd_cursor_routines:
  "terminal_number s = t \<Longrightarrow>
     keyboard_cursor_update (cursor_x (termi t s)) (cursor_y (termi t s)) s = kbd.advance s"
  "terminal_number s = t \<Longrightarrow>
     keyboard_cursor_revert (cursor_x (termi t s)) (cursor_y (termi t s)) s = kbd.retreat s"
  "terminal_number s = t \<Longrightarrow>
     keyboard_set_cursor (cursor_x (termi t s)) (cursor_y (termi t s)) s = kbd_sync s"
  unfolding keyboard_cursor_update_def kbd.advance_def keyboard_cursor_revert_def kbd.retreat_def
    keyboard_scroll_up_def kbd_move_def kbd_note_def kbd_cx_def kbd_cy_def kbd_sync_def
  by (auto simp: shown_def intro: upd_termi_cong)

lemma kbd_contract_number [simp]:
  "terminal_number (kbd.advance s) = terminal_number s" "terminal_number (kbd.retreat s) = terminal_number s"
  "terminal_number (kbd_sync s) = terminal_number s" "terminal_number (kbd_move x y s) = terminal_number s"
  using kbd_cursor_routines(1,2) [OF refl, of s] kbd_number(1,2) [where s = s]
  by (metis, metis) (simp_all add: kbd_sync_def kbd_move_def)

lemma kbd_put: "keyboard_put ch s = kbd.put_char ch s"
  unfolding keyboard_put_def kbd.put_char_def
  by (simp only: Let_def kbd_cursor_routines kbd_putc_frame(2) kbd_contract_number kbd_number
      kbd_cx_def kbd_cy_def shown_def)

lemma kbd_write_char: "keyboard_write_char ch s = kbd.write_char ch s"
proof -
  have m: "upd_termi (terminal_number s) (\<lambda>r. r\<lparr>cursor_x := 80 - 1\<rparr>) s = kbd_move 79 (kbd_cy s) s"
    unfolding kbd_move_def by (rule upd_termi_cong) (simp add: kbd_cy_def shown_def)
  show ?thesis
    unfolding keyboard_write_char_def kbd.write_char_def Let_def m kbd_put
    by (simp add: kbd_cursor_routines) (auto simp add: kbd_cx_def kbd_cy_def kbd_erase_def shown_def)
qed

section \<open>The running process\<close>

definition running :: "'a tty_scheme \<Rightarrow> termis_t" where
  "running s = termi (get_current_process s) s"

definition proc_cx :: "'a tty_scheme \<Rightarrow> u16" where "proc_cx s = cursor_x (running s)"
definition proc_cy :: "'a tty_scheme \<Rightarrow> u16" where "proc_cy s = cursor_y (running s)"

definition proc_move :: "u16 \<Rightarrow> u16 \<Rightarrow> 'a tty_scheme \<Rightarrow> 'a tty_scheme" where
  "proc_move x y s = upd_termi (get_current_process s) (\<lambda>r. r\<lparr>cursor_x := x, cursor_y := y\<rparr>) s"

definition proc_note :: "'a tty_scheme \<Rightarrow> 'a tty_scheme" where
  "proc_note s = upd_termi (get_current_process s) (\<lambda>r. r\<lparr>scroll_index := scroll_index r + ucast (1 :: u16)\<rparr>) s"

definition proc_erase :: "'a tty_scheme \<Rightarrow> bool" where
  "proc_erase s \<longleftrightarrow> buffer_flag (running s) = 0"

definition proc_ok :: "'a tty_scheme \<Rightarrow> bool" where
  "proc_ok s \<longleftrightarrow> unat (current_terminal s) < length (termis s) \<and> video_memory (running s) = USER_VIDEO_ADDR"

lemmas proc_defs = running_def proc_cx_def proc_cy_def proc_move_def proc_note_def proc_erase_def
  proc_ok_def get_current_process_def

text \<open>What the running process's console may change: the page behind the first user video page,
  the cursor of its own terminal's record and, if its terminal is displayed, the cursor ports.\<close>

definition cursor_port :: "io_event \<Rightarrow> bool" where
  "cursor_port e \<longleftrightarrow> (case e of Out q _ \<Rightarrow> q = REG_PORT \<or> q = DATA_PORT | In _ _ \<Rightarrow> False)"

definition console_only :: "'a tty_scheme \<Rightarrow> 'a tty_scheme \<Rightarrow> bool" where
  "console_only s s' \<longleftrightarrow> s' = s\<lparr>ram := ram s', io := io s', termis := termis s'\<rparr> \<and>
     (\<exists>es. io s' = io s @ es \<and> list_all cursor_port es)"

lemma console_only_refl [simp]: "console_only s s"
  by (simp add: console_only_def)

lemma console_only_trans: "console_only s t \<Longrightarrow> console_only t u \<Longrightarrow> console_only s u"
proof -
  assume a: "console_only s t" "console_only t u"
  obtain es fs where io: "io t = io s @ es" "io u = io t @ fs" "list_all cursor_port es" "list_all cursor_port fs"
    using a by (auto simp: console_only_def)
  have "t = s\<lparr>ram := ram t, io := io t, termis := termis t\<rparr>" "u = t\<lparr>ram := ram u, io := io u, termis := termis u\<rparr>"
    using a by (simp_all add: console_only_def)
  then have "u = s\<lparr>ram := ram u, io := io u, termis := termis u\<rparr>" by (cases s; cases t; cases u; simp)
  then show ?thesis using io by (auto simp: console_only_def intro!: exI [of _ "es @ fs"])
qed

lemma console_only_step [simp]:
  "console_only s (terminal_console_putc x y c s)" "console_only s (upd_termi n f s)"
  "console_only s (sync_cursor s)" "console_only s (s\<lparr>ram := m\<rparr>)"
  by (simp_all add: console_only_def terminal_console_putc_def vwrite_def Let_def upd_termi_def
      sync_cursor_def terminal_set_cursor_def machine_simps cursor_port_def)

definition proc_frame :: "'a tty_scheme \<Rightarrow> 'a tty_scheme \<Rightarrow> bool" where
  "proc_frame s s' \<longleftrightarrow>
     phys s' = phys s \<and> terminal_number s' = terminal_number s \<and> current_terminal s' = current_terminal s \<and>
     vid_page s' 0 = vid_page s 0 \<and> console_only s s' \<and>
     (\<forall>p. \<not> in_region (vid_page s 0) 4096 p \<longrightarrow> ram s' p = ram s p) \<and>
     (\<forall>t. unat t \<noteq> unat (current_terminal s) \<longrightarrow> termi t s' = termi t s) \<and>
     sans_cursor (running s') = sans_cursor (running s) \<and> length (termis s') = length (termis s) \<and>
     (current_terminal s \<noteq> terminal_number s \<longrightarrow> io s' = io s)"

lemma proc_putc_cell:
  assumes "proc_ok s" "x < 80" "y < 25"
  shows "terminal_console_putc (word_of_nat x) (word_of_nat y) c s =
    vwrite (vwrite s (USER_VIDEO_ADDR + word_of_nat (cell_pos x y)) c)
      (USER_VIDEO_ADDR + word_of_nat (cell_pos x y) + 1) WHITE"
proof -
  have v: "video_memory (termi (get_current_process s) s) = USER_VIDEO_ADDR"
    using assms(1) by (simp add: proc_ok_def running_def)
  show ?thesis
    unfolding terminal_console_putc_def Let_def cell_addresses(1) [OF assms(2,3)] v
    by (simp only: add.commute [of _ USER_VIDEO_ADDR])
qed

lemma proc_getc_cell:
  assumes "x < 80" "y < 25"
  shows "terminal_console_getc (word_of_nat x) (word_of_nat y) s =
    vread s (USER_VIDEO_ADDR + word_of_nat (cell_pos x y))"
  unfolding terminal_console_getc_def cell_addresses(2) [OF assms] ..

lemma sync_cursor_frame [simp]:
  "termis (sync_cursor s) = termis s" "terminal_number (sync_cursor s) = terminal_number s"
  "current_terminal (sync_cursor s) = current_terminal s" "ram (sync_cursor s) = ram s"
  "phys (sync_cursor s) = phys s" "termi t (sync_cursor s) = termi t s" "vread (sync_cursor s) a = vread s a"
  "vidmem_pt (sync_cursor s) = vidmem_pt s" "cr3 (sync_cursor s) = cr3 s"
  "get_current_process (sync_cursor s) = get_current_process s"
  "current_terminal s \<noteq> terminal_number s \<Longrightarrow> io (sync_cursor s) = io s"
  by (auto simp add: sync_cursor_def Let_def get_current_process_def get_terminal_number_def)

lemma vid_page_cong: "vidmem_pt s' = vidmem_pt s \<Longrightarrow> cr3 s' = cr3 s \<Longrightarrow> vid_page s' = vid_page s"
  by (rule ext) (simp add: vid_page_def)

lemma vid_page_keep [simp]:
  "vid_page (vwrite s a b) = vid_page s" "vid_page (upd_termi t f s) = vid_page s"
  "vid_page (sync_cursor s) = vid_page s" "vid_page (terminal_console_putc x y c s) = vid_page s"
  by (rule vid_page_cong; simp add: terminal_console_putc_def Let_def)+

interpretation proc: framed_console terminal_console_putc terminal_console_getc
  proc_cx proc_cy proc_move proc_note sync_cursor proc_erase proc_ok proc_frame
proof (unfold_locales, goal_cases)
  case (1 s x y x' y' c)
  show ?case
    unfolding proc_putc_cell [OF 1(1-3)] proc_getc_cell [OF 1(4,5)]
    by (rule write_cell [OF 1(2-5)]) (rule phys_screen(2))
next
  case (23 s x y c)
  have "in_region (vid_page s 0) 4096 p \<or> ram (terminal_console_putc (word_of_nat x) (word_of_nat y) c s) p = ram s p" for p
    unfolding proc_putc_cell [OF 23] by (rule write_cell_ram [OF 23(2,3)]) (rule phys_screen(2))
  then show ?case by (auto simp: proc_frame_def running_def get_current_process_def)
next
  case (22 s t u)
  then have "console_only s u" by (intro console_only_trans [of s t u]) (simp_all add: proc_frame_def)
  with 22 show ?case unfolding proc_frame_def by simp
qed (auto simp: proc_defs proc_frame_def upd_termi_same termi_other terminal_console_getc_def)

lemma proc_number [simp]:
  "get_current_process (terminal_update_cursor x y s) = get_current_process s"
  "get_current_process (terminal_revert_cursor x y s) = get_current_process s"
  "get_current_process (terminal_console_putc x y c s) = get_current_process s"
  "get_current_process (terminal_put c s) = get_current_process s"
  by (simp_all add: terminal_update_cursor_def terminal_revert_cursor_def terminal_scroll_up_def Let_def
      get_current_process_def terminal_put_def)

lemma proc_cursor_routines:
  "get_current_process s = t \<Longrightarrow>
     terminal_update_cursor (cursor_x (termi t s)) (cursor_y (termi t s)) s = proc.advance s"
  "get_current_process s = t \<Longrightarrow>
     terminal_revert_cursor (cursor_x (termi t s)) (cursor_y (termi t s)) s = proc.retreat s"
  unfolding terminal_update_cursor_def proc.advance_def terminal_revert_cursor_def proc.retreat_def
    terminal_scroll_up_def proc_move_def proc_note_def proc_cx_def proc_cy_def
  by (auto simp: running_def get_current_process_def intro: upd_termi_cong)

lemma proc_contract_number [simp]:
  "get_current_process (proc.advance s) = get_current_process s"
  "get_current_process (proc.retreat s) = get_current_process s"
  "get_current_process (proc_move x y s) = get_current_process s"
  using proc_cursor_routines(1,2) [OF refl, of s] proc_number(1,2) [where s = s]
  by (metis, metis) (simp add: proc_move_def)

lemma proc_put: "terminal_put ch s = proc.put_char ch s"
  unfolding terminal_put_def proc.put_char_def
  by (simp only: Let_def proc_cursor_routines proc_number(3) proc_contract_number
      proc_cx_def proc_cy_def running_def)

lemma proc_write_char: "write_terminal_char ch s = proc.write_char ch s"
proof -
  have m: "upd_termi (get_current_process s) (\<lambda>r. r\<lparr>cursor_x := 80 - 1\<rparr>) s = proc_move 79 (proc_cy s) s"
    unfolding proc_move_def by (rule upd_termi_cong) (simp add: proc_cy_def running_def)
  show ?thesis
    unfolding write_terminal_char_def proc.write_char_def Let_def m proc_put
    by (simp add: proc_cursor_routines) (auto simp add: proc_cx_def proc_cy_def proc_erase_def running_def)
qed

section \<open>Writing a buffer\<close>

text \<open>The characters of the buffer are read while the screen is written, so the buffer must not
  lie in the page of the screen.\<close>

lemma write_terminal_fold:
  assumes "proc.good s" "\<forall>i<n. \<not> in_region (vid_page s 0) 4096 (phys s (buf + word_of_nat i))"
  shows "fold (\<lambda>i s. write_terminal_char (vread s (buf + word_of_nat i)) s) [0..<n] s =
    fold proc.write_char (map (\<lambda>i. vread s (buf + word_of_nat i)) [0..<n]) s"
  using assms(2)
proof (induction n)
  case (Suc n)
  let ?s = "fold proc.write_char (map (\<lambda>i. vread s (buf + word_of_nat i)) [0..<n]) s"
  have "proc_frame s ?s" by (rule proc.frame_write_chars [OF assms(1)])
  then have "vread ?s (buf + word_of_nat n) = vread s (buf + word_of_nat n)"
    using Suc.prems by (simp add: proc_frame_def vread_def)
  with Suc show ?case by (simp add: proc_write_char)
qed simp

lemma write_terminal_run:
  assumes "proc.good s"
    and "\<forall>i<nat (sint nbytes). \<not> in_region (vid_page s 0) 4096 (phys s (buf + word_of_nat i))"
  shows "write_terminal s buf nbytes =
    (0, fold proc.write_char (map (\<lambda>i. vread s (buf + word_of_nat i)) [0..<nat (sint nbytes)]) s)"
  by (simp add: write_terminal_def write_terminal_fold [OF assms])

lemma write_from_keyboard_run: "write_terminal_from_keyboard bs s = (0, fold kbd.write_char bs s)"
proof -
  have "keyboard_write_char = (kbd.write_char :: u8 \<Rightarrow> 'a tty_scheme \<Rightarrow> 'a tty_scheme)"
    by (intro ext) (rule kbd_write_char)
  then show ?thesis by (simp add: write_terminal_from_keyboard_def)
qed

section \<open>A sample state\<close>

definition sample_termi :: termis_t where
  "sample_termi = \<lparr>buffer_size = 0, ctrl = 0, caps_lock = 0, shift = 0, caps_on = 0, caps_off = 1,
     video_memory = USER_VIDEO_ADDR, kmap = 0, up = 0, down = 0, left = 0, right = 0, scroll_index = 0,
     run_shell = 0, terminal_id = 0, buffer_flag = 0, enter_flag = 0, cursor_x = 0, cursor_y = 0,
     kbuffer = replicate 4096 0, storage_buffer = replicate 4096 0\<rparr>"

text \<open>Three fresh terminals after \<^verbatim>\<open>set_paging\<close>; the bytes \<^verbatim>\<open>h\<close>, \<^verbatim>\<open>i\<close> stand in the kernel's
  memory.  Terminal \<open>t\<close> runs, terminal \<open>d\<close> is displayed.\<close>

definition sample_tty :: "nat \<Rightarrow> nat \<Rightarrow> tty" where
  "sample_tty t d = set_paging sample_pt_addr sample_vidmem_addr
     \<lparr>ram = (\<lambda>_. 0)(0x500000 := 0x68, 0x500001 := 0x69), io = [], intf = True,
      master_mask = 0xFF, slave_mask = 0xFF, irq_handler = replicate 16 None,
      pd = \<lambda>_ _. blank_entry, pt = \<lambda>_ _. blank_entry, vidmem_pt = \<lambda>_ _. blank_entry,
      cr0 = 1, cr3 = 0, cr4 = 0, current_terminal = word_of_nat t,
      rtc_interrupt_occured = [0, 0, 0], test_mode = 0,
      termis = replicate 3 sample_termi, terminal_number = word_of_nat d, alt_pressed = 0\<rparr>"

lemma set_paging_tty [simp]:
  "current_terminal (set_paging pa va s) = current_terminal (s :: 'a tty_scheme)"
  "terminal_number (set_paging pa va s) = terminal_number s" "termis (set_paging pa va s) = termis s"
  by (subst retabled_set_paging [unfolded retabled_def]; simp)+

lemma set_paging_vid: "vid_page (set_paging pa va s) 0 = VIDEO"
proof -
  have "cr3 (set_paging pa va s) = 0" by (simp add: set_paging_def Let_def set_register_def)
  then show ?thesis by (simp add: vid_page_def set_paging_tables(3) mapped_vid_def frame_def)
qed

lemma sample_tty_fields [simp]:
  "current_terminal (sample_tty t d) = word_of_nat t" "terminal_number (sample_tty t d) = word_of_nat d"
  "termis (sample_tty t d) = replicate 3 sample_termi"
  "ram (sample_tty t d) = (\<lambda>_. 0)(0x500000 := 0x68, 0x500001 := 0x69)"
  "paging_ok (sample_tty t d)" "vid_page (sample_tty t d) 0 = VIDEO"
  by (simp_all add: sample_tty_def set_paging_ok set_paging_vid del: fun_upd_apply)

lemma sample_good:
  assumes "t < 3" "d < 3"
  shows "proc.good (sample_tty t d)" "kbd.good (sample_tty t d)"
proof -
  have "unat (word_of_nat t :: u32) = t" "unat (word_of_nat d :: u32) = d"
    using assms by (simp_all add: unat_u32_of_nat)
  then show "proc.good (sample_tty t d)" "kbd.good (sample_tty t d)"
    using assms by (auto simp add: proc.good_def proc.view_def kbd.good_def kbd.view_def on_screen_def proc_defs kbd_defs
        termi_def sample_termi_def)
qed

section \<open>Properties\<close>

text \<open>C21: \<^verbatim>\<open>write_terminal\<close> implements the text console: from a cursor on the screen it
  succeeds and leaves what the specification of \<open>Console\<close> makes of the screen and the cursor
  when it is given the characters of the buffer one by one (printing, line feed, tab, erase,
  wrap at the end of a line, scroll at the end of the screen).\<close>

theorem write_terminal_refines:
  assumes "proc.good s"
    and "\<forall>i<nat (sint nbytes). \<not> in_region (vid_page s 0) 4096 (phys s (buf + word_of_nat i))"
  shows "fst (write_terminal s buf nbytes) = 0 \<and>
    proc.view (snd (write_terminal s buf nbytes)) =
      fold spec_char (map (\<lambda>i. vread s (buf + word_of_nat i)) [0..<nat (sint nbytes)]) (proc.view s) \<and>
    on_screen (proc.view (snd (write_terminal s buf nbytes)))"
  unfolding write_terminal_run [OF assms] fst_conv snd_conv
  using proc.write_chars_spec [OF assms(1)] unfolding proc.good_def by metis

lemma sample_buffer:
  "i < 2 \<Longrightarrow> \<not> in_region (vid_page (sample_tty t d) 0) 4096 (phys (sample_tty t d) (0x500000 + word_of_nat i))"
  by (auto simp: less_2_cases_iff phys_def in_region_def)

lemma sample_bytes:
  "vread (sample_tty t d) 0x500000 = 0x68" "vread (sample_tty t d) 0x500001 = 0x69"
  by (simp_all add: vread_def phys_def in_region_def)

theorem write_terminal_refines_witness:
  "proc.view (snd (write_terminal (sample_tty 1 0) 0x500000 2)) =
     spec_char 0x69 (spec_char 0x68 (proc.view (sample_tty 1 0)))"
  using write_terminal_refines [where s = "sample_tty 1 0" and buf = "0x500000" and nbytes = 2,
      OF sample_good(1)] sample_buffer [of _ 1 0]
  by (simp add: sample_bytes upt_rec)

text \<open>the echo of the keyboard implements the same console, on the text screen and with the
  displayed terminal's cursor; the routine touches nothing else of that terminal's record and no
  other terminal.\<close>

theorem keyboard_echo_refines:
  assumes "kbd.good s"
  shows "kbd.view (snd (write_terminal_from_keyboard bs s)) = fold spec_char bs (kbd.view s) \<and>
    sans_cursor (shown (snd (write_terminal_from_keyboard bs s))) = sans_cursor (shown s) \<and>
    (\<forall>t. unat t = unat (terminal_number s) \<or>
      termi t (snd (write_terminal_from_keyboard bs s)) = termi t s)"
  unfolding write_from_keyboard_run
  using kbd.write_chars_spec [OF assms] kbd.frame_write_chars [OF assms, of bs]
  by (auto simp: kbd_frame_def)

theorem keyboard_echo_refines_witness:
  "kbd.view (snd (write_terminal_from_keyboard [0x68, 10] (sample_tty 1 0))) =
     spec_char 10 (spec_char 0x68 (kbd.view (sample_tty 1 0)))"
  using keyboard_echo_refines [where s = "sample_tty 1 0" and bs = "[0x68, 10]"] sample_good(2) by simp






end
