(* ===== verification/LineBuffer.thy ===== *)
theory LineBuffer
  imports Consoles
begin

text \<open>
  The line buffer of the displayed terminal.  A key appends to the line, erases its last
  character, submits the line or clears the screen; the specification is an editor on a list
  of at most 128 characters, with the text that \<^verbatim>\<open>read_terminal\<close> will find and the screen that
  shows it.  The code's arrays, counter and flags implement it.
\<close>

section \<open>The specification\<close>

record editor =
  line :: "u8 list"
  stored :: "u8 list"
  entered :: bool
  screen :: console_view

definition padded :: "u8 list \<Rightarrow> u8 list" where
  "padded l = l @ replicate (128 - length l) 0"

definition spec_clear :: "console_view \<Rightarrow> console_view" where
  "spec_clear v = v\<lparr>cells := (\<lambda>x y. if x < 80 \<and> y < 25 then 0x20 else 0), col := 0, row := 0\<rparr>"

definition spec_key :: "bool \<Rightarrow> u8 \<Rightarrow> editor \<Rightarrow> editor" where
  "spec_key control ch e =
     (if ch = 8 then
        if line e = [] then e\<lparr>stored := padded [], screen := (screen e)\<lparr>erasable := False\<rparr>\<rparr>
        else e\<lparr>line := butlast (line e), stored := padded (butlast (line e)),
               screen := spec_char 8 ((screen e)\<lparr>erasable := True\<rparr>)\<rparr>
      else if ch = 10 then
        e\<lparr>line := [], stored := padded (line e), entered := True,
          screen := spec_char 10 ((screen e)\<lparr>erasable := False\<rparr>)\<rparr>
      else if control \<and> ch = 0x6C then
        e\<lparr>line := [], stored := padded [], screen := spec_clear ((screen e)\<lparr>erasable := False\<rparr>)\<rparr>
      else if ch = 9 then
        let l = line e @ replicate (min 4 (128 - length (line e))) 0x20
        in e\<lparr>line := l, stored := (if length (line e) < 128 then padded l else stored e),
             screen := (screen e)\<lparr>erasable := True\<rparr>\<rparr>
      else if length (line e) < 128 then
        e\<lparr>line := line e @ [ch], stored := padded (line e @ [ch]),
          screen := spec_char ch ((screen e)\<lparr>erasable := True\<rparr>)\<rparr>
      else e)"

section \<open>The abstraction\<close>

definition line_of :: "termis_t \<Rightarrow> u8 list" where
  "line_of r = take (nat (sint (buffer_size r))) (kbuffer r)"

definition line_ok :: "termis_t \<Rightarrow> bool" where
  "line_ok r \<longleftrightarrow> length (kbuffer r) = 4096 \<and> length (storage_buffer r) = 4096 \<and>
     0 \<le> sint (buffer_size r) \<and> sint (buffer_size r) \<le> 128 \<and> take 128 (kbuffer r) = padded (line_of r)"

definition edit_view :: "'a tty_scheme \<Rightarrow> editor" where
  "edit_view s = \<lparr>line = line_of (shown s), stored = take 128 (storage_buffer (shown s)),
     entered = (enter_flag (shown s) = 1), screen = kbd.view s\<rparr>"

definition edit_ok :: "'a tty_scheme \<Rightarrow> bool" where
  "edit_ok s \<longleftrightarrow> kbd.good s \<and> line_ok (shown s)"

section \<open>The arrays\<close>

lemma blank_prefix: "n \<le> length xs \<Longrightarrow> blank xs n = replicate n 0 @ drop n xs"
  unfolding blank_def
  by (induction n) (auto simp: list_update_append replicate_append_same Cons_nth_drop_Suc [symmetric]
      simp flip: replicate_Suc)

lemma copy_prefix:
  "n \<le> length xs \<Longrightarrow> n \<le> length ys \<Longrightarrow>
     fold (\<lambda>i sb. sb[i := xs ! i]) [0..<n] ys = take n xs @ drop n ys"
  by (induction n)
    (auto simp: list_update_append take_Suc_conv_app_nth Cons_nth_drop_Suc [symmetric])

lemma length_padded [simp]: "length l \<le> 128 \<Longrightarrow> length (padded l) = 128"
  by (simp add: padded_def)

lemma line_intro:
  assumes "length (kbuffer r) = 4096" "length (storage_buffer r) = 4096" "length l \<le> 128"
    and "take 128 (kbuffer r) = padded l" "buffer_size r = word_of_nat (length l)"
  shows "line_ok r \<and> line_of r = l"
proof -
  have n: "sint (buffer_size r) = int (length l)" using assms(3,5) by (simp add: sint_u32_of_nat)
  have "take (length l) (kbuffer r) = take (length l) (take 128 (kbuffer r))"
    using assms(3) by (simp add: min_absorb1)
  also have "\<dots> = l" by (simp add: assms(4) padded_def)
  finally have "line_of r = l" by (simp add: line_of_def n)
  then show ?thesis using assms n by (simp add: line_ok_def)
qed

lemma line_elim:
  assumes "line_ok r"
  shows "length (kbuffer r) = 4096" "length (storage_buffer r) = 4096" "length (line_of r) \<le> 128"
    "take 128 (kbuffer r) = padded (line_of r)" "buffer_size r = word_of_nat (length (line_of r))"
    "sint (buffer_size r) = int (length (line_of r))"
proof -
  show s: "sint (buffer_size r) = int (length (line_of r))" using assms by (auto simp: line_ok_def line_of_def min_def)
  show "buffer_size r = word_of_nat (length (line_of r))"
    using arg_cong [OF s, of "\<lambda>i. word_of_int i :: i32"] by simp
  show "length (line_of r) \<le> 128" using assms s by (simp add: line_ok_def)
qed (use assms in \<open>simp_all add: line_ok_def\<close>)

lemma line_push:
  assumes "line_ok r" "length (line_of r) < 128"
  shows "line_ok (buffer_push ch r) \<and> line_of (buffer_push ch r) = line_of r @ [ch]"
proof (rule line_intro)
  note E = line_elim [OF assms(1)]
  have "(padded l)[length l := ch] = padded (l @ [ch])" if "length l < 128" for l
  proof -
    have "replicate (128 - length l) (0 :: u8) = 0 # replicate (128 - Suc (length l)) 0"
      using that by (simp flip: replicate_Suc add: Suc_diff_Suc)
    then show ?thesis by (simp add: padded_def)
  qed
  then show "take 128 (kbuffer (buffer_push ch r)) = padded (line_of r @ [ch])"
    using E(4) assms(2) by (simp add: buffer_push_def E(6) take_update_swap)
qed (use line_elim [OF assms(1)] assms(2) in \<open>simp_all add: buffer_push_def\<close>)

lemma line_pop:
  assumes "line_ok r" "line_of r \<noteq> []"
    and "r' = r\<lparr>kbuffer := (kbuffer r)[nat (sint (buffer_size r - 1)) := 0], buffer_size := buffer_size r - 1\<rparr>"
  shows "line_ok r' \<and> line_of r' = butlast (line_of r)"
proof (rule line_intro)
  note E = line_elim [OF assms(1)]
  obtain l c where l: "line_of r = l @ [c]" using assms(2) by (cases "line_of r" rule: rev_cases) auto
  have n: "length l < 128" using E(3) by (simp add: l)
  have b: "buffer_size r - 1 = word_of_nat (length l)" by (simp add: E(5) l)
  then have s: "nat (sint (buffer_size r - 1)) = length l" using n by (simp add: sint_u32_of_nat)
  have "replicate (128 - length l) (0 :: u8) = 0 # replicate (128 - Suc (length l)) 0"
    using n by (simp flip: replicate_Suc add: Suc_diff_Suc)
  then have "(padded (l @ [c]))[length l := 0] = padded l" by (simp add: padded_def)
  then show "take 128 (kbuffer r') = padded (butlast (line_of r))"
    unfolding assms(3) using E(4) by (simp add: s l take_update_swap)
  show "buffer_size r' = word_of_nat (length (butlast (line_of r)))" by (simp add: assms(3) b l)
  show "length (butlast (line_of r)) \<le> 128" using n by (simp add: l)
qed (use line_elim [OF assms(1)] in \<open>simp_all add: assms(3)\<close>)

lemma line_clean:
  assumes "line_ok r" "r' = r\<lparr>kbuffer := blank (kbuffer r) 128, buffer_size := 0\<rparr>"
  shows "line_ok r' \<and> line_of r' = []"
  using line_elim [OF assms(1)]
  by (intro line_intro) (simp_all add: assms(2) blank_prefix padded_def)

lemma line_flags [simp]:
  "line_ok (r\<lparr>buffer_flag := b\<rparr>) = line_ok r" "line_of (r\<lparr>buffer_flag := b\<rparr>) = line_of r"
  "line_ok (r\<lparr>enter_flag := e\<rparr>) = line_ok r" "line_of (r\<lparr>enter_flag := e\<rparr>) = line_of r"
  "line_of (r\<lparr>storage_buffer := sb\<rparr>) = line_of r"
  by (simp_all add: line_ok_def line_of_def)

text \<open>The copy into the buffer that the reading process looks at.\<close>

definition stored_line :: "termis_t \<Rightarrow> termis_t" where
  "stored_line r = r\<lparr>storage_buffer := fold (\<lambda>i sb. sb[i := kbuffer r ! i]) [0..<128] (storage_buffer r)\<rparr>"

lemma stored_line:
  assumes "line_ok r"
  shows "line_ok (stored_line r)" "line_of (stored_line r) = line_of r"
    "take 128 (storage_buffer (stored_line r)) = padded (line_of r)"
    "enter_flag (stored_line r) = enter_flag r" "ctrl (stored_line r) = ctrl r"
proof -
  note E = line_elim [OF assms]
  have sb: "storage_buffer (stored_line r) = padded (line_of r) @ drop 128 (storage_buffer r)"
    using E by (simp add: stored_line_def copy_prefix del: upt_rec_numeral)
  show "line_of (stored_line r) = line_of r" by (simp add: stored_line_def)
  then show "line_ok (stored_line r)"
    using assms E sb by (simp add: line_ok_def) (simp add: stored_line_def)
  show "take 128 (storage_buffer (stored_line r)) = padded (line_of r)" using E by (simp add: sb)
qed (simp_all add: stored_line_def)

section \<open>The state\<close>

lemma shown_upd [simp]: "kbd_ok s \<Longrightarrow> shown (upd_cur f s) = f (shown s)"
  by (simp add: upd_cur_def shown_def kbd_ok_def upd_termi_same)

lemma view_upd:
  assumes "kbd_ok s" "cursor_x (f (shown s)) = cursor_x (shown s)" "cursor_y (f (shown s)) = cursor_y (shown s)"
  shows "kbd_ok (upd_cur f s)"
    "kbd.view (upd_cur f s) = (kbd.view s)\<lparr>erasable := (buffer_flag (f (shown s)) = 0)\<rparr>"
proof -
  show "kbd_ok (upd_cur f s)" using assms(1) by (simp add: kbd_ok_def upd_cur_def)
  have "keyboard_console_getc x y (upd_cur f s) = keyboard_console_getc x y s" for x y
    by (simp add: keyboard_console_getc_def upd_cur_def)
  then have "kbd.cell (upd_cur f s) = kbd.cell s" by (simp add: kbd.cell_def fun_eq_iff)
  then show "kbd.view (upd_cur f s) = (kbd.view s)\<lparr>erasable := (buffer_flag (f (shown s)) = 0)\<rparr>"
    using assms by (simp add: kbd.view_def kbd_cx_def kbd_cy_def kbd_erase_def)
qed

lemma on_screen_erasable [simp]: "on_screen (v\<lparr>erasable := b\<rparr>) = on_screen v"
  by (simp add: on_screen_def)

lemma good_upd:
  assumes "kbd.good s" "cursor_x (f (shown s)) = cursor_x (shown s)" "cursor_y (f (shown s)) = cursor_y (shown s)"
  shows "kbd.good (upd_cur f s)"
  using assms view_upd [of s f] by (simp add: kbd.good_def)

lemma copy_buffer: "keyboard_copy_buffer s = upd_cur stored_line s"
  by (simp add: keyboard_copy_buffer_def upd_cur_def stored_line_def [abs_def])

lemma clean_buffer:
  "keyboard_buffer_clean s = upd_cur (\<lambda>r. r\<lparr>kbuffer := blank (kbuffer r) 128, buffer_size := 0, buffer_flag := 1\<rparr>) s"
  by (simp add: keyboard_buffer_clean_def upd_cur_def)

lemma echo:
  assumes "kbd.good s" "s' = snd (write_terminal_from_keyboard [ch] s)"
  shows "kbd.good s'" "kbd.view s' = spec_char ch (kbd.view s)" "sans_cursor (shown s') = sans_cursor (shown s)"
  using kbd.write_char_spec [OF assms(1), of ch] kbd.frame_write_char [OF assms(1), of ch]
  by (simp_all add: assms(2) write_from_keyboard_run kbd_frame_def)

lemma sans_cursor_line:
  assumes "sans_cursor r' = sans_cursor r"
  shows "line_ok r' = line_ok r" "line_of r' = line_of r" "storage_buffer r' = storage_buffer r"
    "enter_flag r' = enter_flag r" "buffer_flag r' = buffer_flag r"
  using sans_cursorD [OF assms] by (simp_all add: line_ok_def line_of_def)

lemma good_ok: "kbd.good s \<Longrightarrow> kbd_ok s"
  by (simp add: kbd.good_def)

text \<open>Clearing the screen.\<close>

lemma clean_screen_spec:
  assumes "kbd.good s"
  shows "kbd.good (clean_screen s)" "kbd.view (clean_screen s) = spec_clear (kbd.view s)"
    "kbd_frame s (clean_screen s)" "sans_cursor (shown (clean_screen s)) = sans_cursor (shown s)"
proof -
  define s1 where "s1 = fold (\<lambda>y. fold (\<lambda>x. keyboard_console_putc (word_of_nat x) (word_of_nat y) 0x20) [0..<80])
    [0..<25] s"
  have eq: "clean_screen s = kbd_sync (kbd_move 0 0 s1)"
    by (simp add: clean_screen_def Let_def s1_def [symmetric] kbd_defs)
  have ok: "kbd_ok s" by (rule good_ok [OF assms])
  have B: "kbd.same_rest s s1" "\<And>x y. x < 80 \<Longrightarrow> kbd.cell s1 x y = (if y < 25 then 0x20 else kbd.cell s x y)"
    using kbd.blank_rows [OF kbd.same_rest_refl [OF ok], of 0 25 "0x20"] unfolding s1_def by auto
  have ok1: "kbd_ok s1" using B(1) by (simp add: kbd.same_rest_def)
  have "kbd.cell s1 x y = (if x < 80 \<and> y < 25 then 0x20 else 0)" for x y
    using B(2) [of x y] by (cases "x < 80 \<and> y < 25") (auto simp: kbd.cell_def)
  then have "kbd.cell s1 = (\<lambda>x y. if x < 80 \<and> y < 25 then 0x20 else 0)" by (intro ext)
  then show v: "kbd.view (clean_screen s) = spec_clear (kbd.view s)"
    using B(1) ok1 unfolding eq
    by (simp add: kbd.view_sync kbd.view_move spec_clear_def) (simp add: kbd.view_def kbd.same_rest_def)
  show "kbd.good (clean_screen s)"
    unfolding kbd.good_def v using ok1 by (simp add: eq kbd.sync_law kbd.move_law on_screen_def spec_clear_def)
  have "kbd_ok s1 \<and> kbd_frame s s1" unfolding s1_def
  proof (rule kbd.frame_fold [OF ok])
    fix t y assume "y \<in> set [0..<25 :: nat]" "kbd_ok t"
    then show "kbd_ok (fold (\<lambda>x. keyboard_console_putc (word_of_nat x) (word_of_nat y) 0x20) [0..<80] t) \<and>
      kbd_frame t (fold (\<lambda>x. keyboard_console_putc (word_of_nat x) (word_of_nat y) 0x20) [0..<80] t)"
      by (intro kbd.frame_fold) (auto intro: kbd.putc_frame kbd.frame_putc)
  qed
  then show "kbd_frame s (clean_screen s)"
    unfolding eq using kbd.frame_move [OF ok1, of 0 0] kbd.frame_sync [OF kbd.move_law(5) [OF ok1]] kbd.frame_trans
    by blast
  then show "sans_cursor (shown (clean_screen s)) = sans_cursor (shown s)" by (simp add: kbd_frame_def)
qed

section \<open>One key\<close>

lemma edit_copy:
  assumes "kbd.good s" "line_ok (shown s)"
  shows "edit_ok (keyboard_copy_buffer s)"
    "edit_view (keyboard_copy_buffer s) = \<lparr>line = line_of (shown s), stored = padded (line_of (shown s)),
       entered = (enter_flag (shown s) = 1), screen = kbd.view s\<rparr>"
    "shown (keyboard_copy_buffer s) = stored_line (shown s)"
proof -
  note ok = good_ok [OF assms(1)]
  note S = stored_line [OF assms(2)]
  have f: "cursor_x (stored_line r) = cursor_x r" "cursor_y (stored_line r) = cursor_y r"
    "buffer_flag (stored_line r) = buffer_flag r" for r by (simp_all add: stored_line_def)
  show "shown (keyboard_copy_buffer s) = stored_line (shown s)" by (simp add: copy_buffer ok)
  show "edit_ok (keyboard_copy_buffer s)"
    using S by (simp add: edit_ok_def copy_buffer ok good_upd [OF assms(1)] f)
  have "kbd.view (keyboard_copy_buffer s) = kbd.view s"
    using view_upd(2) [OF ok, of stored_line]
    by (simp add: copy_buffer f) (simp add: kbd.view_def kbd_erase_def)
  then show "edit_view (keyboard_copy_buffer s) = \<lparr>line = line_of (shown s), stored = padded (line_of (shown s)),
      entered = (enter_flag (shown s) = 1), screen = kbd.view s\<rparr>"
    using S by (simp add: edit_view_def copy_buffer ok)
qed

lemma edit_upd:
  assumes "kbd.good s" "line_ok (f (shown s))"
    and "cursor_x (f (shown s)) = cursor_x (shown s)" "cursor_y (f (shown s)) = cursor_y (shown s)"
  shows "edit_ok (upd_cur f s)"
    "edit_view (upd_cur f s) = \<lparr>line = line_of (f (shown s)), stored = take 128 (storage_buffer (f (shown s))),
       entered = (enter_flag (f (shown s)) = 1),
       screen = (kbd.view s)\<lparr>erasable := (buffer_flag (f (shown s)) = 0)\<rparr>\<rparr>"
  using assms good_ok [OF assms(1)] view_upd(2) [of s f, OF good_ok [OF assms(1)] assms(3,4)]
  by (simp_all add: edit_ok_def edit_view_def good_upd)

lemma edit_echo:
  assumes "edit_ok s" "s' = snd (write_terminal_from_keyboard [ch] s)"
  shows "edit_ok s'" "edit_view s' = (edit_view s)\<lparr>screen := spec_char ch (screen (edit_view s))\<rparr>"
proof -
  have g: "kbd.good s" using assms(1) by (simp add: edit_ok_def)
  note E = echo [OF g assms(2)] and L = sans_cursor_line [OF echo(3) [OF g assms(2)]]
  show "edit_ok s'" using assms(1) E(1) L by (simp add: edit_ok_def)
  show "edit_view s' = (edit_view s)\<lparr>screen := spec_char ch (screen (edit_view s))\<rparr>"
    using E L by (simp add: edit_view_def)
qed

lemma edit_okD: "edit_ok s \<Longrightarrow> kbd.good s \<and> line_ok (shown s)"
  by (simp add: edit_ok_def)

lemma edit_stored:
  assumes "edit_ok s"
  shows "edit_ok (keyboard_copy_buffer s)"
    "edit_view (keyboard_copy_buffer s) = (edit_view s)\<lparr>stored := padded (line (edit_view s))\<rparr>"
  using edit_copy [of s] edit_okD [OF assms] by (simp_all add: edit_view_def)

text \<open>The erase key, the submitting key, the clearing key, the tab and the others.\<close>

lemma fill_buffer_erase:
  "keyboard_fill_buffer 8 s =
     (if buffer_size (shown s) = 0 then upd_cur (\<lambda>r. r\<lparr>buffer_flag := 1\<rparr>) (keyboard_copy_buffer s)
      else keyboard_copy_buffer (snd (write_terminal_from_keyboard [8]
        (upd_cur (\<lambda>r. r\<lparr>kbuffer := (kbuffer r)[nat (sint (buffer_size r - 1)) := 0],
                        buffer_size := buffer_size r - 1, buffer_flag := 0\<rparr>) s))))"
  by (simp only: keyboard_fill_buffer_def shown_def Let_def if_True simp_thms)

lemma fill_buffer_submit:
  "keyboard_fill_buffer 10 s =
     upd_cur (\<lambda>r. r\<lparr>enter_flag := 1\<rparr>)
       (snd (write_terminal_from_keyboard [10] (keyboard_buffer_clean (keyboard_copy_buffer s))))"
  by (simp add: keyboard_fill_buffer_def)

lemma fill_buffer_clear:
  "ctrl (shown s) = 1 \<Longrightarrow>
     keyboard_fill_buffer 0x6C s = keyboard_copy_buffer (clean_screen (keyboard_buffer_clean s))"
  by (simp add: keyboard_fill_buffer_def shown_def)

lemma fill_buffer_tab:
  "keyboard_fill_buffer 9 s =
     fold (\<lambda>_ s. keyboard_copy_buffer (upd_cur (buffer_push 0x20) s))
       [0..<if 128 - sint (buffer_size (shown (upd_cur (\<lambda>r. r\<lparr>buffer_flag := 0\<rparr>) s))) < 4
            then nat (128 - sint (buffer_size (shown (upd_cur (\<lambda>r. r\<lparr>buffer_flag := 0\<rparr>) s)))) else 4]
       (upd_cur (\<lambda>r. r\<lparr>buffer_flag := 0\<rparr>) s)"
  by (simp add: keyboard_fill_buffer_def shown_def Let_def del: upt_rec_numeral)

lemma fill_buffer_char:
  "ch \<noteq> 8 \<Longrightarrow> ch \<noteq> 10 \<Longrightarrow> \<not> (ctrl (shown s) = 1 \<and> ch = 0x6C) \<Longrightarrow> ch \<noteq> 9 \<Longrightarrow>
     keyboard_fill_buffer ch s =
       (if buffer_size (shown s) <s 128
        then keyboard_copy_buffer (snd (write_terminal_from_keyboard [ch]
               (upd_cur (\<lambda>r. r\<lparr>buffer_flag := 0\<rparr>) (upd_cur (buffer_push ch) s))))
        else s)"
  by (simp only: keyboard_fill_buffer_def shown_def Let_def if_False simp_thms)

lemma line_empty: "line_ok r \<Longrightarrow> buffer_size r = 0 \<longleftrightarrow> line_of r = []"
proof
  assume "line_ok r" "buffer_size r = 0"
  then show "line_of r = []" using line_elim(6) [of r] by simp
next
  assume "line_ok r" "line_of r = []"
  then show "buffer_size r = 0" using line_elim(5) [of r] by simp
qed

lemma view_flag [simp]: "(kbd.view s)\<lparr>erasable := (buffer_flag (shown s) = 0)\<rparr> = kbd.view s"
  by (simp add: kbd.view_def kbd_erase_def)

lemma edit_line [simp]: "line (edit_view s) = line_of (shown s)"
  by (simp add: edit_view_def)

lemma edit_enter:
  assumes "edit_ok s"
  shows "edit_ok (upd_cur (\<lambda>r. r\<lparr>enter_flag := 1\<rparr>) s)"
    "edit_view (upd_cur (\<lambda>r. r\<lparr>enter_flag := 1\<rparr>) s) = (edit_view s)\<lparr>entered := True\<rparr>"
  using edit_upd [of s "\<lambda>r. r\<lparr>enter_flag := 1\<rparr>"] edit_okD [OF assms] by (simp_all add: edit_view_def)

lemma edit_flag:
  assumes "edit_ok s"
  shows "edit_ok (upd_cur (\<lambda>r. r\<lparr>buffer_flag := b\<rparr>) s)"
    "edit_view (upd_cur (\<lambda>r. r\<lparr>buffer_flag := b\<rparr>) s) =
       (edit_view s)\<lparr>screen := (screen (edit_view s))\<lparr>erasable := (b = 0)\<rparr>\<rparr>"
  using edit_upd [of s "\<lambda>r. r\<lparr>buffer_flag := b\<rparr>"] edit_okD [OF assms] by (simp_all add: edit_view_def)

lemma edit_clean:
  assumes "edit_ok s"
  shows "edit_ok (keyboard_buffer_clean s)"
    "edit_view (keyboard_buffer_clean s) =
       (edit_view s)\<lparr>line := [], screen := (screen (edit_view s))\<lparr>erasable := False\<rparr>\<rparr>"
proof -
  let ?f = "\<lambda>r. r\<lparr>kbuffer := blank (kbuffer r) 128, buffer_size := 0, buffer_flag := 1\<rparr>"
  have c: "line_ok (?f (shown s)) \<and> line_of (?f (shown s)) = []"
    using line_clean [OF conjunct2 [OF edit_okD [OF assms]] refl] by (simp add: line_ok_def line_of_def)
  then show "edit_ok (keyboard_buffer_clean s)"
    "edit_view (keyboard_buffer_clean s) =
       (edit_view s)\<lparr>line := [], screen := (screen (edit_view s))\<lparr>erasable := False\<rparr>\<rparr>"
    using edit_upd [of s ?f] edit_okD [OF assms] by (simp_all add: clean_buffer edit_view_def)
qed

lemma edit_push:
  assumes "edit_ok s" "length (line_of (shown s)) < 128"
  shows "edit_ok (upd_cur (buffer_push ch) s)"
    "edit_view (upd_cur (buffer_push ch) s) = (edit_view s)\<lparr>line := line_of (shown s) @ [ch]\<rparr>"
proof -
  note p = line_push [OF conjunct2 [OF edit_okD [OF assms(1)]] assms(2), of ch]
  have "cursor_x (buffer_push ch r) = cursor_x r" "cursor_y (buffer_push ch r) = cursor_y r"
    "storage_buffer (buffer_push ch r) = storage_buffer r" "enter_flag (buffer_push ch r) = enter_flag r"
    "buffer_flag (buffer_push ch r) = buffer_flag r" for r by (simp_all add: buffer_push_def)
  then show "edit_ok (upd_cur (buffer_push ch) s)"
    "edit_view (upd_cur (buffer_push ch) s) = (edit_view s)\<lparr>line := line_of (shown s) @ [ch]\<rparr>"
    using edit_upd [of s "buffer_push ch"] edit_okD [OF assms(1)] p by (simp_all add: edit_view_def)
qed

lemma edit_pop:
  assumes "edit_ok s" "line_of (shown s) \<noteq> []"
  defines "f \<equiv> \<lambda>r. r\<lparr>kbuffer := (kbuffer r)[nat (sint (buffer_size r - 1)) := 0],
    buffer_size := buffer_size r - 1, buffer_flag := 0\<rparr>"
  shows "edit_ok (upd_cur f s)"
    "edit_view (upd_cur f s) = (edit_view s)\<lparr>line := butlast (line_of (shown s)),
       screen := (screen (edit_view s))\<lparr>erasable := True\<rparr>\<rparr>"
proof -
  have p: "line_ok (f (shown s)) \<and> line_of (f (shown s)) = butlast (line_of (shown s))"
    using line_pop [OF conjunct2 [OF edit_okD [OF assms(1)]] assms(2) refl]
    by (simp add: f_def line_ok_def line_of_def)
  then show "edit_ok (upd_cur f s)"
    "edit_view (upd_cur f s) = (edit_view s)\<lparr>line := butlast (line_of (shown s)),
       screen := (screen (edit_view s))\<lparr>erasable := True\<rparr>\<rparr>"
    using edit_upd [of s f] edit_okD [OF assms(1)] by (simp_all add: edit_view_def f_def)
qed

lemma edit_clear_screen:
  assumes "edit_ok s"
  shows "edit_ok (clean_screen s)"
    "edit_view (clean_screen s) = (edit_view s)\<lparr>screen := spec_clear (screen (edit_view s))\<rparr>"
  using clean_screen_spec [OF conjunct1 [OF edit_okD [OF assms]]] edit_okD [OF assms]
    sans_cursor_line [OF clean_screen_spec(4) [OF conjunct1 [OF edit_okD [OF assms]]]]
  by (simp_all add: edit_ok_def edit_view_def)

text \<open>The erase key, the submitting key, the clearing key, the tab and the others.\<close>

abbreviation (input) key_spec :: "bool \<Rightarrow> u8 \<Rightarrow> 'a tty_scheme \<Rightarrow> bool" where
  "key_spec k ch s \<equiv> edit_ok (keyboard_fill_buffer ch s) \<and>
     edit_view (keyboard_fill_buffer ch s) = spec_key k ch (edit_view s)"

lemma shown_line: "edit_view s' = e \<Longrightarrow> line_of (shown s') = line e"
  by auto

lemma key_erase:
  assumes "edit_ok s"
  shows "key_spec k 8 s"
proof (cases "line_of (shown s) = []")
  case True
  then have z: "buffer_size (shown s) = 0" using line_empty edit_okD [OF assms] by blast
  show ?thesis
    unfolding fill_buffer_erase if_P [OF z]
    using edit_flag [OF edit_stored(1) [OF assms], of 1] edit_stored(2) [OF assms] True
    by (simp add: spec_key_def)
next
  case False
  then have z: "buffer_size (shown s) \<noteq> 0" using line_empty edit_okD [OF assms] by blast
  note P = edit_pop [OF assms False]
  note W = edit_echo [OF P(1) refl, of 8]
  show ?thesis
    unfolding fill_buffer_erase if_not_P [OF z]
    using edit_stored [OF W(1)] W(2) P(2) shown_line [OF W(2)] shown_line [OF P(2)] False
    by (simp add: spec_key_def)
qed

lemma key_submit:
  assumes "edit_ok s"
  shows "key_spec k 10 s"
proof -
  note C = edit_stored [OF assms]
  note B = edit_clean [OF C(1)]
  note W = edit_echo [OF B(1) refl, of 10]
  show ?thesis
    unfolding fill_buffer_submit using edit_enter [OF W(1)] W(2) B(2) C(2) by (simp add: spec_key_def)
qed

lemma key_clear:
  assumes "edit_ok s" "ctrl (shown s) = 1"
  shows "key_spec True 0x6C s"
proof -
  note B = edit_clean [OF assms(1)]
  note S = edit_clear_screen [OF B(1)]
  show ?thesis
    unfolding fill_buffer_clear [OF assms(2)]
    using edit_stored [OF S(1)] S(2) B(2) shown_line [OF B(2)] shown_line [OF S(2)] by (simp add: spec_key_def)
qed

lemma tab_steps:
  assumes "edit_ok s" "n + length (line_of (shown s)) \<le> 128"
  defines "g \<equiv> \<lambda>(_ :: nat) s. keyboard_copy_buffer (upd_cur (buffer_push 0x20) s)"
  shows "edit_ok (fold g [0..<n] s) \<and> edit_view (fold g [0..<n] s) =
    (edit_view s)\<lparr>line := line_of (shown s) @ replicate n 0x20,
      stored := (if n = 0 then stored (edit_view s) else padded (line_of (shown s) @ replicate n 0x20))\<rparr>"
  using assms(2)
proof (induction n)
  case (Suc n)
  let ?s = "fold g [0..<n] s"
  have IH: "edit_ok ?s" "edit_view ?s = (edit_view s)\<lparr>line := line_of (shown s) @ replicate n 0x20,
      stored := (if n = 0 then stored (edit_view s) else padded (line_of (shown s) @ replicate n 0x20))\<rparr>"
    using Suc by simp_all
  have l: "line_of (shown ?s) = line_of (shown s) @ replicate n 0x20" using shown_line [OF IH(2)] by simp
  have "length (line_of (shown ?s)) < 128" using Suc.prems l by simp
  note P = edit_push [OF IH(1) this, of "0x20"]
  show ?case
    using edit_stored [OF P(1)] P(2) shown_line [OF P(2)] IH(2) l
    by (simp add: g_def replicate_append_same)
next
  case 0
  show ?case using assms(1) by (simp add: edit_view_def)
qed

lemma key_tab:
  assumes "edit_ok s"
  shows "key_spec k 9 s"
proof -
  let ?s = "upd_cur (\<lambda>r. r\<lparr>buffer_flag := 0\<rparr>) s"
  note F = edit_flag [OF assms, of 0]
  have l: "line_of (shown ?s) = line_of (shown s)" using shown_line [OF F(2)] by simp
  note E = line_elim [OF conjunct2 [OF edit_okD [OF F(1)]]]
  define m where "m = min 4 (128 - length (line_of (shown s)))"
  have n: "(if 128 - sint (buffer_size (shown ?s)) < 4 then nat (128 - sint (buffer_size (shown ?s))) else 4) = m"
    using E(3) unfolding E(6) l m_def by (simp add: min_def nat_diff_distrib) linarith
  have m: "m + length (line_of (shown ?s)) \<le> 128" "m = 0 \<longleftrightarrow> \<not> length (line_of (shown s)) < 128"
    using E(3) unfolding l m_def by auto
  have swap: "e\<lparr>screen := a, line := b, stored := c\<rparr> = e\<lparr>line := b, stored := c, screen := a\<rparr>"
    "e\<lparr>screen := a, line := b\<rparr> = e\<lparr>line := b, screen := a\<rparr>" for e :: editor and a b c
    by (cases e; simp)+
  show ?thesis
    unfolding fill_buffer_tab n using tab_steps [OF F(1) m(1)] m(2) F(2)
    by (simp add: spec_key_def l m_def [symmetric] Let_def swap)
qed

lemma key_char:
  assumes "edit_ok s" "ch \<noteq> 8" "ch \<noteq> 10" "\<not> (ctrl (shown s) = 1 \<and> ch = 0x6C)" "ch \<noteq> 9"
  shows "key_spec (ctrl (shown s) = 1) ch s"
proof -
  note E = line_elim [OF conjunct2 [OF edit_okD [OF assms(1)]]]
  have room: "buffer_size (shown s) <s 128 \<longleftrightarrow> length (line_of (shown s)) < 128"
    by (simp add: word_sless_alt E(6))
  show ?thesis
  proof (cases "length (line_of (shown s)) < 128")
    case True
    note P = edit_push [OF assms(1) True, of ch]
    note F = edit_flag [OF P(1), of 0]
    note W = edit_echo [OF F(1) refl, of ch]
    show ?thesis
      unfolding fill_buffer_char [OF assms(2-5)] using room True assms(2-5)
        edit_stored [OF W(1)] W(2) F(2) P(2) shown_line [OF W(2)] shown_line [OF F(2)] shown_line [OF P(2)]
      by (auto simp add: spec_key_def)
  next
    case False
    show ?thesis unfolding fill_buffer_char [OF assms(2-5)] using room False assms
      by (auto simp add: spec_key_def)
  qed
qed

lemma key_refines:
  assumes "edit_ok s"
  shows "key_spec (ctrl (shown s) = 1) ch s"
proof -
  consider "ch = 8" | "ch = 10" | "ctrl (shown s) = 1" "ch = 0x6C" | "ch = 9" |
    "ch \<noteq> 8" "ch \<noteq> 10" "\<not> (ctrl (shown s) = 1 \<and> ch = 0x6C)" "ch \<noteq> 9" by blast
  then show ?thesis
    using key_erase [OF assms] key_submit [OF assms] key_clear [OF assms] key_tab [OF assms] key_char [OF assms]
    by cases (simp_all only: simp_thms)
qed

section \<open>What a key leaves alone\<close>

definition modifiers :: "termis_t \<Rightarrow> u8 list" where
  "modifiers r = [ctrl r, shift r, caps_lock r, caps_on r, caps_off r, up r, down r, left r, right r]"

lemma modifiers_ctrl: "modifiers r' = modifiers r \<Longrightarrow> ctrl r' = ctrl r"
  by (simp add: modifiers_def)

lemma modifiers_cursor: "sans_cursor r' = sans_cursor r \<Longrightarrow> modifiers r' = modifiers r"
  by (cases r; cases r'; simp add: sans_cursor_def modifiers_def)

definition key_frame :: "'a tty_scheme \<Rightarrow> 'a tty_scheme \<Rightarrow> bool" where
  "key_frame s s' \<longleftrightarrow>
     phys s' = phys s \<and> terminal_number s' = terminal_number s \<and> current_terminal s' = current_terminal s \<and>
     (\<forall>p. \<not> in_region VIDEO 4096 p \<longrightarrow> ram s' p = ram s p) \<and>
     (\<forall>t. unat t \<noteq> unat (terminal_number s) \<longrightarrow> termi t s' = termi t s) \<and>
     modifiers (shown s') = modifiers (shown s) \<and> length (termis s') = length (termis s)"

lemma key_frame_refl: "key_frame s s"
  by (simp add: key_frame_def)

lemma key_frame_trans: "key_frame s t \<Longrightarrow> key_frame t u \<Longrightarrow> key_frame s u"
  unfolding key_frame_def by simp

lemma key_frame_kbd: "kbd_frame s s' \<Longrightarrow> key_frame s s'"
  using modifiers_cursor [of "shown s'" "shown s"] by (simp add: kbd_frame_def key_frame_def)

lemma key_frame_upd:
  assumes "kbd_ok s" "modifiers (f (shown s)) = modifiers (shown s)"
  shows "key_frame s (upd_cur f s)"
proof -
  have "modifiers (shown (upd_cur f s)) = modifiers (shown s)" using assms by simp
  then show ?thesis by (simp add: key_frame_def) (simp add: upd_cur_def termi_other)
qed

lemma key_frame_copy: "kbd_ok s \<Longrightarrow> key_frame s (keyboard_copy_buffer s)"
  unfolding copy_buffer by (rule key_frame_upd) (simp_all add: stored_line_def modifiers_def)

lemma key_frame_clean: "kbd_ok s \<Longrightarrow> key_frame s (keyboard_buffer_clean s)"
  unfolding clean_buffer by (rule key_frame_upd) (simp_all add: modifiers_def)

lemma key_frame_echo:
  "edit_ok s \<Longrightarrow> key_frame s (snd (write_terminal_from_keyboard [ch] s))"
  using kbd.frame_write_char [of s ch] by (simp add: key_frame_kbd write_from_keyboard_run edit_ok_def)

lemma edit_kbd_ok: "edit_ok s \<Longrightarrow> kbd_ok s"
  by (simp add: edit_ok_def good_ok)

lemma key_frame_fill:
  assumes "edit_ok s"
  shows "key_frame s (keyboard_fill_buffer ch s)"
proof -
  note ok = edit_kbd_ok [OF assms]
  note tr = key_frame_trans
  consider "ch = 8" | "ch = 10" | "ctrl (shown s) = 1" "ch = 0x6C" | "ch = 9" |
    "ch \<noteq> 8" "ch \<noteq> 10" "\<not> (ctrl (shown s) = 1 \<and> ch = 0x6C)" "ch \<noteq> 9" by blast
  then show ?thesis
  proof cases
    case 1
    let ?f = "\<lambda>r. r\<lparr>kbuffer := (kbuffer r)[nat (sint (buffer_size r - 1)) := 0],
      buffer_size := buffer_size r - 1, buffer_flag := 0\<rparr>"
    note C = edit_stored(1) [OF assms]
    have a: "key_frame s (upd_cur (\<lambda>r. r\<lparr>buffer_flag := 1\<rparr>) (keyboard_copy_buffer s))"
      by (rule tr [OF key_frame_copy [OF ok] key_frame_upd [OF edit_kbd_ok [OF C]]]) (simp add: modifiers_def)
    have b: "key_frame s (keyboard_copy_buffer (snd (write_terminal_from_keyboard [8] (upd_cur ?f s))))"
      if "buffer_size (shown s) \<noteq> 0"
    proof -
      have "line_of (shown s) \<noteq> []" using that line_empty edit_okD [OF assms] by blast
      note P = edit_pop(1) [OF assms this]
      show ?thesis
        by (rule tr [OF key_frame_upd [OF ok] tr [OF key_frame_echo [OF P]
              key_frame_copy [OF edit_kbd_ok [OF edit_echo(1) [OF P refl]]]]]) (simp add: modifiers_def)
    qed
    show ?thesis unfolding 1 fill_buffer_erase using a b by presburger
  next
    case 2
    note C = edit_stored(1) [OF assms]
    note B = edit_clean(1) [OF C]
    note W = edit_echo(1) [OF B refl, of 10]
    show ?thesis unfolding 2 fill_buffer_submit
      by (rule tr [OF key_frame_copy [OF ok] tr [OF key_frame_clean [OF edit_kbd_ok [OF C]]
            tr [OF key_frame_echo [OF B] key_frame_upd [OF edit_kbd_ok [OF W]]]]]) (simp add: modifiers_def)
  next
    case 3
    note B = edit_clean(1) [OF assms]
    note S = edit_clear_screen(1) [OF B]
    have "key_frame (keyboard_buffer_clean s) (clean_screen (keyboard_buffer_clean s))"
      using clean_screen_spec(3) edit_okD [OF B] by (blast intro: key_frame_kbd)
    then show ?thesis unfolding 3(2) fill_buffer_clear [OF 3(1)]
      by (blast intro: tr key_frame_clean [OF ok] key_frame_copy [OF edit_kbd_ok [OF S]])
  next
    case 4
    let ?s = "upd_cur (\<lambda>r. r\<lparr>buffer_flag := 0\<rparr>) s"
    have step: "key_frame t (keyboard_copy_buffer (upd_cur (buffer_push 0x20) t)) \<and>
      kbd_ok (keyboard_copy_buffer (upd_cur (buffer_push 0x20) t))" if "kbd_ok t" for t :: "'a tty_scheme"
    proof -
      have "kbd_ok (upd_cur (buffer_push 0x20) t)" using that by (simp add: kbd_ok_def upd_cur_def)
      then show ?thesis
        using key_frame_upd [OF that, of "buffer_push 0x20"] key_frame_copy [of "upd_cur (buffer_push 0x20) t"]
        by (auto simp: buffer_push_def copy_buffer modifiers_def intro: tr) (simp add: kbd_ok_def upd_cur_def)
    qed
    have "kbd_ok (fold (\<lambda>_ s. keyboard_copy_buffer (upd_cur (buffer_push 0x20) s)) [0..<n] ?s) \<and>
      key_frame s (fold (\<lambda>_ s. keyboard_copy_buffer (upd_cur (buffer_push 0x20) s)) [0..<n] ?s)" for n
    proof (induction n)
      case 0
      have "kbd_ok ?s" using ok by (simp add: kbd_ok_def upd_cur_def)
      then show ?case using key_frame_upd [OF ok] by (simp add: modifiers_def)
    next
      case (Suc n)
      with step show ?case by (auto intro: tr)
    qed
    then show ?thesis unfolding 4 fill_buffer_tab by blast
  next
    case 5
    show ?thesis
    proof (cases "buffer_size (shown s) <s 128")
      case True
      have "length (line_of (shown s)) < 128"
        using True line_elim(6) [OF conjunct2 [OF edit_okD [OF assms]]] by (simp add: word_sless_alt)
      note P = edit_push(1) [OF assms this, of ch]
      note F = edit_flag(1) [OF P, of 0]
      note W = edit_echo(1) [OF F refl, of ch]
      show ?thesis
        unfolding fill_buffer_char [OF 5] if_P [OF True]
        by (rule tr [OF key_frame_upd [OF ok] tr [OF key_frame_upd [OF edit_kbd_ok [OF P]]
              tr [OF key_frame_echo [OF F] key_frame_copy [OF edit_kbd_ok [OF W]]]]]) (simp_all add: buffer_push_def modifiers_def)
    next
      case False
      then show ?thesis unfolding fill_buffer_char [OF 5] by (simp add: key_frame_refl)
    qed
  qed
qed

section \<open>Reading the line\<close>

lemma padded_bytes:
  assumes "length l \<le> 128"
  shows "j < 128 \<Longrightarrow> padded l ! j = (if j < length l then l ! j else 0)"
  using assms by (simp add: padded_def nth_append)

text \<open>A buffer that lies in memory of its own: its addresses lead to different places.\<close>

definition buffer_placed :: "'a paging_scheme \<Rightarrow> u32 \<Rightarrow> nat \<Rightarrow> bool" where
  "buffer_placed s buf n \<longleftrightarrow>
     (\<forall>i<n. \<forall>j<n. phys s (buf + word_of_nat i) = phys s (buf + word_of_nat j) \<longrightarrow> i = j)"

lemma vread_store:
  assumes "buffer_placed s buf n" "k \<le> n" "i < n"
  shows "vread (fold (\<lambda>j s. vwrite s (buf + word_of_nat j) (f j)) [0..<k] s) (buf + word_of_nat i) =
    (if i < k then f i else vread s (buf + word_of_nat i)) \<and>
    phys (fold (\<lambda>j s. vwrite s (buf + word_of_nat j) (f j)) [0..<k] s) = phys s"
  using assms(2)
proof (induction k)
  case (Suc k)
  then have "phys s (buf + word_of_nat i) = phys s (buf + word_of_nat k) \<longleftrightarrow> i = k"
    using assms(1,3) by (auto simp: buffer_placed_def)
  with Suc show ?case by (auto simp: vread_vwrite less_Suc_eq)
qed simp

lemma fold_vwrite_termis [simp]:
  "termis (fold (\<lambda>j s. vwrite s (a j) (f j s)) js s) = termis s"
  "termi t (fold (\<lambda>j s. vwrite s (a j) (f j s)) js s) = termi t s"
  "phys (fold (\<lambda>j s. vwrite s (a j) (f j s)) js s) = phys s"
  "current_terminal (fold (\<lambda>j s. vwrite s (a j) (f j s)) js s) = current_terminal s"
  by (induction js arbitrary: s) simp_all

lemma fold_stored:
  "termi t s = r \<Longrightarrow> fold (\<lambda>j s. vwrite s (a j) (storage_buffer (termi t s) ! j)) js s =
     fold (\<lambda>j s. vwrite s (a j) (storage_buffer r ! j)) js s"
  by (induction js arbitrary: s) simp_all

lemma copy_line_reads:
  assumes "buffer_placed s buf n" "len \<le> n"
  shows "i < n \<Longrightarrow> vread (copy_line t buf len s) (buf + word_of_nat i) =
      (if i < len then storage_buffer (termi t s) ! i else vread s (buf + word_of_nat i))"
    "termi u (copy_line t buf len s) = termi u s" "phys (copy_line t buf len s) = phys s"
    "current_terminal (copy_line t buf len s) = current_terminal s"
    "termis (copy_line t buf len s) = termis s"
proof -
  define s1 where "s1 = fold (\<lambda>i s. vwrite s (buf + word_of_nat i) 0) [0..<len] s"
  have s1: "termi u s1 = termi u s" "phys s1 = phys s" "termis s1 = termis s"
    "current_terminal s1 = current_terminal s" for u
    by (simp_all add: s1_def)
  have z: "i < n \<Longrightarrow> vread s1 (buf + word_of_nat i) = (if i < len then 0 else vread s (buf + word_of_nat i))"
    using vread_store [OF assms, where f = "\<lambda>_. 0"] by (simp add: s1_def)
  have pl: "buffer_placed s1 buf n" using assms(1) by (simp add: buffer_placed_def s1)
  have eq: "copy_line t buf len s =
      fold (\<lambda>j s. vwrite s (buf + word_of_nat j) (storage_buffer (termi t s1) ! j)) [0..<len] s1"
    unfolding copy_line_def Let_def s1_def [symmetric] by (rule fold_stored [OF refl])
  show "i < n \<Longrightarrow> vread (copy_line t buf len s) (buf + word_of_nat i) =
      (if i < len then storage_buffer (termi t s) ! i else vread s (buf + word_of_nat i))"
    using vread_store [OF pl assms(2)] z unfolding eq s1 by simp
qed (simp_all add: copy_line_def Let_def)

text \<open>The line a sequence of keys makes.\<close>

definition spec_line :: "bool \<Rightarrow> u8 \<Rightarrow> u8 list \<Rightarrow> u8 list" where
  "spec_line control ch l =
     (if ch = 8 then butlast l
      else if ch = 10 \<or> control \<and> ch = 0x6C then []
      else if ch = 9 then l @ replicate (min 4 (128 - length l)) 0x20
      else if length l < 128 then l @ [ch] else l)"

lemma spec_line: "line (spec_key k ch e) = spec_line k ch (line e)"
  by (simp add: spec_key_def spec_line_def Let_def)

lemma spec_stored:
  "ch \<noteq> 10 \<Longrightarrow> stored e = padded (line e) \<Longrightarrow> length (line e) \<le> 128 \<Longrightarrow>
     stored (spec_key k ch e) = padded (spec_line k ch (line e)) \<and> entered (spec_key k ch e) = entered e"
  by (auto simp: spec_key_def spec_line_def Let_def)

lemma spec_line_nonzero: "0 \<notin> set l \<Longrightarrow> ch \<noteq> 0 \<Longrightarrow> 0 \<notin> set (spec_line k ch l)"
  by (auto simp: spec_line_def dest: in_set_butlastD)

lemma length_spec_line: "length l \<le> 128 \<Longrightarrow> length (spec_line k ch l) \<le> 128"
  by (auto simp: spec_line_def)

text \<open>Copying to the reader's buffer does not disturb the editor.\<close>

definition reader_buffer :: "'a tty_scheme \<Rightarrow> u32 \<Rightarrow> bool" where
  "reader_buffer s buf \<longleftrightarrow> buffer_placed s buf 128 \<and>
     (\<forall>i<128. \<not> in_region VIDEO 4096 (phys s (buf + word_of_nat i)))"

lemma ram_fold_vwrite:
  "(\<forall>j\<in>set js. p \<noteq> phys s (a j)) \<Longrightarrow> ram (fold (\<lambda>j s. vwrite s (a j) (f j s)) js s) p = ram s p"
  by (induction js arbitrary: s) simp_all

lemma screen_untouched:
  assumes "termis s' = termis s" "terminal_number s' = terminal_number s" "phys s' = phys s"
    and "\<And>p. in_region VIDEO 4096 p \<Longrightarrow> ram s' p = ram s p"
  shows "kbd.view s' = kbd.view s" "kbd.good s' = kbd.good s" "shown s' = shown s"
proof -
  show sh: "shown s' = shown s" using assms(1,2) by (simp add: shown_def termi_def)
  have "keyboard_console_getc (word_of_nat x) (word_of_nat y) s' = keyboard_console_getc (word_of_nat x) (word_of_nat y) s"
    if "x < 80" "y < 25" for x y
    unfolding kbd_getc_cell [OF that] vread_def assms(3)
    using cell_pos_bound [OF that] by (subst (1 2) phys_screen(1)) (simp_all add: assms(4) in_region_cell [OF that])
  then have "kbd.cell s' = kbd.cell s" by (auto simp: kbd.cell_def fun_eq_iff)
  then show "kbd.view s' = kbd.view s" by (simp add: kbd.view_def kbd_cx_def kbd_cy_def kbd_erase_def sh)
  then show "kbd.good s' = kbd.good s" using assms(1,2) by (simp add: kbd.good_def kbd_ok_def)
qed

lemma copy_line_edit:
  assumes "reader_buffer s buf"
  shows "edit_view (copy_line t buf 128 s) = edit_view s" "edit_ok (copy_line t buf 128 s) = edit_ok s"
    "shown (copy_line t buf 128 s) = shown s" "terminal_number (copy_line t buf 128 s) = terminal_number s"
    "reader_buffer (copy_line t buf 128 s) buf"
proof -
  have tn: "terminal_number (fold (\<lambda>j s. vwrite s (a j) (f j s)) js s) = terminal_number s"
    for a :: "nat \<Rightarrow> u32" and f and js and s :: "'a tty_scheme" by (induction js arbitrary: s) simp_all
  then show tn: "terminal_number (copy_line t buf 128 s) = terminal_number s"
    by (simp add: copy_line_def Let_def)
  have "ram (copy_line t buf 128 s) p = ram s p" if "in_region VIDEO 4096 p" for p
  proof -
    have "\<forall>j\<in>set [0..<128]. p \<noteq> phys s (buf + word_of_nat j)"
      using that assms by (auto simp: reader_buffer_def)
    then show ?thesis unfolding copy_line_def Let_def
      by (subst ram_fold_vwrite) (simp_all add: ram_fold_vwrite del: upt_rec_numeral)
  qed
  note S = screen_untouched [OF copy_line_reads(5) tn copy_line_reads(3) this]
  have b: "buffer_placed s buf 128" "128 \<le> (128 :: nat)" using assms by (simp_all add: reader_buffer_def)
  show "shown (copy_line t buf 128 s) = shown s" using S(3) b by blast
  then show "edit_view (copy_line t buf 128 s) = edit_view s" "edit_ok (copy_line t buf 128 s) = edit_ok s"
    using S(1,2) b by (simp_all add: edit_view_def edit_ok_def)
  show "reader_buffer (copy_line t buf 128 s) buf"
    using assms copy_line_reads(3) [OF b] by (simp add: reader_buffer_def buffer_placed_def)
qed

lemma reader_buffer_frame: "key_frame s s' \<Longrightarrow> reader_buffer s buf \<Longrightarrow> reader_buffer s' buf"
  by (simp add: key_frame_def reader_buffer_def buffer_placed_def)

lemma line_end_at:
  assumes "\<forall>i<m. vread s (buf + word_of_nat i) \<noteq> 0" "vread s (buf + word_of_nat m) = 0"
  shows "line_end s buf 0 = Some (word_of_nat m)"
proof -
  have "line_end s buf (word_of_nat k) = Some (word_of_nat m)" if "k \<le> m" for k
    using that
  proof (induction rule: inc_induct)
    case base
    show ?case using assms(2) by (subst line_end.simps) simp
  next
    case (step k)
    have "line_end s buf (word_of_nat k) = line_end s buf (word_of_nat (Suc k))"
      using assms(1) step(2) by (subst line_end.simps) (simp add: add.commute)
    with step(3) show ?case by simp
  qed
  from this [of 0] show ?thesis by simp
qed

lemma wait_enter:
  assumes "edit_ok s" "reader_buffer s buf" "t = terminal_number s" "enter_flag (shown s) \<noteq> 1"
    and "stored (edit_view s) = padded (line_of (shown s))" "env k = keyboard_fill_buffer 10"
  shows "\<exists>s'. line_wait env t buf 128 k s = Some s' \<and> key_frame (copy_line t buf 128 s) s' \<and>
    edit_ok s' \<and> (\<forall>i<128. vread s' (buf + word_of_nat i) = padded (line_of (shown s)) ! i)"
proof -
  let ?c = "copy_line t buf 128 s"
  let ?s = "keyboard_fill_buffer 10 ?c"
  note C = copy_line_edit [OF assms(2), where t = t]
  have ok: "edit_ok ?c" using C(2) assms(1) by simp
  have r: "edit_ok ?s" "edit_view ?s = spec_key (ctrl (shown ?c) = 1) 10 (edit_view ?c)"
    using key_refines [OF ok] by simp_all
  note F = key_frame_fill [OF ok, of 10]
  have "entered (edit_view ?s)" by (simp add: r(2) spec_key_def)
  then have e: "enter_flag (termi t ?s) = 1"
    using F C(4) assms(3) by (simp add: edit_view_def shown_def key_frame_def)
  have n: "enter_flag (termi t s) \<noteq> 1" using assms(3,4) by (simp add: shown_def)
  have "line_wait env t buf 128 k s = line_wait env t buf 128 (k + 1) ?s"
    using n assms(6) by (subst line_wait.simps) simp
  also have "\<dots> = Some ?s" using e by (subst line_wait.simps) simp
  finally have w: "line_wait env t buf 128 k s = Some ?s" .
  have b: "buffer_placed s buf 128" "128 \<le> (128 :: nat)"
    "\<forall>i<128. \<not> in_region VIDEO 4096 (phys s (buf + word_of_nat i))"
    using assms(2) by (simp_all add: reader_buffer_def)
  have "vread ?s (buf + word_of_nat i) = padded (line_of (shown s)) ! i" if i: "i < 128" for i
  proof -
    have "vread ?s (buf + word_of_nat i) = vread ?c (buf + word_of_nat i)"
      using F b(3) i copy_line_reads(3) [OF b(1,2)] by (simp add: vread_def key_frame_def)
    also have "\<dots> = storage_buffer (shown s) ! i"
      using copy_line_reads(1) [OF b(1,2) i, of t] i assms(3) by (simp add: shown_def)
    also have "\<dots> = padded (line_of (shown s)) ! i"
      using arg_cong [OF assms(5), of "\<lambda>l. l ! i"] i by (simp add: edit_view_def)
    finally show ?thesis .
  qed
  with w F r(1) show ?thesis by blast
qed

definition same_place :: "'a tty_scheme \<Rightarrow> 'a tty_scheme \<Rightarrow> bool" where
  "same_place s s' \<longleftrightarrow> phys s' = phys s \<and> terminal_number s' = terminal_number s \<and>
     current_terminal s' = current_terminal s \<and> length (termis s') = length (termis s)"

lemma same_place_step:
  assumes "reader_buffer s buf" "key_frame (copy_line t buf 128 s) s'"
  shows "same_place s s'"
  using assms copy_line_reads(3-5) [of s buf 128 128 t] copy_line_edit(4) [OF assms(1), of t]
  by (simp add: same_place_def key_frame_def reader_buffer_def)

lemma wait_keys:
  assumes "edit_ok s" "reader_buffer s buf" "t = terminal_number s" "enter_flag (shown s) \<noteq> 1"
    and "stored (edit_view s) = padded (line_of (shown s))" "10 \<notin> set ks"
    and "\<And>i. i < length ks \<Longrightarrow> env (k + i) = keyboard_fill_buffer (ks ! i)"
    and "env (k + length ks) = keyboard_fill_buffer 10"
  shows "\<exists>s'. line_wait env t buf 128 k s = Some s' \<and> same_place s s' \<and> edit_ok s' \<and>
    (\<forall>i<128. vread s' (buf + word_of_nat i) =
       padded (fold (spec_line (ctrl (shown s) = 1)) ks (line_of (shown s))) ! i)"
  using assms
proof (induction ks arbitrary: k s)
  case Nil
  then show ?case using wait_enter [OF Nil(1-5), of env k] same_place_step [OF Nil(2)] by auto
next
  case (Cons c ks)
  let ?c = "copy_line t buf 128 s"
  let ?s = "keyboard_fill_buffer c ?c"
  note C = copy_line_edit [OF Cons.prems(2), where t = t]
  have ok: "edit_ok ?c" using C(2) Cons.prems(1) by simp
  have r: "edit_ok ?s" "edit_view ?s = spec_key (ctrl (shown s) = 1) c (edit_view s)"
    using key_refines [OF ok, of c] by (simp_all add: C(1,3))
  note F = key_frame_fill [OF ok, of c]
  have len: "length (line_of (shown s)) \<le> 128"
    using line_elim(3) [OF conjunct2 [OF edit_okD [OF Cons.prems(1)]]] .
  have st: "stored (edit_view ?s) = padded (spec_line (ctrl (shown s) = 1) c (line_of (shown s)))"
    "entered (edit_view ?s) = entered (edit_view s)"
    using spec_stored [of c "edit_view s"] Cons.prems(5,6) len by (simp_all add: r(2))
  have l: "line_of (shown ?s) = spec_line (ctrl (shown s) = 1) c (line_of (shown s))"
    using spec_line [of "ctrl (shown s) = 1" c "edit_view s"] shown_line [OF r(2)] by simp
  have ctl: "ctrl (shown ?s) = ctrl (shown s)" using F by (intro modifiers_ctrl) (simp add: key_frame_def C(3))
  have e: "enter_flag (shown ?s) \<noteq> 1" using st(2) Cons.prems(4) by (simp add: edit_view_def)
  have tn: "t = terminal_number ?s" using F C(4) Cons.prems(3) by (simp add: key_frame_def)
  have "env k = keyboard_fill_buffer c" using Cons.prems(7) [of 0] by simp
  moreover have "enter_flag (termi t s) \<noteq> 1" using Cons.prems(3,4) by (simp add: shown_def)
  ultimately have w: "line_wait env t buf 128 k s = line_wait env t buf 128 (k + 1) ?s"
    by (subst line_wait.simps) simp
  have "10 \<notin> set ks" "env (k + 1 + length ks) = keyboard_fill_buffer 10"
    "\<And>i. i < length ks \<Longrightarrow> env (k + 1 + i) = keyboard_fill_buffer (ks ! i)"
    using Cons.prems(6,8) Cons.prems(7) [of "Suc i" for i] by simp_all
  note IH = Cons.IH [OF r(1) reader_buffer_frame [OF F C(5)] tn e _ this(1) this(3) this(2)]
  obtain s' where s': "line_wait env t buf 128 (k + 1) ?s = Some s'" "same_place ?s s'" "edit_ok s'"
    "\<forall>i<128. vread s' (buf + word_of_nat i) =
       padded (fold (spec_line (ctrl (shown s) = 1)) ks (line_of (shown ?s))) ! i"
    using IH st(1) l ctl by auto
  have "same_place s s'" using same_place_step [OF Cons.prems(2) F] s'(2) by (simp add: same_place_def)
  with s' w l show ?case by auto
qed

lemma spec_lines_nonzero:
  "0 \<notin> set l \<Longrightarrow> 0 \<notin> set ks \<Longrightarrow> 0 \<notin> set (fold (spec_line k) ks l)"
  by (induction ks arbitrary: l) (auto simp: spec_line_nonzero)

lemma length_spec_lines: "length l \<le> 128 \<Longrightarrow> length (fold (spec_line k) ks l) \<le> 128"
  by (induction ks arbitrary: l) (auto simp: length_spec_line)

lemma vread_at:
  assumes "buffer_placed s buf 128" "i < 128" "j < 128"
  shows "vread (vwrite s (buf + word_of_nat j) b) (buf + word_of_nat i) =
    (if i = j then b else vread s (buf + word_of_nat i))"
  using assms by (auto simp: vread_vwrite buffer_placed_def)

lemma buffer_placed_vwrite [simp]:
  "buffer_placed (vwrite s a b) buf n = buffer_placed s buf n"
  "buffer_placed (upd_termi t f s) buf n = buffer_placed s buf n"
  by (simp_all add: buffer_placed_def)

lemma line_end_found:
  assumes "buffer_placed s buf 128" "length l \<le> 128" "0 \<notin> set l" "m = min (length l) 127"
    and "\<forall>i<128. vread s (buf + word_of_nat i) = padded l ! i"
  shows "line_end (vwrite s (buf + (128 - 1)) 0) buf 0 = Some (word_of_nat m)"
proof -
  note V = vread_at [OF assms(1), where j = 127 and b = 0]
  have "vread (vwrite s (buf + word_of_nat 127) 0) (buf + word_of_nat i) \<noteq> 0" if "i < m" for i
  proof -
    have "l ! i \<noteq> 0" using that assms(3,4) nth_mem [of i l] by (metis min_less_iff_conj)
    then show ?thesis using V [of i] that assms(2,4,5) padded_bytes [OF assms(2), of i] by auto
  qed
  moreover have "vread (vwrite s (buf + word_of_nat 127) 0) (buf + word_of_nat m) = 0"
    using V [of m] assms(4,5) padded_bytes [OF assms(2), of m] by (auto simp: min_def split: if_splits)
  ultimately have "line_end (vwrite s (buf + word_of_nat 127) 0) buf 0 = Some (word_of_nat m)"
    by (intro line_end_at) blast
  then show ?thesis by simp
qed

lemma read_line:
  assumes "edit_ok s" "reader_buffer s buf" "current_terminal s = terminal_number s"
    and "stored (edit_view s) = padded (line (edit_view s))" "128 \<le> sint nbytes"
    and "10 \<notin> set ks" "0 \<notin> set ks" "0 \<notin> set (line (edit_view s))"
    and "\<And>i. i < length ks \<Longrightarrow> env i = keyboard_fill_buffer (ks ! i)"
    and "env (length ks) = keyboard_fill_buffer 10"
    and l: "l = fold (spec_line (ctrl (shown s) = 1)) ks (line (edit_view s))" and m: "m = min (length l) 127"
  shows "\<exists>s'. read_terminal env s buf nbytes = Some (word_of_nat m + 1, s') \<and>
    (\<forall>i<m. vread s' (buf + word_of_nat i) = l ! i) \<and> vread s' (buf + word_of_nat m) = 10"
proof -
  let ?f = "\<lambda>r. r\<lparr>enter_flag := 0\<rparr>"
  let ?s = "upd_cur ?f s"
  have cur: "upd_termi (get_current_process s) ?f s = ?s" "get_current_process s = terminal_number ?s"
    using assms(3) by (simp_all add: get_current_process_def upd_cur_def)
  have sh: "shown ?s = ?f (shown s)" using edit_kbd_ok [OF assms(1)] by simp
  have ok: "edit_ok ?s" "edit_view ?s = (edit_view s)\<lparr>entered := False\<rparr>"
    using edit_upd [of s ?f] edit_okD [OF assms(1)] by (simp_all add: edit_view_def)
  have rb: "reader_buffer ?s buf" using assms(2) by (simp add: reader_buffer_def upd_cur_def)
  have st: "stored (edit_view ?s) = padded (line_of (shown ?s))" using assms(4) by (simp add: ok(2) sh)
  have "enter_flag (shown ?s) \<noteq> 1" "ctrl (shown ?s) = ctrl (shown s)" by (simp_all add: sh)
  from wait_keys [OF ok(1) rb cur(2) this(1) st assms(6), of env 0] this(2) assms(9,10)
  obtain s1 where w: "line_wait env (get_current_process s) buf 128 0 ?s = Some s1" and
    pl: "same_place ?s s1" and b: "\<forall>i<128. vread s1 (buf + word_of_nat i) = padded l ! i"
    by (auto simp: l sh)
  have len: "length l \<le> 128"
    unfolding l using line_elim(3) edit_okD [OF assms(1)] by (intro length_spec_lines) simp
  have nz: "0 \<notin> set l" unfolding l using assms(7,8) by (intro spec_lines_nonzero)
  have bp: "buffer_placed s1 buf 128"
    using rb pl by (simp add: reader_buffer_def buffer_placed_def same_place_def)
  have n: "(if sint nbytes \<le> int 128 then nat (sint nbytes) else 128) = 128" using assms(5) by simp
  note E = line_end_found [OF bp len nz m b]
  let ?s4 = "vwrite (vwrite (vwrite s1 (buf + (128 - 1)) 0) (buf + word_of_nat m) 10) (buf + (128 - 1)) 10"
  let ?g = "\<lambda>r. r\<lparr>storage_buffer := blank (storage_buffer r) 4096\<rparr>"
  have r: "read_terminal env s buf nbytes = Some (word_of_nat m + 1,
      upd_termi (get_current_process s) ?g (upd_termi (get_current_process s) ?f ?s4))"
    unfolding read_terminal_def Let_def n cur(1) w option.case E by simp
  have m127: "m < 128" "m \<le> length l" unfolding m by simp_all
  have v4: "vread ?s4 (buf + word_of_nat i) = (if i = 127 \<or> i = m then 10 else padded l ! i)" if "i < 128" for i
  proof -
    have c: "buf + (128 - 1) = buf + word_of_nat 127" by simp
    show ?thesis unfolding c using that m127(1) bp b by (simp add: vread_at del: of_nat_numeral)
  qed
  have "vread ?s4 (buf + word_of_nat i) = l ! i" if "i < m" for i
    using v4 [of i] that padded_bytes [OF len, of i] m by simp
  moreover have "vread ?s4 (buf + word_of_nat m) = 10" using v4 [OF m127(1)] by simp
  ultimately show ?thesis using r by simp
qed

section \<open>Properties\<close>

text \<open>C16: one key refines one step of the line editor, whatever the key: the line, the text that
  the reader will find, the submit flag and the screen after \<^verbatim>\<open>keyboard_fill_buffer\<close> are those of
  the specification, the counter and the arrays stay well-formed (at most 128 characters, NUL
  after the line), and nothing but the displayed terminal and the screen changes.\<close>

theorem fill_buffer_edits:
  assumes "edit_ok s"
  shows "edit_view (keyboard_fill_buffer ch s) = spec_key (ctrl (shown s) = 1) ch (edit_view s) \<and>
    edit_ok (keyboard_fill_buffer ch s) \<and> key_frame s (keyboard_fill_buffer ch s)"
  using key_refines [OF assms] key_frame_fill [OF assms] by blast

lemma sample_edit: "d < 3 \<Longrightarrow> t < 3 \<Longrightarrow> edit_ok (sample_tty t d)"
  "d < 3 \<Longrightarrow> shown (sample_tty t d) = sample_termi"
proof -
  show sh: "d < 3 \<Longrightarrow> shown (sample_tty t d) = sample_termi"
    by (simp add: shown_def termi_def unat_u32_of_nat)
  have "line_ok sample_termi" by (simp add: line_ok_def line_of_def sample_termi_def padded_def)
  then show "d < 3 \<Longrightarrow> t < 3 \<Longrightarrow> edit_ok (sample_tty t d)"
    using sample_good(2) sh by (simp add: edit_ok_def)
qed

theorem fill_buffer_edits_witness:
  "line (edit_view (keyboard_fill_buffer 0x61 (sample_tty 1 0))) = [0x61]"
  using fill_buffer_edits [OF sample_edit(1), of 0 1 "0x61"]
  by (simp add: sample_edit(2) spec_key_def line_of_def sample_termi_def edit_view_def)

text \<open>C17: a process that reads at least 128 bytes from its displayed terminal gets the line that was
  typed: when the keys \<open>ks\<close> and then the return key arrive while it waits, \<^verbatim>\<open>read_terminal\<close> returns, its
  buffer holds the characters that the line editor made of the keys (the first 127 of them) and a line
  feed, and the value returned counts them, where the comment in the source says 0.\<close>

theorem read_terminal_returns_line:
  assumes "edit_ok s" "reader_buffer s buf" "current_terminal s = terminal_number s"
    and "stored (edit_view s) = padded (line (edit_view s))" "128 \<le> sint nbytes"
    and "10 \<notin> set ks" "0 \<notin> set ks" "0 \<notin> set (line (edit_view s))"
    and "\<And>i. i < length ks \<Longrightarrow> env i = keyboard_fill_buffer (ks ! i)"
    and "env (length ks) = keyboard_fill_buffer 10"
  defines "l \<equiv> take 127 (fold (spec_line (ctrl (shown s) = 1)) ks (line (edit_view s)))"
  shows "\<exists>s'. read_terminal env s buf nbytes = Some (word_of_nat (length l) + 1, s') \<and>
    (\<forall>i<length l. vread s' (buf + word_of_nat i) = l ! i) \<and> vread s' (buf + word_of_nat (length l)) = 10"
  using read_line [where s = s and buf = buf and env = env, OF assms(1-10) refl refl]
  by (auto simp: l_def)

theorem read_terminal_returns_line_witness:
  "\<exists>s'. read_terminal (\<lambda>k. keyboard_fill_buffer ([0x68, 0x69, 10] ! k)) (sample_tty 0 0) 0x500000 128 =
       Some (3, s') \<and> vread s' 0x500000 = 0x68 \<and> vread s' 0x500001 = 0x69 \<and> vread s' 0x500002 = 10"
proof -
  let ?s = "sample_tty 0 0"
  have ph: "phys ?s (0x500000 + word_of_nat i) = 0x500000 + word_of_nat i"
    "\<not> in_region VIDEO 4096 (0x500000 + word_of_nat i)" if "i < 128" for i
  proof -
    have u: "unat (0x500000 + word_of_nat i :: u32) = 5242880 + i"
      using that by (simp add: unat_word_ariths unat_u32_of_nat)
    show "\<not> in_region VIDEO 4096 (0x500000 + word_of_nat i)"
      by (subst in_region_iff) (simp_all add: u)
    show "phys ?s (0x500000 + word_of_nat i) = 0x500000 + word_of_nat i"
      unfolding phys_def using that by (subst (1 2) in_region_iff) (simp_all add: u)
  qed
  have rb: "reader_buffer ?s 0x500000"
    unfolding reader_buffer_def buffer_placed_def using ph word_offset_eq [of _ _ "0x500000"] by auto
  have v: "line_of (shown ?s) = []" "stored (edit_view ?s) = padded []" "ctrl (shown ?s) = 0"
    by (simp_all add: edit_view_def sample_edit(2) line_of_def sample_termi_def padded_def)
  have "keyboard_fill_buffer ([0x68, 0x69, 10] ! i) = keyboard_fill_buffer ([0x68, 0x69] ! i)"
    if "i < length [0x68, 0x69 :: u8]" for i
    using that by (auto simp: less_Suc_eq)
  note R = read_terminal_returns_line [where s = ?s and buf = "0x500000" and nbytes = 128 and ks = "[0x68, 0x69]"
      and env = "\<lambda>k. keyboard_fill_buffer ([0x68, 0x69, 10] ! k)", OF sample_edit(1) rb _ _ _ _ _ _ this]
  show ?thesis using R
    by (simp add: v spec_line_def less_Suc_eq all_conj_distrib)
qed

end
