(* ===== verification/Pcb.thy ===== *)
theory Pcb
  imports LineBuffer FileSystem
begin

text \<open>
  Process control blocks: \<^verbatim>\<open>src/pcb.c\<close>, with the tables it shares with \<^verbatim>\<open>src/syscall.c\<close>.  A block
  is a structure in kernel memory below 8 MB; \<open>pcb_mem\<close> maps its address to its contents, apart
  from the bytes of \<open>ram\<close>, since the kernel only reaches it through its fields.  The static
  array \<^verbatim>\<open>pcb_num\<close> of \<^verbatim>\<open>src/syscall.c\<close>, the task state segment's kernel stack and the log of
  \<^verbatim>\<open>printf\<close> calls are part of the same record.  Finding a free slot, here and for file
  descriptors, is an instance of one contract.
\<close>

section \<open>State\<close>

record pcb_t =
  parent :: u32
  files :: "file_t list"
  esp :: u32
  ebp :: u32
  sched_esp :: u32
  sched_ebp :: u32
  pid :: u32
  retval :: u32
  args :: "u8 list"
  pcb_terminal :: i32

record pcbs = tty +
  pcb_mem :: "u32 \<Rightarrow> pcb_t"
  pcb_ptr :: "u32 list"
  fops :: "nat \<Rightarrow> nat \<Rightarrow> file_op"
  pcb_num :: "i32 list"
  tss_esp0 :: u32
  tss_ss0 :: u16
  klog :: "printk list"

abbreviation (input) MAX_PCB_NUM :: nat where "MAX_PCB_NUM \<equiv> 6"
abbreviation (input) PCB_FILE_NUMBER :: nat where "PCB_FILE_NUMBER \<equiv> 8"
abbreviation (input) EXECUTE_ARG :: nat where "EXECUTE_ARG \<equiv> 128"
abbreviation (input) STDIN :: nat where "STDIN \<equiv> 0"
abbreviation (input) STDOUT :: nat where "STDOUT \<equiv> 1"
abbreviation (input) FD_START :: nat where "FD_START \<equiv> 2"
abbreviation (input) KERNEL_BOTTOM :: u32 where "KERNEL_BOTTOM \<equiv> 0x7FFFFF"
abbreviation (input) STACK_SIZE :: u32 where "STACK_SIZE \<equiv> 0x2000"
abbreviation (input) PCB_MASK :: u32 where "PCB_MASK \<equiv> 0xFFFFE000"

definition upd_pcb :: "u32 \<Rightarrow> (pcb_t \<Rightarrow> pcb_t) \<Rightarrow> 'a pcbs_scheme \<Rightarrow> 'a pcbs_scheme" where
  "upd_pcb p f s = s\<lparr>pcb_mem := (pcb_mem s)(p := f (pcb_mem s p))\<rparr>"

definition upd_file :: "u32 \<Rightarrow> nat \<Rightarrow> (file_t \<Rightarrow> file_t) \<Rightarrow> 'a pcbs_scheme \<Rightarrow> 'a pcbs_scheme" where
  "upd_file p i f = upd_pcb p (\<lambda>b. b\<lparr>files := (files b)[i := f (files b ! i)]\<rparr>)"

definition set_fops :: "nat \<Rightarrow> nat \<Rightarrow> file_op \<Rightarrow> 'a pcbs_scheme \<Rightarrow> 'a pcbs_scheme" where
  "set_fops p i ops s = s\<lparr>fops := upd2 (fops s) p i (\<lambda>_. ops)\<rparr>"

section \<open>Operations\<close>

text \<open>The loop \<^verbatim>\<open>for (i = lo; i < hi; i++) if (p(i)) break;\<close> and its final \<^verbatim>\<open>i\<close>.\<close>

function first_from :: "(nat \<Rightarrow> bool) \<Rightarrow> nat \<Rightarrow> nat \<Rightarrow> nat" where
  "first_from p i hi = (if i < hi then if p i then i else first_from p (i + 1) hi else i)"
  by pat_completeness auto
termination by (relation "measure (\<lambda>(p, i, hi). hi - i)") auto

declare first_from.simps [simp del]

definition read_default :: "i32 \<Rightarrow> u32 \<Rightarrow> i32 \<Rightarrow> i32" where "read_default fd buf nbytes = ERR"
definition write_default :: "u32 \<Rightarrow> i32 \<Rightarrow> i32" where "write_default buf nbytes = ERR"
definition open_default :: i32 where "open_default = ERR"
definition close_default :: i32 where "close_default = ERR"

definition init_pcb :: "'a pcbs_scheme \<Rightarrow> 'a pcbs_scheme" where
  "init_pcb s = s\<lparr>pcb_ptr := fold (\<lambda>i l. l[i := NULL]) [0..<MAX_PCB_NUM] (pcb_ptr s)\<rparr>"

definition find_new_pcb :: "'a pcbs_scheme \<Rightarrow> i32" where
  "find_new_pcb s =
     (let i = first_from (\<lambda>i. pcb_ptr s ! i = NULL) 0 MAX_PCB_NUM
      in if i = MAX_PCB_NUM then ERR else word_of_nat i + 1)"

text \<open>A negative number reads outside the array, undefined behaviour that no caller causes.\<close>

definition find_pcb :: "'a pcbs_scheme \<Rightarrow> i32 \<Rightarrow> u32" where
  "find_pcb s n =
     (if 6 <s n then NULL
      else if n = 0 then NULL
      else if pcb_ptr s ! unat (n - 1) = NULL then NULL
      else pcb_ptr s ! unat (n - 1))"

definition new_pcb :: "u32 \<Rightarrow> i32 \<Rightarrow> i32 \<Rightarrow> 'a pcbs_scheme \<Rightarrow> i32 \<times> 'a pcbs_scheme" where
  "new_pcb p parent_pcb_num n s0 =
     (let s = (if parent_pcb_num = 0 then upd_pcb p (\<lambda>b. b\<lparr>parent := 0\<rparr>) s0
               else upd_pcb p (\<lambda>b. b\<lparr>parent := find_pcb s0 parent_pcb_num\<rparr>) s0);
          s = fold (\<lambda>i. upd_file p i (\<lambda>f. f\<lparr>flag := 0\<rparr>)) [0..<PCB_FILE_NUMBER] s;
          s = upd_file p STDIN (\<lambda>f. f\<lparr>inode_ptr := 0, file_pos := 0, flag := 1,
                                      fop_jump := Some (unat (n - 1), STDIN)\<rparr>) s;
          s = set_fops (unat (n - 1)) STDIN
                \<lparr>read_func = Read_terminal, write_func = Write_default,
                 open_func = Open_terminal, close_func = Close_default\<rparr> s;
          s = upd_file p STDOUT (\<lambda>f. f\<lparr>fop_jump := Some (unat (n - 1), STDOUT)\<rparr>) s;
          s = set_fops (unat (n - 1)) STDOUT
                \<lparr>read_func = Read_default, write_func = Write_terminal,
                 open_func = Open_terminal, close_func = Close_default\<rparr> s;
          s = upd_file p STDOUT (\<lambda>f. f\<lparr>inode_ptr := 0, file_pos := 0, flag := 1\<rparr>) s;
          s = upd_pcb p (\<lambda>b. b\<lparr>ebp := 0, esp := 0, sched_esp := 0, sched_ebp := 0, pid := n, retval := 0\<rparr>) s;
          s = upd_pcb p (\<lambda>b. b\<lparr>args := fold (\<lambda>i xs. xs[i := 0]) [0..<EXECUTE_ARG] (args b)\<rparr>) s;
          s = upd_pcb p (\<lambda>b. b\<lparr>pcb_terminal := get_terminal_number s\<rparr>) s
      in (0, s))"

text \<open>Where \<^verbatim>\<open>execute\<close> puts the block of process \<open>n\<close>: the top of its kernel stack's 8 KB.\<close>

definition pcb_address :: "i32 \<Rightarrow> u32" where
  "pcb_address n = (KERNEL_BOTTOM - STACK_SIZE * (n - 1)) AND PCB_MASK"

section \<open>Free slots\<close>

lemma first_from_spec:
  "lo \<le> hi \<Longrightarrow> lo \<le> first_from p lo hi \<and> first_from p lo hi \<le> hi \<and>
     (first_from p lo hi < hi \<longrightarrow> p (first_from p lo hi)) \<and> (\<forall>i. lo \<le> i \<and> i < first_from p lo hi \<longrightarrow> \<not> p i)"
proof (induction p lo hi rule: first_from.induct)
  case (1 p i hi)
  show ?case
  proof (cases "i < hi \<and> \<not> p i")
    case True
    then have "first_from p i hi = first_from p (i + 1) hi" by (subst first_from.simps) simp
    moreover have "j = i \<or> i + 1 \<le> j" if "i \<le> j" for j using that by auto
    ultimately show ?thesis using True "1.IH" by fastforce
  next
    case False
    then have "first_from p i hi = i" by (subst first_from.simps) auto
    with False 1(2) show ?thesis by auto
  qed
qed

text \<open>The contract of a table of slots: a search that returns the first free slot, taking a slot
  and releasing it.\<close>

locale slot_table =
  fixes free :: "'s \<Rightarrow> nat \<Rightarrow> bool" and find :: "'s \<Rightarrow> nat option"
    and take_slot release :: "nat \<Rightarrow> 's \<Rightarrow> 's" and lo hi :: nat and ok :: "'s \<Rightarrow> bool"
  assumes find_some: "ok s \<Longrightarrow> find s = Some i \<Longrightarrow> lo \<le> i \<and> i < hi \<and> free s i \<and> (\<forall>j. lo \<le> j \<and> j < i \<longrightarrow> \<not> free s j)"
    and find_none: "ok s \<Longrightarrow> find s = None \<Longrightarrow> lo \<le> j \<Longrightarrow> j < hi \<Longrightarrow> \<not> free s j"
    and take_law: "ok s \<Longrightarrow> lo \<le> i \<Longrightarrow> i < hi \<Longrightarrow> ok (take_slot i s) \<and> free (take_slot i s) j = (j \<noteq> i \<and> free s j)"
    and release_law: "ok s \<Longrightarrow> lo \<le> i \<Longrightarrow> i < hi \<Longrightarrow> ok (release i s) \<and> free (release i s) j = (j = i \<or> free s j)"
begin

definition room :: "'s \<Rightarrow> nat" where
  "room s = card {i. lo \<le> i \<and> i < hi \<and> free s i}"

lemma find_iff_room: "ok s \<Longrightarrow> find s = None \<longleftrightarrow> room s = 0"
proof -
  assume ok: "ok s"
  have fin: "finite {i. lo \<le> i \<and> i < hi \<and> free s i}" by simp
  show ?thesis
  proof (cases "find s")
    case None
    then have "{i. lo \<le> i \<and> i < hi \<and> free s i} = {}" using find_none [OF ok] by blast
    then show ?thesis using None by (simp add: room_def)
  next
    case (Some i)
    then have "i \<in> {i. lo \<le> i \<and> i < hi \<and> free s i}" using find_some [OF ok Some] by blast
    with fin show ?thesis using Some unfolding room_def by (metis card_0_eq empty_iff option.distinct(1))
  qed
qed

lemma take_room: "ok s \<Longrightarrow> find s = Some i \<Longrightarrow> Suc (room (take_slot i s)) = room s"
proof -
  assume a: "ok s" "find s = Some i"
  note F = find_some [OF a]
  have "{j. lo \<le> j \<and> j < hi \<and> free (take_slot i s) j} = {j. lo \<le> j \<and> j < hi \<and> free s j} - {i}"
    using take_law [OF a(1)] F by auto
  moreover have "i \<in> {j. lo \<le> j \<and> j < hi \<and> free s j}" using F by simp
  ultimately show ?thesis unfolding room_def by (metis (no_types, lifting) card_Suc_Diff1 finite_nat_set_iff_bounded mem_Collect_eq)
qed

text \<open>Allocating until nothing is left.\<close>

fun take_all :: "nat \<Rightarrow> 's \<Rightarrow> nat list \<times> 's" where
  "take_all 0 s = ([], s)"
| "take_all (Suc n) s =
     (case find s of None \<Rightarrow> ([], s)
      | Some i \<Rightarrow> (case take_all n (take_slot i s) of (is, s') \<Rightarrow> (i # is, s')))"

lemma take_all_spec:
  "ok s \<Longrightarrow> take_all n s = (is, s') \<Longrightarrow>
     ok s' \<and> distinct is \<and> length is = min n (room s) \<and> (\<forall>i\<in>set is. lo \<le> i \<and> i < hi \<and> free s i) \<and>
     (\<forall>j. free s' j = (free s j \<and> j \<notin> set is))"
proof (induction n arbitrary: s "is" s')
  case (Suc n)
  show ?case
  proof (cases "find s")
    case None
    then show ?thesis using Suc.prems find_iff_room [OF Suc.prems(1)] by auto
  next
    case (Some i)
    obtain js t where t: "take_all n (take_slot i s) = (js, t)" by fastforce
    note F = find_some [OF Suc.prems(1) Some]
    have T: "ok (take_slot i s)" "\<And>j. free (take_slot i s) j = (j \<noteq> i \<and> free s j)"
      using take_law [OF Suc.prems(1)] F by auto
    have "is = i # js" "s' = t" using Suc.prems(2) Some t by auto
    with Suc.IH [OF T(1) t] T F take_room [OF Suc.prems(1) Some] show ?thesis by auto
  qed
qed auto

lemma take_all_until_full:
  "ok s \<Longrightarrow> take_all (room s) s = (is, s') \<Longrightarrow> find s' = None"
  using take_all_spec [of s "room s" "is" s']
proof -
  assume a: "ok s" "take_all (room s) s = (is, s')"
  note S = take_all_spec [OF a]
  have sub: "set is \<subseteq> {i. lo \<le> i \<and> i < hi \<and> free s i}" using S by auto
  have "card (set is) = room s" using S by (simp add: distinct_card)
  then have "set is = {i. lo \<le> i \<and> i < hi \<and> free s i}"
    using sub card_subset_eq [of "{i. lo \<le> i \<and> i < hi \<and> free s i}"] by (simp add: room_def)
  then have "{i. lo \<le> i \<and> i < hi \<and> free s' i} = {}" using S by blast
  then show "find s' = None" using find_iff_room S by (simp add: room_def)
qed

lemma find_after_release: "ok s \<Longrightarrow> lo \<le> i \<Longrightarrow> i < hi \<Longrightarrow> \<exists>j\<le>i. find (release i s) = Some j"
proof -
  assume a: "ok s" "lo \<le> i" "i < hi"
  note R = release_law [OF a]
  have f: "free (release i s) i" using R by blast
  show ?thesis
  proof (cases "find (release i s)")
    case None
    then show ?thesis using find_none [of "release i s" i] R f a by blast
  next
    case (Some j)
    then show ?thesis using find_some [of "release i s" j] R f a by (metis not_le_imp_less)
  qed
qed

end

section \<open>The two tables\<close>

lemma less_6_cases: "(i :: nat) < 6 \<longleftrightarrow> i = 0 \<or> i = 1 \<or> i = 2 \<or> i = 3 \<or> i = 4 \<or> i = 5"
  by arith

text \<open>Slot \<open>i\<close> belongs to the process with number \<open>i + 1\<close>.\<close>

definition proc_no :: "nat \<Rightarrow> i32" where
  "proc_no i = word_of_nat i + 1"

lemma proc_no:
  assumes "i < 6"
  shows "unat (proc_no i) = i + 1" "unat (proc_no i - 1) = i" "proc_no i \<noteq> ERR" "proc_no i \<noteq> 0"
    "\<not> 6 <s proc_no i"
  using assms unfolding less_6_cases proc_no_def by (elim disjE; simp add: word_sless_alt)+

lemma proc_no_inj: "i < 6 \<Longrightarrow> j < 6 \<Longrightarrow> proc_no i = proc_no j \<Longrightarrow> i = j"
  using proc_no(1) [of i] proc_no(1) [of j] by (metis add_right_cancel)

lemma pcb_address_at: "i < 6 \<Longrightarrow> unat (pcb_address (proc_no i)) = 8380416 - 8192 * i"
  unfolding less_6_cases pcb_address_def proc_no_def by (elim disjE) simp_all

lemma pcb_address_nonzero: "i < 6 \<Longrightarrow> pcb_address (proc_no i) \<noteq> 0"
  using pcb_address_at [of i] by auto

lemma pcb_address_inj: "i < 6 \<Longrightarrow> j < 6 \<Longrightarrow> pcb_address (proc_no i) = pcb_address (proc_no j) \<Longrightarrow> i = j"
  using pcb_address_at [of i] pcb_address_at [of j] by simp

definition ptr_ok :: "'a pcbs_scheme \<Rightarrow> bool" where
  "ptr_ok s \<longleftrightarrow> length (pcb_ptr s) = 6"

definition pcb_free :: "'a pcbs_scheme \<Rightarrow> nat \<Rightarrow> bool" where
  "pcb_free s i \<longleftrightarrow> pcb_ptr s ! i = NULL"

definition pcb_slot :: "'a pcbs_scheme \<Rightarrow> nat option" where
  "pcb_slot s = (if find_new_pcb s = ERR then None else Some (unat (find_new_pcb s - 1)))"

definition pcb_take :: "nat \<Rightarrow> 'a pcbs_scheme \<Rightarrow> 'a pcbs_scheme" where
  "pcb_take i s = s\<lparr>pcb_ptr := (pcb_ptr s)[i := pcb_address (proc_no i)]\<rparr>"

definition pcb_release :: "nat \<Rightarrow> 'a pcbs_scheme \<Rightarrow> 'a pcbs_scheme" where
  "pcb_release i s = s\<lparr>pcb_ptr := (pcb_ptr s)[i := 0]\<rparr>"

lemma find_new_pcb_cases:
  "find_new_pcb s = ERR \<and> (\<forall>i<6. pcb_ptr s ! i \<noteq> NULL) \<or>
   (\<exists>i<6. find_new_pcb s = proc_no i \<and> pcb_ptr s ! i = NULL \<and> (\<forall>j<i. pcb_ptr s ! j \<noteq> NULL))"
proof -
  define i where "i = first_from (\<lambda>i. pcb_ptr s ! i = NULL) 0 6"
  have F: "i \<le> 6" "i < 6 \<longrightarrow> pcb_ptr s ! i = NULL" "\<forall>j<i. pcb_ptr s ! j \<noteq> NULL"
    using first_from_spec [of 0 6 "\<lambda>i. pcb_ptr s ! i = NULL"] unfolding i_def by auto
  show ?thesis
  proof (cases "i = 6")
    case True
    then show ?thesis using F by (simp add: find_new_pcb_def i_def [symmetric])
  next
    case False
    then have "i < 6" using F(1) by simp
    then show ?thesis using F by (auto simp: find_new_pcb_def i_def [symmetric] proc_no_def)
  qed
qed

interpretation procs: slot_table pcb_free pcb_slot pcb_take pcb_release 0 6 ptr_ok
proof (unfold_locales, goal_cases)
  case (1 s i)
  from find_new_pcb_cases [of s] show ?case
  proof (elim disjE exE conjE)
    fix k assume "k < 6" "find_new_pcb s = proc_no k" "pcb_ptr s ! k = NULL" "\<forall>j<k. pcb_ptr s ! j \<noteq> NULL"
    with 1(2) show ?thesis by (auto simp: pcb_slot_def pcb_free_def proc_no split: if_splits)
  qed (use 1(2) in \<open>simp add: pcb_slot_def\<close>)
next
  case (2 s j)
  then have "find_new_pcb s = ERR" by (simp add: pcb_slot_def split: if_splits)
  with find_new_pcb_cases [of s] have "pcb_ptr s ! j \<noteq> NULL"
    using proc_no(3) 2(4) by metis
  then show ?case by (simp add: pcb_free_def)
qed (auto simp: ptr_ok_def pcb_free_def pcb_take_def pcb_release_def nth_list_update pcb_address_nonzero)

text \<open>The descriptors of one process: the search of \<^verbatim>\<open>open\<close>.\<close>

definition find_fd :: "pcb_t \<Rightarrow> nat option" where
  "find_fd b =
     (let i = first_from (\<lambda>i. flag (files b ! i) = 0) FD_START PCB_FILE_NUMBER
      in if i < PCB_FILE_NUMBER then Some i else None)"

definition fd_free :: "pcb_t \<Rightarrow> nat \<Rightarrow> bool" where
  "fd_free b i \<longleftrightarrow> flag (files b ! i) = 0"

definition set_flag :: "u32 \<Rightarrow> nat \<Rightarrow> pcb_t \<Rightarrow> pcb_t" where
  "set_flag v i b = b\<lparr>files := (files b)[i := (files b ! i)\<lparr>flag := v\<rparr>]\<rparr>"

interpretation fds: slot_table fd_free find_fd "set_flag 1" "set_flag 0" 2 8 "\<lambda>b. length (files b) = 8"
proof (unfold_locales, goal_cases)
  case (1 b i)
  then show ?case using first_from_spec [of 2 8 "\<lambda>i. flag (files b ! i) = 0"]
    by (auto simp: find_fd_def fd_free_def Let_def split: if_splits)
next
  case (2 b j)
  then show ?case using first_from_spec [of 2 8 "\<lambda>i. flag (files b ! i) = 0"]
    by (auto simp: find_fd_def fd_free_def Let_def split: if_splits)
qed (auto simp: fd_free_def set_flag_def nth_list_update)

section \<open>A new process\<close>

lemma upd_pcb_fields [simp]:
  "pcb_mem (upd_pcb p f s) = (pcb_mem s)(p := f (pcb_mem s p))" "pcb_ptr (upd_pcb p f s) = pcb_ptr s"
  "fops (upd_pcb p f s) = fops s" "pcb_num (upd_pcb p f s) = pcb_num s"
  "terminal_number (upd_pcb p f s) = terminal_number s" "current_terminal (upd_pcb p f s) = current_terminal s"
  "termis (upd_pcb p f s) = termis s" "ram (upd_pcb p f s) = ram s"
  by (simp_all add: upd_pcb_def)

lemma upd_file_fields [simp]:
  "pcb_mem (upd_file p i f s) = (pcb_mem s)(p := (pcb_mem s p)\<lparr>files := (files (pcb_mem s p))[i := f (files (pcb_mem s p) ! i)]\<rparr>)"
  "pcb_ptr (upd_file p i f s) = pcb_ptr s" "fops (upd_file p i f s) = fops s"
  "pcb_num (upd_file p i f s) = pcb_num s" "terminal_number (upd_file p i f s) = terminal_number s"
  "current_terminal (upd_file p i f s) = current_terminal s"
  "termis (upd_file p i f s) = termis s" "ram (upd_file p i f s) = ram s"
  by (simp_all add: upd_file_def)

lemma set_fops_fields [simp]:
  "pcb_mem (set_fops p i ops s) = pcb_mem s" "fops (set_fops p i ops s) = upd2 (fops s) p i (\<lambda>_. ops)"
  "pcb_ptr (set_fops p i ops s) = pcb_ptr s" "pcb_num (set_fops p i ops s) = pcb_num s"
  "terminal_number (set_fops p i ops s) = terminal_number s"
  "current_terminal (set_fops p i ops s) = current_terminal s"
  "termis (set_fops p i ops s) = termis s" "ram (set_fops p i ops s) = ram s"
  by (simp_all add: set_fops_def)

definition stdin_ops :: file_op where
  "stdin_ops = \<lparr>read_func = Read_terminal, write_func = Write_default, open_func = Open_terminal,
     close_func = Close_default\<rparr>"

definition stdout_ops :: file_op where
  "stdout_ops = \<lparr>read_func = Read_default, write_func = Write_terminal, open_func = Open_terminal,
     close_func = Close_default\<rparr>"

definition fresh_pcb :: "u32 \<Rightarrow> nat \<Rightarrow> i32 \<Rightarrow> pcb_t \<Rightarrow> bool" where
  "fresh_pcb par i t b \<longleftrightarrow>
     parent b = par \<and> pid b = proc_no i \<and> pcb_terminal b = t \<and> args b = replicate 128 0 \<and>
     esp b = 0 \<and> ebp b = 0 \<and> sched_esp b = 0 \<and> sched_ebp b = 0 \<and> retval b = 0 \<and> length (files b) = 8 \<and>
     files b ! 0 = \<lparr>fop_jump = Some (i, 0), inode_ptr = 0, file_pos = 0, flag = 1\<rparr> \<and>
     files b ! 1 = \<lparr>fop_jump = Some (i, 1), inode_ptr = 0, file_pos = 0, flag = 1\<rparr> \<and>
     (\<forall>fd\<in>{2..<8}. fd_free b fd)"

lemma clear_flags:
  "length (files (pcb_mem s p)) = 8 \<Longrightarrow> n \<le> 8 \<Longrightarrow>
     pcb_mem (fold (\<lambda>i. upd_file p i (\<lambda>f. f\<lparr>flag := 0\<rparr>)) [0..<n] s) =
       (pcb_mem s)(p := (pcb_mem s p)\<lparr>files := map (\<lambda>f. f\<lparr>flag := 0\<rparr>) (take n (files (pcb_mem s p))) @
          drop n (files (pcb_mem s p))\<rparr>) \<and>
     fops (fold (\<lambda>i. upd_file p i (\<lambda>f. f\<lparr>flag := 0\<rparr>)) [0..<n] s) = fops s \<and>
     terminal_number (fold (\<lambda>i. upd_file p i (\<lambda>f. f\<lparr>flag := 0\<rparr>)) [0..<n] s) = terminal_number s"
  by (induction n)
    (auto simp: list_update_append take_Suc_conv_app_nth Cons_nth_drop_Suc [symmetric] nth_append)

lemma fd_range: "{2..<8} = {2, 3, 4, 5, 6, 7 :: nat}"
  by auto

lemma new_pcb_run:
  assumes "i < 6" "length (files (pcb_mem s p)) = 8" "length (args (pcb_mem s p)) = 128"
  shows "fst (new_pcb p n (proc_no i) s) = 0"
    "fresh_pcb (if n = 0 then 0 else find_pcb s n) i (terminal_number s) (pcb_mem (snd (new_pcb p n (proc_no i) s)) p)"
    "q \<noteq> p \<Longrightarrow> pcb_mem (snd (new_pcb p n (proc_no i) s)) q = pcb_mem s q"
    "fops (snd (new_pcb p n (proc_no i) s)) = upd2 (upd2 (fops s) i 0 (\<lambda>_. stdin_ops)) i 1 (\<lambda>_. stdout_ops)"
proof -
  show "fst (new_pcb p n (proc_no i) s) = 0" by (simp add: new_pcb_def Let_def)
  note N = proc_no(2) [OF assms(1)]
  define s1 where "s1 = (if n = 0 then upd_pcb p (\<lambda>b. b\<lparr>parent := 0\<rparr>) s
               else upd_pcb p (\<lambda>b. b\<lparr>parent := find_pcb s n\<rparr>) s)"
  have s1: "pcb_mem s1 = (pcb_mem s)(p := (pcb_mem s p)\<lparr>parent := if n = 0 then 0 else find_pcb s n\<rparr>)"
    "fops s1 = fops s" "terminal_number s1 = terminal_number s" by (simp_all add: s1_def)
  have len: "length (files (pcb_mem s1 p)) = 8" using assms(2) by (simp add: s1)
  define s2 where "s2 = fold (\<lambda>i. upd_file p i (\<lambda>f. f\<lparr>flag := 0\<rparr>)) [0..<8] s1"
  note C = clear_flags [OF len order_refl]
  have m: "files (pcb_mem s2 p) = map (\<lambda>f. f\<lparr>flag := 0\<rparr>) (files (pcb_mem s p))"
    "parent (pcb_mem s2 p) = (if n = 0 then 0 else find_pcb s n)" "args (pcb_mem s2 p) = args (pcb_mem s p)"
    "fops s2 = fops s" "terminal_number s2 = terminal_number s" "r \<noteq> p \<Longrightarrow> pcb_mem s2 r = pcb_mem s r" for r
    unfolding s2_def using assms(2) by (simp_all add: C s1 del: upt_rec_numeral)
  have "length (files (pcb_mem s2 p)) = 8" using m(1) assms(2) by simp
  then obtain g0 g1 g2 g3 g4 g5 g6 g7 where fs: "files (pcb_mem s2 p) = [g0, g1, g2, g3, g4, g5, g6, g7]"
    by (auto simp: length_Suc_conv numeral_eq_Suc)
  have "\<forall>g\<in>set (files (pcb_mem s2 p)). flag g = 0" by (simp add: m(1))
  then have z: "flag g2 = 0" "flag g3 = 0" "flag g4 = 0" "flag g5 = 0" "flag g6 = 0" "flag g7 = 0"
    by (simp_all add: fs)
  have a: "fold (\<lambda>i xs. xs[i := 0]) [0..<128] (args (pcb_mem s2 p)) = replicate 128 0"
    using blank_prefix [of 128 "args (pcb_mem s p)"] assms(3) by (simp add: blank_def m(3))
  show "fops (snd (new_pcb p n (proc_no i) s)) = upd2 (upd2 (fops s) i 0 (\<lambda>_. stdin_ops)) i 1 (\<lambda>_. stdout_ops)"
    unfolding new_pcb_def Let_def s1_def [symmetric] s2_def [symmetric]
    by (simp add: N m(4) stdin_ops_def stdout_ops_def)
  show "q \<noteq> p \<Longrightarrow> pcb_mem (snd (new_pcb p n (proc_no i) s)) q = pcb_mem s q"
    unfolding new_pcb_def Let_def s1_def [symmetric] s2_def [symmetric]
    by (simp add: N m(6))
  show "fresh_pcb (if n = 0 then 0 else find_pcb s n) i (terminal_number s) (pcb_mem (snd (new_pcb p n (proc_no i) s)) p)"
    unfolding new_pcb_def Let_def s1_def [symmetric] s2_def [symmetric] fresh_pcb_def
    by (simp add: N a fs m(2,5) z fd_free_def get_terminal_number_def fd_range del: upt_rec_numeral)
qed

text \<open>Setting up a process changes the blocks and the operation tables, nothing else.\<close>

definition blocks_only :: "'a pcbs_scheme \<Rightarrow> 'a pcbs_scheme \<Rightarrow> bool" where
  "blocks_only s s' \<longleftrightarrow> s' = s\<lparr>pcb_mem := pcb_mem s', fops := fops s'\<rparr>"

lemma blocks_only_refl: "blocks_only s s"
  by (simp add: blocks_only_def)

lemma blocks_only_upd:
  "blocks_only s s' \<Longrightarrow> blocks_only s (upd_pcb p f s')" "blocks_only s s' \<Longrightarrow> blocks_only s (upd_file p i g s')"
  "blocks_only s s' \<Longrightarrow> blocks_only s (set_fops j i ops s')"
  unfolding blocks_only_def upd_pcb_def upd_file_def set_fops_def by (cases s; cases s'; simp)+

lemma blocks_only_fold:
  "(\<And>e t. blocks_only s t \<Longrightarrow> blocks_only s (f e t)) \<Longrightarrow> blocks_only s t \<Longrightarrow> blocks_only s (fold f es t)"
  by (induction es arbitrary: t) simp_all

lemma blocks_only_new_pcb: "blocks_only s (snd (new_pcb p n k s))"
  unfolding new_pcb_def Let_def snd_conv
  by (simp only: split: if_split) (intro conjI impI blocks_only_upd blocks_only_fold blocks_only_refl; assumption)

lemma blocks_only_trans: "blocks_only s t \<Longrightarrow> blocks_only t u \<Longrightarrow> blocks_only s u"
  unfolding blocks_only_def by (cases s; cases t; cases u; simp)

lemma blocks_onlyD:
  assumes "blocks_only s s'"
  shows "ram s' = ram s" "io s' = io s" "intf s' = intf s" "pd s' = pd s" "pt s' = pt s"
    "vidmem_pt s' = vidmem_pt s" "cr3 s' = cr3 s" "current_terminal s' = current_terminal s"
    "termis s' = termis s" "terminal_number s' = terminal_number s" "pcb_ptr s' = pcb_ptr s"
    "pcb_num s' = pcb_num s" "tss_esp0 s' = tss_esp0 s" "tss_ss0 s' = tss_ss0 s" "klog s' = klog s"
    "rtc_interrupt_occured s' = rtc_interrupt_occured s" "phys s' = phys s" "vmem s' = vmem s"
    "irq_handler s' = irq_handler s" "master_mask s' = master_mask s" "slave_mask s' = slave_mask s"
    "pcbs.more s' = pcbs.more s"
proof -
  have e: "s' = s\<lparr>pcb_mem := pcb_mem s', fops := fops s'\<rparr>" using assms by (simp add: blocks_only_def)
  show "ram s' = ram s" "io s' = io s" "intf s' = intf s" "pd s' = pd s" "pt s' = pt s"
    "vidmem_pt s' = vidmem_pt s" "cr3 s' = cr3 s" "current_terminal s' = current_terminal s"
    "termis s' = termis s" "terminal_number s' = terminal_number s" "pcb_ptr s' = pcb_ptr s"
    "pcb_num s' = pcb_num s" "tss_esp0 s' = tss_esp0 s" "tss_ss0 s' = tss_ss0 s" "klog s' = klog s"
    "rtc_interrupt_occured s' = rtc_interrupt_occured s" "irq_handler s' = irq_handler s"
    "master_mask s' = master_mask s" "slave_mask s' = slave_mask s" "pcbs.more s' = pcbs.more s"
    by (subst e; simp)+
  then show "phys s' = phys s" by (intro phys_cong)
  then show "vmem s' = vmem s" using \<open>ram s' = ram s\<close> by (simp add: vmem_def)
qed

section \<open>Properties\<close>

text \<open>\<^verbatim>\<open>find_new_pcb\<close> returns the number of the first free slot, and an error exactly when all
  six are taken; taking what it returns until it fails uses every free slot once.\<close>

theorem find_new_pcb_first_free:
  assumes "length (pcb_ptr s) = 6"
  shows "(find_new_pcb s = ERR \<longleftrightarrow> (\<forall>i<6. pcb_ptr s ! i \<noteq> NULL)) \<and>
    (\<forall>i<6. find_new_pcb s = proc_no i \<longleftrightarrow> pcb_ptr s ! i = NULL \<and> (\<forall>j<i. pcb_ptr s ! j \<noteq> NULL)) \<and>
    (\<forall>is s'. procs.take_all (procs.room s) s = (is, s') \<longrightarrow>
       distinct is \<and> find_new_pcb s' = ERR \<and> (\<forall>i\<in>set is. i < 6 \<and> pcb_ptr s ! i = NULL))"
proof (intro conjI)
  note cases = find_new_pcb_cases [of s]
  show "find_new_pcb s = ERR \<longleftrightarrow> (\<forall>i<6. pcb_ptr s ! i \<noteq> NULL)"
    using cases proc_no(3) by metis
  show "\<forall>i<6. find_new_pcb s = proc_no i \<longleftrightarrow> pcb_ptr s ! i = NULL \<and> (\<forall>j<i. pcb_ptr s ! j \<noteq> NULL)"
    using cases proc_no(3) proc_no_inj by (metis not_less_iff_gr_or_eq)
  have ok: "ptr_ok s" using assms by (simp add: ptr_ok_def)
  show "\<forall>is s'. procs.take_all (procs.room s) s = (is, s') \<longrightarrow>
       distinct is \<and> find_new_pcb s' = ERR \<and> (\<forall>i\<in>set is. i < 6 \<and> pcb_ptr s ! i = NULL)"
    using procs.take_all_spec [OF ok] procs.take_all_until_full [OF ok]
    by (auto simp: pcb_slot_def pcb_free_def split: if_splits)
qed

definition sample_pcb :: pcb_t where
  "sample_pcb = \<lparr>parent = 0, files = replicate 8 \<lparr>fop_jump = None, inode_ptr = 0, file_pos = 0, flag = 0\<rparr>,
     esp = 0, ebp = 0, sched_esp = 0, sched_ebp = 0, pid = 0, retval = 0, args = replicate 128 0,
     pcb_terminal = 0\<rparr>"

definition sample_pcbs :: "nat \<Rightarrow> nat \<Rightarrow> pcbs" where
  "sample_pcbs t d = tty.extend (sample_tty t d)
     \<lparr>pcb_mem = \<lambda>_. sample_pcb, pcb_ptr = replicate 6 0, fops = \<lambda>_ _. stdin_ops,
      pcb_num = replicate 3 0, tss_esp0 = 0, tss_ss0 = 0, klog = []\<rparr>"

theorem find_new_pcb_first_free_witness:
  "find_new_pcb (sample_pcbs 0 0) = proc_no 0"
  using find_new_pcb_first_free [of "sample_pcbs 0 0"] by (simp add: sample_pcbs_def tty.extend_def)

text \<open>\<^verbatim>\<open>new_pcb\<close> sets up a process completely: its parent, its number, the terminal, an empty
  argument, cleared registers, descriptor \<open>0\<close> reading and descriptor \<open>1\<close> writing the terminal, the
  other six free; every other block and all the rest of the state stay as they were.\<close>

theorem new_pcb_fresh:
  assumes "i < 6" "length (files (pcb_mem s p)) = 8" "length (args (pcb_mem s p)) = 128"
  shows "fresh_pcb (if n = 0 then 0 else find_pcb s n) i (terminal_number s)
      (pcb_mem (snd (new_pcb p n (proc_no i) s)) p) \<and>
    fops (snd (new_pcb p n (proc_no i) s)) = upd2 (upd2 (fops s) i 0 (\<lambda>_. stdin_ops)) i 1 (\<lambda>_. stdout_ops) \<and>
    blocks_only s (snd (new_pcb p n (proc_no i) s)) \<and>
    (\<forall>q. q = p \<or> pcb_mem (snd (new_pcb p n (proc_no i) s)) q = pcb_mem s q)"
  using new_pcb_run [OF assms] blocks_only_new_pcb by blast

theorem new_pcb_fresh_witness:
  "fresh_pcb 0 2 1 (pcb_mem (snd (new_pcb 0x7FA000 0 (proc_no 2) (sample_pcbs 0 1))) 0x7FA000)"
  using new_pcb_fresh [where i = 2 and s = "sample_pcbs 0 1" and p = "0x7FA000" and n = 0]
  by (simp add: sample_pcbs_def tty.extend_def sample_pcb_def sample_tty_def)

end
