(* ===== verification/Syscall.thy ===== *)
theory Syscall
  imports Pcb
begin

text \<open>
  The system calls of \<^verbatim>\<open>src/syscall.c\<close> and the two routines of \<^verbatim>\<open>src/paging.c\<close> that follow the
  process table.  A call that does not return to its caller ends in an outcome of its own:
  \<^verbatim>\<open>execute\<close> enters a program, \<^verbatim>\<open>halt\<close> resumes the parent's kernel stack.  The addresses the
  compiler and the linker choose (statics, string constants, local arrays) and the values of the
  stack registers are the fields of \<open>kargs\<close>; so is the device behind the ports.  Undefined
  behaviour (an overflowing local array, a null pointer) and a wait that never ends are \<open>None\<close>.
\<close>

record kargs =
  dev :: device
  bb_start :: u32
  dentry_at :: u32
  copy_buf_at :: u32
  command_at :: u32
  elf_at :: u32
  parse_at :: u32
  shell_at :: u32
  cur_esp :: u32
  cur_ebp :: u32

datatype outcome = Returns i32 | Enters u32 | Resumes u32 u32 u32

abbreviation (input) EXECUTE_FILES :: nat where "EXECUTE_FILES \<equiv> 11"
abbreviation (input) MAX_COMMAND_INPUT :: nat where "MAX_COMMAND_INPUT \<equiv> 128"
abbreviation (input) ELF_MAGIC :: u32 where "ELF_MAGIC \<equiv> 0x464C457F"
abbreviation (input) FILE_START :: u32 where "FILE_START \<equiv> 0x08048000"
abbreviation (input) KERNEL_DS :: u16 where "KERNEL_DS \<equiv> 0x18"

section \<open>Paging by the process table\<close>

definition remap_one :: "i32 \<Rightarrow> i32 \<Rightarrow> nat \<Rightarrow> 'a pcbs_scheme \<Rightarrow> 'a pcbs_scheme" where
  "remap_one previous_terminal new_termis i s0 =
     (if pcb_ptr s0 ! i = NULL then s0
      else
        let s = (if pcb_terminal (pcb_mem s0 (pcb_ptr s0 ! i)) = previous_terminal
                 then s0\<lparr>vidmem_pt := upd2 (vidmem_pt s0) i 0
                        (\<lambda>e. e\<lparr>base_address := ucast (drop_bit 12 (VIDEO + (previous_terminal + 1) * FOUR_KB))\<rparr>)\<rparr>
                 else s0)
        in if pcb_terminal (pcb_mem s (pcb_ptr s ! i)) = new_termis
           then s\<lparr>vidmem_pt := upd2 (vidmem_pt s) i 0 (\<lambda>e. e\<lparr>base_address := ucast (drop_bit 12 VIDEO)\<rparr>)\<rparr>
           else s)"

definition remap_page :: "i32 \<Rightarrow> i32 \<Rightarrow> 'a pcbs_scheme \<Rightarrow> 'a pcbs_scheme" where
  "remap_page previous_terminal new_termis s =
     fold (remap_one previous_terminal new_termis) [0..<MAX_PCB_NUM] (cli s)"

definition restore_page :: "nat \<Rightarrow> 'a pcbs_scheme \<Rightarrow> 'a pcbs_scheme" where
  "restore_page i s =
     s\<lparr>vidmem_pt := upd2 (vidmem_pt s) i 0 (\<lambda>e. e\<lparr>base_address := ucast (drop_bit 12 VIDEO)\<rparr>)\<rparr>"

section \<open>Descriptors\<close>

definition find_terminal_by_pcb :: "u32 \<Rightarrow> 'a pcbs_scheme \<Rightarrow> i32" where
  "find_terminal_by_pcb t s = pcb_num s ! unat t"

definition current_pcb :: "'a pcbs_scheme \<Rightarrow> u32" where
  "current_pcb s = find_pcb s (pcb_num s ! unat (get_current_process s))"

definition log_printk :: "printk list \<Rightarrow> 'a pcbs_scheme \<Rightarrow> 'a pcbs_scheme" where
  "log_printk msgs s = s\<lparr>klog := klog s @ msgs\<rparr>"

definition call_read ::
    "kargs \<Rightarrow> (nat \<Rightarrow> 'a pcbs_scheme \<Rightarrow> 'a pcbs_scheme) \<Rightarrow> read_op \<Rightarrow> u32 \<Rightarrow> nat \<Rightarrow> u32 \<Rightarrow> i32 \<Rightarrow>
     'a pcbs_scheme \<Rightarrow> (i32 \<times> 'a pcbs_scheme) option" where
  "call_read K env r pcb fd buf nbytes s =
     (case r of
        Read_terminal \<Rightarrow> read_terminal env s buf nbytes
      | Read_default \<Rightarrow> Some (read_default (word_of_nat fd) buf nbytes, s)
      | Read_rtc \<Rightarrow> read_rtc env s buf nbytes
      | Directory_read \<Rightarrow>
          (case directory_read (vmem s) (bb_start K) (dentry_at K) (files (pcb_mem s pcb) ! fd) buf nbytes of
             None \<Rightarrow> None
           | Some (ret, m, f) \<Rightarrow> Some (ret, upd_file pcb fd (\<lambda>_. f) (set_vmem m s)))
      | Read_file \<Rightarrow>
          (case read_file (vmem s) (bb_start K) (files (pcb_mem s pcb) ! fd) buf nbytes of
             (ret, m, f, msgs) \<Rightarrow> Some (ret, log_printk msgs (upd_file pcb fd (\<lambda>_. f) (set_vmem m s)))))"

definition call_write ::
    "kargs \<Rightarrow> write_op \<Rightarrow> u32 \<Rightarrow> i32 \<Rightarrow> 'a pcbs_scheme \<Rightarrow> i32 \<times> 'a pcbs_scheme" where
  "call_write K w buf nbytes s =
     (case w of
        Write_terminal \<Rightarrow> write_terminal s buf nbytes
      | Write_default \<Rightarrow> (write_default buf nbytes, s)
      | Write_rtc \<Rightarrow> write_rtc (dev K) s buf nbytes
      | Directory_write \<Rightarrow> (directory_write buf nbytes, s)
      | Write_file \<Rightarrow> (write_file buf nbytes, s))"

definition call_open :: "kargs \<Rightarrow> open_op \<Rightarrow> 'a pcbs_scheme \<Rightarrow> (i32 \<times> 'a pcbs_scheme) option" where
  "call_open K p s =
     (case p of
        Open_terminal \<Rightarrow> Some (open_terminal, s)
      | Open_default \<Rightarrow> Some (open_default, s)
      | Open_rtc \<Rightarrow> open_rtc (dev K) s
      | Directory_open \<Rightarrow> Some (directory_open, s)
      | Open_file \<Rightarrow> Some (open_file, s))"

definition call_close :: "close_op \<Rightarrow> 'a pcbs_scheme \<Rightarrow> i32 \<times> 'a pcbs_scheme" where
  "call_close c s =
     (case c of
        Close_terminal \<Rightarrow> close_terminal s
      | Close_default \<Rightarrow> (close_default, s)
      | Close_rtc \<Rightarrow> (close_rtc, s)
      | Directory_close \<Rightarrow> (directory_close, s)
      | Close_file \<Rightarrow> (close_file, s))"

definition read_call ::
    "kargs \<Rightarrow> (nat \<Rightarrow> 'a pcbs_scheme \<Rightarrow> 'a pcbs_scheme) \<Rightarrow> i32 \<Rightarrow> u32 \<Rightarrow> i32 \<Rightarrow> 'a pcbs_scheme \<Rightarrow>
     (i32 \<times> 'a pcbs_scheme) option" where
  "read_call K env fd buf nbytes s =
     (if fd <s 0 \<or> 8 \<le>s fd then Some (ERR, s)
      else
        let pcb = current_pcb s;
            f = files (pcb_mem s pcb) ! unat fd
        in if pcb = NULL then Some (ERR, s)
           else if flag f = 0 then Some (ERR, s)
           else case fop_jump f of
                  None \<Rightarrow> None
                | Some (p, i) \<Rightarrow> call_read K env (read_func (fops s p i)) pcb (unat fd) buf nbytes s)"

definition write_call ::
    "kargs \<Rightarrow> i32 \<Rightarrow> u32 \<Rightarrow> i32 \<Rightarrow> 'a pcbs_scheme \<Rightarrow> (i32 \<times> 'a pcbs_scheme) option" where
  "write_call K fd buf nbytes s =
     (if fd <s 0 \<or> 8 \<le>s fd then Some (ERR, s)
      else
        let pcb = current_pcb s;
            f = files (pcb_mem s pcb) ! unat fd
        in if pcb = NULL then Some (ERR, s)
           else if flag f = 0 then Some (ERR, s)
           else case fop_jump f of
                  None \<Rightarrow> None
                | Some (p, i) \<Rightarrow> Some (call_write K (write_func (fops s p i)) buf nbytes s))"

text \<open>The operations that \<^verbatim>\<open>open\<close> installs, by the type of the file.\<close>

definition ops_of_type :: "u32 \<Rightarrow> file_op option" where
  "ops_of_type t =
     (if t = RTC_FILE then Some \<lparr>read_func = Read_rtc, write_func = Write_rtc, open_func = Open_rtc,
                                 close_func = Close_rtc\<rparr>
      else if t = DIR_FILE then Some \<lparr>read_func = Directory_read, write_func = Directory_write,
                                      open_func = Directory_open, close_func = Directory_close\<rparr>
      else if t = REGULAR_FILE then Some \<lparr>read_func = Read_file, write_func = Write_file,
                                          open_func = Open_file, close_func = Close_file\<rparr>
      else None)"

definition install_file :: "kargs \<Rightarrow> u32 \<Rightarrow> nat \<Rightarrow> nat \<Rightarrow> 'a pcbs_scheme \<Rightarrow> 'a pcbs_scheme" where
  "install_file K pcb p i s0 =
     (let file_type = load32 (vmem s0) (dentry_file_type (dentry_at K));
          inode_number = load32 (vmem s0) (dentry_inode_number (dentry_at K));
          s = (case ops_of_type file_type of
                 None \<Rightarrow> s0
               | Some ops \<Rightarrow> set_fops p i ops (upd_file pcb i (\<lambda>f. f\<lparr>fop_jump := Some (p, i)\<rparr>) s0));
          s = (if file_type = REGULAR_FILE
               then upd_file pcb i (\<lambda>f. f\<lparr>inode_ptr := bb_start K + (inode_number + 1) * BLOCK_4KB\<rparr>) s
               else upd_file pcb i (\<lambda>f. f\<lparr>inode_ptr := NULL\<rparr>) s)
      in upd_file pcb i (\<lambda>f. f\<lparr>file_pos := 0, flag := 1\<rparr>) s)"

definition open_call :: "kargs \<Rightarrow> u32 \<Rightarrow> 'a pcbs_scheme \<Rightarrow> (i32 \<times> 'a pcbs_scheme) option" where
  "open_call K filename s0 =
     (let pcb = current_pcb s0
      in if pcb = NULL then Some (ERR, s0)
         else case find_fd (pcb_mem s0 pcb) of
                None \<Rightarrow> Some (ERR, s0)
              | Some i \<Rightarrow>
                  (case read_dentry_by_name (vmem s0) (bb_start K) filename (dentry_at K) of
                     None \<Rightarrow> None
                   | Some (ret, m) \<Rightarrow>
                       let s = set_vmem m s0
                       in if ret = ERR then Some (ERR, s)
                          else
                            let p = unat (pcb_num s ! unat (get_current_process s) - 1);
                                s = install_file K pcb p i s
                            in case fop_jump (files (pcb_mem s pcb) ! i) of
                                 None \<Rightarrow> None
                               | Some (q, j) \<Rightarrow>
                                   map_option (\<lambda>(_, s). (word_of_nat i, s)) (call_open K (open_func (fops s q j)) s)))"

definition close_call :: "i32 \<Rightarrow> 'a pcbs_scheme \<Rightarrow> (i32 \<times> 'a pcbs_scheme) option" where
  "close_call fd s =
     (if fd <s 2 \<or> 8 \<le>s fd then Some (ERR, s)
      else
        let pcb = current_pcb s;
            f = files (pcb_mem s pcb) ! unat fd
        in if pcb = NULL then Some (ERR, s)
           else if flag f = 0 then Some (ERR, s)
           else
             let s = upd_file pcb (unat fd) (\<lambda>f. f\<lparr>flag := 0\<rparr>) s
             in case fop_jump f of
                  None \<Rightarrow> None
                | Some (p, i) \<Rightarrow> Some (call_close (close_func (fops s p i)) s))"

section \<open>Arguments, video memory, signals\<close>

text \<open>\<^verbatim>\<open>strncpy\<close> from the argument array of the block, as \<^verbatim>\<open>LibString\<close> has it for memory.\<close>

definition args_bytes :: "u8 list \<Rightarrow> nat \<Rightarrow> u8 list" where
  "args_bytes xs n = (let cs = take n (takeWhile (\<lambda>c. c \<noteq> 0) xs) in cs @ replicate (n - length cs) 0)"

definition getargs :: "u32 \<Rightarrow> i32 \<Rightarrow> 'a pcbs_scheme \<Rightarrow> (i32 \<times> 'a pcbs_scheme) option" where
  "getargs buf nbytes s =
     (if nbytes = 0 then Some (ERR, s)
      else if current_pcb s = NULL then None
      else Some (0, set_vmem (store_bytes (vmem s) buf (args_bytes (args (pcb_mem s (current_pcb s))) (unat nbytes))) s))"

definition vidmap :: "u32 \<Rightarrow> 'a pcbs_scheme \<Rightarrow> i32 \<times> 'a pcbs_scheme" where
  "vidmap screen_start s =
     (if screen_start < PROG_START \<or> screen_start + FOUR_KB \<ge> PROG_START + FOUR_MB then (ERR, s)
      else (0, set_vmem (store32 (vmem s) screen_start USER_VIDEO_ADDR) s))"

definition set_handler :: "i32 \<Rightarrow> u32 \<Rightarrow> i32" where "set_handler signum hanlder_address = ERR"
definition sigreturn :: i32 where "sigreturn = ERR"

end
