(* ===== verification/Process.thy ===== *)
theory Process
  imports Syscall
begin

text \<open>
  Starting and ending programs: \<^verbatim>\<open>execute\<close> and \<^verbatim>\<open>halt\<close> of \<^verbatim>\<open>src/syscall.c\<close>.  The two local
  strings of \<^verbatim>\<open>execute\<close> have 128 bytes each; a longer word overflows them, which is \<open>None\<close> here.
\<close>

section \<open>execute\<close>

text \<open>The first word of the command, copied to \<^verbatim>\<open>test_command\<close>.\<close>

function copy_word :: "mem \<Rightarrow> u32 \<Rightarrow> u32 \<Rightarrow> nat \<Rightarrow> (mem \<times> nat) option" where
  "copy_word m command dest i =
     (if 128 \<le> i then None
      else
        let c = m (command + word_of_nat i)
        in if c \<noteq> 10 \<and> c \<noteq> 0 \<and> c \<noteq> 0x20
           then copy_word (m(dest + word_of_nat i := c)) command dest (i + 1)
           else Some (m(dest + word_of_nat i := 0), i))"
  by pat_completeness auto
termination by (relation "measure (\<lambda>(m, c, d, i). 128 - i)") auto

text \<open>The rest of it, copied to \<^verbatim>\<open>buffer\<close>.\<close>

function copy_args :: "mem \<Rightarrow> u32 \<Rightarrow> nat \<Rightarrow> nat \<Rightarrow> u8 list \<Rightarrow> u8 list option" where
  "copy_args m command arg_start j buffer =
     (if 128 \<le> j then None
      else if m (command + word_of_nat arg_start) \<noteq> 0
      then copy_args m command (arg_start + 1) (j + 1) (buffer[j := m (command + word_of_nat arg_start)])
      else Some (buffer[j := 0]))"
  by pat_completeness auto
termination by (relation "measure (\<lambda>(m, c, a, j, b). 128 - j)") auto

declare copy_word.simps [simp del] copy_args.simps [simp del]

text \<open>\<^verbatim>\<open>strcpy\<close> into the argument array of a block.\<close>

definition copy_string :: "u8 list \<Rightarrow> u8 list \<Rightarrow> u8 list" where
  "copy_string dest src =
     (let cs = takeWhile (\<lambda>c. c \<noteq> 0) src in cs @ [0] @ drop (length cs + 1) dest)"

definition known_command :: "kargs \<Rightarrow> mem \<Rightarrow> bool" where
  "known_command K m \<longleftrightarrow>
     first_from (\<lambda>i. strncmp m (command_at K) (parse_at K + word_of_nat (20 * i)) 128 = 0) 0 EXECUTE_FILES
       < EXECUTE_FILES"

text \<open>The executable check: the file's first four bytes against the ELF magic.\<close>

definition exe_check :: "kargs \<Rightarrow> 'a pcbs_scheme \<Rightarrow> (bool \<times> 'a pcbs_scheme) option" where
  "exe_check K s =
     (case read_dentry_by_name (vmem s) (bb_start K) (command_at K) (dentry_at K) of
        None \<Rightarrow> None
      | Some (_, m) \<Rightarrow>
          (case read_data m (bb_start K) (load32 m (dentry_inode_number (dentry_at K))) 0 (elf_at K) 4 of
             (_, m', msgs) \<Rightarrow> Some (load32 m' (elf_at K) = ELF_MAGIC, log_printk msgs (set_vmem m' s))))"

text \<open>The part from the new page to the context switch, for the new number \<open>n\<close>.\<close>

definition start_process :: "kargs \<Rightarrow> nat \<Rightarrow> i32 \<Rightarrow> i32 \<Rightarrow> u8 list \<Rightarrow> 'a pcbs_scheme \<Rightarrow>
    (outcome \<times> 'a pcbs_scheme) option" where
  "start_process K ind parent_pcb_num n buffer s0 =
     (let s = s0\<lparr>pcb_num := (pcb_num s0)[ind := n]\<rparr>
      in if 10 \<le>s n - 1 then Some (Returns ERR, s)
         else
           let s = set_new_task (unat (n - 1)) 0 s
           in case loader (vmem s) (bb_start K) (dentry_at K) (copy_buf_at K) FILE_START (command_at K) of
                None \<Rightarrow> None
              | Some (m, msgs) \<Rightarrow>
                  let s = log_printk msgs (set_vmem m s);
                      cur_pcb_ptr = pcb_address n;
                      s = s\<lparr>pcb_ptr := (pcb_ptr s)[unat (n - 1) := cur_pcb_ptr]\<rparr>;
                      s = snd (new_pcb cur_pcb_ptr parent_pcb_num n s);
                      new = find_pcb s n;
                      s = upd_pcb new (\<lambda>b. b\<lparr>args := copy_string (args b) buffer\<rparr>) s;
                      s = s\<lparr>tss_esp0 := KERNEL_BOTTOM - STACK_SIZE * (n - 1), tss_ss0 := KERNEL_DS\<rparr>;
                      s = (if parent (pcb_mem s new) \<noteq> 0
                           then upd_pcb (parent (pcb_mem s new)) (\<lambda>b. b\<lparr>esp := cur_esp K, ebp := cur_ebp K\<rparr>) s
                           else s);
                      entry_point = load32 (vmem s) (FILE_START + 4 * 6)
                  in Some (Enters entry_point, s))"

definition execute :: "kargs \<Rightarrow> u32 \<Rightarrow> 'a pcbs_scheme \<Rightarrow> (outcome \<times> 'a pcbs_scheme) option" where
  "execute K command s0 =
     (let s = cli s0;
          ind = unat (get_current_process s)
      in case copy_word (vmem s) command (command_at K) 0 of
           None \<Rightarrow> None
         | Some (m, i) \<Rightarrow>
             (case copy_args m command (i + 1) 0 (replicate EXECUTE_ARG 0) of
                None \<Rightarrow> None
              | Some buffer \<Rightarrow>
                  let s = set_vmem m s
                  in if \<not> known_command K (vmem s) then Some (Returns ERR, s)
                     else
                       case exe_check K s of
                         None \<Rightarrow> None
                       | Some (exe, s) \<Rightarrow>
                           if \<not> exe then Some (Returns ERR, s)
                           else
                             let parent_pcb_num = pcb_num s ! ind;
                                 n = find_new_pcb s
                             in if n = ERR then Some (Returns ERR, s)
                                else start_process K ind parent_pcb_num n buffer s))"

section \<open>halt\<close>

definition halt_close :: "nat \<Rightarrow> 'a pcbs_scheme \<Rightarrow> 'a pcbs_scheme option" where
  "halt_close fd s =
     (if flag (files (pcb_mem s (current_pcb s)) ! fd) = 0
      then map_option snd (close_call (word_of_nat fd) s) else Some s)"

fun halt_close_all :: "nat list \<Rightarrow> 'a pcbs_scheme \<Rightarrow> 'a pcbs_scheme option" where
  "halt_close_all [] s = Some s"
| "halt_close_all (fd # fds) s = Option.bind (halt_close fd s) (halt_close_all fds)"

definition halt :: "kargs \<Rightarrow> u8 \<Rightarrow> 'a pcbs_scheme \<Rightarrow> (outcome \<times> 'a pcbs_scheme) option" where
  "halt K status s0 =
     (let s = cli s0;
          ind = unat (get_current_process s);
          curr_pcb = find_pcb s (pcb_num s ! ind)
      in if curr_pcb = NULL then None
         else case halt_close_all [FD_START..<PCB_FILE_NUMBER] s of
           None \<Rightarrow> None
         | Some s \<Rightarrow>
             let s = snd (close_terminal s);
                 parent_pcb = parent (pcb_mem s curr_pcb);
                 s = s\<lparr>pcb_ptr := (pcb_ptr s)[unat (pcb_num s ! ind - 1) := 0]\<rparr>;
                 s = restore_page (unat (pcb_num s ! ind - 1)) s
             in if parent_pcb = 0 then
                  (case execute K (shell_at K) (s\<lparr>pcb_num := (pcb_num s)[ind := 0]\<rparr>) of
                     Some (Returns _, _) \<Rightarrow> None
                   | r \<Rightarrow> r)
                else
                  let n = pid (pcb_mem s parent_pcb);
                      s = s\<lparr>pcb_num := (pcb_num s)[ind := n]\<rparr>;
                      s = s\<lparr>tss_esp0 := KERNEL_BOTTOM - STACK_SIZE * (n - 1), tss_ss0 := KERNEL_DS\<rparr>;
                      s = set_new_task (unat (n - 1)) 0 s
                  in Some (Resumes (esp (pcb_mem s parent_pcb)) (ebp (pcb_mem s parent_pcb)) (ucast status), s))"

end
