(* ===== verification/Scheduling.thy ===== *)
theory Scheduling
  imports Process
begin

text \<open>
  The scheduler of \<^verbatim>\<open>src/scheduling.c\<close>: every tick of the timer saves the stack registers of the
  process of the current terminal and resumes the process of the next terminal that has one.
\<close>

definition next_terminal :: "'a pcbs_scheme \<Rightarrow> 'a pcbs_scheme" where
  "next_terminal s = s\<lparr>current_terminal := (current_terminal s + 1) mod 3\<rparr>"

text \<open>The loop over at most three terminals, with \<^verbatim>\<open>next_pcb_num\<close>.\<close>

fun pick_terminal :: "nat \<Rightarrow> i32 \<Rightarrow> 'a pcbs_scheme \<Rightarrow> i32 \<times> 'a pcbs_scheme" where
  "pick_terminal 0 n s = (n, s)"
| "pick_terminal (Suc k) n s =
     (let s = next_terminal s;
          n = find_terminal_by_pcb (current_terminal s) s
      in if n \<noteq> 0 then (n, s) else pick_terminal k n s)"

definition switch_next :: "'a pcbs_scheme \<Rightarrow> outcome \<times> 'a pcbs_scheme" where
  "switch_next s0 =
     (let (next_pcb_num, s) = pick_terminal 3 0 s0;
          next_pcb = find_pcb s next_pcb_num;
          next_esp = sched_esp (pcb_mem s next_pcb);
          next_ebp = sched_ebp (pcb_mem s next_pcb)
      in if next_pcb_num = 0 \<or> next_pcb = 0 then (Returns ERR, s)
         else if 10 \<le>s next_pcb_num - 1 then (Returns ERR, s)
         else if next_esp = 0 \<or> next_ebp = 0 then (Returns ERR, s)
         else
           let s = s\<lparr>tss_esp0 := KERNEL_BOTTOM - STACK_SIZE * (next_pcb_num - 1), tss_ss0 := KERNEL_DS\<rparr>;
               s = set_new_task (unat (next_pcb_num - 1)) 0 s
           in (Resumes next_esp next_ebp next_esp, s))"

text \<open>A negative terminal number stands for a tick of the timer; a terminal number opens a shell
  there first.  The assembly leaves the stack pointer in \<^verbatim>\<open>eax\<close>.\<close>

definition schedule_next_process :: "kargs \<Rightarrow> i32 \<Rightarrow> 'a pcbs_scheme \<Rightarrow> (outcome \<times> 'a pcbs_scheme) option" where
  "schedule_next_process K termis_num s0 =
     (let s = enable_irq 0 s0;
          curr_pcb_num = find_terminal_by_pcb (current_terminal s) s;
          curr_pcb = find_pcb s curr_pcb_num
      in if curr_pcb_num = 0 then Some (Returns ERR, s)
         else if curr_pcb = 0 then Some (Returns ERR, s)
         else
           let s = upd_pcb curr_pcb (\<lambda>b. b\<lparr>sched_esp := cur_esp K, sched_ebp := cur_ebp K\<rparr>) s
           in if 0 \<le>s termis_num then
                let s = upd_termi termis_num (\<lambda>r. r\<lparr>run_shell := 1\<rparr>) s;
                    s = set_next_process termis_num s;
                    s = enable_irq 0 s;
                    s = enable_irq 1 s
                in (case execute K (shell_at K) s of
                      Some (Returns _, s) \<Rightarrow> Some (switch_next s)
                    | r \<Rightarrow> r)
              else Some (switch_next s))"

text \<open>The handler of the timer returns to the interrupted process only when there is nothing to
  switch to.\<close>

definition pit_handler :: "kargs \<Rightarrow> 'a pcbs_scheme \<Rightarrow> (outcome \<times> 'a pcbs_scheme) option" where
  "pit_handler K s0 =
     (case schedule_next_process K (- 1) (cli s0) of
        Some (Returns r, s) \<Rightarrow> Some (Returns r, sti s)
      | r \<Rightarrow> r)"

end
