(* ===== verification/ProcessTable.thy ===== *)
theory ProcessTable
  imports Process
begin

text \<open>
  The process table as three stacks: each terminal has a stack of process slots, the running
  program on top, its parent below.  \<^verbatim>\<open>execute\<close> pushes a slot on the stack of the running
  terminal, \<^verbatim>\<open>halt\<close> pops one; the arrays and the parent pointers of the code implement this.
\<close>

section \<open>What leaves the table alone\<close>

definition same_procs :: "'a pcbs_scheme \<Rightarrow> 'a pcbs_scheme \<Rightarrow> bool" where
  "same_procs s s' \<longleftrightarrow> pcb_mem s' = pcb_mem s \<and> pcb_ptr s' = pcb_ptr s \<and> pcb_num s' = pcb_num s \<and>
     fops s' = fops s \<and> current_terminal s' = current_terminal s \<and> terminal_number s' = terminal_number s"

lemma same_procs_refl [simp]: "same_procs s s"
  by (simp add: same_procs_def)

lemma same_procs_trans: "same_procs s t \<Longrightarrow> same_procs t u \<Longrightarrow> same_procs s u"
  by (simp add: same_procs_def)

lemma same_procs_machine [simp]:
  "same_procs s (cli s)" "same_procs s (sti s)" "same_procs s (outb d p s)" "same_procs s (snd (inb dv p s))"
  "same_procs s (enable_irq n s)" "same_procs s (disable_irq n s)" "same_procs s (send_eoi n s)"
  "same_procs s (set_vmem m s)" "same_procs s (set_new_task i 0 s)" "same_procs s (log_printk ms s)"
  "same_procs s (upd_termi t f s)" "same_procs s (vwrite s a b)" "same_procs s (restore_page i s)"
  by (simp_all add: same_procs_def machine_simps enable_irq_def disable_irq_def send_eoi_def set_vmem_def
      set_new_task_def set_register_def log_printk_def upd_termi_def vwrite_def restore_page_def)

lemma same_procs_fold:
  "(\<And>e t. same_procs t (f e t)) \<Longrightarrow> same_procs s (fold f es s)"
proof (induction es arbitrary: s)
  case (Cons e es)
  from same_procs_trans [OF Cons.prems Cons.IH [OF Cons.prems]] show ?case by simp
qed simp

lemma vmem_cong:
  "ram s' = ram s \<Longrightarrow> pd s' = pd s \<Longrightarrow> vidmem_pt s' = vidmem_pt s \<Longrightarrow> cr3 s' = cr3 s \<Longrightarrow> vmem s' = vmem s"
  using phys_cong [of s' s] by (simp add: vmem_def)

section \<open>Three stacks of processes\<close>

definition block :: "'a pcbs_scheme \<Rightarrow> nat \<Rightarrow> pcb_t" where
  "block s i = pcb_mem s (pcb_address (proc_no i))"

fun parents_chain :: "(nat \<Rightarrow> pcb_t) \<Rightarrow> nat list \<Rightarrow> bool" where
  "parents_chain b [] \<longleftrightarrow> True"
| "parents_chain b [i] \<longleftrightarrow> parent (b i) = 0 \<and> pid (b i) = proc_no i"
| "parents_chain b (i # j # is) \<longleftrightarrow>
     parent (b i) = pcb_address (proc_no j) \<and> pid (b i) = proc_no i \<and> parents_chain b (j # is)"

definition top_no :: "nat list \<Rightarrow> i32" where
  "top_no is = (case is of [] \<Rightarrow> 0 | i # _ \<Rightarrow> proc_no i)"

definition all_slots :: "(nat \<Rightarrow> nat list) \<Rightarrow> nat list" where
  "all_slots st = st 0 @ st 1 @ st 2"

definition stacks_ok :: "(nat \<Rightarrow> nat list) \<Rightarrow> 'a pcbs_scheme \<Rightarrow> bool" where
  "stacks_ok st s \<longleftrightarrow> length (pcb_ptr s) = 6 \<and> length (pcb_num s) = 3 \<and>
     (\<forall>p. length (files (pcb_mem s p)) = 8 \<and> length (args (pcb_mem s p)) = 128) \<and>
     distinct (all_slots st) \<and> (\<forall>i\<in>set (all_slots st). i < 6) \<and>
     (\<forall>i<6. pcb_ptr s ! i = (if i \<in> set (all_slots st) then pcb_address (proc_no i) else NULL)) \<and>
     (\<forall>t<3. pcb_num s ! t = top_no (st t) \<and> parents_chain (block s) (st t))"

lemma stacks_ok_same: "same_procs s s' \<Longrightarrow> stacks_ok st s' = stacks_ok st s"
  by (simp add: stacks_ok_def same_procs_def block_def [abs_def])

lemma less_3_cases: "(t :: nat) < 3 \<longleftrightarrow> t = 0 \<or> t = 1 \<or> t = 2"
  by arith

lemma all_slots_set: "set (all_slots st) = (\<Union>t<3. set (st t))"
  by (auto simp: all_slots_def less_3_cases)

lemma all_slots_push:
  assumes "t < 3"
  shows "set (all_slots (st(t := i # st t))) = insert i (set (all_slots st))"
    "distinct (all_slots (st(t := i # st t))) = (i \<notin> set (all_slots st) \<and> distinct (all_slots st))"
  using assms by (auto simp: less_3_cases all_slots_def)

lemma all_slots_pop:
  assumes "t < 3" "st t = i # is"
  shows "set (all_slots (st(t := is))) \<subseteq> set (all_slots st)"
    "distinct (all_slots st) \<Longrightarrow> set (all_slots (st(t := is))) = set (all_slots st) - {i}"
    "distinct (all_slots st) \<Longrightarrow> distinct (all_slots (st(t := is)))" "i \<in> set (all_slots st)"
  using assms by (auto simp: less_3_cases all_slots_def)

lemma parents_chain_cong:
  "(\<And>i. i \<in> set is \<Longrightarrow> parent (b' i) = parent (b i) \<and> pid (b' i) = pid (b i)) \<Longrightarrow>
     parents_chain b' is = parents_chain b is"
  by (induction b "is" rule: parents_chain.induct) auto

lemma parents_chain_tl: "parents_chain b (i # is) \<Longrightarrow> parents_chain b is"
  by (cases "is") auto

lemma stacks_okD:
  assumes "stacks_ok st s"
  shows "length (pcb_ptr s) = 6" "length (pcb_num s) = 3" "length (files (pcb_mem s p)) = 8"
    "length (args (pcb_mem s p)) = 128" "distinct (all_slots st)" "i \<in> set (all_slots st) \<Longrightarrow> i < 6"
    "i < 6 \<Longrightarrow> pcb_ptr s ! i = (if i \<in> set (all_slots st) then pcb_address (proc_no i) else NULL)"
    "t < 3 \<Longrightarrow> pcb_num s ! t = top_no (st t)" "t < 3 \<Longrightarrow> parents_chain (block s) (st t)"
    "t < 3 \<Longrightarrow> i \<in> set (st t) \<Longrightarrow> i < 6"
  using assms by (simp_all add: stacks_ok_def) (auto simp: all_slots_set)

lemma find_pcb_live:
  assumes "i < 6"
  shows "find_pcb s (proc_no i) = pcb_ptr s ! i"
  using proc_no [OF assms] by (simp add: find_pcb_def)

lemma stacks_find_pcb:
  assumes "stacks_ok st s" "i \<in> set (all_slots st)"
  shows "find_pcb s (proc_no i) = pcb_address (proc_no i)" "pcb_address (proc_no i) \<noteq> 0"
proof -
  have i: "i < 6" by (rule stacks_okD(6) [OF assms])
  show "find_pcb s (proc_no i) = pcb_address (proc_no i)"
    using stacks_okD(7) [OF assms(1) i] assms(2) by (simp add: find_pcb_live [OF i])
  show "pcb_address (proc_no i) \<noteq> 0" by (rule pcb_address_nonzero [OF i])
qed

lemma top_no_zero: "\<forall>i\<in>set is. i < 6 \<Longrightarrow> top_no is = 0 \<longleftrightarrow> is = []"
  using proc_no(4) by (cases "is") (auto simp: top_no_def)

section \<open>The strings of execute\<close>

lemma copy_args_terminated:
  "length buffer = 128 \<Longrightarrow> copy_args m command a j buffer = Some buffer' \<Longrightarrow>
     length buffer' = 128 \<and> 0 \<in> set buffer'"
proof (induction m command a j buffer rule: copy_args.induct)
  case (1 m command a j buffer)
  show ?case
  proof (cases "128 \<le> j")
    case True
    then show ?thesis using 1(3) by (subst (asm) copy_args.simps) simp
  next
    case False
    show ?thesis
    proof (cases "m (command + word_of_nat a) = 0")
      case True
      then have "buffer' = buffer[j := 0]" using False 1(3) by (subst (asm) copy_args.simps) simp
      then show ?thesis using False 1(2) by (auto simp: set_update_memI)
    next
      case nz: False
      have "copy_args m command (a + 1) (j + 1) (buffer[j := m (command + word_of_nat a)]) = Some buffer'"
        using False nz 1(3) by (subst (asm) copy_args.simps) simp
      then show ?thesis using 1(1) [OF False nz] 1(2) by simp
    qed
  qed
qed

lemma copy_string_length:
  assumes "length dest = 128" "length src = 128" "0 \<in> set src"
  shows "length (copy_string dest src) = 128"
proof -
  have "dropWhile (\<lambda>c. c \<noteq> 0) src \<noteq> []" using assms(3) by (simp add: dropWhile_eq_Nil_conv)
  then have "0 < length (dropWhile (\<lambda>c. c \<noteq> 0) src)" by blast
  moreover have "length (takeWhile (\<lambda>c. c \<noteq> 0) src) + length (dropWhile (\<lambda>c. c \<noteq> 0) src) = length src"
    by (metis length_append takeWhile_dropWhile_id)
  ultimately have "length (takeWhile (\<lambda>c. c \<noteq> 0) src) < length src" by linarith
  then show ?thesis using assms(1,2) by (simp add: copy_string_def Let_def)
qed

section \<open>execute pushes\<close>

lemma find_new_pcb_slot:
  assumes "stacks_ok st s" "find_new_pcb s \<noteq> ERR"
  obtains i where "i < 6" "find_new_pcb s = proc_no i" "i \<notin> set (all_slots st)"
    "\<forall>j<i. j \<in> set (all_slots st)"
proof -
  from find_new_pcb_cases [of s] assms(2)
  obtain i where i: "i < 6" "find_new_pcb s = proc_no i" "pcb_ptr s ! i = NULL" "\<forall>j<i. pcb_ptr s ! j \<noteq> NULL"
    by blast
  have "i \<notin> set (all_slots st)" using i(1,3) stacks_okD(7) [OF assms(1) i(1)] pcb_address_nonzero by auto
  moreover have "\<forall>j<i. j \<in> set (all_slots st)"
    using i(1,4) stacks_okD(7) [OF assms(1)] by (metis order.strict_trans)
  ultimately show thesis using that i by blast
qed

text \<open>The state once the block of slot \<open>i\<close> is filled in, for a parent process \<open>n\<close>.\<close>

definition enter_process :: "kargs \<Rightarrow> nat \<Rightarrow> i32 \<Rightarrow> u8 list \<Rightarrow> 'a pcbs_scheme \<Rightarrow> 'a pcbs_scheme" where
  "enter_process K i n buffer s0 =
     (let s = s0\<lparr>pcb_ptr := (pcb_ptr s0)[i := pcb_address (proc_no i)]\<rparr>;
          s = snd (new_pcb (pcb_address (proc_no i)) n (proc_no i) s);
          s = upd_pcb (pcb_address (proc_no i)) (\<lambda>b. b\<lparr>args := copy_string (args b) buffer\<rparr>) s;
          s = s\<lparr>tss_esp0 := KERNEL_BOTTOM - STACK_SIZE * word_of_nat i, tss_ss0 := KERNEL_DS\<rparr>
      in if parent (pcb_mem s (pcb_address (proc_no i))) \<noteq> 0
         then upd_pcb (parent (pcb_mem s (pcb_address (proc_no i))))
                (\<lambda>b. b\<lparr>esp := cur_esp K, ebp := cur_ebp K\<rparr>) s
         else s)"

lemma proc_no_pred: "proc_no i - 1 = word_of_nat i"
  by (simp add: proc_no_def)

lemma pde_bound: "i < 6 \<Longrightarrow> \<not> 10 \<le>s (word_of_nat i :: i32)"
  by (simp add: word_sle_eq sint_u32_of_nat)

lemma start_process_run:
  assumes "i < 6" "length (pcb_ptr s) = 6"
  shows "start_process K ind n (proc_no i) buffer s =
    (let s1 = set_new_task i 0 (s\<lparr>pcb_num := (pcb_num s)[ind := proc_no i]\<rparr>)
     in case loader (vmem s1) (bb_start K) (dentry_at K) (copy_buf_at K) FILE_START (command_at K) of
          None \<Rightarrow> None
        | Some (m, msgs) \<Rightarrow>
            let s2 = log_printk msgs (set_vmem m s1)
            in Some (Enters (load32 (vmem s2) (FILE_START + 4 * 6)), enter_process K i n buffer s2))"
proof -
  have u: "unat (word_of_nat i :: i32) = i" using assms(1) by (simp add: unat_u32_of_nat)
  have v: "vmem (upd_pcb p f s) = vmem s" "vmem (s\<lparr>tss_esp0 := a, tss_ss0 := b\<rparr>) = vmem s"
    "vmem (s\<lparr>pcb_ptr := l\<rparr>) = vmem s" for p f a b l and s :: "'a pcbs_scheme"
    by (rule vmem_cong; simp add: upd_pcb_def)+
  have l: "length (pcb_ptr (log_printk msgs (set_vmem m (set_new_task i 0 (s\<lparr>pcb_num := l\<rparr>))))) = 6" for msgs m l
    using assms(2) by (simp add: log_printk_def set_vmem_def set_new_task_def set_register_def machine_simps)
  have fp: "find_pcb (snd (new_pcb p n (proc_no i) (s\<lparr>pcb_ptr := (pcb_ptr s)[i := pcb_address (proc_no i)]\<rparr>)))
      (proc_no i) = pcb_address (proc_no i)" if "length (pcb_ptr s) = 6" for p and s :: "'a pcbs_scheme"
    using blocks_onlyD(11) [OF blocks_only_new_pcb, of p n "proc_no i" "s\<lparr>pcb_ptr := (pcb_ptr s)[i := pcb_address (proc_no i)]\<rparr>"]
      that assms(1) by (simp add: find_pcb_live)
  show ?thesis
    unfolding start_process_def Let_def proc_no_pred u
    using pde_bound [OF assms(1)]
    by (simp add: enter_process_def Let_def fp l v blocks_onlyD(18) [OF blocks_only_new_pcb]
        split: option.split prod.split)
qed

definition parent_addr :: "nat list \<Rightarrow> u32" where
  "parent_addr is = (case is of [] \<Rightarrow> 0 | j # _ \<Rightarrow> pcb_address (proc_no j))"

lemma parent_addr_zero: "\<forall>j\<in>set is. j < 6 \<Longrightarrow> parent_addr is = 0 \<longleftrightarrow> is = []"
  using pcb_address_nonzero by (cases "is") (auto simp: parent_addr_def)

lemma find_parent:
  assumes "\<forall>j\<in>set is. j < 6 \<and> pcb_ptr s ! j = pcb_address (proc_no j)"
  shows "(if top_no is = 0 then 0 else find_pcb s (top_no is)) = parent_addr is"
  using assms proc_no(4) by (cases "is") (auto simp: top_no_def parent_addr_def find_pcb_live)

lemma enter_process_facts:
  fixes s :: "'a pcbs_scheme"
  assumes "i < 6" "length (pcb_ptr s) = 6" "\<forall>j\<in>set is. j < 6 \<and> j \<noteq> i \<and> pcb_ptr s ! j = pcb_address (proc_no j)"
    and "\<forall>p. length (files (pcb_mem s p)) = 8 \<and> length (args (pcb_mem s p)) = 128"
    and s': "s' = enter_process K i (top_no is) buffer s"
  defines "a \<equiv> pcb_address (proc_no i)"
  shows "\<exists>b. fresh_pcb (parent_addr is) i (terminal_number s) b \<and>
      pcb_mem s' a = b\<lparr>args := copy_string (args b) buffer\<rparr>"
    "q \<noteq> a \<Longrightarrow> q \<noteq> parent_addr is \<or> is = [] \<Longrightarrow> pcb_mem s' q = pcb_mem s q"
    "is \<noteq> [] \<Longrightarrow> pcb_mem s' (parent_addr is) = (pcb_mem s (parent_addr is))\<lparr>esp := cur_esp K, ebp := cur_ebp K\<rparr>"
    "pcb_ptr s' = (pcb_ptr s)[i := a]" "pcb_num s' = pcb_num s"
    "tss_esp0 s' = KERNEL_BOTTOM - STACK_SIZE * word_of_nat i"
    "fops s' = upd2 (upd2 (fops s) i 0 (\<lambda>_. stdin_ops)) i 1 (\<lambda>_. stdout_ops)"
    "current_terminal s' = current_terminal s" "terminal_number s' = terminal_number s" "cr3 s' = cr3 s"
    "ram s' = ram s" "intf s' = intf s" "pd s' = pd s" "vidmem_pt s' = vidmem_pt s" "termis s' = termis s"
proof -
  define s1 where "s1 = s\<lparr>pcb_ptr := (pcb_ptr s)[i := a]\<rparr>"
  have s1: "pcb_mem s1 = pcb_mem s" "fops s1 = fops s" "terminal_number s1 = terminal_number s"
    by (simp_all add: s1_def)
  define s2 where "s2 = snd (new_pcb a (top_no is) (proc_no i) s1)"
  have par: "(if top_no is = 0 then 0 else find_pcb s1 (top_no is)) = parent_addr is"
    using assms(2,3) by (intro find_parent) (auto simp: s1_def)
  have new: "length (files (pcb_mem s1 a)) = 8" "length (args (pcb_mem s1 a)) = 128"
    using assms(4) by (simp_all add: s1)
  note N = new_pcb_run [OF assms(1) new, where n = "top_no is"]
  note B = blocks_onlyD [OF blocks_only_new_pcb, of a "top_no is" "proc_no i" s1, folded s2_def]
  have fresh: "fresh_pcb (parent_addr is) i (terminal_number s) (pcb_mem s2 a)"
    using N(2) by (simp add: s2_def par s1)
  then have p: "parent (pcb_mem s2 a) = parent_addr is" by (simp add: fresh_pcb_def)
  have other: "q \<noteq> a \<Longrightarrow> pcb_mem s2 q = pcb_mem s q" for q using N(3) by (simp add: s2_def s1)
  have z: "parent_addr is = 0 \<longleftrightarrow> is = []" using assms(3) by (intro parent_addr_zero) auto
  have ne: "is \<noteq> [] \<Longrightarrow> parent_addr is \<noteq> a"
    using assms(1,3) pcb_address_inj by (cases "is") (auto simp: parent_addr_def a_def)
  have e: "s' = (let s = upd_pcb a (\<lambda>b. b\<lparr>args := copy_string (args b) buffer\<rparr>) s2;
      s = s\<lparr>tss_esp0 := KERNEL_BOTTOM - STACK_SIZE * word_of_nat i, tss_ss0 := KERNEL_DS\<rparr>
      in if is \<noteq> [] then upd_pcb (parent_addr is) (\<lambda>b. b\<lparr>esp := cur_esp K, ebp := cur_ebp K\<rparr>) s else s)"
    unfolding s' enter_process_def Let_def s1_def [symmetric] s2_def [symmetric] a_def [symmetric]
    using p z by simp
  show "\<exists>b. fresh_pcb (parent_addr is) i (terminal_number s) b \<and> pcb_mem s' a = b\<lparr>args := copy_string (args b) buffer\<rparr>"
    using fresh ne by (intro exI [of _ "pcb_mem s2 a"]) (auto simp: e Let_def)
  show "q \<noteq> a \<Longrightarrow> q \<noteq> parent_addr is \<or> is = [] \<Longrightarrow> pcb_mem s' q = pcb_mem s q"
    by (auto simp: e Let_def other)
  show "is \<noteq> [] \<Longrightarrow> pcb_mem s' (parent_addr is) = (pcb_mem s (parent_addr is))\<lparr>esp := cur_esp K, ebp := cur_ebp K\<rparr>"
    using ne by (simp add: e Let_def other)
  show "fops s' = upd2 (upd2 (fops s) i 0 (\<lambda>_. stdin_ops)) i 1 (\<lambda>_. stdout_ops)"
  proof -
    have "fops s' = fops s2" by (simp add: e Let_def)
    then show ?thesis using N(4) by (simp add: s2_def s1)
  qed
  show "pcb_ptr s' = (pcb_ptr s)[i := a]" "pcb_num s' = pcb_num s"
    "tss_esp0 s' = KERNEL_BOTTOM - STACK_SIZE * word_of_nat i"
    "current_terminal s' = current_terminal s" "terminal_number s' = terminal_number s" "cr3 s' = cr3 s"
    "ram s' = ram s" "intf s' = intf s" "pd s' = pd s" "vidmem_pt s' = vidmem_pt s" "termis s' = termis s"
    by (simp_all add: e Let_def B) (simp_all add: s1_def upd_pcb_def B)
qed

lemma block_eq: "(\<And>p. p = pcb_address (proc_no j) \<Longrightarrow> pcb_mem s' p = pcb_mem s p) \<Longrightarrow> block s' j = block s j"
  by (simp add: block_def)

lemma enter_process_pushes:
  fixes s :: "'a pcbs_scheme"
  assumes ok: "stacks_ok st s0" and i: "i < 6" "i \<notin> set (all_slots st)" and t: "t < 3"
    and s: "same_procs (s0\<lparr>pcb_num := (pcb_num s0)[t := proc_no i]\<rparr>) s"
    and buf: "length buffer = 128" "0 \<in> set buffer"
    and s': "s' = enter_process K i (top_no (st t)) buffer s"
  shows "stacks_ok (st(t := i # st t)) s'"
proof -
  let ?a = "pcb_address (proc_no i)"
  have base: "pcb_mem s = pcb_mem s0" "pcb_ptr s = pcb_ptr s0" "pcb_num s = (pcb_num s0)[t := proc_no i]"
    using s by (simp_all add: same_procs_def)
  have live: "j \<in> set (all_slots st) \<Longrightarrow> j < 6 \<and> j \<noteq> i \<and> pcb_ptr s ! j = pcb_address (proc_no j)" for j
    using stacks_okD(6,7) [OF ok] i(2) base(2) by auto
  have sub: "set (st u) \<subseteq> set (all_slots st)" if "u < 3" for u using that by (auto simp: all_slots_set)
  note F = enter_process_facts [OF i(1) _ _ _ s', unfolded base(1,2)]
  have prem: "length (pcb_ptr s0) = 6" "\<forall>j\<in>set (st t). j < 6 \<and> j \<noteq> i \<and> pcb_ptr s0 ! j = pcb_address (proc_no j)"
    "\<forall>p. length (files (pcb_mem s0 p)) = 8 \<and> length (args (pcb_mem s0 p)) = 128"
    using ok live sub [OF t] base(2) by (auto simp: stacks_ok_def)
  note F = F [OF prem]
  obtain b where b: "fresh_pcb (parent_addr (st t)) i (terminal_number s) b"
    "pcb_mem s' ?a = b\<lparr>args := copy_string (args b) buffer\<rparr>" using F(1) by blast
  have lens: "length (files (pcb_mem s' p)) = 8 \<and> length (args (pcb_mem s' p)) = 128" for p
  proof (cases "p = ?a")
    case True
    then show ?thesis using b buf by (simp add: fresh_pcb_def copy_string_length)
  next
    case False
    then show ?thesis using F(2) [of p] F(3) prem(3) by (cases "st t = [] \<or> p \<noteq> parent_addr (st t)") auto
  qed
  have keep: "parent (block s' j) = parent (block s0 j) \<and> pid (block s' j) = pid (block s0 j)"
    if "j \<in> set (all_slots st)" for j
  proof -
    have "pcb_address (proc_no j) \<noteq> ?a" using live [OF that] pcb_address_inj i(1) by blast
    then show ?thesis using F(2) [of "pcb_address (proc_no j)"] F(3)
      by (cases "st t = [] \<or> pcb_address (proc_no j) \<noteq> parent_addr (st t)") (auto simp: block_def)
  qed
  have chains: "parents_chain (block s') (st u)" if "u < 3" for u
    using stacks_okD(9) [OF ok that] keep sub [OF that]
    by (subst parents_chain_cong [where b = "block s0"]) auto
  have new: "parent (block s' i) = parent_addr (st t)" "pid (block s' i) = proc_no i"
    using b by (simp_all add: block_def fresh_pcb_def)
  have chain: "parents_chain (block s') (i # st t)"
    using new chains [OF t] by (cases "st t") (simp_all add: parent_addr_def)
  have "pcb_ptr s' ! j = (if j \<in> set (all_slots (st(t := i # st t))) then pcb_address (proc_no j) else NULL)"
    if "j < 6" for j
    using F(4) prem(1) i(1) stacks_okD(7) [OF ok that] all_slots_push(1) [OF t] that by (auto simp: nth_list_update)
  moreover have "pcb_num s' ! u = top_no ((st(t := i # st t)) u) \<and> parents_chain (block s') ((st(t := i # st t)) u)"
    if "u < 3" for u
    using F(5) base(3) stacks_okD(2,8) [OF ok] that t chains [OF that] chain
    by (auto simp: nth_list_update top_no_def)
  moreover have "length (pcb_num s') = 3" "length (pcb_ptr s') = 6"
    using F(4,5) base stacks_okD(1,2) [OF ok] by simp_all
  moreover have "distinct (all_slots (st(t := i # st t)))" "\<forall>j\<in>set (all_slots (st(t := i # st t))). j < 6"
    using all_slots_push [OF t, of st i] i stacks_okD(5,6) [OF ok] by auto
  ultimately show ?thesis using lens unfolding stacks_ok_def by blast
qed

text \<open>What a call of \<^verbatim>\<open>execute\<close> can do to the table: nothing, when it returns an error, or push the
  first free slot.\<close>

lemma exe_check_same: "exe_check K s = Some (b, s') \<Longrightarrow> same_procs s s'"
  by (auto simp: exe_check_def split: option.splits prod.splits intro: same_procs_trans [OF same_procs_machine(8) same_procs_machine(10)])

text \<open>The state after the push, as the new process and its parent see it.\<close>

definition pushed :: "kargs \<Rightarrow> nat list \<Rightarrow> nat \<Rightarrow> u8 list \<Rightarrow> 'a pcbs_scheme \<Rightarrow> 'a pcbs_scheme \<Rightarrow> bool" where
  "pushed K is i buffer s s' \<longleftrightarrow>
     (\<exists>b. fresh_pcb (parent_addr is) i (terminal_number s) b \<and>
        block s' i = b\<lparr>args := copy_string (args b) buffer\<rparr>) \<and>
     (is \<noteq> [] \<longrightarrow> block s' (hd is) = (block s (hd is))\<lparr>esp := cur_esp K, ebp := cur_ebp K\<rparr>) \<and>
     (\<forall>q. q = pcb_address (proc_no i) \<or> is \<noteq> [] \<and> q = parent_addr is \<or> pcb_mem s' q = pcb_mem s q) \<and>
     fops s' = upd2 (upd2 (fops s) i 0 (\<lambda>_. stdin_ops)) i 1 (\<lambda>_. stdout_ops) \<and>
     cr3 s' = i \<and> tss_esp0 s' = KERNEL_BOTTOM - STACK_SIZE * word_of_nat i \<and>
     current_terminal s' = current_terminal s \<and> terminal_number s' = terminal_number s \<and> \<not> intf s'"

lemma set_new_task_more [simp]:
  "intf (set_new_task i 0 s) = False" "ram (set_new_task i 0 s) = ram s"
  by (simp_all add: set_new_task_def set_register_def machine_simps)

lemma log_printk_fields [simp]:
  "cr3 (log_printk ms s) = cr3 s" "intf (log_printk ms s) = intf s" "ram (log_printk ms s) = ram s"
  "pd (log_printk ms s) = pd s" "vidmem_pt (log_printk ms s) = vidmem_pt s"
  by (simp_all add: log_printk_def)

lemma start_process_pushes:
  assumes ok: "stacks_ok st s" and t: "t < 3" and i: "i < 6" "i \<notin> set (all_slots st)"
    and buf: "length buffer = 128" "0 \<in> set buffer"
    and run: "start_process K t (pcb_num s ! t) (proc_no i) buffer s = Some (out, s')"
  shows "(\<exists>e. out = Enters e) \<and> stacks_ok (st(t := i # st t)) s' \<and> pushed K (st t) i buffer s s'"
proof -
  define s1 where "s1 = set_new_task i 0 (s\<lparr>pcb_num := (pcb_num s)[t := proc_no i]\<rparr>)"
  have n: "pcb_num s ! t = top_no (st t)" by (rule stacks_okD(8) [OF ok t])
  note R = run [unfolded start_process_run [OF i(1) stacks_okD(1) [OF ok]] Let_def s1_def [symmetric] n]
  obtain m msgs where l: "loader (vmem s1) (bb_start K) (dentry_at K) (copy_buf_at K) FILE_START (command_at K) = Some (m, msgs)"
    using R by (auto split: option.splits)
  define s2 where "s2 = log_printk msgs (set_vmem m s1)"
  have e: "Enters (load32 (vmem s2) (FILE_START + 4 * 6)) = out \<and>
      enter_process K i (top_no (st t)) buffer s2 = s'"
    using R l by (simp add: s2_def)
  have s': "s' = enter_process K i (top_no (st t)) buffer s2" using e by simp
  have out: "\<exists>e. out = Enters e" using e by blast
  have same: "same_procs (s\<lparr>pcb_num := (pcb_num s)[t := proc_no i]\<rparr>) s2"
    unfolding s2_def s1_def
    by (rule same_procs_trans [OF same_procs_trans [OF same_procs_machine(9) same_procs_machine(8)] same_procs_machine(10)])
  then have base: "pcb_mem s2 = pcb_mem s" "pcb_ptr s2 = pcb_ptr s" "fops s2 = fops s"
    "current_terminal s2 = current_terminal s" "terminal_number s2 = terminal_number s"
    by (simp_all add: same_procs_def)
  have push: "stacks_ok (st(t := i # st t)) s'"
    by (rule enter_process_pushes [OF ok i t same buf s'])
  have sub: "set (st t) \<subseteq> set (all_slots st)" using t by (auto simp: all_slots_set)
  have prem: "length (pcb_ptr s2) = 6" "\<forall>j\<in>set (st t). j < 6 \<and> j \<noteq> i \<and> pcb_ptr s2 ! j = pcb_address (proc_no j)"
    "\<forall>p. length (files (pcb_mem s2 p)) = 8 \<and> length (args (pcb_mem s2 p)) = 128"
    using stacks_okD [OF ok] sub i(2) by (auto simp: base)
  note F = enter_process_facts [OF i(1) prem s', unfolded base]
  have "cr3 s2 = i" "\<not> intf s2" by (simp_all add: s2_def s1_def)
  moreover have "st t \<noteq> [] \<Longrightarrow> parent_addr (st t) = pcb_address (proc_no (hd (st t)))"
    by (cases "st t") (simp_all add: parent_addr_def)
  moreover have "\<forall>q. q = pcb_address (proc_no i) \<or> st t \<noteq> [] \<and> q = parent_addr (st t) \<or> pcb_mem s' q = pcb_mem s q"
    using F(2) by blast
  ultimately have "pushed K (st t) i buffer s s'"
    unfolding pushed_def block_def using F by simp
  with push out show ?thesis by blast
qed

lemma execute_table:
  assumes ok: "stacks_ok st s" and t: "unat (current_terminal s) = t" "t < 3"
    and run: "execute K command s = Some (out, s')"
  shows "out = Returns ERR \<and> stacks_ok st s' \<and> same_procs s s' \<or>
    (\<exists>i<6. i \<notin> set (all_slots st) \<and> (\<forall>j<i. j \<in> set (all_slots st)) \<and> (\<exists>e. out = Enters e) \<and>
       stacks_ok (st(t := i # st t)) s' \<and> (\<exists>buffer. pushed K (st t) i buffer s s'))"
proof -
  have ind: "unat (get_current_process (cli s)) = t" using t by (simp add: get_current_process_def cli_def)
  note R = run [unfolded execute_def Let_def ind]
  obtain m k where w: "copy_word (vmem (cli s)) command (command_at K) 0 = Some (m, k)"
    using R by (auto split: option.splits)
  obtain buffer where b: "copy_args m command (k + 1) 0 (replicate 128 0) = Some buffer"
    using R w by (auto split: option.splits)
  have buf: "length buffer = 128" "0 \<in> set buffer" using copy_args_terminated [OF _ b] by simp_all
  define s1 where "s1 = set_vmem m (cli s)"
  have s1: "same_procs s s1" unfolding s1_def by (rule same_procs_trans [OF same_procs_machine(1,8)])
  note R = R [unfolded w option.case prod.case b s1_def [symmetric]]
  show ?thesis
  proof (cases "known_command K (vmem s1)")
    case False
    then show ?thesis using R s1 stacks_ok_same [OF s1] ok by simp
  next
    case True
    obtain exe s2 where x: "exe_check K s1 = Some (exe, s2)"
      using R True by (auto split: option.splits)
    have s2: "same_procs s s2" by (rule same_procs_trans [OF s1 exe_check_same [OF x]])
    have ok2: "stacks_ok st s2" using stacks_ok_same [OF s2] ok by simp
    show ?thesis
    proof (cases "exe \<and> find_new_pcb s2 \<noteq> ERR")
      case False
      then show ?thesis using R True x s2 ok2 by (auto split: if_splits)
    next
      case new: True
      obtain i where i: "i < 6" "find_new_pcb s2 = proc_no i" "i \<notin> set (all_slots st)" "\<forall>j<i. j \<in> set (all_slots st)"
        using find_new_pcb_slot [OF ok2] new by blast
      have "start_process K t (pcb_num s2 ! t) (proc_no i) buffer s2 = Some (out, s')"
        using R True x new i(2) by simp
      from start_process_pushes [OF ok2 t(2) i(1,3) buf this]
      have "(\<exists>e. out = Enters e) \<and> stacks_ok (st(t := i # st t)) s' \<and> pushed K (st t) i buffer s2 s'" .
      moreover have "pushed K (st t) i buffer s s' = pushed K (st t) i buffer s2 s'"
        using s2 by (simp add: pushed_def same_procs_def block_def)
      ultimately show ?thesis using i by blast
    qed
  qed
qed

section \<open>halt pops\<close>

text \<open>The loop of \<^verbatim>\<open>halt\<close> closes the descriptors whose flag is \<open>0\<close>, and \<^verbatim>\<open>close\<close> refuses these: no
  descriptor is ever closed here.\<close>

lemma fd_word:
  "fd \<in> {2..<8} \<Longrightarrow> unat (word_of_nat fd :: i32) = fd \<and> \<not> (word_of_nat fd :: i32) <s 2 \<and> \<not> 8 \<le>s (word_of_nat fd :: i32)"
  by (auto simp: fd_range word_sless_alt word_sle_eq)

lemma halt_close_nothing: "fd \<in> {2..<8} \<Longrightarrow> halt_close fd s = Some s"
  using fd_word [of fd] by (auto simp: halt_close_def close_call_def Let_def)

lemma halt_close_all_nothing: "set fds \<subseteq> {2..<8} \<Longrightarrow> halt_close_all fds s = Some s"
  by (induction fds) (simp_all add: halt_close_nothing)

lemma halt_closes_nothing: "halt_close_all [2..<8] s = Some s"
  by (rule halt_close_all_nothing) (simp del: upt_rec_numeral)

lemma stacks_pop:
  assumes ok: "stacks_ok st s" and t: "t < 3" "st t = i # is"
    and s': "pcb_mem s' = pcb_mem s" "pcb_ptr s' = (pcb_ptr s)[i := 0]" "pcb_num s' = (pcb_num s)[t := top_no is]"
  shows "stacks_ok (st(t := is)) s'"
proof -
  note D = stacks_okD [OF ok]
  note P = all_slots_pop [where st = st, OF t]
  have i: "i < 6" using D(10) [OF t(1)] t(2) by simp
  have b: "block s' = block s" by (simp add: fun_eq_iff block_def s'(1))
  have "pcb_ptr s' ! j = (if j \<in> set (all_slots (st(t := is))) then pcb_address (proc_no j) else NULL)" if "j < 6" for j
    using D(1) D(7) [OF that] P(2) [OF D(5)] i that by (auto simp: s'(2) nth_list_update)
  moreover have "pcb_num s' ! u = top_no ((st(t := is)) u) \<and> parents_chain (block s') ((st(t := is)) u)" if "u < 3" for u
    using D(2) D(8,9) [OF that] t parents_chain_tl D(9) [OF t(1)] that
    by (auto simp: s'(3) nth_list_update b)
  moreover have "distinct (all_slots (st(t := is)))" "\<forall>j\<in>set (all_slots (st(t := is))). j < 6"
    using P D(5,6) by blast+
  ultimately show ?thesis
    using D(1-4) unfolding stacks_ok_def by (simp add: s')
qed

definition halted :: "nat \<Rightarrow> nat \<Rightarrow> 'a pcbs_scheme \<Rightarrow> 'a pcbs_scheme" where
  "halted t i s =
     restore_page i ((snd (close_terminal (cli s)))
       \<lparr>pcb_ptr := (pcb_ptr (snd (close_terminal (cli s))))[i := 0]\<rparr>)"

lemma close_terminal_same: "same_procs s (snd (close_terminal s))"
  unfolding close_terminal_def Let_def terminal_clean_buffer_def snd_conv
  by (blast intro: same_procs_trans same_procs_machine)

lemma halted_fields:
  "pcb_mem (halted t i s) = pcb_mem s" "pcb_ptr (halted t i s) = (pcb_ptr s)[i := 0]"
  "pcb_num (halted t i s) = pcb_num s" "current_terminal (halted t i s) = current_terminal s"
  "fops (halted t i s) = fops s" "terminal_number (halted t i s) = terminal_number s"
  using same_procs_trans [OF same_procs_machine(1) close_terminal_same, of s]
  by (simp_all add: halted_def restore_page_def same_procs_def)

lemma halt_run:
  assumes ok: "stacks_ok st s" and t: "unat (current_terminal s) = t" "t < 3" "st t = i # is"
  shows "halt K status s =
    (case is of
       [] \<Rightarrow> (case execute K (shell_at K) ((halted t i s)\<lparr>pcb_num := (pcb_num s)[t := 0]\<rparr>) of
                Some (Returns _, _) \<Rightarrow> None | r \<Rightarrow> r)
     | j # _ \<Rightarrow>
         Some (Resumes (esp (block s j)) (ebp (block s j)) (ucast status),
           set_new_task j 0 ((halted t i s)\<lparr>pcb_num := (pcb_num s)[t := proc_no j],
             tss_esp0 := KERNEL_BOTTOM - STACK_SIZE * word_of_nat j, tss_ss0 := KERNEL_DS\<rparr>)))"
proof -
  note D = stacks_okD [OF ok]
  have i: "i < 6" "i \<in> set (all_slots st)" using D(10) [OF t(2)] all_slots_pop(4) [where st = st, OF t(2,3)] t(3) by auto
  have ind: "unat (get_current_process (cli s)) = t" using t by (simp add: get_current_process_def cli_def)
  have c: "same_procs s (cli s)" "same_procs s (snd (close_terminal (cli s)))"
    by (simp, rule same_procs_trans [OF same_procs_machine(1) close_terminal_same])
  have n: "pcb_num s ! t = proc_no i" using D(8) [OF t(2)] t(3) by (simp add: top_no_def)
  have fp: "find_pcb (cli s) (proc_no i) = pcb_address (proc_no i)" "pcb_address (proc_no i) \<noteq> 0"
    using stacks_find_pcb [OF _ i(2)] ok c(1) stacks_ok_same by blast+
  have u: "unat (word_of_nat i :: i32) = i" using i(1) by (simp add: unat_u32_of_nat)
  have nums: "pcb_num (cli s) = pcb_num s" "pcb_num (snd (close_terminal (cli s))) = pcb_num s"
    "pcb_mem (snd (close_terminal (cli s))) = pcb_mem s"
    using c by (simp_all add: same_procs_def)
  have ch: "parents_chain (block s) (i # is)" using D(9) [OF t(2)] t(3) by simp
  show ?thesis
  proof (cases "is")
    case Nil
    then have "parent (pcb_mem s (pcb_address (proc_no i))) = 0" using ch by (simp add: block_def)
    then show ?thesis
      unfolding halt_def Let_def ind nums n fp(1) halt_closes_nothing
        option.case halted_def
      using fp(2) by (simp add: Nil nums n proc_no_pred u restore_page_def del: upt_rec_numeral)
  next
    case (Cons j js)
    then have p: "parent (pcb_mem s (pcb_address (proc_no i))) = pcb_address (proc_no j)"
      "parents_chain (block s) (j # js)"
      using ch by (simp_all add: block_def)
    have j: "j < 6" using D(10) [OF t(2), of j] by (simp add: t(3) Cons)
    have q: "pid (pcb_mem s (pcb_address (proc_no j))) = proc_no j"
      using p(2) by (cases js) (simp_all add: block_def)
    have uj: "unat (word_of_nat j :: i32) = j" using j by (simp add: unat_u32_of_nat)
    have same: "pcb_mem (set_new_task k 0 x) = pcb_mem x" for k and x :: "'a pcbs_scheme"
      using same_procs_machine(9) [of x k] by (simp add: same_procs_def)
    show ?thesis
      unfolding halt_def Let_def ind nums n fp(1) halt_closes_nothing
        option.case halted_def
      using fp(2) pcb_address_nonzero [OF j] p(1) q
      by (simp add: Cons nums n proc_no_pred u uj restore_page_def same block_def del: upt_rec_numeral)
  qed
qed

lemma halted_memory:
  "ram (halted t i s) = ram s" "pd (halted t i s) = pd s" "cr3 (halted t i s) = cr3 s"
  "vidmem_pt (halted t i s) = upd2 (vidmem_pt s) i 0 (\<lambda>e. e\<lparr>base_address := ucast (drop_bit 12 VIDEO)\<rparr>)"
  "intf (halted t i s) = False"
  by (simp_all add: halted_def restore_page_def close_terminal_def Let_def terminal_clean_buffer_def
      upd_termi_def machine_simps)

end
