(* ===== verification/Programs.thy ===== *)
theory Programs
  imports ProcessTable FsProperties
begin

text \<open>
  The whole of \<^verbatim>\<open>execute\<close> on a command that can be run: the strings it cuts from the command
  line, the check of the name and of the file, and the program image in the address space of
  the new process.  The process table's part is in \<open>ProcessTable\<close>, the file system's in
  \<open>FsLoader\<close>.
\<close>

section \<open>The command line\<close>

definition command_line :: "mem \<Rightarrow> u32 \<Rightarrow> u8 list \<Rightarrow> u8 list \<Rightarrow> bool" where
  "command_line m c w arg \<longleftrightarrow>
     (\<exists>sep. (sep = 10 \<or> sep = 0x20) \<and> cstring_at m c (w @ sep # arg)) \<and>
     10 \<notin> set w \<and> 0x20 \<notin> set w \<and> length w < 128 \<and> length arg < 128"

lemma copy_word_run:
  assumes s: "cstring_at m c (w @ sep # arg)" "sep = 10 \<or> sep = 0x20" "10 \<notin> set w" "0x20 \<notin> set w"
    "length w < 128" and sep: "separate c (Suc (length w)) d 128"
  shows "copy_word m c d 0 = Some (store_bytes m d (w @ [0]), length w)"
proof -
  have keep: "store_bytes m d (take k w) (c + word_of_nat j) = m (c + word_of_nat j)"
    if "j \<le> length w" for j k
  proof -
    have "agree c (Suc (length w)) m (store_bytes m d (take k w))"
      using s(5) separate_sub [OF sep, of 0 "length (take k w)"] by (intro agree_store_bytes) simp
    from agree_byte [OF this le_imp_less_Suc [OF that]] show ?thesis using s(5) by linarith
  qed
  have "copy_word (store_bytes m d (take k w)) c d k = Some (store_bytes m d (w @ [0]), length w)"
    if "k \<le> length w" for k
    using that
  proof (induction rule: inc_induct)
    case base
    have "store_bytes m d w (c + word_of_nat (length w)) = sep"
      using keep [of "length w" "length w"] s(5) cstring_at_nth(1) [OF s(1), of "length w"] by simp
    then show ?case using s(2,5) by (subst copy_word.simps) (auto simp: store_bytes_append)
  next
    case (step k)
    have b: "store_bytes m d (take k w) (c + word_of_nat k) = w ! k"
      using keep [of k k] step(2) cstring_at_nth(1) [OF s(1), of k] by (simp add: nth_append)
    have "w ! k \<in> set w" using step(2) by simp
    then have ne: "w ! k \<noteq> 10" "w ! k \<noteq> 0x20" using s(3,4) by metis+
    have ne0: "w ! k \<noteq> 0" using cstring_at_nth(2) [OF s(1), of k] step(2) by (simp add: nth_append)
    have st: "(store_bytes m d (take k w))(d + word_of_nat k := w ! k) = store_bytes m d (take (Suc k) w)"
      by (rule store_take_Suc [OF step(2)])
    show ?case
      using step(2,3) s(5) by (subst copy_word.simps) (simp only: b st Let_def, simp add: ne ne0)
  qed
  from this [of 0] show ?thesis by simp
qed

lemma copy_args_run:
  assumes s: "cstring_at m c (w @ sep # arg)" and len: "length arg < 128"
  shows "copy_args m c (Suc (length w)) 0 (replicate 128 0) = Some (arg @ replicate (128 - length arg) 0)"
proof -
  let ?buf = "\<lambda>k. take k arg @ replicate (128 - k) (0 :: u8)"
  have "copy_args m c (Suc (length w) + k) k (?buf k) = Some (arg @ replicate (128 - length arg) 0)"
    if "k \<le> length arg" for k
    using that
  proof (induction rule: inc_induct)
    case base
    have "m (c + word_of_nat (Suc (length w) + length arg)) = 0"
      using cstring_at_end [OF s] by (simp add: algebra_simps)
    moreover have "(?buf (length arg))[length arg := 0] = ?buf (length arg)"
      using len by (simp add: list_update_append) (cases "128 - length arg"; simp)
    ultimately show ?case using len by (subst copy_args.simps) simp
  next
    case (step k)
    have b: "m (c + word_of_nat (Suc (length w) + k)) = arg ! k" "arg ! k \<noteq> 0"
      using cstring_at_nth [OF s, of "Suc (length w) + k"] step(2) by (simp_all add: nth_append)
    have "replicate (128 - k) (0 :: u8) = 0 # replicate (128 - Suc k) 0"
      using step(2) len by (metis Suc_diff_Suc less_trans replicate_Suc)
    then have st: "(?buf k)[k := arg ! k] = ?buf (Suc k)"
      using step(2) by (simp add: list_update_append take_Suc_conv_app_nth)
    show ?case
      using step len by (subst copy_args.simps) (simp only: b(1) st, simp add: b(2))
  qed
  from this [of 0] show ?thesis by simp
qed

section \<open>Kernel memory\<close>

lemma in_region_low:
  assumes "unat a + n \<le> 8388608" "in_region a n x"
  shows "unat x < 8388608"
proof -
  have "unat a + n \<le> 4294967296" using assms(1) by simp
  from assms(2) [unfolded in_region_iff [OF this]] assms(1) show ?thesis by linarith
qed

lemma phys_low:
  assumes "unat a < 8388608"
  shows "phys s a = a"
proof -
  have "\<not> in_region PROG_START 4194304 a" "\<not> in_region USER_VIDEO_ADDR 4194304 a"
    using assms by (subst in_region_iff; simp)+
  then show ?thesis by (simp add: phys_def)
qed

lemma vmem_low: "unat a < 8388608 \<Longrightarrow> vmem s a = ram s a"
  by (simp add: vmem_def phys_low)

text \<open>A region below 8 MB looks the same from every address space and shows what was written.\<close>

lemma agree_low_ram: "unat a + n \<le> 8388608 \<Longrightarrow> ram s' = ram s \<Longrightarrow> agree a n (vmem s) (vmem s')"
  by (auto simp: agree_def vmem_low in_region_low)

lemma agree_set_vmem: "unat a + n \<le> 8388608 \<Longrightarrow> paging_ok s \<Longrightarrow> agree a n m (vmem (set_vmem m s))"
  by (auto simp: agree_def vmem_set_vmem in_region_low)

lemma agree_cstring: "agree a n m m' \<Longrightarrow> length s < n \<Longrightarrow> cstring_at m a s \<Longrightarrow> cstring_at m' a s"
  by (subst cstring_at_cong [of a s m' m]) (simp_all add: agree_def in_region_mono [OF _ Suc_leI])

text \<open>The regions the kernel uses while it starts a program: the file system image, the local
  arrays of \<^verbatim>\<open>execute\<close> and \<^verbatim>\<open>loader\<close>, and the table of known commands.\<close>

fun apart_regions :: "(u32 \<times> nat) list \<Rightarrow> bool" where
  "apart_regions [] \<longleftrightarrow> True"
| "apart_regions ((a, n) # rs) \<longleftrightarrow>
     unat a + n \<le> 8388608 \<and> list_all (\<lambda>(b, k). separate a n b k) rs \<and> apart_regions rs"

definition kernel_regions :: "kargs \<Rightarrow> nat \<Rightarrow> (u32 \<times> nat) list" where
  "kernel_regions K isize =
     [(bb_start K, Suc isize), (parse_at K, 220), (command_at K, 128), (elf_at K, 4), (dentry_at K, 40),
      (copy_buf_at K, 4096)]"

lemma separate_le: "separate a n b k \<Longrightarrow> i \<le> n \<Longrightarrow> j \<le> k \<Longrightarrow> separate a i b j"
  by (auto simp: separate_def)

lemma separate_high: "unat a + n \<le> 8388608 \<Longrightarrow> 8388608 \<le> unat b \<Longrightarrow> unat b + k \<le> 4294967296 \<Longrightarrow> separate a n b k"
  by (simp add: separate_def)

section \<open>The file\<close>

text \<open>An executable: a regular file with the ELF magic that reaches the word holding its entry
  point and fits into the program's page.\<close>

definition program_file :: "mem \<Rightarrow> u32 \<Rightarrow> u8 list \<Rightarrow> u8 list \<Rightarrow> bool" where
  "program_file m bb w content \<longleftrightarrow> wf_image m bb \<and> wf_dir m bb \<and>
     (case dir_find m bb w of
        None \<Rightarrow> False
      | Some e \<Rightarrow> dir_type m bb e = 2 \<and> wf_inode m bb (dir_inode m bb e) \<and>
          content = file_content m bb (dir_inode m bb e)) \<and>
     28 \<le> length content \<and> length content \<le> 3899392 \<and> take 4 content = [0x7F, 0x45, 0x4C, 0x46]"

lemma same_image_dir:
  assumes "same_image m bb m'" "wf_image m bb" "wf_dir m bb"
  shows "dir_count m' bb = dir_count m bb" "wf_dir m' bb"
    "i < dir_count m bb \<Longrightarrow> dir_name m' bb i = dir_name m bb i"
    "i < dir_count m bb \<Longrightarrow> dir_type m' bb i = dir_type m bb i"
    "i < dir_count m bb \<Longrightarrow> dir_inode m' bb i = dir_inode m bb i"
    "dir_find m' bb w = dir_find m bb w"
proof -
  have sz: "4096 \<le> Suc (image_size m bb)" "Suc (image_size m bb) \<le> 4294967296"
    using wf_image_bounds [OF assms(2)] by (simp_all add: image_size_def)
  have hd: "agree bb 4096 m m'" using agree_sub [OF assms(1), of 0 4096] sz by simp
  have c: "dir_count m' bb = dir_count m bb"
    using image_num(3) [OF agree_Suc [OF assms(1)] assms(2)] by (simp add: dir_count_def)
  then show "dir_count m' bb = dir_count m bb" "wf_dir m' bb" using assms(3) by (simp_all add: wf_dir_def)
  have n: "dir_name m' bb i = dir_name m bb i" if "i < dir_count m bb" for i
  proof -
    have "i < 63" using that assms(3) by (simp add: wf_dir_def)
    then have "agree (dir_entry bb i) 32 m m'"
      unfolding dir_entry_def by (intro agree_sub [OF hd]) simp_all
    then show ?thesis using cstr_upto_cong [of "dir_entry bb i" 32 m' m] by (simp add: dir_name_def agree_def)
  qed
  then show "i < dir_count m bb \<Longrightarrow> dir_name m' bb i = dir_name m bb i" .
  have t: "dir_type m' bb i = dir_type m bb i" "dir_inode m' bb i = dir_inode m bb i" if "i < dir_count m bb" for i
  proof -
    have "i < 63" using that assms(3) by (simp add: wf_dir_def)
    note E = dir_entry_type_inode [OF hd this]
    show "dir_type m' bb i = dir_type m bb i" "dir_inode m' bb i = dir_inode m bb i"
      using E by (simp_all add: dir_type_def dir_inode_def)
  qed
  then show "i < dir_count m bb \<Longrightarrow> dir_type m' bb i = dir_type m bb i"
    "i < dir_count m bb \<Longrightarrow> dir_inode m' bb i = dir_inode m bb i" by blast+
  have "find (\<lambda>i. dir_name m' bb i = take 32 w) is = find (\<lambda>i. dir_name m bb i = take 32 w) is"
    if "set is \<subseteq> {0..<dir_count m bb}" for "is"
    using that by (induction "is") (auto simp: n)
  then show "dir_find m' bb w = dir_find m bb w" by (simp add: dir_find_def c)
qed

lemma same_image_program_file:
  assumes "same_image m bb m'" "program_file m bb w content"
  shows "program_file m' bb w content"
proof -
  have wf: "wf_image m bb" "wf_dir m bb" using assms(2) by (simp_all add: program_file_def)
  obtain e where e: "dir_find m bb w = Some e" "wf_inode m bb (dir_inode m bb e)" "dir_type m bb e = 2"
    using assms(2) by (auto simp: program_file_def split: option.splits)
  note D = same_image_dir [OF assms(1) wf]
  have "e < dir_count m bb" by (rule dir_find_SomeD [OF e(1)])
  moreover have "28 \<le> length content" "length content \<le> 3899392" "take 4 content = [0x7F, 0x45, 0x4C, 0x46]"
    "content = file_content m bb (dir_inode m bb e)"
    using assms(2) e(1) by (auto simp: program_file_def)
  ultimately show ?thesis
    using D(2,6) D(4,5) [of e] same_image_sizes(4) [OF assms(1) wf(1)] e
      same_image_wf_inode [OF assms(1) wf(1) e(2)] same_image_content [OF assms(1) wf(1) e(2)]
    unfolding program_file_def by simp
qed

section \<open>The checks of execute\<close>

lemma known_command_table:
  assumes "cstring_at m (command_at K) w" "cstring_at m (parse_at K + word_of_nat (20 * i)) w" "i < 11"
  shows "known_command K m"
proof -
  let ?p = "\<lambda>i. strncmp m (command_at K) (parse_at K + word_of_nat (20 * i)) 128 = 0"
  have "?p i" by (simp only: strncmp_zero_iff cstring_at_upto [OF assms(1)] cstring_at_upto [OF assms(2)])
  moreover have "\<not> ?p i" if "i < first_from ?p 0 11"
    using first_from_spec [of 0 11 ?p] that by blast
  ultimately have "first_from ?p 0 11 \<le> i" by (metis not_le)
  with assms(3) show ?thesis unfolding known_command_def by linarith
qed

lemma log_printk_Nil [simp]: "log_printk [] s = s"
  by (simp add: log_printk_def)

lemma elf_magic_word: "load_bytes m a 4 = [0x7F, 0x45, 0x4C, 0x46] \<Longrightarrow> load32 m a = ELF_MAGIC"
  by (simp add: load32_bytes)

lemma kernel_regionsD:
  assumes "apart_regions (kernel_regions K n)"
  shows "unat (bb_start K) + Suc n \<le> 8388608" "unat (parse_at K) + 220 \<le> 8388608"
    "unat (command_at K) + 128 \<le> 8388608" "unat (elf_at K) + 4 \<le> 8388608" "unat (dentry_at K) + 40 \<le> 8388608"
    "unat (copy_buf_at K) + 4096 \<le> 8388608"
    "separate (bb_start K) (Suc n) (parse_at K) 220" "separate (bb_start K) (Suc n) (command_at K) 128"
    "separate (bb_start K) (Suc n) (elf_at K) 4" "separate (bb_start K) (Suc n) (dentry_at K) 40"
    "separate (bb_start K) (Suc n) (copy_buf_at K) 4096" "separate (parse_at K) 220 (command_at K) 128"
    "separate (command_at K) 128 (elf_at K) 4" "separate (command_at K) 128 (dentry_at K) 40"
    "separate (command_at K) 128 (copy_buf_at K) 4096" "separate (dentry_at K) 40 (copy_buf_at K) 4096"
  using assms by (simp_all add: kernel_regions_def)

lemma put_dentry_keeps:
  assumes "separate a n d 40" "length w < 20"
  shows "agree a n m (put_dentry m d (w @ [0]) ty ino)"
  using put_dentry_agree [of a n d "w @ [0]" m ty ino] assms by (simp add: max_def)

lemma exe_check_run:
  fixes s :: "'a pcbs_scheme"
  assumes f: "program_file (vmem s) (bb_start K) w content" and w: "cstring_at (vmem s) (command_at K) w" "length w < 20"
    and r: "apart_regions (kernel_regions K (image_size (vmem s) (bb_start K)))" and p: "paging_ok s"
  shows "\<exists>m. exe_check K s = Some (True, set_vmem m s) \<and>
    same_image (vmem s) (bb_start K) (vmem (set_vmem m s)) \<and>
    agree (command_at K) 128 (vmem s) (vmem (set_vmem m s))"
proof -
  let ?m = "vmem s" and ?bb = "bb_start K" and ?d = "dentry_at K"
  note R = kernel_regionsD [OF r]
  have wf: "wf_image ?m ?bb" "wf_dir ?m ?bb" using f by (simp_all add: program_file_def)
  obtain e where e: "dir_find ?m ?bb w = Some e" "dir_type ?m ?bb e = 2" "wf_inode ?m ?bb (dir_inode ?m ?bb e)"
    "content = file_content ?m ?bb (dir_inode ?m ?bb e)"
    using f by (auto simp: program_file_def split: option.splits)
  define ino where "ino = dir_inode ?m ?bb e"
  define m1 where "m1 = put_dentry ?m ?d (w @ [0]) 2 ino"
  have l: "28 \<le> length content" "take 4 content = [0x7F, 0x45, 0x4C, 0x46]" using f by (simp_all add: program_file_def)
  have hd: "separate ?bb 4096 ?d 40" "separate ?d (Suc (length w)) (command_at K) (Suc (length w))"
    using separate_le [OF R(10)] separate_le [OF R(14)] w(2) by (simp_all add: image_size_def separate_sym)
  have look: "read_dentry_by_name ?m ?bb (command_at K) ?d = Some (0, m1)"
    using read_dentry_by_name_run [OF wf(2) w(1), of ?d] hd w(2)
    by (simp add: max_def e(1,2) m1_def ino_def)
  have a1: "same_image ?m ?bb m1" "agree (command_at K) 128 ?m m1"
    unfolding m1_def using R(10,14) w(2) by (simp_all add: put_dentry_keeps)
  note I = same_image_facts [OF a1(1) wf(1)]
  have ino: "load32 m1 (dentry_inode_number ?d) = ino"
    by (simp add: m1_def put_dentry_def dentry_inode_number_def load32_store32)
  have c: "file_content m1 ?bb ino = content" "wf_inode m1 ?bb ino" "image_size m1 ?bb = image_size ?m ?bb"
    using I(3) I(5,6) [OF e(3)] e(4) by (simp_all add: ino_def)
  have L: "file_length m1 ?bb ino = length content" using c(1) length_file_content by metis
  have ne: "content \<noteq> []" using l(1) by auto
  define m2 where "m2 = store_bytes m1 (elf_at K) (take 4 content)"
  have clip: "4 = clip (file_length m1 ?bb ino) (unat (0 :: u32)) (unat (4 :: u32))"
    unfolding L using l(1) by (simp add: clip_def)
  have rd: "read_data m1 ?bb ino 0 (elf_at K) 4 = (word_of_nat 4, m2, [])"
    unfolding m2_def using read_data_in_block [OF I(4) c(2) _ _ clip] R(9) ne by (simp add: L c)
  have "load_bytes m2 (elf_at K) 4 = take 4 content"
    using load_store_bytes [of "take 4 content" m1 "elf_at K"] l(1) by (simp add: m2_def)
  then have elf: "load32 m2 (elf_at K) = ELF_MAGIC" using l(2) by (intro elf_magic_word) simp
  have "exe_check K s = Some (True, set_vmem m2 s)"
    by (simp add: exe_check_def look ino rd elf)
  moreover have keep: "agree ?bb (Suc (image_size ?m ?bb)) ?m m2" "agree (command_at K) 128 ?m m2"
    using agree_trans [OF a1(1)] agree_trans [OF a1(2)] agree_store_bytes [of _ _ "elf_at K" "take 4 content" m1] R(9,13) l(1)
    unfolding m2_def by simp_all
  ultimately show ?thesis
    using agree_trans [OF keep(1) agree_set_vmem [OF R(1) p]] agree_trans [OF keep(2) agree_set_vmem [OF R(3) p]]
    by (intro exI [of _ m2] conjI)
qed

section \<open>The run\<close>

lemma stored_cstring:
  assumes "0 \<notin> set s" "length s < 2147483648"
  shows "cstring_at (store_bytes m a (s @ [0])) a s"
proof -
  have "store_bytes m a (s @ [0]) (a + word_of_nat (length s)) = 0"
    using store_bytes_nth [of "length s" "s @ [0]" m a] assms(2) by (simp add: nth_append)
  moreover have "load_bytes (store_bytes m a (s @ [0])) a (length s) = s"
    using load_store_bytes [of "s @ [0]" m a] load_bytes_take [of "length s" "store_bytes m a (s @ [0])" a "Suc (length s)"] assms(2)
    by simp
  ultimately show ?thesis using assms by (simp add: cstring_at_def)
qed

lemma enter_process_memory:
  "ram (enter_process K i n b s) = ram s" "pd (enter_process K i n b s) = pd s"
  "vidmem_pt (enter_process K i n b s) = vidmem_pt s" "cr3 (enter_process K i n b s) = cr3 s"
  unfolding enter_process_def Let_def
  by (simp_all add: upd_pcb_def blocks_onlyD [OF blocks_only_new_pcb])

text \<open>A command that can be run: the command line names a known program, the image holds it and
  the kernel's own regions do not overlap.\<close>

definition runnable :: "kargs \<Rightarrow> 'a pcbs_scheme \<Rightarrow> u32 \<Rightarrow> u8 list \<Rightarrow> u8 list \<Rightarrow> u8 list \<Rightarrow> bool" where
  "runnable K s c w arg content \<longleftrightarrow>
     command_line (vmem s) c w arg \<and> length w < 20 \<and> separate c (length w + length arg + 2) (command_at K) 128 \<and>
     (\<exists>i<11. cstring_at (vmem s) (parse_at K + word_of_nat (20 * i)) w) \<and>
     program_file (vmem s) (bb_start K) w content \<and>
     apart_regions (kernel_regions K (image_size (vmem s) (bb_start K)))"

lemma paging_ok_task: "paging_ok s \<Longrightarrow> i < 10 \<Longrightarrow> paging_ok (set_new_task i 0 s)"
  by (simp add: paging_ok_def)

lemma load_bytes_sub:
  "k + j \<le> n \<Longrightarrow> load_bytes m (a + word_of_nat k) j = take j (drop k (load_bytes m a n))"
proof -
  assume "k + j \<le> n"
  then obtain r where n: "n = k + (j + r)" using le_Suc_ex by (metis add.assoc)
  show ?thesis unfolding n load_bytes_add [of m a k] load_bytes_add [of m _ j] by simp
qed

text \<open>The new address space: the loader fills the program's page.\<close>

lemma start_process_loads:
  fixes s :: "'a pcbs_scheme"
  assumes f: "program_file (vmem s) (bb_start K) w content" and w: "cstring_at (vmem s) (command_at K) w" "length w < 20"
    and r: "apart_regions (kernel_regions K (image_size (vmem s) (bb_start K)))" and p: "paging_ok s"
    and i: "i < 6" "length (pcb_ptr s) = 6"
  shows "\<exists>e s'. start_process K t n (proc_no i) buffer s = Some (Enters e, s') \<and> paging_ok s' \<and>
    load_bytes (vmem s') FILE_START (length content) = content \<and> bytes32 e = take 4 (drop 24 content)"
proof -
  let ?bb = "bb_start K" and ?d = "dentry_at K" and ?cb = "copy_buf_at K"
  define s3 where "s3 = set_new_task i 0 (s\<lparr>pcb_num := (pcb_num s)[t := proc_no i]\<rparr>)"
  let ?m = "vmem s3"
  note R = kernel_regionsD [OF r]
  have wf: "wf_image (vmem s) ?bb" using f by (simp add: program_file_def)
  have ram: "ram s3 = ram s" by (simp add: s3_def)
  have p3: "paging_ok s3" using i(1) p unfolding s3_def by (intro paging_ok_task) (simp_all add: paging_ok_def)
  note same = agree_low_ram [OF R(1) ram]
  note f3 = same_image_program_file [OF same f]
  have isz: "image_size ?m ?bb = image_size (vmem s) ?bb" by (rule same_image_sizes(3) [OF same wf])
  have w3: "cstring_at ?m (command_at K) w"
    using agree_cstring [OF agree_low_ram [OF R(3) ram] _ w(1)] w(2) by simp
  obtain e where e: "wf_image ?m ?bb" "wf_dir ?m ?bb" "dir_find ?m ?bb w = Some e" "dir_type ?m ?bb e = 2"
    "wf_inode ?m ?bb (dir_inode ?m ?bb e)" "content = file_content ?m ?bb (dir_inode ?m ?bb e)"
    using f3 by (auto simp: program_file_def split: option.splits)
  have len: "28 \<le> length content" "length content \<le> 3899392" using f by (simp_all add: program_file_def)
  have L: "length content = file_length ?m ?bb (dir_inode ?m ?bb e)" using e(6) by simp
  have dest: "unat (FILE_START :: u32) = 134512640" by simp
  have S: "separate ?bb (Suc (image_size ?m ?bb)) ?d (max 40 (Suc (length w)))"
    "separate ?d (Suc (length w)) (command_at K) (Suc (length w))"
    "separate ?bb (Suc (image_size ?m ?bb)) ?cb 4096"
    "separate ?bb (Suc (image_size ?m ?bb)) FILE_START (length content)"
    "separate FILE_START (length content) ?cb 4096"
    using R(10,11) separate_le [OF R(14) [unfolded separate_sym [of "command_at K"]]] w(2)
      separate_high [OF R(1), of FILE_START "length content"] len(2)
      separate_high [OF R(6), of FILE_START "length content", unfolded separate_sym [of ?cb]]
    unfolding isz dest by (simp_all add: max_def)
  obtain m where m: "loader ?m ?bb ?d ?cb FILE_START (command_at K) = Some (m, [])"
    "load_bytes m FILE_START (length content) = content"
    using loader_run [OF e(1,2) w3 e(3-5) L S] e(6) by metis
  define s4 where "s4 = set_vmem m s3"
  have run: "start_process K t n (proc_no i) buffer s =
      Some (Enters (load32 (vmem s4) (FILE_START + 4 * 6)), enter_process K i n buffer s4)"
    unfolding start_process_run [OF i] Let_def s3_def [symmetric] s4_def by (simp add: m(1))
  have "vmem s4 a = m a" if "in_region FILE_START (length content) a" for a
  proof -
    have "in_region PROG_START 4194304 a"
      using in_region_sub [of PROG_START 294912 "length content" a 4194304] that len(2) by simp
    then show ?thesis unfolding s4_def by (intro vmem_set_vmem [OF p3]) simp
  qed
  then have c: "load_bytes (vmem s4) FILE_START (length content) = content"
    using load_bytes_cong [of FILE_START "length content" "vmem s4" m] m(2) len(2) by simp
  have v: "vmem (enter_process K i n buffer s4) = vmem s4"
    by (rule vmem_cong) (simp_all add: enter_process_memory)
  have "load_bytes (vmem s4) (FILE_START + word_of_nat 24) 4 = take 4 (drop 24 content)"
    using load_bytes_sub [of 24 4 "length content" "vmem s4" FILE_START] len(1) by (simp add: c)
  then have "bytes32 (load32 (vmem s4) (FILE_START + 4 * 6)) = take 4 (drop 24 content)"
    by (simp add: bytes32_load32)
  moreover have "paging_ok (enter_process K i n buffer s4)"
    using p3 by (simp add: paging_ok_def enter_process_memory s4_def)
  ultimately show ?thesis using run c by (simp add: v)
qed

text \<open>Up to the choice of the slot \<^verbatim>\<open>execute\<close> only reads: it gets as far as \<open>s2\<close>.\<close>

lemma execute_upto:
  fixes s :: "'a pcbs_scheme"
  assumes p: "paging_ok s" and t: "unat (current_terminal s) = t" and r: "runnable K s c w arg content"
  defines "buffer \<equiv> arg @ replicate (128 - length arg) 0"
  obtains s2 where "same_procs s s2" "paging_ok s2" "program_file (vmem s2) (bb_start K) w content"
    "cstring_at (vmem s2) (command_at K) w" "image_size (vmem s2) (bb_start K) = image_size (vmem s) (bb_start K)"
    "length buffer = 128" "0 \<in> set buffer" "length w < 20"
    "execute K c s = (if find_new_pcb s2 = ERR then Some (Returns ERR, s2)
       else start_process K t (pcb_num s2 ! t) (find_new_pcb s2) buffer s2)"
proof -
  let ?m = "vmem s" and ?bb = "bb_start K"
  obtain sep i where c: "cstring_at ?m c (w @ sep # arg)" "sep = 10 \<or> sep = 0x20" "10 \<notin> set w" "0x20 \<notin> set w"
    "length w < 20" "length arg < 128" "separate c (length w + length arg + 2) (command_at K) 128"
    and i: "i < 11" "cstring_at ?m (parse_at K + word_of_nat (20 * i)) w"
    and f: "program_file ?m ?bb w content" and rg: "apart_regions (kernel_regions K (image_size ?m ?bb))"
    using r by (auto simp: runnable_def command_line_def)
  note R = kernel_regionsD [OF rg]
  have w0: "0 \<notin> set w" using c(1) by (simp add: cstring_at_def)
  have v0: "vmem (cli s) = ?m" by (rule vmem_cong) (simp_all add: machine_simps)
  have p0: "paging_ok (cli s)" using p by (simp add: paging_ok_def machine_simps)
  define m1 where "m1 = store_bytes ?m (command_at K) (w @ [0])"
  have w1: "copy_word (vmem (cli s)) c (command_at K) 0 = Some (m1, length w)"
    unfolding v0 m1_def using c(1-5) separate_le [OF c(7), of "Suc (length w)" 128]
    by (intro copy_word_run [where sep = sep]) simp_all
  define s1 where "s1 = set_vmem m1 (cli s)"
  have p1: "paging_ok s1" using p0 by (simp add: s1_def)
  have st: "agree a k ?m m1" if "separate a k (command_at K) 128" for a k
    unfolding m1_def using separate_le [OF that, of k "Suc (length w)"] c(5) by (intro agree_store_bytes) simp
  have "cstring_at m1 c (w @ sep # arg)" using agree_cstring [OF st [OF c(7)] _ c(1)] by simp
  from copy_args_run [OF this c(6)]
  have a1: "copy_args m1 c (length w + 1) 0 (replicate 128 0) = Some buffer" by (simp add: buffer_def)
  have same1: "same_image ?m ?bb (vmem s1)" and pa: "agree (parse_at K) 220 ?m (vmem s1)"
    using agree_trans [OF st [OF R(8)] agree_set_vmem [OF R(1) p0]]
      agree_trans [OF st [OF R(12)] agree_set_vmem [OF R(2) p0]] by (simp_all add: s1_def)
  have wf: "wf_image ?m ?bb" using f by (simp add: program_file_def)
  have isz: "image_size (vmem s1) ?bb = image_size ?m ?bb" by (rule same_image_sizes(3) [OF same1 wf])
  note f1 = same_image_program_file [OF same1 f]
  have cmd: "cstring_at (vmem s1) (command_at K) w"
    unfolding s1_def using c(5) w0
    by (intro agree_cstring [OF agree_set_vmem [OF R(3) p0, of m1]]) (simp_all add: m1_def stored_cstring)
  have "agree (parse_at K + word_of_nat (20 * i)) 20 ?m (vmem s1)"
    using i(1) by (intro agree_sub [OF pa]) simp_all
  from agree_cstring [OF this c(5) i(2)] have known: "known_command K (vmem s1)"
    by (rule known_command_table [OF cmd _ i(1)])
  obtain m2 where x: "exe_check K s1 = Some (True, set_vmem m2 s1)"
    and same2: "same_image (vmem s1) ?bb (vmem (set_vmem m2 s1))"
    and cmd2: "agree (command_at K) 128 (vmem s1) (vmem (set_vmem m2 s1))"
    using exe_check_run [OF f1 cmd c(5) _ p1] rg isz by auto
  define s2 where "s2 = set_vmem m2 s1"
  have s2: "same_procs s s2"
    unfolding s2_def s1_def by (intro same_procs_trans [OF same_procs_trans [OF same_procs_machine(1,8)] same_procs_machine(8)])
  have f2: "program_file (vmem s2) ?bb w content" unfolding s2_def by (rule same_image_program_file [OF same2 f1])
  have isz2: "image_size (vmem s2) ?bb = image_size ?m ?bb"
    using same_image_sizes(3) [OF same2] f1 isz by (simp add: s2_def program_file_def)
  have cw2: "cstring_at (vmem s2) (command_at K) w"
    unfolding s2_def using agree_cstring [OF cmd2 _ cmd] c(5) by simp
  have p2: "paging_ok s2" using p1 by (simp add: s2_def)
  have buf: "length buffer = 128" "0 \<in> set buffer" using c(6) by (simp_all add: buffer_def)
  have ind: "unat (get_current_process (cli s)) = t" using t by (simp add: get_current_process_def cli_def)
  have "execute K c s = (if find_new_pcb s2 = ERR then Some (Returns ERR, s2)
       else start_process K t (pcb_num s2 ! t) (find_new_pcb s2) buffer s2)"
    unfolding execute_def Let_def ind w1 option.case prod.case a1 s1_def [symmetric]
    using known x by (simp add: s2_def [symmetric])
  from that [OF s2 p2 f2 cw2 isz2 buf c(5) this] show thesis .
qed

lemma execute_run:
  fixes s :: "'a pcbs_scheme"
  assumes ok: "stacks_ok st s" "paging_ok s" and t: "unat (current_terminal s) = t" "t < 3"
    and r: "runnable K s c w arg content"
    and n: "n < 6" "n \<notin> set (all_slots st)" "\<forall>j<n. j \<in> set (all_slots st)"
  defines "buffer \<equiv> arg @ replicate (128 - length arg) 0"
  shows "\<exists>e s'. execute K c s = Some (Enters e, s') \<and> stacks_ok (st(t := n # st t)) s' \<and> paging_ok s' \<and>
    pushed K (st t) n buffer s s' \<and>
    load_bytes (vmem s') FILE_START (length content) = content \<and> bytes32 e = take 4 (drop 24 content)"
proof -
  obtain s2 where s2: "same_procs s s2" and p2: "paging_ok s2" and f2: "program_file (vmem s2) (bb_start K) w content"
    and cw2: "cstring_at (vmem s2) (command_at K) w"
    and isz2: "image_size (vmem s2) (bb_start K) = image_size (vmem s) (bb_start K)"
    and buf: "length buffer = 128" "0 \<in> set buffer" and w: "length w < 20"
    and run: "execute K c s = (if find_new_pcb s2 = ERR then Some (Returns ERR, s2)
       else start_process K t (pcb_num s2 ! t) (find_new_pcb s2) buffer s2)"
    unfolding buffer_def by (rule execute_upto [OF ok(2) t(1) r])
  have rg: "apart_regions (kernel_regions K (image_size (vmem s) (bb_start K)))" using r by (simp add: runnable_def)
  have ok2: "stacks_ok st s2" using stacks_ok_same [OF s2] ok(1) by simp
  have new: "find_new_pcb s2 = proc_no n"
  proof -
    have free: "pcb_ptr s2 ! j = NULL \<longleftrightarrow> j \<notin> set (all_slots st)" if "j < 6" for j
      using stacks_okD(7) [OF ok2 that] pcb_address_nonzero [OF that] by simp
    have "find_new_pcb s2 \<noteq> ERR"
    proof
      assume err: "find_new_pcb s2 = ERR"
      then have "\<forall>j<6. pcb_ptr s2 ! j \<noteq> NULL" using find_new_pcb_cases [of s2] proc_no(3) by metis
      then show False using free [OF n(1)] n(1,2) by blast
    qed
    from find_new_pcb_slot [OF ok2 this] obtain j where
      j: "j < 6" "find_new_pcb s2 = proc_no j" "j \<notin> set (all_slots st)" "\<forall>k<j. k \<in> set (all_slots st)" by blast
    have "\<not> j < n" "\<not> n < j" using j(3,4) n(2,3) by blast+
    then have "j = n" by simp
    with j(2) show ?thesis by simp
  qed
  obtain e s' where e: "start_process K t (pcb_num s2 ! t) (proc_no n) buffer s2 = Some (Enters e, s')" "paging_ok s'"
    "load_bytes (vmem s') FILE_START (length content) = content" "bytes32 e = take 4 (drop 24 content)"
    using start_process_loads [OF f2 cw2 w _ p2 n(1) stacks_okD(1) [OF ok2]] rg isz2 by metis
  have run: "execute K c s = Some (Enters e, s')" using run new proc_no(3) [OF n(1)] e(1) by simp
  have "stacks_ok (st(t := n # st t)) s' \<and> pushed K (st t) n buffer s2 s'"
    using start_process_pushes [OF ok2 t(2) n(1,2) buf e(1)] by blast
  moreover have "pushed K (st t) n buffer s s' = pushed K (st t) n buffer s2 s'"
    using s2 by (simp add: pushed_def same_procs_def block_def)
  ultimately show ?thesis using run e by blast
qed

text \<open>Whether \<^verbatim>\<open>execute\<close> enters the program depends on the table only.\<close>

lemma execute_ends:
  fixes s :: "'a pcbs_scheme"
  assumes ok: "stacks_ok st s" "paging_ok s" and t: "unat (current_terminal s) < 3" and r: "runnable K s c w arg content"
  shows "\<exists>out s'. execute K c s = Some (out, s') \<and>
    (if \<exists>i<6. pcb_ptr s ! i = NULL then \<exists>e. out = Enters e else out = Returns ERR)"
proof (cases "\<exists>i<6. pcb_ptr s ! i = NULL")
  case True
  define n where "n = (LEAST i. i < 6 \<and> pcb_ptr s ! i = NULL)"
  have n: "n < 6" "pcb_ptr s ! n = NULL" using LeastI_ex [OF True] by (simp_all add: n_def)
  have lt: "pcb_ptr s ! j \<noteq> NULL" if "j < n" for j
    using not_less_Least [OF that [unfolded n_def]] that n(1) by auto
  have free: "pcb_ptr s ! j = NULL \<longleftrightarrow> j \<notin> set (all_slots st)" if "j < 6" for j
    using stacks_okD(7) [OF ok(1) that] pcb_address_nonzero [OF that] by simp
  have "n \<notin> set (all_slots st)" "\<forall>j<n. j \<in> set (all_slots st)" using n lt free by (blast, meson less_trans n(1) free lt)
  from execute_run [OF ok refl t r n(1) this] True show ?thesis by fastforce
next
  case False
  obtain s2 where s2: "same_procs s s2"
    "execute K c s = (if find_new_pcb s2 = ERR then Some (Returns ERR, s2)
       else start_process K (unat (current_terminal s)) (pcb_num s2 ! unat (current_terminal s)) (find_new_pcb s2)
         (arg @ replicate (128 - length arg) 0) s2)"
    by (rule execute_upto [OF ok(2) refl r])
  have "find_new_pcb s2 = ERR" using find_new_pcb_cases [of s2] False s2(1) by (auto simp: same_procs_def)
  then show ?thesis using False s2(2) by auto
qed

end
