(* ===== verification/ProcessProperties.thy ===== *)
theory ProcessProperties
  imports Programs
begin

text \<open>
  The properties of \<^verbatim>\<open>execute\<close> and \<^verbatim>\<open>halt\<close>, over \<open>ProcessTable\<close> and \<open>Programs\<close>, and a small
  machine on which they are applied: an image with one executable, the file \<^verbatim>\<open>ls\<close> of 40 bytes, at
  \<open>0x10000\<close>, and the command lines \<^verbatim>\<open>ls a\<close> at \<open>0x5000\<close> and
  \<^verbatim>\<open>ls\<close> at \<open>0x5100\<close>.
\<close>

section \<open>A sample machine\<close>

definition exec_ram :: mem where
  "exec_ram a =
    (if a < 0x10000 then
       if a = 0x4064 then 0x6C else if a = 0x4065 then 0x73
       else if a = 0x5000 then 0x6C else if a = 0x5001 then 0x73 else if a = 0x5002 then 0x20
       else if a = 0x5003 then 0x61
       else if a = 0x5100 then 0x6C else if a = 0x5101 then 0x73 else if a = 0x5102 then 10 else 0
     else if a < 0x12000 then
       if a = 0x10000 then 1 else if a = 0x10004 then 1 else if a = 0x10008 then 1
       else if a = 0x10040 then 0x6C else if a = 0x10041 then 0x73 else if a = 0x10060 then 2
       else if a = 0x11000 then 40 else 0
     else if a = 0x12000 then 0x7F else if a = 0x12001 then 0x45 else if a = 0x12002 then 0x4C
     else if a = 0x12003 then 0x46 else if a = 0x12018 then 0x94 else if a = 0x12019 then 0x80
     else if a = 0x1201A then 4 else if a = 0x1201B then 8 else 0)"

definition sample_kargs :: kargs where
  "sample_kargs = \<lparr>dev = \<lambda>_ _. 0, bb_start = 0x10000, dentry_at = 0x6200, copy_buf_at = 0x7000, command_at = 0x6000,
     elf_at = 0x6100, parse_at = 0x4000, shell_at = 0x5100, cur_esp = 0x7FBF00, cur_ebp = 0x7FBF40\<rparr>"

definition sample_exec :: pcbs where
  "sample_exec = (sample_pcbs 0 0)\<lparr>ram := exec_ram\<rparr>"

lemma sample_exec_fields [simp]:
  "ram sample_exec = exec_ram" "pcb_mem sample_exec = (\<lambda>_. sample_pcb)" "pcb_ptr sample_exec = replicate 6 0"
  "pcb_num sample_exec = replicate 3 0" "current_terminal sample_exec = 0" "terminal_number sample_exec = 0"
  "fops sample_exec = (\<lambda>_ _. stdin_ops)" "paging_ok sample_exec"
proof -
  show "paging_ok sample_exec"
    using sample_tty_fields(5) [of 0 0] unfolding paging_ok_def sample_exec_def sample_pcbs_def tty.extend_def by simp
qed (simp_all add: sample_exec_def sample_pcbs_def tty.extend_def)

lemma sample_vmem [simp]: "unat a < 8388608 \<Longrightarrow> vmem sample_exec a = exec_ram a"
  by (simp add: vmem_low)

lemma sample_stacks: "stacks_ok (\<lambda>_. []) sample_exec"
  by (simp add: stacks_ok_def all_slots_def sample_pcb_def top_no_def nth_replicate)

lemma sample_exec_words:
  "load32 (vmem sample_exec) 0x10000 = 1" "load32 (vmem sample_exec) 0x10004 = 1"
  "load32 (vmem sample_exec) 0x10008 = 1" "load32 (vmem sample_exec) 0x10060 = 2"
  "load32 (vmem sample_exec) 0x10064 = 0" "load32 (vmem sample_exec) 0x11000 = 40"
  "load32 (vmem sample_exec) 0x11004 = 0"
  by (simp_all add: load32_def exec_ram_def)

lemma sample_exec_sizes:
  "num_inodes (vmem sample_exec) 0x10000 = 1" "num_blocks (vmem sample_exec) 0x10000 = 1"
  "image_size (vmem sample_exec) 0x10000 = 12288" "dir_count (vmem sample_exec) 0x10000 = 1"
  "file_length (vmem sample_exec) 0x10000 0 = 40" "block_num (vmem sample_exec) 0x10000 0 0 = 0"
  by (simp_all add: num_inodes_def num_blocks_def image_size_def dir_count_def file_length_def
      inode_at_def block_num_def sample_exec_words)

lemma sample_exec_dir:
  "dir_find (vmem sample_exec) 0x10000 [0x6C, 0x73] = Some 0" "dir_type (vmem sample_exec) 0x10000 0 = 2"
  "dir_inode (vmem sample_exec) 0x10000 0 = 0"
  by (simp_all add: dir_find_def dir_name_def dir_type_def dir_inode_def dir_entry_def sample_exec_words
      sample_exec_sizes cstr_upto_numeral exec_ram_def)

definition sample_content :: "u8 list" where
  "sample_content = [0x7F, 0x45, 0x4C, 0x46] @ replicate 20 0 @ [0x94, 0x80, 4, 8] @ replicate 12 0"

lemma sample_exec_content: "file_content (vmem sample_exec) 0x10000 0 = sample_content"
proof -
  have v: "vmem sample_exec (0x12000 + word_of_nat p) = exec_ram (0x12000 + word_of_nat p)" if "p < 40" for p
  proof (rule sample_vmem)
    have "unat (word_of_nat (73728 + p) :: u32) = 73728 + p" using that by (intro unat_u32_of_nat) simp
    then show "unat (0x12000 + word_of_nat p :: u32) < 8388608" using that by simp
  qed
  have "file_content (vmem sample_exec) 0x10000 0 = map (\<lambda>p. exec_ram (0x12000 + word_of_nat p)) [0..<40]"
    using v by (auto simp: file_content_def sample_exec_sizes file_byte_def block_at_def)
  also have "\<dots> = sample_content" by code_simp
  finally show ?thesis .
qed

lemma sample_runnable:
  "runnable sample_kargs sample_exec 0x5000 [0x6C, 0x73] [0x61] sample_content"
  "runnable sample_kargs sample_exec 0x5100 [0x6C, 0x73] [] sample_content"
proof -
  have c: "cstring_at (vmem sample_exec) 0x5000 ([0x6C, 0x73] @ 0x20 # [0x61])"
    "cstring_at (vmem sample_exec) 0x5100 ([0x6C, 0x73] @ 10 # [])"
    "cstring_at (vmem sample_exec) (0x4000 + word_of_nat (20 * 5)) [0x6C, 0x73]"
    by (simp_all add: cstring_at_def exec_ram_def)
  have f: "program_file (vmem sample_exec) 0x10000 [0x6C, 0x73] sample_content"
    unfolding program_file_def sample_exec_dir option.case sample_exec_content
    by (simp add: wf_image_def wf_dir_def wf_inode_def sample_exec_sizes sample_content_def)
  have "apart_regions (kernel_regions sample_kargs 12288)"
    by (simp add: kernel_regions_def sample_kargs_def separate_def)
  note F = c f this
  show "runnable sample_kargs sample_exec 0x5000 [0x6C, 0x73] [0x61] sample_content"
    unfolding runnable_def command_line_def using F
    by (intro conjI exI [of _ "0x20"] exI [of _ 5]) (simp_all add: sample_kargs_def sample_exec_sizes separate_def)
  show "runnable sample_kargs sample_exec 0x5100 [0x6C, 0x73] [] sample_content"
    unfolding runnable_def command_line_def using F
    by (intro conjI exI [of _ "10"] exI [of _ 5]) (simp_all add: sample_kargs_def sample_exec_sizes separate_def)
qed

section \<open>Properties\<close>

text \<open>C6: A command line that names a known program held by a well-formed image is executed
  completely: \<^verbatim>\<open>execute\<close> takes the first free slot, pushes it on the running terminal's stack,
  gives the process its terminal, its parent, fresh descriptors and the rest of the line as
  argument, leaves exactly the file's bytes at the load address of the new address space, and
  enters at the address the file's bytes 24 to 27 hold.\<close>

theorem execute_runs_program:
  assumes "stacks_ok st s" "paging_ok s" "unat (current_terminal s) = t" "t < 3"
    and "runnable K s c w arg content"
    and "n < 6" "n \<notin> set (all_slots st)" "\<forall>j<n. j \<in> set (all_slots st)"
  shows "\<exists>e s'. execute K c s = Some (Enters e, s') \<and> stacks_ok (st(t := n # st t)) s' \<and> paging_ok s' \<and>
    pushed K (st t) n (arg @ replicate (128 - length arg) 0) s s' \<and>
    load_bytes (vmem s') 0x08048000 (length content) = content \<and> bytes32 e = take 4 (drop 24 content)"
  using execute_run [OF assms] .

theorem execute_runs_program_witness:
  "\<exists>e s'. execute sample_kargs 0x5000 sample_exec = Some (Enters e, s') \<and>
     load_bytes (vmem s') 0x08048000 40 = sample_content \<and> bytes32 e = [0x94, 0x80, 4, 8]"
  using execute_runs_program [OF sample_stacks _ _ _ sample_runnable(1), of 0 0]
  by (auto simp: all_slots_def sample_content_def)

text \<open>A call of \<^verbatim>\<open>execute\<close> that comes to an end, whatever the command, either reports an error
  and leaves the process table as it was, or pushes the first free slot on the stack of the
  running terminal, with the block of the parent changed in its saved registers only.\<close>

theorem execute_pushes_or_fails:
  assumes "stacks_ok st s" "unat (current_terminal s) = t" "t < 3" "execute K command s = Some (out, s')"
  shows "out = Returns ERR \<and> stacks_ok st s' \<and> same_procs s s' \<or>
    (\<exists>i<6. i \<notin> set (all_slots st) \<and> (\<forall>j<i. j \<in> set (all_slots st)) \<and> (\<exists>e. out = Enters e) \<and>
       stacks_ok (st(t := i # st t)) s' \<and> (\<exists>buffer. pushed K (st t) i buffer s s'))"
  using execute_table [OF assms] .

theorem execute_pushes_or_fails_witness:
  "\<exists>e s'. execute sample_kargs 0x5000 sample_exec = Some (Enters e, s') \<and> stacks_ok ((\<lambda>_. [])(0 := [0])) s'"
proof -
  obtain e s' where run: "execute sample_kargs 0x5000 sample_exec = Some (Enters e, s')"
    using execute_run [OF sample_stacks _ _ _ sample_runnable(1), of 0 0] by (auto simp: all_slots_def)
  have "unat (current_terminal sample_exec) = 0" by simp
  from execute_pushes_or_fails [OF sample_stacks this _ run] run show ?thesis
    by (auto simp: all_slots_def)
qed

section \<open>halt\<close>

lemma paging_ok_restore:
  assumes "paging_ok s" "pd s' = pd s" "cr3 s' < 10"
    "vidmem_pt s' = upd2 (vidmem_pt s) i 0 (\<lambda>e. e\<lparr>base_address := ucast (drop_bit 12 VIDEO)\<rparr>)"
  shows "paging_ok s'"
proof -
  have v: "\<exists>j\<in>set [0..<4]. frame (base_address (vidmem_pt s' k 0)) = VIDEO + word_of_nat j * FOUR_KB"
    if "\<exists>j\<in>set [0..<4]. frame (base_address (vidmem_pt s k 0)) = VIDEO + word_of_nat j * FOUR_KB" for k
  proof (cases "k = i")
    case True
    then show ?thesis by (intro bexI [of _ 0]) (simp_all add: assms(4) upd2_def frame_def)
  next
    case False
    then show ?thesis using that by (simp add: assms(4) upd2_def)
  qed
  then show ?thesis using assms(1,3) unfolding paging_ok_def by (simp add: assms(2,4) upd2_def)
qed

lemma halt_run_parent:
  assumes ok: "stacks_ok st s" and t: "unat (current_terminal s) = t" "t < 3" "st t = i # j # is"
  shows "\<exists>s'. halt K status s = Some (Resumes (esp (block s j)) (ebp (block s j)) (ucast status), s') \<and>
    stacks_ok (st(t := j # is)) s' \<and> pcb_ptr s' = (pcb_ptr s)[i := 0] \<and> pcb_num s' = (pcb_num s)[t := proc_no j] \<and>
    pcb_mem s' = pcb_mem s \<and> fops s' = fops s \<and> current_terminal s' = current_terminal s \<and>
    cr3 s' = j \<and> tss_esp0 s' = KERNEL_BOTTOM - STACK_SIZE * word_of_nat j \<and> (paging_ok s \<longrightarrow> paging_ok s')"
proof -
  define s' where "s' = set_new_task j 0 ((halted t i s)\<lparr>pcb_num := (pcb_num s)[t := proc_no j],
      tss_esp0 := KERNEL_BOTTOM - STACK_SIZE * word_of_nat j, tss_ss0 := KERNEL_DS\<rparr>)"
  have run: "halt K status s = Some (Resumes (esp (block s j)) (ebp (block s j)) (ucast status), s')"
    using halt_run [OF ok t] by (simp add: s'_def)
  have same: "same_procs ((halted t i s)\<lparr>pcb_num := (pcb_num s)[t := proc_no j],
      tss_esp0 := KERNEL_BOTTOM - STACK_SIZE * word_of_nat j, tss_ss0 := KERNEL_DS\<rparr>) s'"
    unfolding s'_def by (rule same_procs_machine(9))
  then have f: "pcb_mem s' = pcb_mem s" "pcb_ptr s' = (pcb_ptr s)[i := 0]" "pcb_num s' = (pcb_num s)[t := proc_no j]"
    "fops s' = fops s" "current_terminal s' = current_terminal s"
    by (simp_all add: same_procs_def halted_fields)
  have "pcb_num s' = (pcb_num s)[t := top_no (j # is)]" using f(3) by (simp add: top_no_def)
  note pop = stacks_pop [OF ok t(2,3) f(1,2) this]
  have j: "j < 6" using stacks_okD(10) [OF ok t(2), of j] by (simp add: t(3))
  have c: "cr3 s' = j" "tss_esp0 s' = KERNEL_BOTTOM - STACK_SIZE * word_of_nat j"
    by (simp_all add: s'_def) (simp add: set_new_task_def set_register_def machine_simps)
  have tabs: "pd s' = pd s"
    "vidmem_pt s' = upd2 (vidmem_pt s) i 0 (\<lambda>e. e\<lparr>base_address := ucast (drop_bit 12 VIDEO)\<rparr>)"
    by (simp_all add: s'_def halted_memory)
  have "cr3 s' < 10" using j c(1) by simp
  note pg = paging_ok_restore [OF _ tabs(1) this tabs(2)]
  show ?thesis by (intro exI [of _ s'] conjI impI run pop f c pg)
qed

text \<open>C26: When a program that another one started halts, the parent becomes the running program
  again: its stack registers are the ones \<^verbatim>\<open>execute\<close> saved, the result is the status as an
  unsigned byte, the program's slot is free, and the parent's address space and kernel stack are
  current.  No block changes, so the descriptors of the ended program stay marked as used.\<close>

theorem halt_resumes_parent:
  assumes "stacks_ok st s" "unat (current_terminal s) = t" "t < 3" "st t = i # j # is"
  shows "\<exists>s'. halt K status s = Some (Resumes (esp (block s j)) (ebp (block s j)) (ucast status), s') \<and>
    stacks_ok (st(t := j # is)) s' \<and> pcb_ptr s' = (pcb_ptr s)[i := 0] \<and> pcb_num s' = (pcb_num s)[t := proc_no j] \<and>
    pcb_mem s' = pcb_mem s \<and> fops s' = fops s \<and> current_terminal s' = current_terminal s \<and>
    cr3 s' = j \<and> tss_esp0 s' = KERNEL_BOTTOM - STACK_SIZE * word_of_nat j \<and> (paging_ok s \<longrightarrow> paging_ok s')"
  using halt_run_parent [OF assms] .

section \<open>A program and its end\<close>

text \<open>What a program may do to the table while it runs: change its own block, except for the
  links.\<close>

definition child_only :: "nat \<Rightarrow> 'a pcbs_scheme \<Rightarrow> 'a pcbs_scheme \<Rightarrow> bool" where
  "child_only i s s' \<longleftrightarrow> pcb_ptr s' = pcb_ptr s \<and> pcb_num s' = pcb_num s \<and> current_terminal s' = current_terminal s \<and>
     (\<forall>q. q = pcb_address (proc_no i) \<or> pcb_mem s' q = pcb_mem s q) \<and>
     parent (block s' i) = parent (block s i) \<and> pid (block s' i) = pid (block s i) \<and>
     length (files (block s' i)) = length (files (block s i)) \<and> length (args (block s' i)) = length (args (block s i))"

lemma child_only_refl [simp]: "child_only i s s"
  by (simp add: child_only_def)

lemma child_only_trans: "child_only i s s' \<Longrightarrow> child_only i s' s'' \<Longrightarrow> child_only i s s''"
  unfolding child_only_def by metis

lemma same_procs_child_only: "same_procs s s' \<Longrightarrow> child_only i s s'"
  by (simp add: child_only_def same_procs_def block_def)

lemma child_only_other: "child_only i s s' \<Longrightarrow> i < 6 \<Longrightarrow> j < 6 \<Longrightarrow> j \<noteq> i \<Longrightarrow> block s' j = block s j"
  using pcb_address_inj unfolding child_only_def block_def by metis

lemma child_only_stacks:
  assumes c: "child_only i s s'" and ok: "stacks_ok st s" and i: "i < 6"
  shows "stacks_ok st s'"
proof -
  note D = stacks_okD [OF ok]
  have links: "parent (block s' j) = parent (block s j) \<and> pid (block s' j) = pid (block s j)" if "j < 6" for j
    using c child_only_other [OF c i that] by (cases "j = i") (simp_all add: child_only_def)
  have "parents_chain (block s') (st t)" if "t < 3" for t
    using D(9,10) [OF that] links by (subst parents_chain_cong [where b = "block s"]) auto
  moreover have "length (files (pcb_mem s' p)) = 8 \<and> length (args (pcb_mem s' p)) = 128" for p
    using c D(3,4) unfolding child_only_def block_def by (cases "p = pcb_address (proc_no i)") auto
  moreover have "pcb_ptr s' = pcb_ptr s" "pcb_num s' = pcb_num s" using c by (simp_all add: child_only_def)
  ultimately show ?thesis using ok unfolding stacks_ok_def by auto
qed

lemma stacks_ok_tables:
  assumes "stacks_ok st s" "stacks_ok st s'"
  shows "pcb_ptr s' = pcb_ptr s" "pcb_num s' = pcb_num s"
  using stacks_okD(1,2,7,8) [OF assms(1)] stacks_okD(1,2,7,8) [OF assms(2)] by (auto intro!: nth_equalityI)

text \<open>C7: Running a program is transparent to its parent.  Whatever the command, once \<^verbatim>\<open>execute\<close>
  has entered it, the program has changed its own block at will and \<^verbatim>\<open>halt\<close> is called, the kernel
  continues the parent where it called \<^verbatim>\<open>execute\<close>, with the status as result, and the process
  table is what it was: no block of another process has changed, the parent's only in its saved
  registers.\<close>

theorem execute_halt_roundtrip:
  assumes ok: "stacks_ok st s" and t: "unat (current_terminal s) = t" "t < 3" "st t = j # js"
    and run: "execute K c s = Some (Enters e, s1)" and child: "child_only (unat (pcb_num s1 ! t) - 1) s1 s2"
  shows "\<exists>s3. halt K' status s2 = Some (Resumes (cur_esp K) (cur_ebp K) (ucast status), s3) \<and>
    stacks_ok st s3 \<and> pcb_ptr s3 = pcb_ptr s \<and> pcb_num s3 = pcb_num s \<and> cr3 s3 = j \<and>
    block s3 j = (block s j)\<lparr>esp := cur_esp K, ebp := cur_ebp K\<rparr> \<and>
    (\<forall>k\<in>set (all_slots st) - {j}. block s3 k = block s k)"
proof -
  obtain i buffer where i: "i < 6" "i \<notin> set (all_slots st)" "stacks_ok (st(t := i # st t)) s1" "pushed K (st t) i buffer s s1"
    using execute_table [OF ok t(1,2) run] by auto
  have "pcb_num s1 ! t = proc_no i" using stacks_okD(8) [OF i(3) t(2)] by (simp add: top_no_def)
  then have ch: "child_only i s1 s2" using child proc_no(1) [OF i(1)] by simp
  have j: "j \<in> set (all_slots st)" "j < 6"
    using all_slots_pop(4) [where st = st, OF t(2,3)] stacks_okD(6) [OF ok] by blast+
  then have ne: "j \<noteq> i" using i(2) by blast
  have ok2: "stacks_ok (st(t := i # st t)) s2" by (rule child_only_stacks [OF ch i(3,1)])
  have ct: "unat (current_terminal s2) = t" "(st(t := i # st t)) t = i # j # js"
    using ch i(4) t(1,3) by (simp_all add: child_only_def pushed_def)
  have b2: "block s2 j = (block s j)\<lparr>esp := cur_esp K, ebp := cur_ebp K\<rparr>"
    using child_only_other [OF ch i(1) j(2) ne] i(4) t(3) by (simp add: pushed_def)
  obtain s3 where s3: "halt K' status s2 = Some (Resumes (esp (block s2 j)) (ebp (block s2 j)) (ucast status), s3)"
    "stacks_ok ((st(t := i # st t))(t := j # js)) s3" "pcb_mem s3 = pcb_mem s2" "cr3 s3 = j"
    using halt_run_parent [OF ok2 ct(1) t(2) ct(2)] by blast
  have ok3: "stacks_ok st s3" using s3(2) t(3) by (metis fun_upd_triv fun_upd_upd)
  have "block s3 k = block s k" if "k \<in> set (all_slots st) - {j}" for k
  proof -
    have k: "k < 6" "k \<noteq> i" "k \<noteq> j" using that stacks_okD(6) [OF ok] i(2) by auto
    have "pcb_address (proc_no k) \<noteq> pcb_address (proc_no i)" "pcb_address (proc_no k) \<noteq> parent_addr (st t)"
      using k i(1) j(2) pcb_address_inj by (auto simp: parent_addr_def t(3))
    then have "block s1 k = block s k" using i(4) by (auto simp: pushed_def block_def)
    then show ?thesis using child_only_other [OF ch i(1) k(1,2)] s3(3) by (simp add: block_def)
  qed
  moreover have "block s3 j = block s2 j" using s3(3) by (simp add: block_def)
  ultimately show ?thesis using s3(1,4) ok3 stacks_ok_tables [OF ok ok3] b2 by (intro exI [of _ s3] conjI ballI) simp_all
qed

section \<open>The last program of a terminal\<close>

lemma runnable_agree:
  assumes "runnable K s c w arg content"
    and same: "agree (bb_start K) (Suc (image_size (vmem s) (bb_start K))) (vmem s) (vmem s')"
      "agree (parse_at K) 220 (vmem s) (vmem s')" "agree c (length w + length arg + 2) (vmem s) (vmem s')"
  shows "runnable K s' c w arg content"
proof -
  have rg: "apart_regions (kernel_regions K (image_size (vmem s) (bb_start K)))"
    and f: "program_file (vmem s) (bb_start K) w content" and w: "length w < 20"
    using assms(1) by (simp_all add: runnable_def)
  note R = kernel_regionsD [OF rg]
  have "image_size (vmem s') (bb_start K) = image_size (vmem s) (bb_start K)"
    using same_image_sizes(3) [OF same(1)] f by (simp add: program_file_def)
  moreover have "command_line (vmem s') c w arg"
    using assms(1) agree_cstring [OF same(3)] by (auto simp: runnable_def command_line_def)
  moreover have "\<exists>i<11. cstring_at (vmem s') (parse_at K + word_of_nat (20 * i)) w"
  proof -
    obtain i where i: "i < 11" "cstring_at (vmem s) (parse_at K + word_of_nat (20 * i)) w"
      using assms(1) by (auto simp: runnable_def)
    have "agree (parse_at K + word_of_nat (20 * i)) 20 (vmem s) (vmem s')"
      using i(1) by (intro agree_sub [OF same(2)]) simp_all
    from agree_cstring [OF this w i(2)] i(1) show ?thesis by blast
  qed
  ultimately show ?thesis using assms(1) same_image_program_file [OF same(1) f] by (simp add: runnable_def)
qed

lemma runnable_low:
  assumes "runnable K s c w arg content" "unat c + (length w + length arg + 2) \<le> 8388608" "ram s' = ram s"
  shows "runnable K s' c w arg content"
proof -
  have "apart_regions (kernel_regions K (image_size (vmem s) (bb_start K)))"
    using assms(1) by (simp add: runnable_def)
  note R = kernel_regionsD [OF this]
  show ?thesis
    by (rule runnable_agree [OF assms(1)]; intro agree_low_ram assms(2,3) R(1,2))
qed

text \<open>C27: When the last program of a terminal halts, the kernel starts the shell there again, as a
  process without parent, in a slot not above the one that has become free.\<close>

theorem halt_restarts_shell:
  assumes ok: "stacks_ok st s" "paging_ok s" and t: "unat (current_terminal s) = t" "t < 3" "st t = [i]"
    and r: "runnable K s (shell_at K) w [] content" "unat (shell_at K) + (length w + 2) \<le> 8388608"
  shows "\<exists>n e s'. halt K status s = Some (Enters e, s') \<and> n \<le> i \<and> stacks_ok (st(t := [n])) s' \<and>
    parent (block s' n) = 0 \<and> load_bytes (vmem s') 0x08048000 (length content) = content \<and>
    bytes32 e = take 4 (drop 24 content)"
proof -
  define s0 where "s0 = (halted t i s)\<lparr>pcb_num := (pcb_num s)[t := 0]\<rparr>"
  let ?st = "st(t := [])"
  have f: "pcb_mem s0 = pcb_mem s" "pcb_ptr s0 = (pcb_ptr s)[i := 0]" "pcb_num s0 = (pcb_num s)[t := top_no []]"
    by (simp_all add: s0_def halted_fields top_no_def)
  have ok0: "stacks_ok ?st s0" by (rule stacks_pop [OF ok(1) t(2,3) f])
  have m: "ram s0 = ram s" "pd s0 = pd s" "cr3 s0 = cr3 s"
    "vidmem_pt s0 = upd2 (vidmem_pt s) i 0 (\<lambda>e. e\<lparr>base_address := ucast (drop_bit 12 VIDEO)\<rparr>)"
    by (simp_all add: s0_def halted_memory)
  have "cr3 s0 < 10" using ok(2) m(3) by (simp add: paging_ok_def)
  note p0 = paging_ok_restore [OF ok(2) m(2) this m(4)]
  have r0: "runnable K s0 (shell_at K) w [] content" using runnable_low [OF r(1) _ m(1)] r(2) by simp
  have i: "i < 6" "i \<notin> set (all_slots ?st)"
    using stacks_okD(10) [OF ok(1) t(2), of i] all_slots_pop(2) [where st = st, OF t(2,3)] stacks_okD(5) [OF ok(1)] t(3)
    by auto
  define n where "n = (LEAST k. k \<notin> set (all_slots ?st))"
  have n: "n \<le> i" "n \<notin> set (all_slots ?st)" "\<forall>k<n. k \<in> set (all_slots ?st)"
    unfolding n_def using Least_le [of "\<lambda>k. k \<notin> set (all_slots ?st)" i] LeastI [of "\<lambda>k. k \<notin> set (all_slots ?st)" i]
      not_less_Least [of _ "\<lambda>k. k \<notin> set (all_slots ?st)"] i(2) by blast+
  have n6: "n < 6" using n(1) i(1) by simp
  have ct: "unat (current_terminal s0) = t" using t(1) by (simp add: s0_def halted_fields)
  obtain e s' where s': "execute K (shell_at K) s0 = Some (Enters e, s')" "stacks_ok (?st(t := n # ?st t)) s'"
    "pushed K (?st t) n ([] @ replicate (128 - length ([] :: u8 list)) 0) s0 s'"
    "load_bytes (vmem s') FILE_START (length content) = content" "bytes32 e = take 4 (drop 24 content)"
    using execute_run [OF ok0 p0 ct t(2) r0 n6 n(2,3)] by (elim exE conjE) (rule that)
  have "halt K status s = Some (Enters e, s')"
    unfolding halt_run [OF ok(1) t] list.case s0_def [symmetric] s'(1) by simp
  moreover have "parent (block s' n) = 0" using s'(3) by (auto simp: pushed_def fresh_pcb_def parent_addr_def)
  ultimately show ?thesis using s'(2,4,5) n(1) by auto
qed

section \<open>Applications\<close>

text \<open>Two programs on the first terminal, the second started by the first.\<close>

definition sample_nested :: pcbs where
  "sample_nested = sample_exec\<lparr>pcb_ptr := [pcb_address 1, pcb_address 2, 0, 0, 0, 0], pcb_num := [2, 0, 0],
     pcb_mem := (\<lambda>_. sample_pcb)(pcb_address 1 := sample_pcb\<lparr>pid := 1, esp := 7, ebp := 8\<rparr>,
       pcb_address 2 := sample_pcb\<lparr>pid := 2, parent := pcb_address 1\<rparr>)\<rparr>"

definition sample_single :: pcbs where
  "sample_single = sample_exec\<lparr>pcb_ptr := [pcb_address 1, 0, 0, 0, 0, 0], pcb_num := [1, 0, 0],
     pcb_mem := (\<lambda>_. sample_pcb)(pcb_address 1 := sample_pcb\<lparr>pid := 1\<rparr>)\<rparr>"

lemma sample_nested_stacks: "stacks_ok ((\<lambda>_. [])(0 := [1, 0])) sample_nested"
  unfolding stacks_ok_def
  by (auto simp: sample_nested_def all_slots_def sample_pcb_def top_no_def proc_no_def block_def pcb_address_def
      less_6_cases less_3_cases)

lemma sample_single_stacks: "stacks_ok ((\<lambda>_. [])(0 := [0])) sample_single"
  unfolding stacks_ok_def
  by (auto simp: sample_single_def all_slots_def sample_pcb_def top_no_def proc_no_def block_def pcb_address_def
      less_6_cases less_3_cases)

lemma sample_single_runnable:
  "runnable sample_kargs sample_single 0x5000 [0x6C, 0x73] [0x61] sample_content"
  "runnable sample_kargs sample_single 0x5100 [0x6C, 0x73] [] sample_content"
  by (rule runnable_low [OF sample_runnable(1)] runnable_low [OF sample_runnable(2)];
      simp add: sample_single_def)+

lemma sample_single_fields [simp]: "current_terminal sample_single = 0" "paging_ok sample_single"
  by (simp add: sample_single_def, subst paging_ok_cong [of _ sample_exec]) (simp_all add: sample_single_def)

theorem halt_resumes_parent_witness:
  "\<exists>s'. halt sample_kargs 255 sample_nested = Some (Resumes 7 8 255, s') \<and>
     stacks_ok ((\<lambda>_. [])(0 := [0])) s' \<and> cr3 s' = 0"
  using halt_resumes_parent [OF sample_nested_stacks, of 0 1 0 "[]" sample_kargs 255]
  by (auto simp: sample_nested_def block_def proc_no_def pcb_address_def)

theorem halt_restarts_shell_witness:
  "\<exists>e s'. halt sample_kargs 0 sample_single = Some (Enters e, s') \<and> load_bytes (vmem s') 0x08048000 40 = sample_content"
proof -
  have "runnable sample_kargs sample_single (shell_at sample_kargs) [0x6C, 0x73] [] sample_content"
    "length sample_content = 40"
    using sample_single_runnable(2) by (simp_all add: sample_kargs_def sample_content_def)
  from halt_restarts_shell [OF sample_single_stacks _ _ _ _ this(1), of 0 0 0] this(2)
  show ?thesis by (auto simp: sample_kargs_def)
qed

theorem execute_halt_roundtrip_witness:
  "\<exists>e s1 s3. execute sample_kargs 0x5000 sample_single = Some (Enters e, s1) \<and>
     halt sample_kargs 3 s1 = Some (Resumes 0x7FBF00 0x7FBF40 3, s3) \<and> pcb_num s3 = [1, 0, 0]"
proof -
  obtain e s1 where run: "execute sample_kargs 0x5000 sample_single = Some (Enters e, s1)"
    using execute_run [OF sample_single_stacks _ _ _ sample_single_runnable(1), of 0 1]
    by (auto simp: all_slots_def)
  have "unat (current_terminal sample_single) = 0" "((\<lambda>_. [])(0 := [0])) (0 :: nat) = [0 :: nat]" by simp_all
  from execute_halt_roundtrip [OF sample_single_stacks this(1) _ this(2) run child_only_refl, of sample_kargs 3] run
  show ?thesis by (auto simp: sample_kargs_def sample_single_def)
qed

text \<open>The loop at the start of \<^verbatim>\<open>halt\<close> that is there to close the program's files never closes
  one: it selects the descriptors whose flag says unused, and \<^verbatim>\<open>close\<close> refuses those.\<close>

theorem halt_closes_no_descriptor:
  "halt_close_all [FD_START..<PCB_FILE_NUMBER] s = Some s"
  by (rule halt_closes_nothing)

end
