(* ===== verification/Descriptors.thy ===== *)
theory Descriptors
  imports ProcessProperties FsReaders
begin

text \<open>
  The descriptor calls of \<^verbatim>\<open>src/syscall.c\<close> on a running process: \<^verbatim>\<open>open\<close>, \<^verbatim>\<open>read\<close>, \<^verbatim>\<open>write\<close> and
  \<^verbatim>\<open>close\<close> against the descriptor table of its block, an instance of the contract \<open>slot_table\<close>,
  and the file system below it; \<^verbatim>\<open>getargs\<close> and \<^verbatim>\<open>vidmap\<close>.
\<close>

section \<open>The running process\<close>

definition process_runs :: "(nat \<Rightarrow> nat list) \<Rightarrow> 'a pcbs_scheme \<Rightarrow> nat \<Rightarrow> bool" where
  "process_runs st s i \<longleftrightarrow> stacks_ok st s \<and> unat (current_terminal s) < 3 \<and>
     (\<exists>is. st (unat (current_terminal s)) = i # is)"

lemma process_runsD:
  assumes "process_runs st s i"
  shows "i < 6" "current_pcb s = pcb_address (proc_no i)" "current_pcb s \<noteq> 0"
    "pcb_num s ! unat (current_terminal s) = proc_no i" "length (files (block s i)) = 8" "length (args (block s i)) = 128"
    "pcb_mem s (pcb_address (proc_no i)) = block s i" "stacks_ok st s"
proof -
  let ?t = "unat (current_terminal s)"
  obtain "is" where st: "stacks_ok st s" "?t < 3" "st ?t = i # is" using assms by (auto simp: process_runs_def)
  have i: "i \<in> set (all_slots st)" using all_slots_pop(4) [where st = st, OF st(2,3)] .
  show "i < 6" by (rule stacks_okD(6) [OF st(1) i])
  show n: "pcb_num s ! ?t = proc_no i" using stacks_okD(8) [OF st(1,2)] st(3) by (simp add: top_no_def)
  show "current_pcb s = pcb_address (proc_no i)" "current_pcb s \<noteq> 0"
    using stacks_find_pcb [OF st(1) i] n by (simp_all add: current_pcb_def get_current_process_def)
  show "length (files (block s i)) = 8" "length (args (block s i)) = 128" "stacks_ok st s"
    using stacks_okD(3,4) [OF st(1)] st(1) by (simp_all add: block_def)
  show "pcb_mem s (pcb_address (proc_no i)) = block s i" by (simp add: block_def)
qed

lemma process_runs_child_only:
  assumes "process_runs st s i" "child_only i s s'"
  shows "process_runs st s' i"
  using assms child_only_stacks [OF assms(2) _ process_runsD(1) [OF assms(1)]]
  by (auto simp: process_runs_def child_only_def)

text \<open>Changing one descriptor of the running process.\<close>

lemma upd_file_block:
  assumes "i < 6"
  shows "block (upd_file (pcb_address (proc_no i)) fd f s) i =
      (block s i)\<lparr>files := (files (block s i))[fd := f (files (block s i) ! fd)]\<rparr>"
    "child_only i s (upd_file (pcb_address (proc_no i)) fd f s)"
  by (simp_all add: upd_file_def upd_pcb_def block_def child_only_def)

lemma same_block_files:
  "upd_file p fd f s = s\<lparr>pcb_mem := (pcb_mem s)(p := (pcb_mem s p)\<lparr>files := (files (pcb_mem s p))[fd := f (files (pcb_mem s p) ! fd)]\<rparr>)\<rparr>"
  by (simp add: upd_file_def upd_pcb_def)

section \<open>open\<close>

definition opened :: "kargs \<Rightarrow> nat \<Rightarrow> nat \<Rightarrow> u32 \<Rightarrow> u32 \<Rightarrow> file_t" where
  "opened K i fd ty ino =
     \<lparr>fop_jump = Some (i, fd), inode_ptr = (if ty = REGULAR_FILE then bb_start K + (ino + 1) * BLOCK_4KB else 0),
      file_pos = 0, flag = 1\<rparr>"

lemma file_t_full:
  "f\<lparr>fop_jump := a, inode_ptr := b, file_pos := c, flag := d\<rparr> =
     \<lparr>fop_jump = a, inode_ptr = b, file_pos = c, flag = d\<rparr>" for f :: file_t
  by (cases f) simp

lemma install_file_run:
  fixes s :: "'a pcbs_scheme"
  assumes r: "process_runs st s i" and fd: "fd < 8"
    and d: "load32 (vmem s) (dentry_file_type (dentry_at K)) = ty" "load32 (vmem s) (dentry_inode_number (dentry_at K)) = ino"
      "ops_of_type ty = Some ops"
  defines "s' \<equiv> install_file K (pcb_address (proc_no i)) i fd s"
  shows "s' = s\<lparr>pcb_mem := (pcb_mem s)(pcb_address (proc_no i) :=
        (block s i)\<lparr>files := (files (block s i))[fd := opened K i fd ty ino]\<rparr>),
      fops := upd2 (fops s) i fd (\<lambda>_. ops)\<rparr>"
proof -
  have l: "length (files (pcb_mem s (pcb_address (proc_no i)))) = 8"
    using process_runsD(5,7) [OF r] by simp
  show ?thesis
    using l fd unfolding s'_def install_file_def Let_def d option.case
    unfolding same_block_files set_fops_def opened_def block_def by (cases "ty = 2") (simp_all add: file_t_full)
qed

lemma memory_of_tables:
  "vmem (s\<lparr>pcb_mem := a, fops := b\<rparr>) = vmem s" "paging_ok (s\<lparr>pcb_mem := a, fops := b\<rparr>) = paging_ok s"
  by (rule vmem_cong, simp_all) (rule paging_ok_cong, simp_all)

text \<open>The lookup that \<^verbatim>\<open>open\<close> does; the entry lies below 8 MB, away from the directory and the
  name.\<close>

definition lookup_ok :: "kargs \<Rightarrow> 'a pcbs_scheme \<Rightarrow> u32 \<Rightarrow> u8 list \<Rightarrow> bool" where
  "lookup_ok K s c w \<longleftrightarrow> paging_ok s \<and> wf_dir (vmem s) (bb_start K) \<and> cstring_at (vmem s) c w \<and> length w < 33 \<and>
     separate (bb_start K) 4096 (dentry_at K) 40 \<and> separate (dentry_at K) 40 c (Suc (length w)) \<and>
     unat (dentry_at K) + 40 \<le> 8388608"

lemma lookup_run:
  assumes "lookup_ok K s c w"
  shows "read_dentry_by_name (vmem s) (bb_start K) c (dentry_at K) =
    (case dir_find (vmem s) (bb_start K) w of
       None \<Rightarrow> Some (ERR, vmem s)
     | Some e \<Rightarrow> Some (0, put_dentry (vmem s) (dentry_at K) (w @ [0]) (dir_type (vmem s) (bb_start K) e)
         (dir_inode (vmem s) (bb_start K) e)))"
  using assms read_dentry_by_name_run [of "vmem s" "bb_start K" c w "dentry_at K"]
    separate_le [of "dentry_at K" 40 c "Suc (length w)" "Suc (length w)" "Suc (length w)"]
  by (simp add: lookup_ok_def max_def)

text \<open>Addresses a program or the kernel can use, outside a region.\<close>

definition mapped :: "u32 \<Rightarrow> bool" where
  "mapped a \<longleftrightarrow> unat a < 8388608 \<or> in_region PROG_START 4194304 a"

definition only_at :: "u32 \<Rightarrow> nat \<Rightarrow> mem \<Rightarrow> mem \<Rightarrow> bool" where
  "only_at b k m m' \<longleftrightarrow> (\<forall>a. mapped a \<longrightarrow> in_region b k a \<or> m' a = m a)"

lemma only_at_set_vmem:
  "paging_ok s \<Longrightarrow> (\<And>a. in_region b k a \<or> m a = vmem s a) \<Longrightarrow> only_at b k (vmem s) (vmem (set_vmem m s))"
  unfolding only_at_def mapped_def
proof (intro allI impI)
  fix a
  assume p: "paging_ok s" "\<And>a. in_region b k a \<or> m a = vmem s a" "unat a < 8388608 \<or> in_region PROG_START 4194304 a"
  show "in_region b k a \<or> vmem (set_vmem m s) a = vmem s a"
    using p(2) [of a] unfolding vmem_set_vmem [OF p(1,3)] .
qed

lemma open_call_found:
  fixes s :: "'a pcbs_scheme"
  assumes r: "process_runs st s i" and l: "lookup_ok K s c w"
    and e: "dir_find (vmem s) (bb_start K) w = Some e" "dir_type (vmem s) (bb_start K) e = ty"
      "dir_inode (vmem s) (bb_start K) e = ino" "ty = DIR_FILE \<or> ty = REGULAR_FILE"
    and fd: "find_fd (block s i) = Some fd"
  shows "\<exists>s'. open_call K c s = Some (word_of_nat fd, s') \<and> child_only i s s' \<and>
    files (block s' i) = (files (block s i))[fd := opened K i fd ty ino] \<and> args (block s' i) = args (block s i) \<and>
    fops s' = upd2 (fops s) i fd (\<lambda>_. the (ops_of_type ty)) \<and>
    paging_ok s' \<and> only_at (dentry_at K) 40 (vmem s) (vmem s')"
proof -
  let ?A = "pcb_address (proc_no i)" and ?d = "dentry_at K"
  note D = process_runsD [OF r]
  note L = l [unfolded lookup_ok_def]
  define m where "m = put_dentry (vmem s) ?d (w @ [0]) ty ino"
  define s1 where "s1 = set_vmem m s"
  have f: "2 \<le> fd" "fd < 8" using fds.find_some [OF D(5) fd] by auto
  have look: "read_dentry_by_name (vmem s) (bb_start K) c ?d = Some (0, m)"
    using lookup_run [OF l] e by (simp add: m_def)
  have same: "same_procs s s1" unfolding s1_def by (rule same_procs_machine(8))
  have r1: "process_runs st s1 i" by (rule process_runs_child_only [OF r same_procs_child_only [OF same]])
  have b1: "block s1 i = block s i" "fops s1 = fops s" using same by (simp_all add: same_procs_def block_def)
  have p1: "paging_ok s1" using L by (simp add: s1_def)
  have ag: "agree ?d 40 m (vmem s1)" unfolding s1_def using L by (intro agree_set_vmem) simp_all
  have le: "length (w @ [0]) \<le> 33" using L by simp
  have "unat ?d + 40 \<le> 4294967296" using L by linarith
  note pf = put_dentry_fields [OF le this, of "vmem s" ty ino, folded m_def]
  have d: "load32 (vmem s1) (dentry_file_type ?d) = ty" "load32 (vmem s1) (dentry_inode_number ?d) = ino"
    using pf agree_load32_at [OF ag, of 32] agree_load32_at [OF ag, of 36]
    by (simp_all add: dentry_file_type_def dentry_inode_number_def)
  obtain ops where ops: "ops_of_type ty = Some ops" "open_func ops = Directory_open \<or> open_func ops = Open_file"
    using e(4) by (auto simp: ops_of_type_def)
  define s' where "s' = s1\<lparr>pcb_mem := (pcb_mem s1)(?A := (block s1 i)\<lparr>files := (files (block s1 i))[fd := opened K i fd ty ino]\<rparr>),
      fops := upd2 (fops s1) i fd (\<lambda>_. ops)\<rparr>"
  have inst: "install_file K ?A i fd s1 = s'"
    unfolding s'_def by (rule install_file_run [OF r1 f(2) d ops(1)])
  have u: "unat (pcb_num s1 ! unat (get_current_process s1) - 1) = i"
    using process_runsD(4) [OF r1] proc_no(2) [OF D(1)] by (simp add: get_current_process_def)
  have new: "files (pcb_mem s' ?A) ! fd = opened K i fd ty ino"
    using f(2) process_runsD(5) [OF r1] by (simp add: s'_def)
  have "fops s' i fd = ops" by (simp add: s'_def upd2_def)
  then have op: "call_open K (open_func (fops s' i fd)) s' = Some (0, s')"
    using ops(2) by (auto simp: call_open_def directory_open_def open_file_def)
  have "find_fd (pcb_mem s ?A) = Some fd" using fd D(7) by simp
  then have run: "open_call K c s = Some (word_of_nat fd, s')"
    unfolding open_call_def Let_def D(2) look option.case prod.case s1_def [symmetric] u inst
    using D(2,3) by (simp add: inst new) (simp add: inst opened_def op)
  have at: "in_region ?d 40 a \<or> m a = vmem s a" for a
    using put_dentry_other [of ?d "w @ [0]" a "vmem s" ty ino] L unfolding m_def by (auto simp: max_def)
  have mem: "only_at ?d 40 (vmem s) (vmem s')" "paging_ok s'"
    unfolding s'_def memory_of_tables using L p1 by (simp_all add: s1_def only_at_set_vmem at)
  have "child_only i s1 s'" using process_runsD(7) [OF r1] by (simp add: child_only_def s'_def block_def)
  then have ch: "child_only i s s'" by (rule child_only_trans [OF same_procs_child_only [OF same]])
  have bl: "block s' i = (block s i)\<lparr>files := (files (block s i))[fd := opened K i fd ty ino]\<rparr>"
    by (simp add: s'_def block_def b1 [unfolded block_def])
  have "fops s' = upd2 (fops s) i fd (\<lambda>_. the (ops_of_type ty))" by (simp add: s'_def b1(2) ops(1))
  then show ?thesis using run ch bl mem by auto
qed

lemma open_call_full:
  assumes "process_runs st s i" "find_fd (block s i) = None"
  shows "open_call K c s = Some (ERR, s)"
  using process_runsD(2,3,7) [OF assms(1)] assms(2) by (simp add: open_call_def)

lemma open_call_unknown:
  assumes r: "process_runs st s i" and l: "lookup_ok K s c w" and e: "dir_find (vmem s) (bb_start K) w = None"
    and fd: "find_fd (block s i) = Some fd"
  shows "\<exists>s'. open_call K c s = Some (ERR, s') \<and> same_procs s s' \<and> only_at 0 0 (vmem s) (vmem s')"
proof -
  have "open_call K c s = Some (ERR, set_vmem (vmem s) s)"
    using lookup_run [OF l] process_runsD(2,3,7) [OF r] fd by (simp add: open_call_def e)
  moreover have "only_at 0 0 (vmem s) (vmem (set_vmem (vmem s) s))"
    using l by (intro only_at_set_vmem) (simp_all add: lookup_ok_def)
  ultimately show ?thesis using same_procs_machine(8) by blast
qed

section \<open>close\<close>

lemma close_call_run:
  assumes r: "process_runs st s i" and fd: "fd \<in> {2..<8}" and u: "flag (files (block s i) ! fd) \<noteq> 0"
    and j: "fop_jump (files (block s i) ! fd) = Some (p, k)"
  shows "close_call (word_of_nat fd) s =
    Some (call_close (close_func (fops s p k)) (upd_file (pcb_address (proc_no i)) fd (\<lambda>f. f\<lparr>flag := 0\<rparr>) s))"
  using fd_word [OF fd] process_runsD(2,3,7) [OF r] u j by (simp add: close_call_def same_block_files)

section \<open>Reading a file\<close>

text \<open>A buffer in the kernel or in the program's page.\<close>

definition mapped_region :: "u32 \<Rightarrow> nat \<Rightarrow> bool" where
  "mapped_region a n \<longleftrightarrow> unat a + n \<le> 8388608 \<or> 134217728 \<le> unat a \<and> unat a + n \<le> 138412032"

lemma mapped_regionD:
  assumes "mapped_region a n" "in_region a n x"
  shows "mapped x"
proof -
  have "unat a + n \<le> 4294967296" using assms(1) by (auto simp: mapped_region_def)
  note x = assms(2) [unfolded in_region_iff [OF this]]
  have p: "in_region PROG_START 4194304 x \<longleftrightarrow> 134217728 \<le> unat x \<and> unat x < 138412032"
    by (subst in_region_iff) simp_all
  show ?thesis using assms(1) x unfolding mapped_region_def mapped_def p by linarith
qed

lemma vmem_set_vmem_region:
  assumes "paging_ok s" "mapped_region a n"
  shows "agree a n m (vmem (set_vmem m s))"
  using mapped_regionD [OF assms(2)] vmem_set_vmem [OF assms(1)] by (auto simp: agree_def mapped_def)

lemma file_ok_same_image:
  assumes "same_image m bb m'" "file_ok bb ino buf n (m, f)"
  shows "file_ok bb ino buf n (m', f)" "file_rest bb ino (m', f) = file_rest bb ino (m, f)"
proof -
  have w: "wf_image m bb" "wf_inode m bb ino" using assms(2) by (simp_all add: file_ok_def)
  have "unat ino < num_inodes m bb" using w(2) by (simp add: wf_inode_def)
  note F = same_image_facts [OF assms(1) w(1)] same_image_inode(1) [OF assms(1) w(1) this]
  show "file_ok bb ino buf n (m', f)" "file_rest bb ino (m', f) = file_rest bb ino (m, f)"
    using assms(2) F(1-4,7) F(5,6) [OF w(2)] by (simp_all add: file_ok_def file_rest_def)
qed

text \<open>Descriptor \<open>fd\<close> of process \<open>i\<close> is open on the file \<open>ino\<close>, and the buffer is usable.\<close>

definition file_open :: "kargs \<Rightarrow> (nat \<Rightarrow> nat list) \<Rightarrow> nat \<Rightarrow> nat \<Rightarrow> u32 \<Rightarrow> u32 \<Rightarrow> i32 \<Rightarrow> 'a pcbs_scheme \<Rightarrow> bool" where
  "file_open K st i fd ino buf n s \<longleftrightarrow>
     process_runs st s i \<and> paging_ok s \<and> 2 \<le> fd \<and> fd < 8 \<and> flag (files (block s i) ! fd) \<noteq> 0 \<and>
     (\<exists>p k. fop_jump (files (block s i) ! fd) = Some (p, k) \<and> read_func (fops s p k) = Read_file) \<and>
     file_ok (bb_start K) ino buf n (vmem s, files (block s i) ! fd) \<and>
     unat (bb_start K) + Suc (image_size (vmem s) (bb_start K)) \<le> 8388608 \<and> mapped_region buf (unat n)"

definition read_client ::
    "kargs \<Rightarrow> (nat \<Rightarrow> 'a pcbs_scheme \<Rightarrow> 'a pcbs_scheme) \<Rightarrow> nat \<Rightarrow> u32 \<Rightarrow> i32 \<Rightarrow> 'a pcbs_scheme \<Rightarrow> u8 list \<times> 'a pcbs_scheme" where
  "read_client K env fd buf n s =
     (case read_call K env (word_of_nat fd) buf n s of
        None \<Rightarrow> ([], s)
      | Some (r, s') \<Rightarrow> (load_bytes (vmem s') buf (unat r), s'))"

lemma fd_word_less: "fd < 8 \<Longrightarrow> unat (word_of_nat fd :: i32) = fd \<and> \<not> (word_of_nat fd :: i32) <s 0 \<and> \<not> 8 \<le>s (word_of_nat fd :: i32)"
  using sint_u32_of_nat [of fd] by (simp add: unat_u32_of_nat word_sless_alt word_sle_eq)

lemma vmem_upd_file [simp]: "vmem (upd_file p fd f s) = vmem s" "paging_ok (upd_file p fd f s) = paging_ok s"
  by (rule vmem_cong, simp_all add: same_block_files) (rule paging_ok_cong, simp_all)

lemma read_call_step:
  fixes s :: "'a pcbs_scheme"
  assumes o: "file_open K st i fd ino buf n s"
    and step: "read_file_client (bb_start K) buf n (vmem s, files (block s i) ! fd) = (piece, m, f)"
  shows "\<exists>s'. read_call K env (word_of_nat fd) buf n s = Some (word_of_nat (length piece), s') \<and>
    unat (word_of_nat (length piece) :: i32) = length piece \<and> load_bytes (vmem s') buf (length piece) = piece \<and>
    file_open K st i fd ino buf n s' \<and> child_only i s s' \<and>
    same_image m (bb_start K) (vmem s') \<and> files (block s' i) ! fd = f"
proof -
  let ?A = "pcb_address (proc_no i)" and ?bb = "bb_start K" and ?F = "files (block s i) ! fd"
  note O = o [unfolded file_open_def]
  have r: "process_runs st s i" and ok: "file_ok ?bb ino buf n (vmem s, ?F)" and p: "paging_ok s"
    and fd: "2 \<le> fd" "fd < 8" using O by simp_all
  obtain q k where j: "fop_jump ?F = Some (q, k)" "read_func (fops s q k) = Read_file" using O by blast
  define c where "c = min (unat n) (file_length (vmem s) ?bb ino - unat (file_pos ?F))"
  note C = read_file_client_step [OF ok c_def] read_file_step [OF ok c_def]
  have P: "piece = take c (drop (unat (file_pos ?F)) (file_content (vmem s) ?bb ino))"
    "m = store_bytes (vmem s) buf piece" "f = ?F\<lparr>file_pos := file_pos ?F + word_of_nat c\<rparr>"
    using step C(1) by auto
  have len: "length piece = c" "c \<le> unat n" "c \<le> file_length (vmem s) ?bb ino"
    by (simp_all add: P(1) c_def)
  have Lb: "file_length (vmem s) ?bb ino \<le> 1023 * 4096" using ok by (simp add: file_ok_def wf_inode_def)
  have uc: "unat (word_of_nat (length piece) :: i32) = length piece"
    using len Lb by (intro unat_u32_of_nat) linarith
  define s1 where "s1 = set_vmem m s"
  define s' where "s' = upd_file ?A fd (\<lambda>_. f) s1"
  have rf: "read_file (vmem s) ?bb ?F buf n = (word_of_nat (length piece), m, f, [])"
    using C(4) by (simp add: P(2,3) len(1)) (simp add: P(1))
  have run: "read_call K env (word_of_nat fd) buf n s = Some (word_of_nat (length piece), s')"
    using fd_word_less [OF fd(2)] process_runsD(2,3,7) [OF r] O j rf
    by (simp add: read_call_def call_read_def s'_def s1_def)
  have same: "same_procs s s1" unfolding s1_def by (rule same_procs_machine(8))
  have i6: "i < 6" by (rule process_runsD(1) [OF r])
  have ch: "child_only i s s'"
    unfolding s'_def by (rule child_only_trans [OF same_procs_child_only [OF same] upd_file_block(2) [OF i6]])
  have b1: "block s1 i = block s i" "fops s1 = fops s" using same by (simp_all add: same_procs_def block_def)
  have l8: "length (files (block s i)) = 8" by (rule process_runsD(5) [OF r])
  have b': "files (block s' i) ! fd = f" "fops s' = fops s"
    using upd_file_block(1) [OF i6, of fd "\<lambda>_. f" s1] fd(2) l8 b1 by (simp_all add: s'_def same_block_files)
  have v: "vmem s' = vmem s1" by (simp add: s'_def)
  have "mapped_region buf (unat n)" using O by simp
  from vmem_set_vmem_region [OF p this, of m] have "agree buf (unat n) m (vmem s')" by (simp add: v s1_def)
  then have "agree buf c m (vmem s')" using len(2) by (auto simp: agree_def in_region_def)
  then have ld: "load_bytes (vmem s') buf (length piece) = piece"
    using agree_load_bytes [of buf c m "vmem s'"] load_store_bytes [of piece "vmem s" buf] len Lb by (simp add: P(2))
  have im: "same_image (vmem s) ?bb m" using C(3) by (simp add: P(1,2))
  have wf: "wf_image (vmem s) ?bb" using ok by (simp add: file_ok_def)
  have low: "unat ?bb + Suc (image_size m ?bb) \<le> 8388608" using O same_image_sizes(3) [OF im wf] by simp
  have im': "same_image m ?bb (vmem s')" unfolding v s1_def by (rule agree_set_vmem [OF low p])
  have okm: "file_ok ?bb ino buf n (m, f)" using file_reader.keep [OF ok] step by simp
  have "file_ok ?bb ino buf n (vmem s', f)" by (rule file_ok_same_image(1) [OF im' okm])
  moreover have "image_size (vmem s') ?bb = image_size m ?bb"
    using same_image_sizes(3) [OF im'] okm by (simp add: file_ok_def)
  moreover have "process_runs st s' i" by (rule process_runs_child_only [OF r ch])
  moreover have "paging_ok s'" using p by (simp add: s'_def s1_def)
  moreover have "fop_jump f = fop_jump ?F" "flag f = flag ?F" by (simp_all add: P(3))
  ultimately have "file_open K st i fd ino buf n s'"
    using O low b' unfolding file_open_def by simp
  then show ?thesis using run uc ld ch im' b'(1) by blast
qed

definition open_rest :: "kargs \<Rightarrow> nat \<Rightarrow> nat \<Rightarrow> u32 \<Rightarrow> 'a pcbs_scheme \<Rightarrow> u8 list" where
  "open_rest K i fd ino s = file_rest (bb_start K) ino (vmem s, files (block s i) ! fd)"

text \<open>The system call refines the driver: seen from the process, an open file is a sequential
  reader again.\<close>

interpretation call_reader: sequential_reader
  "read_client K env fd buf n" "open_rest K i fd ino" "file_open K st i fd ino buf n"
  for K env fd buf n i ino st
proof
  fix s :: "'a pcbs_scheme"
  assume o: "file_open K st i fd ino buf n s"
  let ?bb = "bb_start K" and ?F = "files (block s i) ! fd"
  obtain piece m f where step: "read_file_client ?bb buf n (vmem s, ?F) = (piece, m, f)"
    by (metis prod.exhaust)
  obtain s' where run: "read_call K env (word_of_nat fd) buf n s = Some (word_of_nat (length piece), s')"
    "unat (word_of_nat (length piece) :: i32) = length piece" "load_bytes (vmem s') buf (length piece) = piece"
    and o': "file_open K st i fd ino buf n s'" and s': "same_image m ?bb (vmem s')" "files (block s' i) ! fd = f"
    using read_call_step [OF o step] by blast
  have client: "read_client K env fd buf n s = (piece, s')" by (simp add: read_client_def run)
  have ok: "file_ok ?bb ino buf n (vmem s, ?F)" using o by (simp add: file_open_def)
  have okm: "file_ok ?bb ino buf n (m, f)" using file_reader.keep [OF ok] step by simp
  have rest: "file_rest ?bb ino (vmem s', f) = file_rest ?bb ino (m, f)"
    by (rule file_ok_same_image(2) [OF s'(1) okm])
  show "open_rest K i fd ino s = fst (read_client K env fd buf n s) @ open_rest K i fd ino (snd (read_client K env fd buf n s))"
    using file_reader.split [OF ok] step rest by (simp add: open_rest_def client s'(2))
  show "file_open K st i fd ino buf n (snd (read_client K env fd buf n s))" using o' by (simp add: client)
  show "open_rest K i fd ino s \<noteq> [] \<Longrightarrow> fst (read_client K env fd buf n s) \<noteq> []"
    using file_reader.progress [OF ok] step by (simp add: open_rest_def client)
qed

lemma file_open_opened:
  assumes r: "process_runs st s i" and o: "child_only i s s'" "files (block s' i) = (files (block s i))[fd := opened K i fd REGULAR_FILE ino]"
      "fops s' = upd2 (fops s) i fd (\<lambda>_. the (ops_of_type REGULAR_FILE))" "paging_ok s'"
    and fd: "2 \<le> fd" "fd < 8" and im: "same_image (vmem s) (bb_start K) (vmem s')"
    and wf: "wf_image (vmem s) (bb_start K)" "wf_inode (vmem s) (bb_start K) ino"
    and low: "unat (bb_start K) + Suc (image_size (vmem s) (bb_start K)) \<le> 8388608"
    and buf: "mapped_region buf (unat n)" "separate (bb_start K) (Suc (image_size (vmem s) (bb_start K))) buf (unat n)"
      "0 < unat n" "4096 mod unat n = 0"
  shows "file_open K st i fd ino buf n s'" "open_rest K i fd ino s' = file_content (vmem s) (bb_start K) ino"
proof -
  have l8: "length (files (block s i)) = 8" by (rule process_runsD(5) [OF r])
  have F: "files (block s' i) ! fd = opened K i fd REGULAR_FILE ino" using o(2) fd l8 by simp
  note I = same_image_facts [OF im wf(1)]
  show "file_open K st i fd ino buf n s'"
    using process_runs_child_only [OF r o(1)] o(3,4) fd F I(3,4) I(5) [OF wf(2)] low buf
    by (simp add: file_open_def opened_def ops_of_type_def upd2_def file_ok_def code_inode_addr [symmetric])
  show "open_rest K i fd ino s' = file_content (vmem s) (bb_start K) ino"
    using I(6) [OF wf(2)] by (simp add: open_rest_def F file_rest_def opened_def)
qed

end
