(* ===== verification/SyscallProperties.thy ===== *)
theory SyscallProperties
  imports Descriptors
begin

text \<open>
  The properties of the descriptor calls, \<^verbatim>\<open>getargs\<close> and \<^verbatim>\<open>vidmap\<close> of \<^verbatim>\<open>src/syscall.c\<close>, over
  \<open>Descriptors\<close>, applied on the machine of \<open>ProcessProperties\<close>.
\<close>

section \<open>A running process\<close>

lemma sample_single_vmem [simp]: "vmem sample_single = vmem sample_exec"
  by (rule vmem_cong) (simp_all add: sample_single_def)

lemma sample_running: "process_runs ((\<lambda>_. [])(0 := [0])) sample_single 0"
  using sample_single_stacks by (simp add: process_runs_def)

lemma sample_block: "block sample_single 0 = sample_pcb\<lparr>pid := 1\<rparr>"
  by (simp add: block_def sample_single_def proc_no_def)

lemma sample_free_fd: "find_fd (block sample_single 0) = Some 2"
  by (simp add: sample_block find_fd_def sample_pcb_def first_from.simps nth_replicate)

lemma sample_lookup: "lookup_ok sample_kargs sample_single 0x4064 [0x6C, 0x73]"
  by (simp add: lookup_ok_def sample_kargs_def wf_dir_def sample_exec_sizes separate_def cstring_at_def exec_ram_def)

lemma sample_kargs_image [simp]: "bb_start sample_kargs = 0x10000" "dentry_at sample_kargs = 0x6200"
  by (simp_all add: sample_kargs_def)

section \<open>Descriptors\<close>

text \<open>Opening the name of a regular file or a directory takes the lowest free descriptor from
  \<open>2\<close> on, fills it in completely (position \<open>0\<close>, the operations of the file's type, the address of
  the inode of a regular file) and changes no other descriptor, no other process and no memory but
  the local directory entry.\<close>

theorem open_takes_lowest_descriptor:
  assumes "process_runs st s i" "lookup_ok K s c w"
    and "dir_find (vmem s) (bb_start K) w = Some e" "dir_type (vmem s) (bb_start K) e = ty"
      "dir_inode (vmem s) (bb_start K) e = ino" "ty = DIR_FILE \<or> ty = REGULAR_FILE"
    and "find_fd (block s i) = Some fd"
  shows "2 \<le> fd \<and> fd < 8 \<and> fd_free (block s i) fd \<and> (\<forall>k\<in>{2..<fd}. \<not> fd_free (block s i) k) \<and>
    (\<exists>s'. open_call K c s = Some (word_of_nat fd, s') \<and> child_only i s s' \<and>
       files (block s' i) = (files (block s i))[fd := opened K i fd ty ino] \<and> args (block s' i) = args (block s i) \<and>
       fops s' = upd2 (fops s) i fd (\<lambda>_. the (ops_of_type ty)) \<and>
       paging_ok s' \<and> only_at (dentry_at K) 40 (vmem s) (vmem s'))"
  using open_call_found [OF assms] fds.find_some [OF process_runsD(5) [OF assms(1)] assms(7)] by auto

theorem open_takes_lowest_descriptor_witness:
  "\<exists>s'. open_call sample_kargs 0x4064 sample_single = Some (2, s') \<and>
     files (block s' 0) ! 2 = \<lparr>fop_jump = Some (0, 2), inode_ptr = 0x11000, file_pos = 0, flag = 1\<rparr>"
proof -
  have "dir_find (vmem sample_single) (bb_start sample_kargs) [0x6C, 0x73] = Some 0"
    "dir_type (vmem sample_single) (bb_start sample_kargs) 0 = 2" "dir_inode (vmem sample_single) (bb_start sample_kargs) 0 = 0"
    by (simp_all add: sample_exec_dir)
  from open_takes_lowest_descriptor [OF sample_running sample_lookup this _ sample_free_fd] show ?thesis
    by (auto simp: sample_block sample_pcb_def opened_def)
qed

text \<open>C29: A file descriptor is refused with \<open>-1\<close> and without any effect by \<^verbatim>\<open>read\<close>, \<^verbatim>\<open>write\<close> and
  \<^verbatim>\<open>close\<close> when it is out of range or not open, \<^verbatim>\<open>close\<close> refuses the two standard descriptors, and
  \<^verbatim>\<open>open\<close> fails without effect when all descriptors are taken.\<close>

theorem bad_descriptors_refused:
  "(fd <s 0 \<or> 8 \<le>s fd \<or> current_pcb s = 0 \<or> flag (files (pcb_mem s (current_pcb s)) ! unat fd) = 0 \<longrightarrow>
      read_call K env fd buf n s = Some (ERR, s) \<and> write_call K fd buf n s = Some (ERR, s) \<and>
      close_call fd s = Some (ERR, s)) \<and>
   (fd = 0 \<or> fd = 1 \<longrightarrow> close_call fd s = Some (ERR, s)) \<and>
   (process_runs st s i \<and> (\<forall>k\<in>{2..<8}. \<not> fd_free (block s i) k) \<longrightarrow> open_call K c s = Some (ERR, s))"
proof (intro conjI impI)
  assume a: "fd <s 0 \<or> 8 \<le>s fd \<or> current_pcb s = 0 \<or> flag (files (pcb_mem s (current_pcb s)) ! unat fd) = 0"
  then show "read_call K env fd buf n s = Some (ERR, s)" "write_call K fd buf n s = Some (ERR, s)"
    by (auto simp: read_call_def write_call_def Let_def)
  have "fd <s 0 \<Longrightarrow> fd <s 2" by (simp add: word_sless_alt)
  with a show "close_call fd s = Some (ERR, s)" by (auto simp: close_call_def Let_def)
next
  assume "fd = 0 \<or> fd = 1"
  then show "close_call fd s = Some (ERR, s)" by (auto simp: close_call_def word_sless_alt)
next
  assume a: "process_runs st s i \<and> (\<forall>k\<in>{2..<8}. \<not> fd_free (block s i) k)"
  have "find_fd (block s i) = None"
  proof (rule ccontr)
    assume "find_fd (block s i) \<noteq> None"
    then obtain k where "find_fd (block s i) = Some k" by blast
    from a have "process_runs st s i" by blast
    from fds.find_some [OF process_runsD(5) [OF this] \<open>find_fd (block s i) = Some k\<close>] a show False by auto
  qed
  with a show "open_call K c s = Some (ERR, s)" using open_call_full by blast
qed

theorem bad_descriptors_refused_witness:
  "read_call sample_kargs (\<lambda>_ s. s) 9 0x500000 4 sample_single = Some (ERR, sample_single) \<and>
   write_call sample_kargs 9 0x500000 4 sample_single = Some (ERR, sample_single) \<and>
   close_call 1 sample_single = Some (ERR, sample_single)"
  using bad_descriptors_refused [of 9 sample_single sample_kargs "\<lambda>_ s. s" "0x500000" 4]
    bad_descriptors_refused [of 1 sample_single] by (simp add: word_sle_eq)

text \<open>C28: Closing what was just opened succeeds, and afterwards the same descriptors are free as
  before.\<close>

theorem open_close_roundtrip:
  assumes r: "process_runs st s i" and l: "lookup_ok K s c w"
    and e: "dir_find (vmem s) (bb_start K) w = Some e" "dir_type (vmem s) (bb_start K) e = 1 \<or> dir_type (vmem s) (bb_start K) e = 2"
    and fd: "find_fd (block s i) = Some fd"
  shows "\<exists>s' s''. open_call K c s = Some (word_of_nat fd, s') \<and> close_call (word_of_nat fd) s' = Some (0, s'') \<and>
    child_only i s s'' \<and> (\<forall>k<8. fd_free (block s'' i) k = fd_free (block s i) k) \<and>
    (\<forall>k<8. k = fd \<or> files (block s'' i) ! k = files (block s i) ! k) \<and> find_fd (block s'' i) = Some fd"
proof -
  let ?A = "pcb_address (proc_no i)" and ?ty = "dir_type (vmem s) (bb_start K) e"
  let ?new = "opened K i fd ?ty (dir_inode (vmem s) (bb_start K) e)"
  have ty: "?ty = DIR_FILE \<or> ?ty = REGULAR_FILE" using e(2) by simp
  obtain s' where s': "open_call K c s = Some (word_of_nat fd, s')" "child_only i s s'"
    "files (block s' i) = (files (block s i))[fd := ?new]" "fops s' = upd2 (fops s) i fd (\<lambda>_. the (ops_of_type ?ty))"
    using open_call_found [OF r l e(1) refl refl ty fd] by blast
  have l8: "length (files (block s i)) = 8" and i: "i < 6" using process_runsD(1,5) [OF r] by simp_all
  have f: "2 \<le> fd" "fd < 8" "fd_free (block s i) fd" "\<forall>j. 2 \<le> j \<and> j < fd \<longrightarrow> \<not> fd_free (block s i) j"
    using fds.find_some [OF l8 fd] by auto
  define s'' where "s'' = upd_file ?A fd (\<lambda>f. f\<lparr>flag := 0\<rparr>) s'"
  have r': "process_runs st s' i" by (rule process_runs_child_only [OF r s'(2)])
  have F: "files (block s' i) ! fd = ?new" using f(2) l8 by (simp add: s'(3))
  have "close_call (word_of_nat fd) s' = Some (call_close (close_func (fops s' i fd)) s'')"
    unfolding s''_def using f(1,2) by (intro close_call_run [OF r']) (simp_all add: F opened_def)
  also have "call_close (close_func (fops s' i fd)) s'' = (0, s'')"
    using ty by (auto simp: s'(4) upd2_def ops_of_type_def call_close_def directory_close_def close_file_def)
  finally have cl: "close_call (word_of_nat fd) s' = Some (0, s'')" .
  have ch: "child_only i s s''"
    unfolding s''_def by (rule child_only_trans [OF s'(2) upd_file_block(2) [OF i]])
  have b: "files (block s'' i) = (files (block s i))[fd := ?new\<lparr>flag := 0\<rparr>]"
    using upd_file_block(1) [OF i, of fd "\<lambda>f. f\<lparr>flag := 0\<rparr>" s'] f(2) l8 by (simp add: s''_def F s'(3))
  have free: "fd_free (block s'' i) k = fd_free (block s i) k" if "k < 8" for k
    using f(3) l8 that by (cases "k = fd") (simp_all add: fd_free_def b)
  have keep: "k = fd \<or> files (block s'' i) ! k = files (block s i) ! k" for k
    by (cases "k = fd") (simp_all add: b)
  have l8': "length (files (block s'' i)) = 8" by (simp add: b l8)
  have "find_fd (block s'' i) = Some fd"
  proof (cases "find_fd (block s'' i)")
    case None
    then show ?thesis using fds.find_none [OF l8' None f(1,2)] free [OF f(2)] f(3) by simp
  next
    case (Some j)
    note J = fds.find_some [OF l8' Some]
    then have "\<not> j < fd" "\<not> fd < j" using f free by auto
    then show ?thesis using Some by simp
  qed
  then show ?thesis using s'(1) cl ch free keep by blast
qed

theorem open_close_roundtrip_witness:
  "\<exists>s' s''. open_call sample_kargs 0x4064 sample_single = Some (2, s') \<and> close_call 2 s' = Some (0, s'') \<and>
     find_fd (block s'' 0) = Some 2"
proof -
  have "dir_find (vmem sample_single) (bb_start sample_kargs) [0x6C, 0x73] = Some 0"
    "dir_type (vmem sample_single) (bb_start sample_kargs) 0 = 1 \<or> dir_type (vmem sample_single) (bb_start sample_kargs) 0 = 2"
    by (simp_all add: sample_exec_dir)
  from open_close_roundtrip [OF sample_running sample_lookup this sample_free_fd] show ?thesis by auto
qed

lemma only_at_same_image:
  assumes "only_at d k m m'" "separate bb (Suc (image_size m bb)) d k" "unat bb + Suc (image_size m bb) \<le> 8388608"
  shows "same_image m bb m'"
  using assms(1) separate_disjoint [OF assms(2)] in_region_low [OF assms(3)]
  by (auto simp: agree_def only_at_def mapped_def)

text \<open>C9: End to end, from the process's side: after \<^verbatim>\<open>open\<close> of a regular file, reading again and
  again with a buffer size that divides the block size delivers exactly the bytes of the file, in
  order, through the descriptor table, the operation table and the block structure of the image.\<close>

theorem open_read_whole_file:
  fixes s :: "'a pcbs_scheme"
  assumes r: "process_runs st s i" and l: "lookup_ok K s c w"
    and e: "dir_find (vmem s) (bb_start K) w = Some e" "dir_type (vmem s) (bb_start K) e = 2"
      "ino = dir_inode (vmem s) (bb_start K) e"
    and fd: "find_fd (block s i) = Some fd"
    and wf: "wf_image (vmem s) (bb_start K)" "wf_inode (vmem s) (bb_start K) ino"
    and sep: "apart_regions [(bb_start K, Suc (image_size (vmem s) (bb_start K))), (dentry_at K, 40)]"
    and buf: "mapped_region buf (unat n)" "separate (bb_start K) (Suc (image_size (vmem s) (bb_start K))) buf (unat n)"
      "0 < unat n" "4096 mod unat n = 0"
    and calls: "file_length (vmem s) (bb_start K) ino \<le> calls"
  shows "\<exists>s'. open_call K c s = Some (word_of_nat fd, s') \<and>
    fst (call_reader.drain K env fd buf n calls s') = file_content (vmem s) (bb_start K) ino"
proof -
  have f: "2 \<le> fd" "fd < 8" using fds.find_some [OF process_runsD(5) [OF r] fd] by auto
  obtain s' where s': "open_call K c s = Some (word_of_nat fd, s')" "child_only i s s'"
    "files (block s' i) = (files (block s i))[fd := opened K i fd REGULAR_FILE ino]"
    "fops s' = upd2 (fops s) i fd (\<lambda>_. the (ops_of_type REGULAR_FILE))" "paging_ok s'"
    "only_at (dentry_at K) 40 (vmem s) (vmem s')"
    using open_call_found [OF r l e(1,2) e(3) [symmetric] _ fd] by blast
  have low: "unat (bb_start K) + Suc (image_size (vmem s) (bb_start K)) \<le> 8388608"
    and sd: "separate (bb_start K) (Suc (image_size (vmem s) (bb_start K))) (dentry_at K) 40"
    using sep by simp_all
  note im = only_at_same_image [OF s'(6) sd low]
  note O = file_open_opened [OF r s'(2-5) f im wf low buf]
  have "length (open_rest K i fd ino s') \<le> calls" using calls by (simp add: O(2))
  from call_reader.drain_all [OF O(1) this] show ?thesis using s'(1) O(2) by auto
qed

theorem open_read_whole_file_witness:
  "\<exists>s'. open_call sample_kargs 0x4064 sample_single = Some (2, s') \<and>
     fst (call_reader.drain sample_kargs (\<lambda>_ s. s) 2 0x08100000 16 40 s') = sample_content"
proof -
  have e: "dir_find (vmem sample_single) (bb_start sample_kargs) [0x6C, 0x73] = Some 0"
    "dir_type (vmem sample_single) (bb_start sample_kargs) 0 = 2" "0 = dir_inode (vmem sample_single) (bb_start sample_kargs) 0"
    by (simp_all add: sample_exec_dir)
  have w: "wf_image (vmem sample_single) (bb_start sample_kargs)" "wf_inode (vmem sample_single) (bb_start sample_kargs) 0"
    "file_length (vmem sample_single) (bb_start sample_kargs) 0 \<le> 40"
    by (simp_all add: wf_image_def wf_inode_def sample_exec_sizes)
  have "apart_regions [(bb_start sample_kargs, Suc (image_size (vmem sample_single) (bb_start sample_kargs))), (dentry_at sample_kargs, 40)]"
    "mapped_region 0x08100000 (unat (16 :: i32))"
    "separate (bb_start sample_kargs) (Suc (image_size (vmem sample_single) (bb_start sample_kargs))) 0x08100000 (unat (16 :: i32))"
    "0 < unat (16 :: i32)" "4096 mod unat (16 :: i32) = 0"
    by (simp_all add: sample_exec_sizes separate_def mapped_region_def)
  from open_read_whole_file [OF sample_running sample_lookup e sample_free_fd w(1,2) this w(3)] show ?thesis
    by (auto simp: sample_exec_content)
qed

section \<open>Arguments and video memory\<close>

lemma args_bytes_copy:
  assumes "0 \<notin> set arg" "length arg < 128"
  shows "args_bytes (copy_string (replicate 128 0) (arg @ replicate (128 - length arg) 0)) n =
    take n arg @ replicate (n - length arg) 0"
proof -
  obtain k where k: "128 - length arg = Suc k" using assms(2) by (metis Suc_diff_Suc)
  have t: "takeWhile (\<lambda>c. c \<noteq> 0) (arg @ 0 # ys) = arg" for ys :: "u8 list"
    using assms(1) by (subst takeWhile_append2) auto
  show ?thesis by (simp add: args_bytes_def copy_string_def k t Let_def)
qed

text \<open>A program gets its arguments: right after \<^verbatim>\<open>execute\<close> has started it with the argument
  text \<open>arg\<close>, \<^verbatim>\<open>getargs\<close> stores in its buffer the first \<open>n\<close> bytes of that text, padded with NUL
  bytes up to \<open>n\<close>.\<close>

theorem getargs_returns_argument:
  assumes r: "process_runs st s' i" and p: "pushed K is i (arg @ replicate (128 - length arg) 0) s s'"
    and a: "0 \<notin> set arg" "length arg < 128" "n \<noteq> 0"
    and m: "paging_ok s'" "mapped_region buf (unat n)"
  shows "\<exists>s''. getargs buf n s' = Some (0, s'') \<and>
    load_bytes (vmem s'') buf (unat n) = take (unat n) arg @ replicate (unat n - length arg) 0"
proof -
  obtain b where b: "fresh_pcb (parent_addr is) i (terminal_number s) b"
    "block s' i = b\<lparr>args := copy_string (args b) (arg @ replicate (128 - length arg) 0)\<rparr>"
    using p by (auto simp: pushed_def)
  let ?bs = "take (unat n) arg @ replicate (unat n - length arg) 0"
  have args: "args_bytes (args (block s' i)) (unat n) = ?bs"
    using b args_bytes_copy [OF a(1,2)] by (simp add: fresh_pcb_def)
  define s'' where "s'' = set_vmem (store_bytes (vmem s') buf ?bs) s'"
  have "getargs buf n s' = Some (0, s'')"
    using process_runsD(2,3,7) [OF r] a(3) args by (simp add: getargs_def s''_def)
  moreover have len: "length ?bs = unat n" by simp
  have "unat n \<le> 4294967296" using unat_less_u32 [of n] by simp
  then have "load_bytes (vmem s'') buf (unat n) = ?bs"
    using agree_load_bytes [OF vmem_set_vmem_region [OF m, of "store_bytes (vmem s') buf ?bs"]]
      load_store_bytes [of ?bs "vmem s'" buf] len by (simp add: s''_def)
  ultimately show ?thesis by blast
qed

theorem getargs_returns_argument_witness:
  "\<exists>e s1 s2. execute sample_kargs 0x5000 sample_exec = Some (Enters e, s1) \<and>
     getargs 0x08100000 4 s1 = Some (0, s2) \<and> load_bytes (vmem s2) 0x08100000 4 = [0x61, 0, 0, 0]"
proof -
  obtain e s1 where run: "execute sample_kargs 0x5000 sample_exec = Some (Enters e, s1)" "paging_ok s1"
    "stacks_ok ((\<lambda>_. [])(0 := [0])) s1" "pushed sample_kargs [] 0 ([0x61] @ replicate (128 - length [0x61 :: u8]) 0) sample_exec s1"
    using execute_run [OF sample_stacks _ _ _ sample_runnable(1), of 0 0] by (auto simp: all_slots_def)
  have "process_runs ((\<lambda>_. [])(0 := [0])) s1 0" using run(3,4) by (simp add: process_runs_def pushed_def)
  moreover have "mapped_region 0x08100000 (unat (4 :: i32))" by (simp add: mapped_region_def)
  moreover have "(0 :: u8) \<notin> set [0x61]" "length [0x61 :: u8] < 128" "(4 :: i32) \<noteq> 0" by simp_all
  ultimately obtain s2 where g: "getargs 0x08100000 4 s1 = Some (0, s2)"
    "load_bytes (vmem s2) 0x08100000 (unat (4 :: i32)) =
      take (unat (4 :: i32)) [0x61] @ replicate (unat (4 :: i32) - length [0x61 :: u8]) 0"
    using getargs_returns_argument [OF _ run(4)] run(2) by blast
  have "take (unat (4 :: i32)) [0x61] @ replicate (unat (4 :: i32) - length [0x61 :: u8]) (0 :: u8) = [0x61, 0, 0, 0]"
    by (simp add: numeral_3_eq_3)
  with g run(1) show ?thesis by auto
qed

lemma vidmap_test:
  "screen_start < PROG_START \<or> screen_start + FOUR_KB \<ge> PROG_START + FOUR_MB \<longleftrightarrow>
     \<not> (134217728 \<le> unat screen_start \<and> (unat screen_start + 4096 < 138412032 \<or> 4294963200 \<le> unat screen_start))"
proof -
  have "unat (screen_start + FOUR_KB) = (unat screen_start + 4096) mod 4294967296"
    by (simp add: unat_word_ariths)
  moreover have "(unat screen_start + 4096) mod 4294967296 =
      (if 4294963200 \<le> unat screen_start then unat screen_start - 4294963200 else unat screen_start + 4096)"
    using unat_less_u32 [of screen_start] by (auto simp: mod_if not_le)
  ultimately show ?thesis using unat_less_u32 [of screen_start]
    by (simp add: word_less_nat_alt word_le_nat_alt) linarith
qed

text \<open>C30: \<^verbatim>\<open>vidmap\<close> stores the address of the user video page through a pointer into the program's
  page that leaves 4 KB above it, and refuses every other pointer without any effect, but for the
  pointers into the last 4 KB of the address space: their sum wraps around and they pass the check.\<close>

theorem vidmap_checks:
  assumes "paging_ok s"
  shows "(fst (vidmap p s) = 0 \<longleftrightarrow>
      134217728 \<le> unat p \<and> (unat p + 4096 < 138412032 \<or> 4294963200 \<le> unat p)) \<and>
    (fst (vidmap p s) \<noteq> 0 \<longrightarrow> vidmap p s = (ERR, s)) \<and>
    (134217728 \<le> unat p \<and> unat p + 4096 < 138412032 \<longrightarrow>
       load32 (vmem (snd (vidmap p s))) p = USER_VIDEO_ADDR \<and> only_at p 4 (vmem s) (vmem (snd (vidmap p s))))"
proof -
  note T = vidmap_test [of p]
  have c: "fst (vidmap p s) = 0 \<longleftrightarrow>
      134217728 \<le> unat p \<and> (unat p + 4096 < 138412032 \<or> 4294963200 \<le> unat p)"
    "fst (vidmap p s) \<noteq> 0 \<longrightarrow> vidmap p s = (ERR, s)"
    unfolding vidmap_def T by (simp_all split: if_splits)
  have "load32 (vmem (snd (vidmap p s))) p = USER_VIDEO_ADDR \<and> only_at p 4 (vmem s) (vmem (snd (vidmap p s)))"
    if a: "134217728 \<le> unat p" "unat p + 4096 < 138412032"
  proof -
    have v: "snd (vidmap p s) = set_vmem (store32 (vmem s) p USER_VIDEO_ADDR) s"
      unfolding vidmap_def T using a by simp
    have "mapped_region p 4" using a by (simp add: mapped_region_def)
    from agree_load32 [OF vmem_set_vmem_region [OF assms this]]
    have "load32 (vmem (snd (vidmap p s))) p = USER_VIDEO_ADDR" by (simp add: v load32_store32)
    moreover have "only_at p 4 (vmem s) (vmem (snd (vidmap p s)))"
      unfolding v using assms store32_other by (intro only_at_set_vmem) blast+
    ultimately show ?thesis by blast
  qed
  with c show ?thesis by blast
qed

theorem vidmap_checks_witness:
  "load32 (vmem (snd (vidmap 0x08100000 sample_single))) 0x08100000 = USER_VIDEO_ADDR \<and>
   fst (vidmap 0xFFFFF000 sample_single) = 0 \<and> vidmap 0x400000 sample_single = (ERR, sample_single)"
  using vidmap_checks [of sample_single "0x08100000"] vidmap_checks [of sample_single "0xFFFFF000"]
    vidmap_checks [of sample_single "0x400000"] by simp

end
