(* ===== verification/SchedulingProperties.thy ===== *)
theory SchedulingProperties
  imports Scheduling ProcessProperties
begin

text \<open>
  The scheduler of \<^verbatim>\<open>src/scheduling.c\<close> against its specification: a tick saves the registers of
  the interrupted program and resumes the program on top of the next terminal that has one.
\<close>

section \<open>Round robin\<close>

definition next_term :: "(nat \<Rightarrow> nat list) \<Rightarrow> nat \<Rightarrow> nat" where
  "next_term st t =
     (if st ((t + 1) mod 3) \<noteq> [] then (t + 1) mod 3
      else if st ((t + 2) mod 3) \<noteq> [] then (t + 2) mod 3 else t)"

lemma next_term_bound: "t < 3 \<Longrightarrow> next_term st t < 3"
  by (simp add: next_term_def)

lemma next_term_nonempty: "st t \<noteq> [] \<Longrightarrow> st (next_term st t) \<noteq> []"
  by (simp add: next_term_def)

lemma next_terminal_word:
  assumes "unat (c :: u32) < 3"
  shows "(c + 1) mod 3 = word_of_nat ((unat c + 1) mod 3)" "unat ((c + 1) mod 3) = (unat c + 1) mod 3"
proof -
  have "unat (c + 1) = unat c + 1" using assms by (simp add: unat_word_ariths)
  then show u: "unat ((c + 1) mod 3) = (unat c + 1) mod 3" by (simp add: unat_mod)
  have "unat (word_of_nat ((unat c + 1) mod 3) :: u32) = (unat c + 1) mod 3" by (intro unat_u32_of_nat) simp
  with u show "(c + 1) mod 3 = word_of_nat ((unat c + 1) mod 3)" by (simp add: word_unat_eq_iff)
qed

lemma stacks_current [simp]: "stacks_ok st (s\<lparr>current_terminal := c\<rparr>) = stacks_ok st s"
  by (simp add: stacks_ok_def block_def [abs_def])

lemma pick_next:
  assumes ok: "stacks_ok st s" and t: "unat (current_terminal s) = t" "t < 3"
  shows "pick_terminal 3 0 s = (top_no (st (next_term st t)), s\<lparr>current_terminal := word_of_nat (next_term st t)\<rparr>)"
proof -
  have num: "pcb_num s ! u = 0 \<longleftrightarrow> st u = []" "pcb_num s ! u = top_no (st u)" if "u < 3" for u
    using stacks_okD(8,10) [OF ok that] top_no_zero by auto
  define c1 where "c1 = (current_terminal s + 1) mod 3"
  define c2 where "c2 = (c1 + 1) mod 3"
  define c3 where "c3 = (c2 + 1) mod 3"
  have c1: "c1 = word_of_nat ((t + 1) mod 3)" "unat c1 = (t + 1) mod 3"
    using next_terminal_word [of "current_terminal s"] t by (simp_all add: c1_def)
  have c2: "c2 = word_of_nat ((t + 2) mod 3)" "unat c2 = (t + 2) mod 3"
    using next_terminal_word [of c1] c1(2) by (simp_all add: c2_def mod_Suc_eq)
  have c3: "c3 = word_of_nat t" "unat c3 = t"
    using next_terminal_word [of c2] c2(2) t(2) by (simp_all add: c3_def mod_Suc_eq)
  have 3: "pick_terminal 3 n x = pick_terminal (Suc (Suc (Suc 0))) n x" for n and x :: "'a pcbs_scheme"
    by (simp add: numeral_3_eq_3)
  show ?thesis
    unfolding 3 using num [of "(t + 1) mod 3"] num [of "(t + 2) mod 3"] num [OF t(2)]
    by (simp add: next_terminal_def find_terminal_by_pcb_def Let_def next_term_def
        c1_def [symmetric] c2_def [symmetric] c3_def [symmetric] c1(2) c2(2) c3(2))
      (simp add: c1(1) c2(1) c3(1))
qed

lemma switch_next_run:
  fixes s :: "'a pcbs_scheme"
  assumes ok: "stacks_ok st s" and t: "unat (current_terminal s) = t" "t < 3"
    and u: "u = next_term st t" "st u = j # js" and regs: "sched_esp (block s j) \<noteq> 0" "sched_ebp (block s j) \<noteq> 0"
  shows "switch_next s = (Resumes (sched_esp (block s j)) (sched_ebp (block s j)) (sched_esp (block s j)),
    set_new_task j 0 (s\<lparr>current_terminal := word_of_nat u,
      tss_esp0 := KERNEL_BOTTOM - STACK_SIZE * word_of_nat j, tss_ss0 := KERNEL_DS\<rparr>))"
proof -
  have u3: "u < 3" using next_term_bound [OF t(2)] u(1) by simp
  have j: "j < 6" using stacks_okD(10) [OF ok u3, of j] u(2) by simp
  have js: "j \<in> set (all_slots st)" using all_slots_pop(4) [where st = st, OF u3 u(2)] .
  have n: "top_no (st u) = proc_no j" by (simp add: top_no_def u(2))
  have fp: "find_pcb (s\<lparr>current_terminal := c\<rparr>) (proc_no j) = pcb_address (proc_no j)" for c
    by (rule stacks_find_pcb(1) [where st = st]) (simp_all add: ok js)
  have uj: "unat (word_of_nat j :: i32) = j" using j by (simp add: unat_u32_of_nat)
  show ?thesis
    unfolding switch_next_def pick_next [OF ok t] u(1) [symmetric] prod.case n Let_def fp proc_no_pred
    using regs pcb_address_nonzero [OF j] proc_no(4) [OF j] pde_bound [OF j] uj
    by (simp add: block_def)
qed

lemma set_new_task_tss [simp]: "tss_esp0 (set_new_task i 0 s) = tss_esp0 s"
  by (simp add: set_new_task_def set_register_def machine_simps)

text \<open>The state of the scheduler between ticks: the programs on top of the terminals that are not
  current have saved registers.\<close>

definition sched_ok :: "(nat \<Rightarrow> nat list) \<Rightarrow> 'a pcbs_scheme \<Rightarrow> bool" where
  "sched_ok st s \<longleftrightarrow> stacks_ok st s \<and> unat (current_terminal s) < 3 \<and> st (unat (current_terminal s)) \<noteq> [] \<and>
     (\<forall>u<3. u \<noteq> unat (current_terminal s) \<and> st u \<noteq> [] \<longrightarrow>
        sched_esp (block s (hd (st u))) \<noteq> 0 \<and> sched_ebp (block s (hd (st u))) \<noteq> 0)"

definition saved :: "kargs \<Rightarrow> nat \<Rightarrow> 'a pcbs_scheme \<Rightarrow> 'a pcbs_scheme" where
  "saved K i s = upd_pcb (pcb_address (proc_no i)) (\<lambda>b. b\<lparr>sched_esp := cur_esp K, sched_ebp := cur_ebp K\<rparr>) s"

lemma saved_block:
  "i < 6 \<Longrightarrow> k < 6 \<Longrightarrow> block (saved K i s) k =
     (if k = i then (block s i)\<lparr>sched_esp := cur_esp K, sched_ebp := cur_ebp K\<rparr> else block s k)"
  using pcb_address_inj [of k i] by (auto simp: saved_def block_def upd_pcb_def)

lemma saved_child_only: "child_only i s (saved K i s)"
  by (simp add: child_only_def saved_def upd_pcb_def block_def)

lemma pit_run:
  fixes s :: "'a pcbs_scheme"
  assumes ok: "sched_ok st s" and t: "t = unat (current_terminal s)" "st t = i # is"
    and u: "u = next_term st t" "st u = j # js" and K: "cur_esp K \<noteq> 0" "cur_ebp K \<noteq> 0"
  defines "b \<equiv> block (saved K i s) j"
  shows "\<exists>s'. pit_handler K s = Some (Resumes (sched_esp b) (sched_ebp b) (sched_esp b), s') \<and>
    sched_ok st s' \<and> unat (current_terminal s') = u \<and> pcb_mem s' = pcb_mem (saved K i s) \<and>
    pcb_ptr s' = pcb_ptr s \<and> pcb_num s' = pcb_num s \<and> cr3 s' = j \<and>
    tss_esp0 s' = KERNEL_BOTTOM - STACK_SIZE * word_of_nat j \<and> ram s' = ram s \<and> pd s' = pd s \<and> vidmem_pt s' = vidmem_pt s \<and>
    terminal_number s' = terminal_number s \<and> termis s' = termis s"
proof -
  define s0 where "s0 = enable_irq 0 (cli s)"
  have same: "same_procs s s0" unfolding s0_def by (rule same_procs_trans [OF same_procs_machine(1,5)])
  have st: "stacks_ok st s" "t < 3" using ok t(1) by (simp_all add: sched_ok_def)
  have i: "i < 6" "i \<in> set (all_slots st)"
    using stacks_okD(10) [OF st, of i] all_slots_pop(4) [where st = st, OF st(2) t(2)] t(2) by simp_all
  have u3: "u < 3" using next_term_bound [OF st(2)] u(1) by simp
  have j: "j < 6" using stacks_okD(10) [OF st(1) u3, of j] u(2) by simp
  have ct: "unat (current_terminal s0) = t" using same t(1) by (simp add: same_procs_def)
  have ok0: "stacks_ok st s0" using stacks_ok_same [OF same] st(1) by simp
  have cur: "find_terminal_by_pcb (current_terminal s0) s0 = proc_no i"
    using stacks_okD(8) [OF ok0 st(2)] t(2) by (simp add: find_terminal_by_pcb_def ct top_no_def)
  have fp: "find_pcb s0 (proc_no i) = pcb_address (proc_no i)" by (rule stacks_find_pcb(1) [OF ok0 i(2)])
  define s1 where "s1 = saved K i s0"
  have bl: "block s1 k = block (saved K i s) k" for k
    using same by (simp add: s1_def saved_def block_def upd_pcb_def same_procs_def)
  have ok1: "stacks_ok st s1" unfolding s1_def by (rule child_only_stacks [OF saved_child_only ok0 i(1)])
  have ct1: "unat (current_terminal s1) = t" using ct by (simp add: s1_def saved_def upd_pcb_def)
  have tops: "sched_esp (block s1 (hd (st v))) \<noteq> 0 \<and> sched_ebp (block s1 (hd (st v))) \<noteq> 0"
    if "v < 3" "st v \<noteq> []" for v
  proof -
    have k: "hd (st v) < 6" using stacks_okD(10) [OF st(1) that(1), of "hd (st v)"] that(2) by simp
    show ?thesis
    proof (cases "hd (st v) = i")
      case True
      then show ?thesis using K by (simp add: bl saved_block [OF i(1) i(1)])
    next
      case False
      then have "v \<noteq> t" using t(2) by auto
      then show ?thesis using ok that t(1) False by (simp add: bl saved_block [OF i(1) k] sched_ok_def)
    qed
  qed
  have regs: "sched_esp (block s1 j) \<noteq> 0" "sched_ebp (block s1 j) \<noteq> 0" using tops [OF u3] u(2) by simp_all
  have ne: "st t \<noteq> []" using t(2) by simp
  define s' where "s' = set_new_task j 0 (s1\<lparr>current_terminal := word_of_nat u,
      tss_esp0 := KERNEL_BOTTOM - STACK_SIZE * word_of_nat j, tss_ss0 := KERNEL_DS\<rparr>)"
  note sw = switch_next_run [OF ok1 ct1 st(2) u regs, folded s'_def]
  have "schedule_next_process K (- 1) (cli s) =
      Some (switch_next (upd_pcb (pcb_address (proc_no i)) (\<lambda>b. b\<lparr>sched_esp := cur_esp K, sched_ebp := cur_ebp K\<rparr>) s0))"
    using cur fp proc_no(4) [OF i(1)] pcb_address_nonzero [OF i(1)]
    by (simp add: schedule_next_process_def Let_def s0_def [symmetric] word_sle_eq)
  then have run: "pit_handler K s = Some (Resumes (sched_esp b) (sched_ebp b) (sched_esp b), s')"
    by (simp add: pit_handler_def saved_def [symmetric] s1_def [symmetric] sw bl b_def)
  have uu: "unat (word_of_nat u :: u32) = u" using u3 by (intro unat_u32_of_nat) simp
  have same': "same_procs (s1\<lparr>current_terminal := word_of_nat u,
      tss_esp0 := KERNEL_BOTTOM - STACK_SIZE * word_of_nat j, tss_ss0 := KERNEL_DS\<rparr>) s'"
    unfolding s'_def by (rule same_procs_machine(9))
  then have f: "pcb_mem s' = pcb_mem s1" "pcb_ptr s' = pcb_ptr s1" "pcb_num s' = pcb_num s1"
    "unat (current_terminal s') = u" by (simp_all add: same_procs_def uu)
  have "stacks_ok st s'" using stacks_ok_same [OF same', of st] ok1
    by (simp add: stacks_ok_def block_def [abs_def])
  then have "sched_ok st s'" using f u u3 tops by (simp add: sched_ok_def block_def)
  moreover have "termis s' = termis s"
    by (simp add: s'_def s1_def saved_def upd_pcb_def s0_def enable_irq_def set_new_task_def set_register_def machine_simps)
  moreover have "terminal_number s' = terminal_number s"
    using same same' by (simp add: same_procs_def s1_def saved_def)
  moreover have "pcb_mem s1 = pcb_mem (saved K i s)" "pcb_ptr s1 = pcb_ptr s" "pcb_num s1 = pcb_num s"
    using same by (simp_all add: s1_def saved_def upd_pcb_def same_procs_def)
  moreover have "cr3 s' = j" "tss_esp0 s' = KERNEL_BOTTOM - STACK_SIZE * word_of_nat j"
    "ram s' = ram s" "pd s' = pd s" "vidmem_pt s' = vidmem_pt s"
    by (simp_all add: s'_def s1_def saved_def upd_pcb_def s0_def enable_irq_def machine_simps)
  ultimately show ?thesis using run f by (intro exI [of _ s'] conjI) simp_all
qed

section \<open>Properties\<close>

text \<open>A tick of the timer is round robin: it saves the stack registers of the running program,
  goes to the next terminal that has a program and resumes that terminal's top program with its own
  saved registers, address space and kernel stack.  Nothing else in the process table changes, nor
  the memory.\<close>

theorem tick_round_robin:
  assumes "sched_ok st s" "t = unat (current_terminal s)" "st t = i # is"
    and "u = next_term st t" "st u = j # js" "cur_esp K \<noteq> 0" "cur_ebp K \<noteq> 0"
  shows "\<exists>s'. pit_handler K s = Some (Resumes (sched_esp (block (saved K i s) j)) (sched_ebp (block (saved K i s) j))
      (sched_esp (block (saved K i s) j)), s') \<and>
    sched_ok st s' \<and> unat (current_terminal s') = u \<and> pcb_mem s' = pcb_mem (saved K i s) \<and>
    pcb_ptr s' = pcb_ptr s \<and> pcb_num s' = pcb_num s \<and> cr3 s' = j \<and>
    tss_esp0 s' = KERNEL_BOTTOM - STACK_SIZE * word_of_nat j \<and> ram s' = ram s \<and> pd s' = pd s \<and> vidmem_pt s' = vidmem_pt s \<and>
    terminal_number s' = terminal_number s \<and> termis s' = termis s"
  using pit_run [OF assms] .

text \<open>Several ticks, with the registers the processor has at each.\<close>

fun ticks :: "kargs list \<Rightarrow> 'a pcbs_scheme \<Rightarrow> 'a pcbs_scheme option" where
  "ticks [] s = Some s"
| "ticks (K # Ks) s =
     (case pit_handler K s of Some (Resumes _ _ _, s') \<Rightarrow> ticks Ks s' | _ \<Rightarrow> None)"

lemma next_term_reaches:
  assumes "t < 3" "u < 3" "st u \<noteq> []"
  shows "next_term st t = u \<or> next_term st (next_term st t) = u \<or> next_term st (next_term st (next_term st t)) = u"
proof -
  have n: "next_term st 0 = (if st 1 \<noteq> [] then 1 else if st 2 \<noteq> [] then 2 else 0)"
    "next_term st 1 = (if st 2 \<noteq> [] then 2 else if st 0 \<noteq> [] then 0 else 1)"
    "next_term st 2 = (if st 0 \<noteq> [] then 0 else if st 1 \<noteq> [] then 1 else 2)"
    unfolding next_term_def by (simp_all add: numeral_2_eq_2)
  show ?thesis using assms unfolding less_3_cases by (elim disjE) (simp_all add: n del: One_nat_def)
qed

lemma tick_moves:
  assumes "sched_ok st s" "cur_esp K \<noteq> 0" "cur_ebp K \<noteq> 0"
  shows "\<exists>a b c s'. pit_handler K s = Some (Resumes a b c, s') \<and> sched_ok st s' \<and>
    unat (current_terminal s') = next_term st (unat (current_terminal s))"
proof -
  let ?t = "unat (current_terminal s)"
  have ne: "st ?t \<noteq> []" using assms(1) by (simp add: sched_ok_def)
  then obtain i "is" where i: "st ?t = i # is" by (cases "st ?t") auto
  obtain j js where j: "st (next_term st ?t) = j # js"
    using next_term_nonempty [where st = st, OF ne] by (cases "st (next_term st ?t)") auto
  from pit_run [OF assms(1) refl i refl j assms(2,3)] show ?thesis by blast
qed

lemma ticks_reach:
  assumes s: "sched_ok st s" and u: "u < 3" "st u \<noteq> []"
    and K: "cur_esp K1 \<noteq> 0" "cur_ebp K1 \<noteq> 0" "cur_esp K2 \<noteq> 0" "cur_ebp K2 \<noteq> 0" "cur_esp K3 \<noteq> 0" "cur_ebp K3 \<noteq> 0"
  shows "\<exists>n s'. 1 \<le> n \<and> n \<le> 3 \<and> ticks (take n [K1, K2, K3]) s = Some s' \<and> unat (current_terminal s') = u"
proof -
  let ?t = "unat (current_terminal s)" and ?n = "next_term st"
  have t: "?t < 3" using s by (simp add: sched_ok_def)
  obtain a1 b1 c1 s1 where 1: "pit_handler K1 s = Some (Resumes a1 b1 c1, s1)" "sched_ok st s1" "unat (current_terminal s1) = ?n ?t"
    using tick_moves [OF s K(1,2)] by blast
  obtain a2 b2 c2 s2 where 2: "pit_handler K2 s1 = Some (Resumes a2 b2 c2, s2)" "sched_ok st s2"
    "unat (current_terminal s2) = ?n (?n ?t)"
    using tick_moves [OF 1(2) K(3,4)] 1(3) by auto
  obtain a3 b3 c3 s3 where 3: "pit_handler K3 s2 = Some (Resumes a3 b3 c3, s3)" "unat (current_terminal s3) = ?n (?n (?n ?t))"
    using tick_moves [OF 2(2) K(5,6)] 2(3) by auto
  from next_term_reaches [where st = st, OF t u] show ?thesis
  proof (elim disjE)
    assume "?n ?t = u"
    then show ?thesis using 1 by (intro exI [of _ 1] exI [of _ s1]) simp
  next
    assume "?n (?n ?t) = u"
    then show ?thesis using 1 2 by (intro exI [of _ 2] exI [of _ s2]) simp
  next
    assume "?n (?n (?n ?t)) = u"
    then show ?thesis using 1 2 3 by (intro exI [of _ 3] exI [of _ s3]) simp
  qed
qed

text \<open>The scheduler starves nobody: whatever runs now, the program of every terminal that has one
  gets the processor within three ticks.\<close>

theorem ticks_fair:
  assumes "sched_ok st s" and "u < 3" "st u \<noteq> []"
    and "cur_esp K1 \<noteq> 0" "cur_ebp K1 \<noteq> 0" "cur_esp K2 \<noteq> 0" "cur_ebp K2 \<noteq> 0" "cur_esp K3 \<noteq> 0" "cur_ebp K3 \<noteq> 0"
  shows "\<exists>n s'. 1 \<le> n \<and> n \<le> 3 \<and> ticks (take n [K1, K2, K3]) s = Some s' \<and> unat (current_terminal s') = u"
  using ticks_reach [OF assms] .

text \<open>C8: Being preempted is transparent: a program that a tick interrupts with the registers of \<open>K\<close>
  is resumed, when the scheduler comes back to its terminal, with exactly these registers in its own
  address space, whatever the other programs did meanwhile.\<close>

theorem preemption_roundtrip:
  assumes s: "sched_ok st s" "t = unat (current_terminal s)" "st t = i # is" "cur_esp K \<noteq> 0" "cur_ebp K \<noteq> 0"
    and tick: "pit_handler K s = Some (out, s1)"
    and others: "sched_ok st2 s2" "st2 t = st t" "block s2 i = block s1 i" "t \<noteq> unat (current_terminal s2)"
      "next_term st2 (unat (current_terminal s2)) = t" "cur_esp K' \<noteq> 0" "cur_ebp K' \<noteq> 0"
  shows "\<exists>s3. pit_handler K' s2 = Some (Resumes (cur_esp K) (cur_ebp K) (cur_esp K), s3) \<and> cr3 s3 = i \<and>
    unat (current_terminal s3) = t \<and> sched_ok st2 s3"
proof -
  have t3: "t < 3" and ok: "stacks_ok st s" using s(1,2) by (simp_all add: sched_ok_def)
  have i: "i < 6" using stacks_okD(10) [OF ok t3, of i] s(3) by simp
  have ne: "st t \<noteq> []" using s(3) by simp
  obtain j js where j: "st (next_term st t) = j # js"
    using next_term_nonempty [where st = st, OF ne] by (cases "st (next_term st t)") auto
  from pit_run [OF s(1-3) refl j s(4,5)] tick have "pcb_mem s1 = pcb_mem (saved K i s)" by auto
  then have b: "block s2 i = (block s i)\<lparr>sched_esp := cur_esp K, sched_ebp := cur_ebp K\<rparr>"
    using others(3) saved_block [OF i i, of K s] by (simp add: block_def)
  let ?t2 = "unat (current_terminal s2)"
  obtain k ks where k: "st2 ?t2 = k # ks" using others(1) by (cases "st2 ?t2") (auto simp: sched_ok_def)
  have t2: "?t2 < 3" and ok2: "stacks_ok st2 s2" using others(1) by (simp_all add: sched_ok_def)
  have st2: "st2 (next_term st2 ?t2) = i # is" using others(2,5) s(3) by simp
  have k6: "k < 6" using stacks_okD(10) [OF ok2 t2, of k] k by simp
  have "i \<noteq> k"
  proof
    assume "i = k"
    then have "i \<in> set (st2 t) \<inter> set (st2 ?t2)" using k others(2) s(3) by simp
    then show False using stacks_okD(5) [OF ok2] others(4) t3 t2
      unfolding less_3_cases all_slots_def by auto
  qed
  then have "block (saved K' k s2) i = block s2 i" using saved_block [OF k6 i] by simp
  with pit_run [OF others(1) refl k refl st2 others(6,7)] others(5) b show ?thesis by auto
qed

section \<open>Applications\<close>

text \<open>One program on the first and one on the second terminal.\<close>

definition two_terminals :: "nat \<Rightarrow> nat list" where
  "two_terminals = (\<lambda>_. [])(0 := [0], 1 := [1])"

definition sample_two :: pcbs where
  "sample_two = sample_exec\<lparr>pcb_ptr := [pcb_address 1, pcb_address 2, 0, 0, 0, 0], pcb_num := [1, 2, 0],
     pcb_mem := (\<lambda>_. sample_pcb)(pcb_address 1 := sample_pcb\<lparr>pid := 1\<rparr>,
       pcb_address 2 := sample_pcb\<lparr>pid := 2, sched_esp := 7, sched_ebp := 8\<rparr>)\<rparr>"

lemma sample_two_ok: "sched_ok two_terminals sample_two"
  unfolding sched_ok_def stacks_ok_def
  by (auto simp: sample_two_def two_terminals_def all_slots_def sample_pcb_def top_no_def proc_no_def block_def
      pcb_address_def less_6_cases less_3_cases)

lemma sample_two_terms: "unat (current_terminal sample_two) = 0" "next_term two_terminals 0 = 1" "next_term two_terminals 1 = 0"
  by (simp_all add: sample_two_def next_term_def two_terminals_def numeral_2_eq_2)

lemma sample_kargs_regs: "cur_esp sample_kargs = 0x7FBF00" "cur_ebp sample_kargs = 0x7FBF40"
  by (simp_all add: sample_kargs_def)

lemma sample_two_block: "block (saved sample_kargs 0 sample_two) 1 = sample_pcb\<lparr>pid := 2, sched_esp := 7, sched_ebp := 8\<rparr>"
  using saved_block [of 0 1 sample_kargs sample_two] by (simp add: block_def sample_two_def proc_no_def pcb_address_def)

lemma sample_two_stacks: "two_terminals 0 = [0]" "two_terminals 1 = [1]"
  by (simp_all add: two_terminals_def)

theorem tick_round_robin_witness:
  "\<exists>s'. pit_handler sample_kargs sample_two = Some (Resumes 7 8 7, s') \<and> cr3 s' = 1"
  using tick_round_robin [OF sample_two_ok sample_two_terms(1) [symmetric] sample_two_stacks(1)
      sample_two_terms(2) [symmetric] sample_two_stacks(2), of sample_kargs]
  by (auto simp: sample_kargs_regs sample_two_block [simplified])

theorem ticks_fair_witness:
  "\<exists>n s'. 1 \<le> n \<and> n \<le> 3 \<and> ticks (take n [sample_kargs, sample_kargs, sample_kargs]) sample_two = Some s' \<and>
     unat (current_terminal s') = 1"
  by (rule ticks_fair [OF sample_two_ok]) (simp_all add: sample_kargs_regs two_terminals_def)

theorem preemption_roundtrip_witness:
  "\<exists>s1 s3. pit_handler sample_kargs sample_two = Some (Resumes 7 8 7, s1) \<and>
     pit_handler sample_kargs s1 = Some (Resumes 0x7FBF00 0x7FBF40 0x7FBF00, s3) \<and> cr3 s3 = 0"
proof -
  obtain s1 where s1: "pit_handler sample_kargs sample_two = Some (Resumes 7 8 7, s1)" "sched_ok two_terminals s1"
    "unat (current_terminal s1) = 1"
    using pit_run [OF sample_two_ok sample_two_terms(1) [symmetric] sample_two_stacks(1)
        sample_two_terms(2) [symmetric] sample_two_stacks(2), of sample_kargs]
    by (auto simp: sample_kargs_regs sample_two_block [simplified])
  have "\<exists>s3. pit_handler sample_kargs s1 = Some (Resumes (cur_esp sample_kargs) (cur_ebp sample_kargs) (cur_esp sample_kargs), s3) \<and>
      cr3 s3 = 0 \<and> unat (current_terminal s3) = 0 \<and> sched_ok two_terminals s3"
    by (rule preemption_roundtrip [OF sample_two_ok sample_two_terms(1) [symmetric] sample_two_stacks(1) _ _ s1(1) s1(2)])
      (simp_all add: sample_two_terms [simplified] s1(3) sample_kargs_regs)
  with s1(1) show ?thesis by (auto simp: sample_kargs_regs)
qed

end
