(* ===== verification/Keyboard.thy ===== *)
theory Keyboard
  imports Scheduling
begin

text \<open>
  The keyboard's interrupt handler of \<^verbatim>\<open>src/kb.c\<close>: the tables of characters, the state of the
  modifier keys, the switch between the three terminals and the character that a key gives to
  the line buffer.  The three copies of the switch in the code are one definition here.
\<close>

section \<open>Tables and codes\<close>

definition pad_row :: "u8 list \<Rightarrow> u8 list" where
  "pad_row xs = xs @ replicate (128 - length xs) 0"

definition keyboard_array :: "u8 list list" where
  "keyboard_array =
     [pad_row ([0, 27] @ bytes_of ''1234567890-='' @ [8, 9] @ bytes_of ''qwertyuiop[]'' @ [10, 0] @
        bytes_of ''asdfghjkl;'' @ [0x27, 0x60, 0, 0x5C] @ bytes_of ''zxcvbnm,./'' @
        [0, 0, 0, 0x20, 0, 0, 0, 0, 0, 0]),
      pad_row ([0, 27] @ bytes_of ''!@#$%^&*()_+'' @ [8, 0] @ replicate 10 0 @ bytes_of ''{}'' @
        [10, 0, 0, 0] @ replicate 7 0 @ [0x3A, 0x22, 0x7E, 0, 0x7C, 0, 0, 0, 0] @
        [0, 0, 0] @ bytes_of ''<>?'' @ [0, 0, 0, 0x20]),
      pad_row ([0, 27] @ replicate 14 0 @ bytes_of ''QWERTYUIOP'' @ [0, 0, 0, 0] @
        bytes_of ''ASDFGHJKL'' @ replicate 5 0 @ bytes_of ''ZXCVBNM'')]"

definition set_kb :: "'a irqs_scheme \<Rightarrow> 'a irqs_scheme option" where
  "set_kb s = set_interrupt 1 Kb_handler s"

abbreviation (input) KB_DATA_PORT :: u16 where "KB_DATA_PORT \<equiv> 0x60"

section \<open>Special keys\<close>

text \<open>A released key; other codes from 128 on have no effect.\<close>

definition key_released :: "u8 \<Rightarrow> 'a tty_scheme \<Rightarrow> 'a tty_scheme" where
  "key_released scan_code s =
     (if scan_code = 0xBA then upd_cur (\<lambda>r. r\<lparr>caps_on := 0, caps_off := 1\<rparr>) s
      else if scan_code = 0xB8 then s\<lparr>alt_pressed := 0\<rparr>
      else if scan_code = 0xE0 \<or> scan_code = 0x9D then upd_cur (\<lambda>r. r\<lparr>ctrl := 0\<rparr>) s
      else if scan_code = 0xE0 \<or> scan_code = 0x1D then upd_cur (\<lambda>r. r\<lparr>ctrl := 1\<rparr>) s
      else if scan_code = 0xAA \<or> scan_code = 0xB6 then upd_cur (\<lambda>r. r\<lparr>shift := 0\<rparr>) s
      else if scan_code = 0x9D then upd_cur (\<lambda>r. r\<lparr>ctrl := 0\<rparr>) s
      else if scan_code = 0xCB then upd_cur (\<lambda>r. r\<lparr>left := 0\<rparr>) s
      else if scan_code = 0xC8 then upd_cur (\<lambda>r. r\<lparr>up := 0\<rparr>) s
      else if scan_code = 0xD0 then upd_cur (\<lambda>r. r\<lparr>down := 0\<rparr>) s
      else if scan_code = 0xCD then upd_cur (\<lambda>r. r\<lparr>right := 0\<rparr>) s
      else sti s)"

text \<open>The modifiers that end the handler, and the arrow keys, which do not.\<close>

definition modifier_pressed :: "u8 \<Rightarrow> 'a tty_scheme \<Rightarrow> 'a tty_scheme option" where
  "modifier_pressed scan_code s =
     (if scan_code = 0x1D then Some (upd_cur (\<lambda>r. r\<lparr>ctrl := 1\<rparr>) s)
      else if scan_code = 0xE0 \<or> scan_code = 0x1D then Some (upd_cur (\<lambda>r. r\<lparr>ctrl := 1\<rparr>) s)
      else if scan_code = 0x2A \<or> scan_code = 0x36 then Some (upd_cur (\<lambda>r. r\<lparr>shift := 1\<rparr>) s)
      else None)"

definition arrow_pressed :: "u8 \<Rightarrow> 'a tty_scheme \<Rightarrow> 'a tty_scheme" where
  "arrow_pressed scan_code s0 =
     (let s = (if scan_code = 0x48 then upd_cur (\<lambda>r. r\<lparr>up := 1\<rparr>) s0 else s0);
          s = (if scan_code = 0x50 then upd_cur (\<lambda>r. r\<lparr>down := 1\<rparr>) s else s);
          s = (if scan_code = 0x4B then upd_cur (\<lambda>r. r\<lparr>left := 1\<rparr>) s else s)
      in (if scan_code = 0x4D then upd_cur (\<lambda>r. r\<lparr>right := 1\<rparr>) s else s))"

definition caps_pressed :: "'a tty_scheme \<Rightarrow> 'a tty_scheme" where
  "caps_pressed s =
     (if caps_on (termi (terminal_number s) s) = 0 \<and> caps_off (termi (terminal_number s) s) = 1
      then upd_cur (\<lambda>r. r\<lparr>caps_lock := (if caps_lock r = 0 then 1 else 0), caps_on := 1, caps_off := 0\<rparr>) s
      else s)"

section \<open>Switching terminals\<close>

text \<open>\<^verbatim>\<open>memcpy\<close> of one page, run on the addresses the kernel sees and written back through the
  page tables: the destination is a page of its own, here the screen or a terminal's buffer.\<close>

definition copy_page :: "u32 \<Rightarrow> u32 \<Rightarrow> 'a paging_scheme \<Rightarrow> 'a paging_scheme" where
  "copy_page dest src s =
     (let m = snd (memcpy (vmem s) dest src FOUR_KB)
      in fold (\<lambda>i s. vwrite s (dest + word_of_nat i) (m (dest + word_of_nat i))) [0..<4096] s)"

definition switch_terminal :: "kargs \<Rightarrow> i32 \<Rightarrow> 'a pcbs_scheme \<Rightarrow> (outcome \<times> 'a pcbs_scheme) option" where
  "switch_terminal K t s0 =
     (let s = cli s0;
          old_terminal_number = terminal_number s
      in if terminal_number s = t then Some (Returns 0, s)
         else
           let s = remap_page old_terminal_number t s;
               s = copy_page (USER_VIDEO_ADDR + (old_terminal_number + 1) * FOUR_KB) VIDEO s;
               s = copy_page VIDEO (USER_VIDEO_ADDR + (t + 1) * FOUR_KB) s;
               s = s\<lparr>terminal_number := t\<rparr>;
               s = keyboard_set_cursor (cursor_x (termi (terminal_number s) s))
                     (cursor_y (termi (terminal_number s) s)) s
           in if run_shell (termi (terminal_number s) s) = 0
              then (case schedule_next_process K (terminal_number s) s of
                      Some (Returns _, s) \<Rightarrow> Some (Returns 0, s)
                    | r \<Rightarrow> r)
              else Some (Returns 0, s))"

section \<open>Characters\<close>

definition letter_code :: "u8 \<Rightarrow> bool" where
  "letter_code c \<longleftrightarrow> 0x10 \<le> c \<and> c \<le> 0x19 \<or> 0x1E \<le> c \<and> c \<le> 0x26 \<or> 0x2C \<le> c \<and> c \<le> 0x32"

text \<open>The choice of the table; with shift and caps lock the first range of the code has no
  upper bound.\<close>

definition choose_map :: "u8 \<Rightarrow> termis_t \<Rightarrow> u8" where
  "choose_map scan_code r =
     (if ctrl r \<noteq> 0 then 0
      else if shift r \<noteq> 0 then
        if caps_lock r = 0 then if letter_code scan_code then 2 else 1
        else if 0x10 \<le> scan_code \<and> (0x19 :: u8) \<noteq> 0 \<or> 0x1E \<le> scan_code \<and> scan_code \<le> 0x26 \<or>
                0x2C \<le> scan_code \<and> scan_code \<le> 0x32
             then 0 else 1
      else if caps_lock r \<noteq> 0 then if letter_code scan_code then 2 else 0
      else 0)"

definition key_pressed :: "u16 \<Rightarrow> u16 \<Rightarrow> u8 \<Rightarrow> 'a tty_scheme \<Rightarrow> 'a tty_scheme" where
  "key_pressed old_cursor_x old_cursor_y scan_code s =
     (let cur = (\<lambda>s. termi (terminal_number s) s)
      in if up (cur s) \<noteq> 0 then s
         else if down (cur s) \<noteq> 0 then s
         else if left (cur s) \<noteq> 0 then
           let s = keyboard_cursor_revert (cursor_x (cur s)) (cursor_y (cur s)) s
           in keyboard_set_cursor (cursor_x (cur s)) (cursor_y (cur s)) s
         else if right (cur s) \<noteq> 0 then
           if (ucast (cursor_y (cur s)) * 80 + ucast (cursor_x (cur s)) :: i32) <s
              ucast old_cursor_y * 80 + ucast old_cursor_x
           then
             let s = keyboard_cursor_update (cursor_x (cur s)) (cursor_y (cur s)) s
             in keyboard_set_cursor (cursor_x (cur s)) (cursor_y (cur s)) s
           else s
         else
           let s = upd_cur (\<lambda>r. r\<lparr>kmap := choose_map scan_code r\<rparr>) s;
               character = keyboard_array ! unat (kmap (cur s)) ! unat scan_code
           in sti (keyboard_fill_buffer character s))"

section \<open>The handler\<close>

definition kb_handler :: "kargs \<Rightarrow> 'a pcbs_scheme \<Rightarrow> (outcome \<times> 'a pcbs_scheme) option" where
  "kb_handler K s0 =
     (let old_cursor_x = cursor_x (termi (terminal_number s0) s0);
          old_cursor_y = cursor_y (termi (terminal_number s0) s0);
          s = cli s0;
          (code, s) = inb (dev K) KB_DATA_PORT s;
          scan_code = ucast code :: u8
      in if 128 \<le> scan_code then Some (Returns 0, key_released scan_code s)
         else case modifier_pressed scan_code s of
                Some s \<Rightarrow> Some (Returns 0, s)
              | None \<Rightarrow>
                  let s = arrow_pressed scan_code s
                  in if scan_code = 0x38 then Some (Returns 0, s\<lparr>alt_pressed := 1\<rparr>)
                     else if scan_code = 0x3A then Some (Returns 0, caps_pressed s)
                     else if scan_code = 0x3B \<and> alt_pressed s = 1 then switch_terminal K 0 s
                     else if scan_code = 0x3C \<and> alt_pressed s = 1 then switch_terminal K 1 s
                     else if scan_code = 0x3D \<and> alt_pressed s = 1 then switch_terminal K 2 s
                     else Some (Returns 0, key_pressed old_cursor_x old_cursor_y scan_code s))"

end
