(* ===== verification/Screens.thy ===== *)
theory Screens
  imports Keyboard ProcessProperties
begin

text \<open>
  What the terminals show: four pages of video memory, the visible one and one buffer for each
  terminal that is not displayed.  The switch of \<^verbatim>\<open>kb_handler\<close> in \<^verbatim>\<open>src/kb.c\<close> copies pages and
  remaps the programs' video pages (\<^verbatim>\<open>remap_page\<close> of \<^verbatim>\<open>src/paging.c\<close>); seen from a terminal or a
  program nothing changes.
\<close>

section \<open>Pages\<close>

definition page_addr :: "nat \<Rightarrow> u32" where
  "page_addr k = VIDEO + word_of_nat k * FOUR_KB"

definition page :: "'a paging_scheme \<Rightarrow> nat \<Rightarrow> u8 list" where
  "page s k = load_bytes (ram s) (page_addr k) 4096"

lemma less_4_cases: "(k :: nat) < 4 \<longleftrightarrow> k = 0 \<or> k = 1 \<or> k = 2 \<or> k = 3"
  by arith

lemma page_addr_at: "k < 4 \<Longrightarrow> unat (page_addr k) = 753664 + 4096 * k"
  unfolding less_4_cases page_addr_def by (elim disjE) simp_all

lemma pages_separate: "k < 4 \<Longrightarrow> j < 4 \<Longrightarrow> k \<noteq> j \<Longrightarrow> separate (page_addr k) 4096 (page_addr j) 4096"
  by (simp add: separate_def page_addr_at) arith

lemma length_page [simp]: "length (page s k) = 4096"
  by (simp add: page_def)

lemma phys_buffer:
  assumes "paging_ok s" "1 \<le> k" "k < 4" "j < 4096"
  shows "phys s (USER_VIDEO_ADDR + word_of_nat k * FOUR_KB + word_of_nat j) = page_addr k + word_of_nat j"
proof -
  let ?a = "USER_VIDEO_ADDR + word_of_nat k * FOUR_KB + word_of_nat j :: u32"
  have d: "?a - USER_VIDEO_ADDR = word_of_nat (4096 * k + j)" by (simp add: mult.commute)
  have u: "unat (?a - USER_VIDEO_ADDR) = 4096 * k + j"
    unfolding d using assms(3,4) by (intro unat_u32_of_nat) simp
  have v: "in_region USER_VIDEO_ADDR 4194304 ?a" unfolding in_region_def u using assms(3,4) by simp
  have "\<not> in_region PROG_START 4194304 ?a"
  proof
    assume a: "in_region PROG_START 4194304 ?a"
    have "separate PROG_START 4194304 USER_VIDEO_ADDR 4194304" by (simp add: separate_def)
    then show False using a v by (rule separate_disjoint)
  qed
  moreover have "(4096 * k + j) div 4096 = k" "(4096 * k + j) mod 4096 = j" using assms(4) by simp_all
  ultimately show ?thesis
    using v paging_okD(4) [OF assms(1-3)] by (simp only: phys_def if_True if_False u) (simp add: page_addr_def)
qed

lemma phys_visible:
  assumes "j < 4096"
  shows "phys s (VIDEO + word_of_nat j) = page_addr 0 + word_of_nat j"
proof -
  have "unat (word_of_nat (753664 + j) :: u32) = 753664 + j" using assms by (intro unat_u32_of_nat) simp
  then have "unat (VIDEO + word_of_nat j :: u32) < 8388608" using assms by simp
  then show ?thesis by (simp add: phys_low page_addr_def)
qed

section \<open>Copying a page\<close>

lemma fold_vwrite:
  assumes "\<And>i. i < n \<Longrightarrow> phys s (d + word_of_nat i) = pdst + word_of_nat i"
  shows "fold (\<lambda>i s. vwrite s (d + word_of_nat i) (b i)) [0..<n] s = s\<lparr>ram := store_bytes (ram s) pdst (map b [0..<n])\<rparr>"
  using assms
proof (induction n)
  case (Suc n)
  let ?s = "s\<lparr>ram := store_bytes (ram s) pdst (map b [0..<n])\<rparr>"
  have "phys ?s = phys s" by (rule phys_cong) simp_all
  then have "vwrite ?s (d + word_of_nat n) (b n) =
      s\<lparr>ram := (store_bytes (ram s) pdst (map b [0..<n]))(pdst + word_of_nat n := b n)\<rparr>"
    using Suc.prems [of n] by (simp add: vwrite_def)
  with Suc show ?case by (simp add: store_bytes_snoc fun_upd_def)
qed simp

lemma copy_page_run:
  assumes d: "\<And>i. i < 4096 \<Longrightarrow> phys s (dest + word_of_nat i) = pdst + word_of_nat i"
    and p: "\<And>i. i < 4096 \<Longrightarrow> phys s (src + word_of_nat i) = psrc + word_of_nat i"
    and sep: "separate dest 4096 src 4096"
  shows "copy_page dest src s = s\<lparr>ram := store_bytes (ram s) pdst (load_bytes (ram s) psrc 4096)\<rparr>"
proof -
  let ?m = "snd (memcpy (vmem s) dest src FOUR_KB)"
  have m: "?m = store_bytes (vmem s) dest (load_bytes (vmem s) src 4096)"
    using memcpy_run [of dest FOUR_KB src "vmem s"] sep by simp
  have "map (\<lambda>i. ?m (dest + word_of_nat i)) [0..<4096] = load_bytes (ram s) psrc 4096"
  proof (rule nth_equalityI)
    fix i assume "i < length (map (\<lambda>i. ?m (dest + word_of_nat i)) [0..<4096])"
    then have i: "i < 4096" by simp
    have "?m (dest + word_of_nat i) = vmem s (src + word_of_nat i)"
      unfolding m using i by (simp add: store_bytes_nth nth_load_bytes)
    with i show "map (\<lambda>i. ?m (dest + word_of_nat i)) [0..<4096] ! i = load_bytes (ram s) psrc 4096 ! i"
      by (simp add: nth_load_bytes vmem_def p del: upt_rec_numeral)
  qed simp
  then show ?thesis
    unfolding copy_page_def Let_def
    using fold_vwrite [of 4096 s dest pdst "\<lambda>i. ?m (dest + word_of_nat i)"] d by (simp del: upt_rec_numeral)
qed

section \<open>Remapping\<close>

text \<open>The page that holds the screen of terminal \<open>t\<close> while terminal \<open>d\<close> is displayed, and the
  mapping of the programs' video pages: the free slots and the programs of the displayed terminal
  to the screen, the others to their terminal's buffer.\<close>

definition screen_page :: "i32 \<Rightarrow> i32 \<Rightarrow> nat" where
  "screen_page d t = (if t = d then 0 else unat t + 1)"

definition video_frame :: "'a paging_scheme \<Rightarrow> nat \<Rightarrow> u32" where
  "video_frame s i = frame (base_address (vidmem_pt s i 0))"

text \<open>The video pages follow the terminals that \<^verbatim>\<open>new_pcb\<close> recorded in the blocks.\<close>

definition vids_ok :: "'a pcbs_scheme \<Rightarrow> bool" where
  "vids_ok s \<longleftrightarrow>
     (\<forall>i<6. if pcb_ptr s ! i = 0 then video_frame s i = page_addr 0
            else unat (pcb_terminal (pcb_mem s (pcb_ptr s ! i))) < 3 \<and>
              video_frame s i = page_addr (screen_page (terminal_number s) (pcb_terminal (pcb_mem s (pcb_ptr s ! i)))))"

lemma vids_ok_cong:
  "pcb_ptr s' = pcb_ptr s \<Longrightarrow> pcb_mem s' = pcb_mem s \<Longrightarrow> vidmem_pt s' = vidmem_pt s \<Longrightarrow>
     terminal_number s' = terminal_number s \<Longrightarrow> vids_ok s' = vids_ok s"
  by (simp add: vids_ok_def video_frame_def)

lemma screen_page_less: "unat t < 3 \<Longrightarrow> screen_page d t < 4"
  by (simp add: screen_page_def)

definition remap_entry :: "i32 \<Rightarrow> i32 \<Rightarrow> i32 \<Rightarrow> pde \<Rightarrow> pde" where
  "remap_entry old new t e =
     (let e = (if t = old then e\<lparr>base_address := ucast (drop_bit 12 (VIDEO + (old + 1) * FOUR_KB))\<rparr> else e)
      in if t = new then e\<lparr>base_address := ucast (drop_bit 12 VIDEO)\<rparr> else e)"

lemma remap_one_run:
  "remap_one old new i s =
     s\<lparr>vidmem_pt := (\<lambda>k. if k = i \<and> pcb_ptr s ! i \<noteq> 0
       then (vidmem_pt s k)(0 := remap_entry old new (pcb_terminal (pcb_mem s (pcb_ptr s ! i))) (vidmem_pt s k 0))
       else vidmem_pt s k)\<rparr>"
  by (auto simp: remap_one_def remap_entry_def upd2_def Let_def fun_eq_iff)

lemma remap_fold:
  "fold (remap_one old new) [0..<n] s =
     s\<lparr>vidmem_pt := (\<lambda>k. if k < n \<and> pcb_ptr s ! k \<noteq> 0
       then (vidmem_pt s k)(0 := remap_entry old new (pcb_terminal (pcb_mem s (pcb_ptr s ! k))) (vidmem_pt s k 0))
       else vidmem_pt s k)\<rparr>"
proof (induction n)
  case (Suc n)
  have "fold (remap_one old new) [0..<Suc n] s = remap_one old new n (fold (remap_one old new) [0..<n] s)"
    by simp
  then show ?case unfolding Suc.IH remap_one_run
    by simp (intro arg_cong [where f = "\<lambda>v. s\<lparr>vidmem_pt := v\<rparr>"] ext; auto simp: less_Suc_eq)
qed simp

lemma frame_of_page:
  assumes "unat (t :: i32) < 3"
  shows "frame (ucast (drop_bit 12 (VIDEO + (t + 1) * FOUR_KB))) = page_addr (unat t + 1)"
    "frame (ucast (drop_bit 12 (VIDEO :: u32))) = page_addr 0"
proof -
  have "t = word_of_nat (unat t)" by simp
  then have "t = 0 \<or> t = 1 \<or> t = 2" using assms unfolding less_3_cases by (auto simp: word_unat_eq_iff)
  then show "frame (ucast (drop_bit 12 (VIDEO + (t + 1) * FOUR_KB))) = page_addr (unat t + 1)"
    by (elim disjE) (simp_all add: frame_def page_addr_def)
qed (simp add: frame_def page_addr_def)

lemma remap_page_vids:
  fixes s :: "'a pcbs_scheme"
  assumes v: "vids_ok s" and d: "unat (terminal_number s) < 3"
    and s': "s' = (remap_page (terminal_number s) new s)\<lparr>terminal_number := new, ram := r\<rparr>"
  shows "vids_ok s'"
  unfolding vids_ok_def
proof (intro allI impI)
  fix i :: nat
  assume i: "i < 6"
  have f: "pcb_ptr s' = pcb_ptr s" "pcb_mem s' = pcb_mem s" "terminal_number s' = new"
    by (simp_all add: s' remap_page_def remap_fold machine_simps)
  let ?t = "pcb_terminal (pcb_mem s (pcb_ptr s ! i))"
  have e: "vidmem_pt s' i 0 = (if pcb_ptr s ! i = 0 then vidmem_pt s i 0
      else remap_entry (terminal_number s) new ?t (vidmem_pt s i 0))"
    using i by (simp add: s' remap_page_def remap_fold machine_simps)
  show "if pcb_ptr s' ! i = 0 then video_frame s' i = page_addr 0
      else unat (pcb_terminal (pcb_mem s' (pcb_ptr s' ! i))) < 3 \<and>
        video_frame s' i = page_addr (screen_page (terminal_number s') (pcb_terminal (pcb_mem s' (pcb_ptr s' ! i))))"
  proof (cases "pcb_ptr s ! i = 0")
    case True
    then have "video_frame s i = page_addr 0" using v i by (simp add: vids_ok_def)
    then show ?thesis using True e by (simp add: f video_frame_def)
  next
    case False
    then have w: "unat ?t < 3" "video_frame s i = page_addr (screen_page (terminal_number s) ?t)"
      using v i by (auto simp: vids_ok_def)
    have "video_frame s' i = page_addr (screen_page new ?t)"
      using False w frame_of_page [OF w(1)] frame_of_page(1) [OF d]
      by (auto simp: video_frame_def e remap_entry_def screen_page_def Let_def)
    then show ?thesis using False w(1) by (simp add: f)
  qed
qed

section \<open>The switch\<close>

text \<open>What terminal \<open>u\<close> shows, or would show, and what a program sees through its video page.\<close>

definition screen_of :: "'a pcbs_scheme \<Rightarrow> i32 \<Rightarrow> u8 list" where
  "screen_of s u = page s (screen_page (terminal_number s) u)"

definition program_video :: "'a pcbs_scheme \<Rightarrow> nat \<Rightarrow> u8 list" where
  "program_video s i = load_bytes (ram s) (video_frame s i) 4096"

lemma vids_ok_program_video:
  assumes "vids_ok s" "i < 6" "pcb_ptr s ! i \<noteq> 0"
  shows "program_video s i = screen_of s (pcb_terminal (pcb_mem s (pcb_ptr s ! i)))"
  using assms by (auto simp: vids_ok_def program_video_def screen_of_def page_def)

lemma page_store:
  assumes "k < 4" "j < 4" "length bs = 4096"
  shows "load_bytes (store_bytes r (page_addr k) bs) (page_addr j) 4096 =
    (if j = k then bs else load_bytes r (page_addr j) 4096)"
  using assms load_store_bytes [of bs r "page_addr k"] load_store_separate [of "page_addr k" bs "page_addr j" 4096 r]
    pages_separate [of k j] by auto

lemma remap_page_fields:
  "remap_page old new s = s\<lparr>intf := False, vidmem_pt := vidmem_pt (remap_page old new s)\<rparr>"
  "k \<noteq> 0 \<Longrightarrow> vidmem_pt (remap_page old new s) i k = vidmem_pt s i k"
  by (simp_all add: remap_page_def remap_fold machine_simps)

lemma remap_page_paging:
  assumes "paging_ok s" "unat old < 3"
  shows "paging_ok (remap_page old new s)"
proof -
  have z: "\<exists>j\<in>set [0..<4]. frame (base_address (vidmem_pt (remap_page old new s) i 0)) = VIDEO + word_of_nat j * FOUR_KB"
    if "\<exists>j\<in>set [0..<4]. frame (base_address (vidmem_pt s i 0)) = VIDEO + word_of_nat j * FOUR_KB" for i
  proof -
    have "frame (base_address (remap_entry old new t e)) \<in>
        {frame (base_address e), page_addr (unat old + 1), page_addr 0}" for t e
      using frame_of_page(1) [OF assms(2)] frame_of_page(2) [OF assms(2)] by (simp add: remap_entry_def Let_def)
    then have "frame (base_address (vidmem_pt (remap_page old new s) i 0)) \<in>
        {frame (base_address (vidmem_pt s i 0)), page_addr (unat old + 1), page_addr 0}"
      by (auto simp: remap_page_def remap_fold machine_simps)
    moreover have "unat old + 1 \<in> set [0..<4]" "0 \<in> set [0..<4 :: nat]" using assms(2) by auto
    ultimately show ?thesis using that unfolding page_addr_def by (elim insertE emptyE) (simp, blast+)
  qed
  have f: "pd (remap_page old new s) = pd s" "cr3 (remap_page old new s) = cr3 s"
    by (subst remap_page_fields(1); simp)+
  show ?thesis
    using assms(1) z remap_page_fields(2) [of _ old new s] unfolding paging_ok_def f by simp
qed

lemma keyboard_set_cursor_io: "\<exists>es. keyboard_set_cursor x y s = s\<lparr>io := io s @ es\<rparr>"
  by (simp add: keyboard_set_cursor_def machine_simps Let_def) (rule exI, rule refl)

text \<open>The switch of the display, and then the shell if the terminal has none.\<close>

lemma switch_display:
  fixes s :: "'a pcbs_scheme"
  assumes p: "paging_ok s" and t: "unat (terminal_number s) < 3" "unat t < 3" "terminal_number s \<noteq> t"
  defines "d \<equiv> unat (terminal_number s)" and "n \<equiv> unat t"
  shows "\<exists>es. let s' = (remap_page (terminal_number s) t s)
      \<lparr>ram := store_bytes (store_bytes (ram s) (page_addr (d + 1)) (page s 0)) (page_addr 0) (page s (n + 1)),
       terminal_number := t, io := io s @ es\<rparr>
    in switch_terminal K t s = (if run_shell (termi t s) = 0
      then (case schedule_next_process K t s' of Some (Returns _, s) \<Rightarrow> Some (Returns 0, s) | r \<Rightarrow> r)
      else Some (Returns 0, s'))"
proof -
  define s1 where "s1 = remap_page (terminal_number s) t (cli s)"
  have c: "remap_page o' t (cli s) = remap_page o' t s" for o'
    by (simp add: remap_page_def machine_simps)
  have s1: "s1 = s\<lparr>intf := False, vidmem_pt := vidmem_pt s1\<rparr>"
    unfolding s1_def c by (rule remap_page_fields(1))
  have p1: "paging_ok s1" unfolding s1_def c by (rule remap_page_paging [OF p t(1)])
  have dn: "terminal_number s = word_of_nat d" "t = word_of_nat n" "d < 3" "n < 3" "d \<noteq> n"
    using t by (simp_all add: d_def n_def word_unat_eq_iff)
  have b: "phys x (USER_VIDEO_ADDR + (word_of_nat k + 1) * FOUR_KB + word_of_nat j) = page_addr (k + 1) + word_of_nat j"
    if "paging_ok x" "k < 3" "j < 4096" for x :: "'a pcbs_scheme" and k j
    using phys_buffer [OF that(1), of "k + 1" j] that by (simp add: add.commute)
  have u: "unat (USER_VIDEO_ADDR + (word_of_nat k + 1) * FOUR_KB :: u32) = 138412032 + 4096 * (k + 1)" if "k < 3" for k
    using that unfolding less_3_cases by (elim disjE) simp_all
  have ls: "separate (USER_VIDEO_ADDR + (word_of_nat k + 1) * FOUR_KB) 4096 VIDEO 4096"
    "separate VIDEO 4096 (USER_VIDEO_ADDR + (word_of_nat k + 1) * FOUR_KB) 4096" if "k < 3" for k
    using that unfolding separate_def u [OF that] by simp_all
  define s2 where "s2 = s1\<lparr>ram := store_bytes (ram s1) (page_addr (d + 1)) (load_bytes (ram s1) (page_addr 0) 4096)\<rparr>"
  have c2: "copy_page (USER_VIDEO_ADDR + (terminal_number s + 1) * FOUR_KB) VIDEO s1 = s2"
    unfolding dn(1) s2_def using b [OF p1 dn(3)] ls(1) [OF dn(3)]
    by (intro copy_page_run) (simp_all add: phys_visible)
  have p2: "paging_ok s2" using p1 by (simp add: s2_def paging_ok_def)
  define s3 where "s3 = s2\<lparr>ram := store_bytes (ram s2) (page_addr 0) (load_bytes (ram s2) (page_addr (n + 1)) 4096)\<rparr>"
  have c3: "copy_page VIDEO (USER_VIDEO_ADDR + (t + 1) * FOUR_KB) s2 = s3"
    unfolding dn(2) s3_def using b [OF p2 dn(4)] ls(2) [OF dn(4)]
    by (intro copy_page_run) (simp_all add: phys_visible)
  have r1: "ram s1 = ram s" by (subst s1) simp
  have r3: "ram s3 = store_bytes (store_bytes (ram s) (page_addr (d + 1)) (page s 0)) (page_addr 0) (page s (n + 1))"
    using page_store [of "d + 1" "n + 1" "page s 0" "ram s"] dn by (simp add: s3_def s2_def r1 page_def)
  let ?x = "cursor_x (termi t (s3\<lparr>terminal_number := t\<rparr>))" and ?y = "cursor_y (termi t (s3\<lparr>terminal_number := t\<rparr>))"
  obtain es where es: "keyboard_set_cursor ?x ?y (s3\<lparr>terminal_number := t\<rparr>) =
      (s3\<lparr>terminal_number := t\<rparr>)\<lparr>io := io (s3\<lparr>terminal_number := t\<rparr>) @ es\<rparr>"
    using keyboard_set_cursor_io by blast
  have f: "s3 = (remap_page (terminal_number s) t s)\<lparr>ram := ram s3\<rparr>"
    by (simp add: s3_def s2_def s1_def c)
  have i3: "io s3 = io s" "termis s3 = termis s"
    by (simp_all add: s3_def s2_def, (subst s1, simp)+)
  define s' where "s' = (s3\<lparr>terminal_number := t\<rparr>)\<lparr>io := io s @ es\<rparr>"
  have "terminal_number s' = t" "termi t s' = termi t s" by (simp_all add: s'_def termi_def i3)
  then have "switch_terminal K t s = (if run_shell (termi t s) = 0
      then (case schedule_next_process K t s' of Some (Returns _, s) \<Rightarrow> Some (Returns 0, s) | r \<Rightarrow> r)
      else Some (Returns 0, s'))"
    using t(3) es i3
    by (simp add: switch_terminal_def Let_def machine_simps)
      (simp add: s1_def [unfolded machine_simps, symmetric] c2 [simplified] c3 [simplified] s'_def [symmetric] termi_def)
  moreover have "s' = (remap_page (terminal_number s) t s)
      \<lparr>ram := store_bytes (store_bytes (ram s) (page_addr (d + 1)) (page s 0)) (page_addr 0) (page s (n + 1)),
       terminal_number := t, io := io s @ es\<rparr>"
    unfolding s'_def by (subst f) (simp add: r3)
  ultimately show ?thesis unfolding Let_def by (intro exI [of _ es]) simp
qed

lemma switch_run:
  fixes s :: "'a pcbs_scheme"
  assumes p: "paging_ok s" and t: "unat (terminal_number s) < 3" "unat t < 3" "terminal_number s \<noteq> t"
    and sh: "run_shell (termi t s) \<noteq> 0"
  defines "d \<equiv> unat (terminal_number s)" and "n \<equiv> unat t"
  shows "\<exists>es. switch_terminal K t s = Some (Returns 0,
    (remap_page (terminal_number s) t s)
      \<lparr>ram := store_bytes (store_bytes (ram s) (page_addr (d + 1)) (page s 0)) (page_addr 0) (page s (n + 1)),
       terminal_number := t, io := io s @ es\<rparr>)"
  using switch_display [OF p t, of K] sh by (auto simp: Let_def d_def n_def)

section \<open>Properties\<close>

lemma page_in_video: "k < 4 \<Longrightarrow> \<not> in_region VIDEO 16384 a \<Longrightarrow> \<not> in_region (page_addr k) 4096 a"
  using in_region_sub [of VIDEO "4096 * k" 4096 a 16384] by (auto simp: page_addr_def mult.commute)

text \<open>C19: Switching to another terminal (which already runs a shell) displays that terminal and is
  invisible otherwise: every terminal shows afterwards what it showed before, on the screen or in its
  buffer, every program sees the same bytes through its video page, whose mapping follows its
  terminal, and neither the process table nor the rest of the memory changes.\<close>

theorem terminal_switch_preserves_screens:
  fixes s :: "'a pcbs_scheme"
  assumes p: "paging_ok s" and v: "vids_ok s" and t: "unat (terminal_number s) < 3" "unat t < 3" "terminal_number s \<noteq> t"
    and sh: "run_shell (termi t s) \<noteq> 0"
  shows "\<exists>s'. switch_terminal K t s = Some (Returns 0, s') \<and> terminal_number s' = t \<and> page s' 0 = screen_of s t \<and>
    (\<forall>u. unat u < 3 \<longrightarrow> screen_of s' u = screen_of s u) \<and>
    (\<forall>i<6. pcb_ptr s ! i = 0 \<or> program_video s' i = program_video s i) \<and> vids_ok s' \<and> paging_ok s' \<and>
    pcb_mem s' = pcb_mem s \<and> pcb_ptr s' = pcb_ptr s \<and> pcb_num s' = pcb_num s \<and> termis s' = termis s \<and>
    current_terminal s' = current_terminal s \<and>
    (\<forall>a. in_region VIDEO 16384 a \<or> ram s' a = ram s a)"
proof -
  let ?d = "unat (terminal_number s)" and ?n = "unat t"
  let ?r = "store_bytes (store_bytes (ram s) (page_addr (?d + 1)) (page s 0)) (page_addr 0) (page s (?n + 1))"
  obtain es where es: "switch_terminal K t s = Some (Returns 0, (remap_page (terminal_number s) t s)
      \<lparr>ram := ?r, terminal_number := t, io := io s @ es\<rparr>)"
    using switch_run [OF p t sh] by blast
  define s' where "s' = (remap_page (terminal_number s) t s)\<lparr>ram := ?r, terminal_number := t, io := io s @ es\<rparr>"
  have dn: "?d < 3" "?n < 3" "?d \<noteq> ?n" using t by (simp_all add: word_unat_eq_iff)
  have pg: "page s' j = (if j = 0 then page s (?n + 1) else if j = ?d + 1 then page s 0 else page s j)" if "j < 4" for j
    using page_store [of 0 j "page s (?n + 1)" "store_bytes (ram s) (page_addr (?d + 1)) (page s 0)"]
      page_store [of "?d + 1" j "page s 0" "ram s"] that dn by (simp add: page_def s'_def)
  have sh': "screen_of s' u = screen_of s u" if "unat u < 3" for u
  proof -
    have "unat u = ?n \<longleftrightarrow> u = t" "unat u = ?d \<longleftrightarrow> u = terminal_number s" by (simp_all add: word_unat_eq_iff)
    then show ?thesis using pg [of "screen_page t u"] that dn t(3)
      by (auto simp: screen_of_def screen_page_def s'_def)
  qed
  have f: "pcb_mem s' = pcb_mem s" "pcb_ptr s' = pcb_ptr s" "pcb_num s' = pcb_num s" "termis s' = termis s"
    "current_terminal s' = current_terminal s" "terminal_number s' = t" "ram s' = ?r"
    unfolding s'_def by (subst remap_page_fields(1), simp)+
  have v1: "vids_ok ((remap_page (terminal_number s) t s)\<lparr>terminal_number := t, ram := ?r\<rparr>)"
    by (rule remap_page_vids [OF v t(1) refl])
  have v': "vids_ok s'"
    using vids_ok_cong [of s' "(remap_page (terminal_number s) t s)\<lparr>terminal_number := t, ram := ?r\<rparr>"] v1
    by (simp add: s'_def)
  have "paging_ok s'" using remap_page_paging [OF p t(1), of t] by (simp add: paging_ok_def s'_def)
  moreover have "page s' 0 = screen_of s t"
    using pg [of 0] t(3) by (simp add: screen_of_def screen_page_def)
  moreover have "program_video s' i = program_video s i" if "i < 6" "pcb_ptr s ! i \<noteq> 0" for i
    using vids_ok_program_video [OF v that] vids_ok_program_video [OF v' that(1)] that(2) sh' v that
    by (auto simp: f vids_ok_def)
  moreover have "ram s' a = ram s a" if "\<not> in_region VIDEO 16384 a" for a
    using page_in_video that dn by (simp add: f(7) store_bytes_other)
  ultimately show ?thesis using es sh' v' f unfolding s'_def [symmetric] by blast
qed

section \<open>Application\<close>

definition sample_display :: pcbs where
  "sample_display = sample_single\<lparr>termis := replicate 3 (sample_termi\<lparr>run_shell := 1\<rparr>)\<rparr>"

lemma sample_display_frames: "i < 6 \<Longrightarrow> video_frame sample_display i = page_addr 0"
proof -
  have "vidmem_pt sample_display = vidmem_pt (sample_tty 0 0)"
    by (simp add: sample_display_def sample_single_def sample_exec_def sample_pcbs_def tty.extend_def)
  then show "i < 6 \<Longrightarrow> ?thesis"
    by (simp add: video_frame_def sample_tty_def set_paging_tables(3) mapped_vid_def frame_def page_addr_def)
qed

lemma sample_display_fields:
  "terminal_number sample_display = 0" "pcb_mem sample_display = pcb_mem sample_single"
  "i < 6 \<Longrightarrow> pcb_ptr sample_display ! i = (if i = 0 then pcb_address 1 else 0)"
  "run_shell (termi 2 sample_display) = 1"
  by (auto simp: sample_display_def sample_single_def termi_def less_6_cases)

lemma sample_display_ok: "paging_ok sample_display" "vids_ok sample_display"
proof -
  show "paging_ok sample_display"
    using paging_ok_cong [of sample_display sample_single] by (simp add: sample_display_def)
  have "pcb_terminal (pcb_mem sample_single (pcb_address 1)) = 0" by (simp add: sample_single_def sample_pcb_def)
  then show "vids_ok sample_display"
    unfolding vids_ok_def by (simp add: sample_display_frames sample_display_fields screen_page_def)
qed

theorem terminal_switch_preserves_screens_witness:
  "\<exists>s'. switch_terminal sample_kargs 2 sample_display = Some (Returns 0, s') \<and> terminal_number s' = 2 \<and>
     screen_of s' 0 = screen_of sample_display 0 \<and> page s' 0 = screen_of sample_display 2"
  using terminal_switch_preserves_screens [where s = sample_display and t = 2 and K = sample_kargs] sample_display_ok
  by (auto simp: sample_display_fields)

end
