(* ===== verification/KeyboardProperties.thy ===== *)
theory KeyboardProperties
  imports Screens
begin

text \<open>
  The keyboard's interrupt handler of \<^verbatim>\<open>src/kb.c\<close> against its specification: the character a
  key gives, the state of the modifiers, and the line editor below.
\<close>

section \<open>The tables\<close>

definition character :: "termis_t \<Rightarrow> u8 \<Rightarrow> u8" where
  "character r c = keyboard_array ! unat (choose_map c r) ! unat c"

definition letter_keys :: "u8 list" where
  "letter_keys = map word_of_nat ([16..<26] @ [30..<39] @ [44..<51])"

definition digit_keys :: "u8 list" where
  "digit_keys = map word_of_nat [2..<14]"

definition symbol_keys :: "u8 list" where
  "symbol_keys = [0x1A, 0x1B, 0x27, 0x28, 0x29, 0x2B, 0x33, 0x34, 0x35]"

lemma rows:
  "map ((!) (keyboard_array ! 0)) (map unat letter_keys) = bytes_of ''qwertyuiopasdfghjklzxcvbnm''"
  "map ((!) (keyboard_array ! 2)) (map unat letter_keys) = bytes_of ''QWERTYUIOPASDFGHJKLZXCVBNM''"
  "map ((!) (keyboard_array ! 0)) (map unat digit_keys) = bytes_of ''1234567890-=''"
  "map ((!) (keyboard_array ! 1)) (map unat digit_keys) = bytes_of ''!@#$%^&*()_+''"
  "map ((!) (keyboard_array ! 0)) (map unat symbol_keys) = [0x5B, 0x5D, 0x3B, 0x27, 0x60, 0x5C, 0x2C, 0x2E, 0x2F]"
  "map ((!) (keyboard_array ! 1)) (map unat symbol_keys) = [0x7B, 0x7D, 0x3A, 0x22, 0x7E, 0x7C, 0x3C, 0x3E, 0x3F]"
  by code_simp+

lemma codes:
  "\<forall>c\<in>set letter_keys. letter_code c \<and> 0x10 \<le> c" "\<forall>c\<in>set digit_keys. \<not> letter_code c \<and> \<not> 0x10 \<le> c"
  "\<forall>c\<in>set symbol_keys. \<not> letter_code c \<and> 0x10 \<le> c"
  by code_simp+

lemma characters_of_row:
  assumes "\<forall>c\<in>set keys. choose_map c r = k"
  shows "map (character r) keys = map ((!) (keyboard_array ! unat k)) (map unat keys)"
  using assms by (simp add: character_def)

lemma letter_range: "\<not> letter_code c \<Longrightarrow> \<not> (0x1E \<le> c \<and> c \<le> 0x26) \<and> \<not> (0x2C \<le> c \<and> c \<le> 0x32)"
  by (auto simp: letter_code_def)

lemma maps_chosen:
  assumes "ctrl r = 0"
  shows "\<forall>c\<in>set letter_keys. choose_map c r = (if (shift r = 0) = (caps_lock r = 0) then 0 else 2)"
    "\<forall>c\<in>set digit_keys. choose_map c r = (if shift r = 0 then 0 else 1)"
    "\<forall>c\<in>set symbol_keys. choose_map c r = (if shift r \<noteq> 0 \<and> caps_lock r = 0 then 1 else 0)"
  using codes letter_range assms by (auto simp: choose_map_def)

lemma key_character_rows:
  assumes "ctrl r = 0"
  shows "map (character r) letter_keys =
      (if (shift r = 0) = (caps_lock r = 0) then bytes_of ''qwertyuiopasdfghjklzxcvbnm''
       else bytes_of ''QWERTYUIOPASDFGHJKLZXCVBNM'')"
    "map (character r) digit_keys = (if shift r = 0 then bytes_of ''1234567890-='' else bytes_of ''!@#$%^&*()_+'')"
    "map (character r) symbol_keys =
      (if shift r \<noteq> 0 \<and> caps_lock r = 0 then [0x7B, 0x7D, 0x3A, 0x22, 0x7E, 0x7C, 0x3C, 0x3E, 0x3F]
       else [0x5B, 0x5D, 0x3B, 0x27, 0x60, 0x5C, 0x2C, 0x2E, 0x2F])"
  using characters_of_row [OF maps_chosen(1) [OF assms]] characters_of_row [OF maps_chosen(2) [OF assms]]
    characters_of_row [OF maps_chosen(3) [OF assms]] rows by (simp_all only: split: if_splits) auto

section \<open>Typing\<close>

text \<open>The make codes of the keys that are neither a modifier, an arrow nor a function key of the
  terminal switch; the break code of \<^verbatim>\<open>0x60\<close> is the prefix of the right control key.\<close>

definition plain_key :: "u8 \<Rightarrow> bool" where
  "plain_key c \<longleftrightarrow> c < 128 \<and>
     c \<notin> {0x1D, 0x2A, 0x36, 0x38, 0x3A, 0x3B, 0x3C, 0x3D, 0x48, 0x4B, 0x4D, 0x50, 0x60}"

definition no_arrow :: "termis_t \<Rightarrow> bool" where
  "no_arrow r \<longleftrightarrow> up r = 0 \<and> down r = 0 \<and> left r = 0 \<and> right r = 0"

lemma no_arrow_modifiers: "modifiers r' = modifiers r \<Longrightarrow> no_arrow r' = no_arrow r"
  by (simp add: modifiers_def no_arrow_def)

lemma character_modifiers: "modifiers r' = modifiers r \<Longrightarrow> character r' = character r"
  by (simp add: modifiers_def character_def choose_map_def fun_eq_iff)

text \<open>A run of the handler on a sequence of scan codes that the keyboard delivers.\<close>

abbreviation scanned :: "kargs \<Rightarrow> u8 \<Rightarrow> kargs" where
  "scanned K c \<equiv> K\<lparr>dev := \<lambda>_ _. c\<rparr>"

fun scans :: "kargs \<Rightarrow> u8 list \<Rightarrow> 'a pcbs_scheme \<Rightarrow> 'a pcbs_scheme option" where
  "scans K [] s = Some s"
| "scans K (c # cs) s =
     (case kb_handler (scanned K c) s of Some (Returns _, s') \<Rightarrow> scans K cs s' | _ \<Rightarrow> None)"

lemma scans_append: "scans K cs s = Some s' \<Longrightarrow> scans K (cs @ ds) s = scans K ds s'"
  by (induction cs arbitrary: s) (simp_all split: option.splits prod.splits outcome.splits)

lemma edit_untouched:
  fixes s :: "'a tty_scheme"
  assumes "termis s' = termis s" "terminal_number s' = terminal_number s" "phys s' = phys s" "ram s' = ram s"
  shows "edit_view s' = edit_view s" "edit_ok s' = edit_ok s" "shown s' = shown s"
  using screen_untouched [OF assms(1-3)] assms(4) by (simp_all add: edit_view_def edit_ok_def)

lemma machine_phys [simp]: "phys (cli s) = phys s" "phys (sti s) = phys s" "phys (s\<lparr>io := es\<rparr>) = phys s"
  by (rule phys_cong, simp_all add: machine_simps)+

text \<open>An update of the flags of the displayed terminal leaves the line and the screen alone.\<close>

definition flags_only :: "(termis_t \<Rightarrow> termis_t) \<Rightarrow> bool" where
  "flags_only f \<longleftrightarrow> (\<forall>r. kbuffer (f r) = kbuffer r \<and> storage_buffer (f r) = storage_buffer r \<and>
     buffer_size (f r) = buffer_size r \<and> buffer_flag (f r) = buffer_flag r \<and> enter_flag (f r) = enter_flag r \<and>
     cursor_x (f r) = cursor_x r \<and> cursor_y (f r) = cursor_y r)"

lemma edit_flags:
  assumes "edit_ok s" "flags_only f"
  shows "edit_ok (upd_cur f s)" "edit_view (upd_cur f s) = edit_view s" "shown (upd_cur f s) = f (shown s)"
proof -
  note E = edit_okD [OF assms(1)] and f = assms(2) [unfolded flags_only_def, rule_format]
  have l: "line_ok (f r) = line_ok r" "line_of (f r) = line_of r" for r
    by (simp_all add: line_ok_def line_of_def f)
  have g: "kbd.good s" "line_ok (f (shown s))" using E by (simp_all add: l)
  have e: "kbd.view s\<lparr>erasable := buffer_flag (shown s) = 0\<rparr> = kbd.view s"
    by (simp add: kbd.view_def kbd_erase_def)
  show "edit_ok (upd_cur f s)" using edit_upd(1) [where f = f, OF g] by (simp add: f)
  show "edit_view (upd_cur f s) = edit_view s"
    using edit_upd(2) [where f = f, OF g] e by (simp add: f l edit_view_def)
  show "shown (upd_cur f s) = f (shown s)"
    using good_ok [OF g(1)] by simp
qed

text \<open>The state once the handler has read its code.\<close>

definition scanned_state :: "u8 \<Rightarrow> 'a machine_scheme \<Rightarrow> 'a machine_scheme" where
  "scanned_state c s = (cli s)\<lparr>io := io s @ [In KB_DATA_PORT c]\<rparr>"

lemma scanned_inb: "inb (dev (scanned K c)) KB_DATA_PORT (cli s) = (ucast c, scanned_state c s)"
  by (simp add: inb_def scanned_state_def machine_simps)

lemma scanned_fields:
  "termis (scanned_state c s) = termis s" "terminal_number (scanned_state c s) = terminal_number s"
  "ram (scanned_state c s) = ram s"
  "alt_pressed (scanned_state c s) = alt_pressed s"
  "termis (sti s) = termis s" "terminal_number (sti s) = terminal_number s" "ram (sti s) = ram s"
  by (simp_all add: scanned_state_def machine_simps)

lemma scanned_phys: "phys (scanned_state c s) = phys s"
  by (simp only: scanned_state_def machine_phys)

lemma scanned_edit [simp]:
  "edit_view (scanned_state c s) = edit_view s" "edit_ok (scanned_state c s) = edit_ok s"
  "shown (scanned_state c s) = shown s"
  "edit_view (sti s) = edit_view s" "edit_ok (sti s) = edit_ok s" "shown (sti s) = shown s"
  by (rule edit_untouched; simp only: scanned_fields scanned_phys machine_phys)+

lemma press_run:
  assumes "plain_key c" "no_arrow (shown s)"
  defines "s1 \<equiv> upd_cur (\<lambda>r. r\<lparr>kmap := choose_map c r\<rparr>) (scanned_state c s)"
  shows "kb_handler (scanned K c) s =
    Some (Returns 0, sti (keyboard_fill_buffer (keyboard_array ! unat (kmap (shown s1)) ! unat c) s1))"
proof -
  have n: "\<not> 128 \<le> c" "modifier_pressed c (scanned_state c s) = None"
    "arrow_pressed c (scanned_state c s) = scanned_state c s" "c \<noteq> 0x38" "c \<noteq> 0x3A"
    "\<not> (c = 0x3B \<and> alt_pressed (scanned_state c s) = 1)" "\<not> (c = 0x3C \<and> alt_pressed (scanned_state c s) = 1)"
    "\<not> (c = 0x3D \<and> alt_pressed (scanned_state c s) = 1)"
    using assms(1) by (auto simp: plain_key_def modifier_pressed_def arrow_pressed_def)
  have "up (termi (terminal_number t) t) = 0 \<and> down (termi (terminal_number t) t) = 0 \<and>
      left (termi (terminal_number t) t) = 0 \<and> right (termi (terminal_number t) t) = 0"
    if "t = scanned_state c s" for t
    using assms(2) scanned_edit(3) [of c s] unfolding that no_arrow_def shown_def by simp
  then have "key_pressed x y c (scanned_state c s) =
      sti (keyboard_fill_buffer (keyboard_array ! unat (kmap (shown s1)) ! unat c) s1)" for x y
    unfolding key_pressed_def Let_def s1_def by (simp add: shown_def)
  then show ?thesis
    unfolding kb_handler_def Let_def scanned_inb prod.case
    by (simp only: ucast_u8_u32 n option.case if_False)
qed

lemma press_edits:
  assumes "edit_ok s" "plain_key c" "no_arrow (shown s)"
  shows "\<exists>s'. kb_handler (scanned K c) s = Some (Returns 0, s') \<and> edit_ok s' \<and>
    modifiers (shown s') = modifiers (shown s) \<and>
    edit_view s' = spec_key (ctrl (shown s) = 1) (character (shown s) c) (edit_view s)"
proof -
  have f: "flags_only (\<lambda>r. r\<lparr>kmap := choose_map c r\<rparr>)" by (simp add: flags_only_def)
  note E = edit_flags [where s = "scanned_state c s", OF _ f]
  let ?s = "upd_cur (\<lambda>r. r\<lparr>kmap := choose_map c r\<rparr>) (scanned_state c s)"
  have ok: "edit_ok ?s" "edit_view ?s = edit_view s" "shown ?s = (shown s)\<lparr>kmap := choose_map c (shown s)\<rparr>"
    using E assms(1) by simp_all
  show ?thesis
    using press_run [OF assms(2,3)] key_refines [OF ok(1)] key_frame_fill [OF ok(1)]
    by (simp add: ok character_def key_frame_def modifiers_def)
qed

lemma release_run:
  fixes s :: "'a pcbs_scheme"
  assumes "plain_key c"
  shows "kb_handler (scanned K (c + 0x80)) s = Some (Returns 0, sti (scanned_state (c + 0x80) s))"
proof -
  have e: "c + 0x80 = w \<longleftrightarrow> c = w - 0x80" for w by (auto simp: algebra_simps)
  have "unat (c + 0x80) = unat c + 128"
    using assms by (simp add: plain_key_def unat_word_ariths word_less_nat_alt)
  then have r: "128 \<le> c + 0x80" by (simp add: word_le_nat_alt)
  have "c \<noteq> - 99" using assms by (auto simp: plain_key_def)
  then have "key_released (c + 0x80) t = sti t" for t :: "'a pcbs_scheme"
    using assms unfolding key_released_def e by (simp add: plain_key_def)
  then show ?thesis
    unfolding kb_handler_def Let_def scanned_inb prod.case by (simp add: r)
qed

lemma release_edits:
  assumes "edit_ok s" "plain_key c"
  shows "\<exists>s'. kb_handler (scanned K (c + 0x80)) s = Some (Returns 0, s') \<and> edit_ok s' \<and>
    shown s' = shown s \<and> edit_view s' = edit_view s"
  using assms by (simp add: release_run)

lemma key_edits:
  assumes "edit_ok s" "plain_key c" "no_arrow (shown s)"
  shows "\<exists>s'. scans K [c, c + 0x80] s = Some s' \<and> edit_ok s' \<and> modifiers (shown s') = modifiers (shown s) \<and>
    edit_view s' = spec_key (ctrl (shown s) = 1) (character (shown s) c) (edit_view s)"
proof -
  obtain s1 where s1: "kb_handler (scanned K c) s = Some (Returns 0, s1)" "edit_ok s1"
    "modifiers (shown s1) = modifiers (shown s)"
    "edit_view s1 = spec_key (ctrl (shown s) = 1) (character (shown s) c) (edit_view s)"
    using press_edits [OF assms] by blast
  obtain s2 where "kb_handler (scanned K (c + 0x80)) s1 = Some (Returns 0, s2)" "edit_ok s2"
    "shown s2 = shown s1" "edit_view s2 = edit_view s1"
    using release_edits [OF s1(2) assms(2)] by blast
  with s1 show ?thesis by simp
qed

lemma typed_edits:
  assumes "edit_ok s" "no_arrow (shown s)" "\<And>c. c \<in> set cs \<Longrightarrow> plain_key c"
  shows "\<exists>s'. scans K (concat (map (\<lambda>c. [c, c + 0x80]) cs)) s = Some s' \<and> edit_ok s' \<and>
    modifiers (shown s') = modifiers (shown s) \<and>
    edit_view s' = fold (\<lambda>c. spec_key (ctrl (shown s) = 1) (character (shown s) c)) cs (edit_view s)"
  using assms
proof (induction cs arbitrary: s)
  case Nil
  then show ?case by simp
next
  case (Cons c cs)
  obtain s1 where s1: "scans K [c, c + 0x80] s = Some s1" "edit_ok s1" "modifiers (shown s1) = modifiers (shown s)"
    "edit_view s1 = spec_key (ctrl (shown s) = 1) (character (shown s) c) (edit_view s)"
    using key_edits [OF Cons.prems(1) Cons.prems(3) Cons.prems(2)] by auto
  have m: "ctrl (shown s1) = ctrl (shown s)" "character (shown s1) = character (shown s)" "no_arrow (shown s1)"
    using modifiers_ctrl [OF s1(3)] character_modifiers [OF s1(3)] no_arrow_modifiers [OF s1(3)] Cons.prems(2) by simp_all
  obtain s2 where s2: "scans K (concat (map (\<lambda>c. [c, c + 0x80]) cs)) s1 = Some s2" "edit_ok s2"
    "modifiers (shown s2) = modifiers (shown s1)"
    "edit_view s2 = fold (\<lambda>c. spec_key (ctrl (shown s1) = 1) (character (shown s1) c)) cs (edit_view s1)"
    using Cons.IH [OF s1(2) m(3)] Cons.prems(3) by auto
  have "scans K (concat (map (\<lambda>c. [c, c + 0x80]) (c # cs))) s = Some s2"
    using scans_append [OF s1(1)] s2(1) by simp
  then show ?case using s1 s2 m by simp
qed

section \<open>Caps lock and the arrows\<close>

lemma caps_handler:
  "kb_handler (scanned K 0x3A) s = Some (Returns 0, caps_pressed (scanned_state 0x3A s))"
  "kb_handler (scanned K 0xBA) s =
     Some (Returns 0, upd_cur (\<lambda>r. r\<lparr>caps_on := 0, caps_off := 1\<rparr>) (scanned_state 0xBA s))"
  unfolding kb_handler_def Let_def scanned_inb prod.case
  by (simp_all add: modifier_pressed_def arrow_pressed_def key_released_def)

lemma caps_press:
  assumes "edit_ok s"
  shows "\<exists>s'. kb_handler (scanned K 0x3A) s = Some (Returns 0, s') \<and> edit_ok s' \<and> edit_view s' = edit_view s \<and>
    shown s' = (if caps_on (shown s) = 0 \<and> caps_off (shown s) = 1
                then (shown s)\<lparr>caps_lock := (if caps_lock (shown s) = 0 then 1 else 0), caps_on := 1, caps_off := 0\<rparr>
                else shown s)"
proof -
  have f: "flags_only (\<lambda>r. r\<lparr>caps_lock := (if caps_lock r = 0 then 1 else 0), caps_on := 1, caps_off := 0\<rparr>)"
    by (simp add: flags_only_def)
  have c: "caps_pressed t = (if caps_on (shown t) = 0 \<and> caps_off (shown t) = 1
      then upd_cur (\<lambda>r. r\<lparr>caps_lock := (if caps_lock r = 0 then 1 else 0), caps_on := 1, caps_off := 0\<rparr>) t else t)"
    for t :: "'a pcbs_scheme"
    by (simp add: caps_pressed_def shown_def)
  show ?thesis
    using edit_flags [where s = "scanned_state 0x3A s", OF _ f] assms by (simp add: caps_handler c)
qed

lemma caps_repeat:
  assumes "edit_ok s" "caps_on (shown s) = 1"
  shows "\<exists>s'. scans K (replicate n 0x3A) s = Some s' \<and> edit_ok s' \<and> edit_view s' = edit_view s \<and> shown s' = shown s"
  using assms
proof (induction n arbitrary: s)
  case 0
  then show ?case by simp
next
  case (Suc n)
  obtain s1 where s1: "kb_handler (scanned K 0x3A) s = Some (Returns 0, s1)" "edit_ok s1" "edit_view s1 = edit_view s"
    "shown s1 = shown s"
    using caps_press [OF Suc.prems(1), of K] Suc.prems(2) by auto
  with Suc.IH [OF s1(2)] Suc.prems(2) show ?case by simp
qed

lemma caps_release:
  assumes "edit_ok s"
  shows "\<exists>s'. scans K [0xBA] s = Some s' \<and> edit_ok s' \<and> edit_view s' = edit_view s \<and>
    shown s' = (shown s)\<lparr>caps_on := 0, caps_off := 1\<rparr>"
proof -
  have f: "flags_only (\<lambda>r. r\<lparr>caps_on := 0, caps_off := 1\<rparr>)" by (simp add: flags_only_def)
  show ?thesis using edit_flags [where s = "scanned_state 0xBA s", OF _ f] assms by (simp add: caps_handler)
qed

lemma caps_cycle:
  assumes "edit_ok s" "caps_on (shown s) = 0" "caps_off (shown s) = 1"
  shows "\<exists>s'. scans K (replicate (Suc n) 0x3A @ [0xBA]) s = Some s' \<and> edit_ok s' \<and> edit_view s' = edit_view s \<and>
    shown s' = (shown s)\<lparr>caps_lock := (if caps_lock (shown s) = 0 then 1 else 0)\<rparr>"
proof -
  obtain s1 where s1: "kb_handler (scanned K 0x3A) s = Some (Returns 0, s1)" "edit_ok s1" "edit_view s1 = edit_view s"
    "shown s1 = (shown s)\<lparr>caps_lock := (if caps_lock (shown s) = 0 then 1 else 0), caps_on := 1, caps_off := 0\<rparr>"
    using caps_press [OF assms(1), of K] assms(2,3) by auto
  obtain s2 where s2: "scans K (replicate n 0x3A) s1 = Some s2" "edit_ok s2" "edit_view s2 = edit_view s1"
    "shown s2 = shown s1"
    using caps_repeat [OF s1(2), of K n] s1(4) by auto
  obtain s3 where s3: "scans K [0xBA] s2 = Some s3" "edit_ok s3" "edit_view s3 = edit_view s2"
    "shown s3 = (shown s2)\<lparr>caps_on := 0, caps_off := 1\<rparr>"
    using caps_release [OF s2(2)] by blast
  have "scans K (replicate (Suc n) 0x3A @ [0xBA]) s = Some s3"
    using s1(1) scans_append [OF s2(1)] s3(1) by simp
  moreover have "shown s3 = (shown s)\<lparr>caps_lock := (if caps_lock (shown s) = 0 then 1 else 0)\<rparr>"
    using s3(4) s2(4) s1(4) assms(2,3) by (cases "shown s") simp
  ultimately show ?thesis using s1 s2 s3 by simp
qed

text \<open>The right arrow: the handler compares the cursor with itself, so it never moves.\<close>

theorem right_arrow_inert:
  assumes "edit_ok s" "up (shown s) = 0" "down (shown s) = 0" "left (shown s) = 0"
  shows "\<exists>s'. kb_handler (scanned K 0x4D) s = Some (Returns 0, s') \<and> edit_view s' = edit_view s \<and>
    shown s' = (shown s)\<lparr>right := 1\<rparr>"
proof -
  have f: "flags_only (\<lambda>r. r\<lparr>right := 1\<rparr>)" by (simp add: flags_only_def)
  let ?s = "upd_cur (\<lambda>r. r\<lparr>right := 1\<rparr>) (scanned_state 0x4D s)"
  have E: "edit_view ?s = edit_view s" "shown ?s = (shown s)\<lparr>right := 1\<rparr>"
    using edit_flags [where s = "scanned_state 0x4D s", OF _ f] assms(1) by simp_all
  have sh: "termi (terminal_number ?s) ?s = (shown s)\<lparr>right := 1\<rparr>" using E(2) by (simp add: shown_def)
  have "key_pressed (cursor_x (shown s)) (cursor_y (shown s)) 0x4D ?s = ?s"
    unfolding key_pressed_def Let_def sh using assms(2-4) by simp
  then have "kb_handler (scanned K 0x4D) s = Some (Returns 0, ?s)"
    unfolding kb_handler_def Let_def scanned_inb prod.case
    by (simp add: modifier_pressed_def arrow_pressed_def shown_def)
  then show ?thesis using E by blast
qed

section \<open>Properties\<close>

text \<open>C36: the character of each key: letters follow shift exclusive-or caps lock, the digit row
  follows shift alone, and the other symbols give their shifted character only while caps lock is
  off: with shift and caps lock both on the code takes the unshifted symbol.\<close>

theorem key_characters:
  assumes "ctrl r = 0"
  shows "map (character r) letter_keys =
      (if (shift r = 0) = (caps_lock r = 0) then bytes_of ''qwertyuiopasdfghjklzxcvbnm''
       else bytes_of ''QWERTYUIOPASDFGHJKLZXCVBNM'') \<and>
    map (character r) digit_keys = (if shift r = 0 then bytes_of ''1234567890-='' else bytes_of ''!@#$%^&*()_+'') \<and>
    map (character r) symbol_keys =
      (if shift r \<noteq> 0 \<and> caps_lock r = 0 then [0x7B, 0x7D, 0x3A, 0x22, 0x7E, 0x7C, 0x3C, 0x3E, 0x3F]
       else [0x5B, 0x5D, 0x3B, 0x27, 0x60, 0x5C, 0x2C, 0x2E, 0x2F])"
  using key_character_rows [OF assms] by blast

theorem key_characters_witness:
  "map (character (sample_termi\<lparr>shift := 1\<rparr>)) digit_keys = bytes_of ''!@#$%^&*()_+'' \<and>
   map (character (sample_termi\<lparr>shift := 1, caps_lock := 1\<rparr>)) symbol_keys =
     [0x5B, 0x5D, 0x3B, 0x27, 0x60, 0x5C, 0x2C, 0x2E, 0x2F]"
  using key_characters [where r = "sample_termi\<lparr>shift := 1\<rparr>"]
    key_characters [where r = "sample_termi\<lparr>shift := 1, caps_lock := 1\<rparr>"] by (simp add: sample_termi_def)

text \<open>C18: typing through the interrupt handler: when the make and break codes of the keys \<open>cs\<close>
  arrive one interrupt after the other, every handler returns, the line, the text for the reader
  and the screen are those of the line editor's specification on the characters of the keys, and
  no modifier changes.\<close>

theorem typing_edits:
  assumes "edit_ok s" "no_arrow (shown s)" "\<And>c. c \<in> set cs \<Longrightarrow> plain_key c"
  shows "\<exists>s'. scans K (concat (map (\<lambda>c. [c, c + 0x80]) cs)) s = Some s' \<and> edit_ok s' \<and>
    modifiers (shown s') = modifiers (shown s) \<and>
    edit_view s' = fold (\<lambda>c. spec_key (ctrl (shown s) = 1) (character (shown s) c)) cs (edit_view s)"
  using assms by (rule typed_edits)

lemma sample_typing: "edit_ok (sample_pcbs 0 0)" "shown (sample_pcbs 0 0) = sample_termi"
proof -
  have f: "terminal_number (sample_pcbs 0 0) = 0" "termis (sample_pcbs 0 0) = replicate 3 sample_termi"
    by (simp_all add: sample_pcbs_def tty.extend_def)
  show sh: "shown (sample_pcbs 0 0) = sample_termi" by (simp add: shown_def termi_def f)
  have "line_ok sample_termi" by (simp add: line_ok_def line_of_def sample_termi_def padded_def)
  then show "edit_ok (sample_pcbs 0 0)"
    unfolding edit_ok_def kbd.good_def kbd.view_def on_screen_def kbd_cx_def kbd_cy_def kbd_ok_def sh
    by (simp add: f) (simp add: sample_termi_def kbd.cell_def)
qed

theorem typing_edits_witness:
  "\<exists>s'. scans sample_kargs [0x26, 0xA6, 0x1F, 0x9F, 0x1C, 0x9C] (sample_pcbs 0 0) = Some s' \<and>
     stored (edit_view s') = padded [0x6C, 0x73] \<and> entered (edit_view s') \<and> line (edit_view s') = []"
proof -
  have k: "plain_key c" if "c \<in> set [0x26, 0x1F, 0x1C]" for c using that by (auto simp: plain_key_def)
  have c: "character sample_termi 0x26 = 0x6C" "character sample_termi 0x1F = 0x73" "character sample_termi 0x1C = 10"
    by code_simp+
  have v: "line (edit_view (sample_pcbs 0 0)) = []" "ctrl sample_termi = 0" "no_arrow sample_termi"
    by (simp_all add: sample_typing) (simp_all add: sample_termi_def line_of_def no_arrow_def)
  have "no_arrow (shown (sample_pcbs 0 0))" using v by (simp add: sample_typing)
  from typing_edits [where s = "sample_pcbs 0 0" and cs = "[0x26, 0x1F, 0x1C]" and K = sample_kargs,
      OF sample_typing(1) this k]
  show ?thesis by (simp add: sample_typing c v spec_key_def del: scans.simps edit_line)
      (auto simp: v simp del: scans.simps edit_line)
qed

text \<open>caps lock toggles once per stroke: any number of repeated make codes followed by the break
  code flips the flag exactly once, ready for the next stroke, and leaves the line and the screen
  alone.\<close>

theorem caps_lock_toggles_once:
  assumes "edit_ok s" "caps_on (shown s) = 0" "caps_off (shown s) = 1"
  shows "\<exists>s'. scans K (replicate (Suc n) 0x3A @ [0xBA]) s = Some s' \<and> edit_ok s' \<and> edit_view s' = edit_view s \<and>
    shown s' = (shown s)\<lparr>caps_lock := (if caps_lock (shown s) = 0 then 1 else 0)\<rparr>"
  using assms by (rule caps_cycle)

theorem caps_lock_toggles_once_witness:
  "\<exists>s'. scans sample_kargs [0x3A, 0x3A, 0x3A, 0xBA] (sample_pcbs 0 0) = Some s' \<and> caps_lock (shown s') = 1"
proof -
  have "caps_on sample_termi = 0" "caps_off sample_termi = 1" "caps_lock sample_termi = 0"
    by (simp_all add: sample_termi_def)
  then show ?thesis
    using caps_lock_toggles_once [where s = "sample_pcbs 0 0" and n = 2 and K = sample_kargs, OF sample_typing(1)]
    by (auto simp: sample_typing numeral_3_eq_3 simp del: scans.simps)
qed

end
