(* ===== verification/Frames.thy ===== *)
theory Frames
  imports Keyboard ProcessTable LineBuffer
begin

text \<open>
  What the routines of the terminals, the keyboard and the devices leave alone: the process table,
  the terminals' numbers, the address spaces, the flags of the started shells, and the interrupt
  lines, of which they disable none.  Each routine is one rule of the collection \<open>calm_intros\<close>.
\<close>

text \<open>No line is disabled, and the table of handlers is the same but for the clock's, which \<^verbatim>\<open>open\<close>
  installs again.\<close>

definition lines_kept :: "'a irqs_scheme \<Rightarrow> 'a irqs_scheme \<Rightarrow> bool" where
  "lines_kept s s' \<longleftrightarrow>
     (\<forall>k. bit (master_mask s') k \<longrightarrow> bit (master_mask s) k) \<and> (\<forall>k. bit (slave_mask s') k \<longrightarrow> bit (slave_mask s) k) \<and>
     (irq_handler s' = irq_handler s \<or> irq_handler s' = (irq_handler s)[8 := Some Rtc_handler])"

lemma lines_kept_refl [simp]: "lines_kept s s"
  by (simp add: lines_kept_def)

lemma lines_kept_trans: "lines_kept s t \<Longrightarrow> lines_kept t u \<Longrightarrow> lines_kept s u"
  unfolding lines_kept_def by (elim conjE disjE) simp_all

lemma lines_kept_same:
  "irq_handler s' = irq_handler s \<Longrightarrow> master_mask s' = master_mask s \<Longrightarrow> slave_mask s' = slave_mask s \<Longrightarrow> lines_kept s s'"
  by (simp add: lines_kept_def)

lemma lines_kept_enable: "lines_kept s (enable_irq n s)"
  by (simp add: lines_kept_def enable_irq_def machine_simps bit_and_iff)

lemma lines_kept_clock: "lines_kept s (s\<lparr>irq_handler := (irq_handler s)[8 := Some Rtc_handler]\<rparr>)"
  by (simp add: lines_kept_def)

text \<open>The range of a terminal's variables: the line buffer is a line of at most 128 characters, the
  cursor is on the screen, the key table exists and the screen is the program's video page.\<close>

definition typed_termi :: "termis_t \<Rightarrow> bool" where
  "typed_termi r \<longleftrightarrow> line_ok r \<and> cursor_x r < 80 \<and> cursor_y r < 25 \<and> kmap r < 3 \<and> video_memory r = USER_VIDEO_ADDR"

abbreviation (input) typed :: "'a tty_scheme \<Rightarrow> bool" where
  "typed s \<equiv> list_all typed_termi (termis s)"

definition quiet :: "'a tty_scheme \<Rightarrow> 'a tty_scheme \<Rightarrow> bool" where
  "quiet s s' \<longleftrightarrow> tty.more s' = tty.more s \<and> terminal_number s' = terminal_number s \<and>
     current_terminal s' = current_terminal s \<and> pd s' = pd s \<and> cr3 s' = cr3 s \<and> vidmem_pt s' = vidmem_pt s \<and>
     map run_shell (termis s') = map run_shell (termis s) \<and> lines_kept s s'"

definition calm :: "'a tty_scheme \<Rightarrow> 'a tty_scheme \<Rightarrow> bool" where
  "calm s s' \<longleftrightarrow> quiet s s' \<and> (typed s \<longrightarrow> typed s')"

named_theorems calm_intros

lemma quiet_refl [simp]: "quiet s s"
  by (simp add: quiet_def)

lemma quiet_trans: "quiet s t \<Longrightarrow> quiet t u \<Longrightarrow> quiet s u"
  using lines_kept_trans [of s t u] by (simp add: quiet_def)

lemma calm_refl [calm_intros, simp]: "calm s s"
  by (simp add: calm_def)

lemma calm_trans: "calm s t \<Longrightarrow> calm t u \<Longrightarrow> calm s u"
  using quiet_trans [of s t u] by (simp add: calm_def)

lemma calm_if [calm_intros]: "calm s a \<Longrightarrow> calm s b \<Longrightarrow> calm s (if c then a else b)"
  by simp

lemma calm_fold [calm_intros]:
  "calm s t \<Longrightarrow> (\<And>e t. calm s t \<Longrightarrow> calm s (f e t)) \<Longrightarrow> calm s (fold f es t)"
  by (induction es arbitrary: t) simp_all

lemma calm_machine [calm_intros]:
  "calm s t \<Longrightarrow> calm s (cli t)" "calm s t \<Longrightarrow> calm s (sti t)" "calm s t \<Longrightarrow> calm s (outb d p t)"
  "calm s t \<Longrightarrow> calm s (snd (inb dv p t))" "calm s t \<Longrightarrow> calm s (enable_irq n t)"
  "calm s t \<Longrightarrow> calm s (send_eoi n t)"
  "calm s t \<Longrightarrow> calm s (vwrite t a b)" "calm s t \<Longrightarrow> calm s (set_vmem m t)"
  "calm s t \<Longrightarrow> calm s (t\<lparr>alt_pressed := v\<rparr>)" "calm s t \<Longrightarrow> calm s (t\<lparr>rtc_interrupt_occured := fs\<rparr>)"
  "calm s t \<Longrightarrow> calm s (t\<lparr>io := es\<rparr>)"
  by (simp_all add: calm_def quiet_def lines_kept_def machine_simps enable_irq_def send_eoi_def vwrite_def set_vmem_def bit_and_iff)

lemma quiet_upd_termi:
  assumes "\<And>r. run_shell (f r) = run_shell r"
  shows "quiet t (upd_termi n f t)"
proof -
  have "map run_shell (xs[i := f (xs ! i)]) = map run_shell xs" for xs i
    using assms by (cases "i < length xs") (auto intro!: nth_equalityI simp: nth_list_update)
  then show ?thesis by (simp add: quiet_def upd_termi_def lines_kept_def)
qed

lemma typed_upd_termi:
  assumes "typed t" "unat n < length (termis t) \<Longrightarrow> typed_termi (termi n t) \<Longrightarrow> typed_termi (f (termi n t))"
  shows "typed (upd_termi n f t)"
proof (cases "unat n < length (termis t)")
  case True
  then show ?thesis using assms by (auto simp: upd_termi_def termi_def list_all_length nth_list_update)
qed (use assms(1) in \<open>simp add: upd_termi_def not_less list_update_beyond\<close>)

text \<open>An update that looks at the record it changes.\<close>

lemma calm_upd_termi_at:
  assumes "calm s t" "\<And>r. run_shell (f r) = run_shell r"
    and "unat n < length (termis t) \<Longrightarrow> typed_termi (termi n t) \<Longrightarrow> typed_termi (f (termi n t))"
  shows "calm s (upd_termi n f t)"
  unfolding calm_def
proof
  show "quiet s (upd_termi n f t)"
    by (rule quiet_trans [OF _ quiet_upd_termi [OF assms(2)]]) (use assms(1) in \<open>simp add: calm_def\<close>)
  show "typed s \<longrightarrow> typed (upd_termi n f t)"
    using assms(1,3) typed_upd_termi [where t = t and n = n and f = f] by (simp add: calm_def)
qed

lemma calm_upd_termi [calm_intros]:
  "calm s t \<Longrightarrow> (\<And>r. run_shell (f r) = run_shell r) \<Longrightarrow> (\<And>r. typed_termi r \<Longrightarrow> typed_termi (f r)) \<Longrightarrow>
     calm s (upd_termi n f t)"
  by (rule calm_upd_termi_at)

lemma calm_upd_cur [calm_intros]:
  "calm s t \<Longrightarrow> (\<And>r. run_shell (f r) = run_shell r) \<Longrightarrow> (\<And>r. typed_termi r \<Longrightarrow> typed_termi (f r)) \<Longrightarrow>
     calm s (upd_cur f t)"
  unfolding upd_cur_def by (rule calm_upd_termi)

lemma run_shell_stored [simp]: "run_shell (stored_line r) = run_shell r"
  by (simp add: stored_line_def)

text \<open>The flags do not matter.\<close>

lemma typed_termi_flags [simp]:
  "typed_termi (r\<lparr>ctrl := v\<rparr>) = typed_termi r" "typed_termi (r\<lparr>caps_lock := v\<rparr>) = typed_termi r"
  "typed_termi (r\<lparr>shift := v\<rparr>) = typed_termi r" "typed_termi (r\<lparr>caps_on := v\<rparr>) = typed_termi r"
  "typed_termi (r\<lparr>caps_off := v\<rparr>) = typed_termi r" "typed_termi (r\<lparr>up := v\<rparr>) = typed_termi r"
  "typed_termi (r\<lparr>down := v\<rparr>) = typed_termi r" "typed_termi (r\<lparr>left := v\<rparr>) = typed_termi r"
  "typed_termi (r\<lparr>right := v\<rparr>) = typed_termi r" "typed_termi (r\<lparr>scroll_index := b\<rparr>) = typed_termi r"
  "typed_termi (r\<lparr>run_shell := v\<rparr>) = typed_termi r" "typed_termi (r\<lparr>buffer_flag := w\<rparr>) = typed_termi r"
  "typed_termi (r\<lparr>enter_flag := v\<rparr>) = typed_termi r"
  by (simp_all add: typed_termi_def line_ok_def line_of_def)

lemma typed_termi_cursor [simp]:
  "typed_termi r \<Longrightarrow> x < 80 \<Longrightarrow> typed_termi (r\<lparr>cursor_x := x\<rparr>)"
  "typed_termi r \<Longrightarrow> x < 80 \<Longrightarrow> y < 25 \<Longrightarrow> typed_termi (r\<lparr>cursor_x := x, cursor_y := y\<rparr>)"
  by (simp_all add: typed_termi_def line_ok_def line_of_def)

lemma typed_termi_storage [simp]:
  "typed_termi r \<Longrightarrow> typed_termi (r\<lparr>storage_buffer := blank (storage_buffer r) 4096\<rparr>)"
  by (simp add: typed_termi_def line_ok_def blank_prefix)

lemma typed_termi_line [simp]:
  "typed_termi r \<Longrightarrow> typed_termi (r\<lparr>kbuffer := blank (kbuffer r) 128, buffer_size := 0\<rparr>)"
  "typed_termi r \<Longrightarrow> typed_termi (stored_line r)"
  using line_clean [OF _ refl, of r] stored_line(1) [of r]
  by (auto simp: typed_termi_def stored_line_def line_ok_def line_of_def)

section \<open>The terminals\<close>

lemma calm_putc [calm_intros]:
  "calm s t \<Longrightarrow> calm s (terminal_console_putc x y ch t)" "calm s t \<Longrightarrow> calm s (keyboard_console_putc x y ch t)"
  unfolding terminal_console_putc_def keyboard_console_putc_def Let_def by (intro calm_intros; assumption)+

lemma calm_scroll_rows [calm_intros]:
  "calm s t \<Longrightarrow> (\<And>x y c t. calm s t \<Longrightarrow> calm s (putc x y c t)) \<Longrightarrow> calm s (scroll_rows putc getc n t)"
  unfolding scroll_rows_def Let_def by (intro calm_fold) simp_all

lemma calm_cursor [calm_intros]:
  "calm s t \<Longrightarrow> calm s (terminal_scroll_up n t)" "calm s t \<Longrightarrow> calm s (keyboard_scroll_up n t)"
  "calm s t \<Longrightarrow> calm s (terminal_set_cursor x y t)" "calm s t \<Longrightarrow> calm s (keyboard_set_cursor x y t)"
  unfolding terminal_scroll_up_def keyboard_scroll_up_def terminal_set_cursor_def keyboard_set_cursor_def Let_def
  by (intro calm_intros; simp)+

lemma word_cursor:
  fixes x y :: u16
  shows "x < 80 \<Longrightarrow> x \<noteq> 79 \<Longrightarrow> x + 1 < 80" "y < 25 \<Longrightarrow> y \<noteq> 24 \<Longrightarrow> y + 1 < 25"
    "x < 80 \<Longrightarrow> x \<noteq> 0 \<Longrightarrow> x - 1 < 80" "y < 25 \<Longrightarrow> y \<noteq> 0 \<Longrightarrow> y - 1 < 25"
  by unat_arith+

text \<open>The cursor moves within the screen when it is given its own position.\<close>

lemma calm_advance:
  assumes "calm s t" "x = cursor_x (termi p t)" "y = cursor_y (termi p t)"
  shows "p = get_current_process t \<Longrightarrow> calm s (terminal_update_cursor x y t)"
    "p = terminal_number t \<Longrightarrow> calm s (keyboard_cursor_update x y t)"
  unfolding terminal_update_cursor_def keyboard_cursor_update_def Let_def
  using assms
  by (auto intro!: calm_intros calm_upd_termi_at simp: typed_termi_def line_ok_def line_of_def word_cursor)

lemma calm_retreat:
  assumes "calm s t" "x = cursor_x (termi p t)" "y = cursor_y (termi p t)"
  shows "p = get_current_process t \<Longrightarrow> calm s (terminal_revert_cursor x y t)"
    "p = terminal_number t \<Longrightarrow> calm s (keyboard_cursor_revert x y t)"
  unfolding terminal_revert_cursor_def keyboard_cursor_revert_def Let_def
  using assms
  by (auto intro!: calm_upd_termi_at simp: typed_termi_def line_ok_def line_of_def word_cursor)

lemma calm_sync_cursor [calm_intros]: "calm s t \<Longrightarrow> calm s (sync_cursor t)"
  unfolding sync_cursor_def Let_def by (intro calm_intros)

lemma calm_same: "calm s t \<Longrightarrow> get_current_process t = get_current_process s" "calm s t \<Longrightarrow> terminal_number t = terminal_number s"
  by (simp_all add: calm_def quiet_def get_current_process_def)

lemma calm_put [calm_intros]:
  assumes "calm s t"
  shows "calm s (terminal_put ch t)" "calm s (keyboard_put ch t)"
proof -
  have "calm t (terminal_console_putc x y ch t)" "calm t (keyboard_console_putc x y ch t)" for x y
    by (intro calm_intros)+
  note c = this this [THEN calm_same(1)] this [THEN calm_same(2)]
  show "calm s (terminal_put ch t)" "calm s (keyboard_put ch t)"
    unfolding terminal_put_def keyboard_put_def Let_def
    by (intro calm_intros calm_advance [OF _ refl refl]; use calm_trans [OF assms] c in simp)+
qed

lemma calm_write_char [calm_intros]:
  assumes "calm s t"
  shows "calm s (write_terminal_char ch t)" "calm s (keyboard_write_char ch t)"
proof -
  have "calm t (upd_termi p (\<lambda>r. r\<lparr>cursor_x := 80 - 1\<rparr>) t)" for p
    by (intro calm_intros) simp_all
  note c = this [THEN calm_same(1)] this [THEN calm_same(2)] calm_trans [OF assms this]
  show "calm s (write_terminal_char ch t)" "calm s (keyboard_write_char ch t)"
    unfolding write_terminal_char_def keyboard_write_char_def Let_def
    by (intro calm_intros calm_advance [OF _ refl refl] calm_retreat [OF _ refl refl]; use assms c in simp)+
qed

lemma calm_write [calm_intros]:
  "calm s t \<Longrightarrow> calm s (snd (write_terminal t buf n))" "calm s t \<Longrightarrow> calm s (snd (write_terminal_from_keyboard bs t))"
  unfolding write_terminal_def write_terminal_from_keyboard_def snd_conv by (intro calm_intros; assumption)+

lemma calm_buffers [calm_intros]:
  "calm s t \<Longrightarrow> calm s (clean_screen t)" "calm s t \<Longrightarrow> calm s (keyboard_buffer_clean t)"
  "calm s t \<Longrightarrow> calm s (keyboard_copy_buffer t)" "calm s t \<Longrightarrow> calm s (terminal_clean_buffer t)"
  unfolding clean_screen_def keyboard_buffer_clean_def copy_buffer terminal_clean_buffer_def Let_def
  by (intro calm_intros; simp)+

lemma calm_close_terminal [calm_intros]: "calm s t \<Longrightarrow> calm s (snd (close_terminal t))"
  unfolding close_terminal_def Let_def snd_conv by (intro calm_intros; simp)

text \<open>A key in the line buffer: a full line takes no character and an empty one loses none.\<close>

lemma typed_termi_pop:
  assumes "typed_termi r" "buffer_size r \<noteq> 0"
  shows "typed_termi (r\<lparr>kbuffer := (kbuffer r)[nat (sint (buffer_size r - 1)) := 0],
    buffer_size := buffer_size r - 1, buffer_flag := 0\<rparr>)"
  using assms line_pop [OF _ _ refl, of r] line_empty [of r] by (simp add: typed_termi_def)

lemma typed_termi_push:
  assumes "typed_termi r" "sint (buffer_size r) < 128"
  shows "typed_termi (buffer_push ch r)"
  using assms line_push [of r ch] line_elim(6) [of r] by (simp add: typed_termi_def) (simp add: buffer_push_def)

lemma buffer_push_shell [simp]: "run_shell (buffer_push ch r) = run_shell r"
  by (simp add: buffer_push_def)

lemma calm_upd_cur_at:
  assumes "calm s t" "\<And>r. run_shell (f r) = run_shell r" "typed_termi (shown t) \<Longrightarrow> typed_termi (f (shown t))"
  shows "calm s (upd_cur f t)"
  unfolding upd_cur_def by (rule calm_upd_termi_at [OF assms(1,2)]) (use assms(3) in \<open>simp add: shown_def\<close>)

lemma typed_upd_cur:
  "typed t \<Longrightarrow> (typed_termi (shown t) \<Longrightarrow> typed_termi (f (shown t))) \<Longrightarrow> typed (upd_cur f t)"
  unfolding upd_cur_def by (rule typed_upd_termi) (simp_all add: shown_def)

lemma typed_shown: "typed t \<Longrightarrow> kbd_ok t \<Longrightarrow> typed_termi (shown t)"
  by (simp add: list_all_length kbd_ok_def shown_def termi_def)

lemma calm_tabs:
  assumes n: "n = 0 \<or> int n \<le> 128 - sint (buffer_size (shown t))"
  shows "calm t (fold (\<lambda>_ s. keyboard_copy_buffer (upd_cur (buffer_push 0x20) s)) [0..<n] t)"
    (is "calm t (fold ?f _ t)")
proof (cases "kbd_ok t")
  case False
  then have "upd_cur f t = t" for f
    by (simp add: upd_cur_def upd_termi_def kbd_ok_def not_less list_update_beyond)
  then have "fold ?f [0..<n] t = t" by (induction n) (simp_all add: copy_buffer)
  then show ?thesis by (simp only: calm_refl)
next
  case ok: True
  have "quiet t (fold ?f [0..<k] t)" for k
  proof (induction k)
    case (Suc k)
    have "quiet u (?f e u)" for e and u :: "'a tty_scheme"
      unfolding copy_buffer upd_cur_def by (rule quiet_trans [OF quiet_upd_termi quiet_upd_termi]) simp_all
    from quiet_trans [OF Suc.IH this] show ?case by simp
  qed simp
  moreover have "typed (fold ?f [0..<k] t) \<and> kbd_ok (fold ?f [0..<k] t) \<and>
      sint (buffer_size (shown (fold ?f [0..<k] t))) = sint (buffer_size (shown t)) + int k" if "typed t" "k \<le> n" for k
    using that(2)
  proof (induction k)
    case 0
    then show ?case using that ok by simp
  next
    case (Suc k)
    let ?u = "fold ?f [0..<k] t"
    have I: "typed ?u" "kbd_ok ?u" "sint (buffer_size (shown ?u)) = sint (buffer_size (shown t)) + int k"
      using Suc by simp_all
    have b: "sint (buffer_size (shown ?u)) < 128" using I(3) n Suc.prems by simp
    have r: "typed_termi (shown ?u)" by (rule typed_shown [OF I(1,2)])
    have "line_ok (shown ?u)" using r by (simp add: typed_termi_def)
    note L = line_push [OF this, where ch = "0x20"] and E = line_elim(6) [OF this]
    have ty: "typed (upd_cur (buffer_push 0x20) ?u)"
      by (rule typed_upd_cur [OF I(1)], rule typed_termi_push [OF r b])
    have "typed (upd_cur stored_line (upd_cur (buffer_push 0x20) ?u))" by (rule typed_upd_cur [OF ty]) simp
    then have ty2: "typed (?f k ?u)" by (simp only: copy_buffer)
    have k2: "kbd_ok (upd_cur (buffer_push 0x20) ?u)" using I(2) by (simp add: kbd_ok_def upd_cur_def)
    have "shown (?f k ?u) = stored_line (buffer_push 0x20 (shown ?u))" using I(2) k2 by (simp add: copy_buffer)
    moreover have "kbd_ok (?f k ?u)" using k2 by (simp add: copy_buffer kbd_ok_def upd_cur_def)
    moreover have "sint (buffer_size (buffer_push 0x20 (shown ?u))) = sint (buffer_size (shown ?u)) + 1"
      using L line_elim(6) [of "buffer_push 0x20 (shown ?u)"] E b by simp
    ultimately show ?case using ty2 I(3) by (simp add: stored_line_def)
  qed
  ultimately show ?thesis by (simp add: calm_def)
qed

lemma calm_fill_buffer [calm_intros]:
  assumes "calm s t"
  shows "calm s (keyboard_fill_buffer ch t)"
proof -
  have c0: "calm t (upd_cur (\<lambda>r. r\<lparr>buffer_flag := 0\<rparr>) t)" by (intro calm_intros; simp)
  consider "ch = 8" | "ch = 10" | "ctrl (shown t) = 1" "ch = 0x6C" | "ch = 9"
    | "ch \<noteq> 8" "ch \<noteq> 10" "\<not> (ctrl (shown t) = 1 \<and> ch = 0x6C)" "ch \<noteq> 9" by blast
  then have "calm t (keyboard_fill_buffer ch t)"
  proof cases
    case 1
    have "calm t (upd_cur (\<lambda>r. r\<lparr>kbuffer := (kbuffer r)[nat (sint (buffer_size r - 1)) := 0],
                        buffer_size := buffer_size r - 1, buffer_flag := 0\<rparr>) t)" if "buffer_size (shown t) \<noteq> 0"
      using that typed_termi_pop by (intro calm_upd_cur_at) simp_all
    then have "calm t (keyboard_copy_buffer (snd (write_terminal_from_keyboard [8] (upd_cur (\<lambda>r. r\<lparr>kbuffer :=
        (kbuffer r)[nat (sint (buffer_size r - 1)) := 0], buffer_size := buffer_size r - 1, buffer_flag := 0\<rparr>) t))))"
      if "buffer_size (shown t) \<noteq> 0"
      using that by (intro calm_buffers(3) calm_write(2))
    moreover have "calm t (upd_cur (\<lambda>r. r\<lparr>buffer_flag := 1\<rparr>) (keyboard_copy_buffer t))" by (intro calm_intros; simp)
    ultimately show ?thesis unfolding 1 fill_buffer_erase by simp
  next
    case 2
    show ?thesis unfolding 2 fill_buffer_submit by (intro calm_intros; simp)
  next
    case 3
    show ?thesis unfolding 3(2) fill_buffer_clear [OF 3(1)] by (intro calm_intros)
  next
    case 4
    show ?thesis unfolding 4 fill_buffer_tab
      by (rule calm_trans [OF c0 calm_tabs]) auto
  next
    case 5
    have b: "sint (buffer_size (shown t)) < 128" if "buffer_size (shown t) <s 128" using that by (simp add: word_sless_alt)
    have p: "calm t (upd_cur (buffer_push ch) t)" if "buffer_size (shown t) <s 128"
      by (rule calm_upd_cur_at) (use typed_termi_push [OF _ b [OF that]] in simp_all)
    have "calm t (keyboard_copy_buffer (snd (write_terminal_from_keyboard [ch]
        (upd_cur (\<lambda>r. r\<lparr>buffer_flag := 0\<rparr>) (upd_cur (buffer_push ch) t)))))" if "buffer_size (shown t) <s 128"
      by (rule calm_buffers(3) [OF calm_write(2) [OF calm_upd_cur [OF p [OF that]]]]) simp_all
    then show ?thesis unfolding fill_buffer_char [OF 5] by simp
  qed
  then show ?thesis by (rule calm_trans [OF assms])
qed

section \<open>The keyboard\<close>

lemma calm_released [calm_intros]: "calm s t \<Longrightarrow> calm s (key_released c t)"
  unfolding key_released_def by (intro calm_intros; simp)

lemma calm_modifier: "calm s t \<Longrightarrow> modifier_pressed c t = Some t' \<Longrightarrow> calm s t'"
  unfolding modifier_pressed_def by (auto split: if_splits intro!: calm_intros)

lemma calm_arrow [calm_intros]: "calm s t \<Longrightarrow> calm s (arrow_pressed c t)" "calm s t \<Longrightarrow> calm s (caps_pressed t)"
  unfolding arrow_pressed_def caps_pressed_def Let_def by (intro calm_intros; simp)+

lemma choose_map_bound [simp]: "choose_map c r < 3"
  by (simp add: choose_map_def)

lemma typed_termi_kmap [simp]: "typed_termi r \<Longrightarrow> k < 3 \<Longrightarrow> typed_termi (r\<lparr>kmap := k\<rparr>)"
  by (simp add: typed_termi_def line_ok_def line_of_def)

lemma calm_key_pressed [calm_intros]: "calm s t \<Longrightarrow> calm s (key_pressed x y c t)"
  unfolding key_pressed_def Let_def
  by (intro calm_intros calm_advance(2) [OF _ refl refl refl] calm_retreat(2) [OF _ refl refl refl]; simp)

lemma calm_copy_page [calm_intros]: "calm s t \<Longrightarrow> calm s (copy_page d p t)"
  unfolding copy_page_def Let_def by (intro calm_intros)

section \<open>The clock\<close>

lemma calm_rtc_handler [calm_intros]: "calm s t \<Longrightarrow> calm s (rtc_handler dv t)"
  unfolding rtc_handler_def Let_def inb_def by (simp add: calm_def quiet_def lines_kept_def machine_simps)

lemma calm_write_rtc [calm_intros]: "calm s t \<Longrightarrow> calm s (snd (write_rtc dv t buf n))"
  unfolding write_rtc_def Let_def inb_def
  by (auto simp add: calm_def quiet_def lines_kept_def machine_simps split: option.splits)

lemma calm_clock: "calm s t \<Longrightarrow> calm s (t\<lparr>irq_handler := (irq_handler t)[8 := Some Rtc_handler]\<rparr>)"
  using lines_kept_trans [OF _ lines_kept_clock, of s t] by (simp add: calm_def quiet_def)

lemma calm_init_rtc:
  assumes "calm s t" "init_rtc dv t = Some t'"
  shows "calm s t'"
proof -
  obtain e b where "t' = sti (sti (enable_irq 8 ((t\<lparr>io := e, intf := b\<rparr>)\<lparr>irq_handler := (irq_handler t)[8 := Some Rtc_handler]\<rparr>)))"
    using assms(2) by (simp add: init_rtc_def set_interrupt_def machine_simps split: if_splits) blast
  moreover have "calm s (t\<lparr>io := e, intf := b\<rparr>)" using assms(1) by (simp add: calm_def quiet_def lines_kept_def)
  from calm_clock [OF this] have "calm s ((t\<lparr>io := e, intf := b\<rparr>)\<lparr>irq_handler := (irq_handler t)[8 := Some Rtc_handler]\<rparr>)" by simp
  ultimately show ?thesis by (auto intro!: calm_machine)
qed

lemma calm_copy_line [calm_intros]: "calm s t \<Longrightarrow> calm s (copy_line n buf len t)"
  unfolding copy_line_def Let_def by (intro calm_intros; assumption)

text \<open>The two waiting calls keep what the routines above and the interrupts keep.\<close>

lemma line_wait_keeps:
  assumes c: "\<And>s t. calm s t \<Longrightarrow> I s \<Longrightarrow> I t" and r: "line_wait env n buf len k s = Some s'"
    and e: "\<And>k t. I t \<Longrightarrow> I (env k t)" and i: "I s"
  shows "I s'"
proof -
  have "(\<forall>k t. I t \<longrightarrow> I (env k t)) \<longrightarrow> I s \<longrightarrow> I s'"
  proof (rule line_wait.raw_induct [OF _ r], intro impI)
    fix rec env n buf len k s s'
    assume h: "\<And>env n buf len k s s'. rec env n buf len k s = Some s' \<Longrightarrow> (\<forall>k t. I t \<longrightarrow> I (env k t)) \<longrightarrow> I s \<longrightarrow> I s'"
      and b: "(if enter_flag (termi n s) \<noteq> 1 then rec env n buf len (k + 1) (env k (copy_line n buf len s)) else Some s) = Some s'"
      and e: "\<forall>k t. I t \<longrightarrow> I (env k t)" and i: "I s"
    have "I (copy_line n buf len s)" by (rule c [OF _ i]) (intro calm_intros)
    then have "I (env k (copy_line n buf len s))" using e by blast
    then show "I s'" using b h e i by (auto split: if_splits)
  qed
  then show ?thesis using e i by blast
qed

lemma read_terminal_keeps:
  assumes c: "\<And>s t. calm s t \<Longrightarrow> I s \<Longrightarrow> I t" and r: "read_terminal env s buf nbytes = Some (v, s')"
    and e: "\<And>k t. I t \<Longrightarrow> I (env k t)" and i: "I s"
  shows "I s'"
proof -
  let ?t = "get_current_process s"
  let ?n = "if sint nbytes \<le> int 128 then nat (sint nbytes) else 128"
  note R = r [unfolded read_terminal_def Let_def]
  obtain s1 where s1: "line_wait env ?t buf ?n 0 (upd_termi ?t (\<lambda>r. r\<lparr>enter_flag := 0\<rparr>) s) = Some s1"
    using R by (auto split: option.splits)
  have i0: "I (upd_termi ?t (\<lambda>r. r\<lparr>enter_flag := 0\<rparr>) s)" by (rule c [OF _ i]) (intro calm_intros; simp)
  have i1: "I s1" by (rule line_wait_keeps [where I = I, OF c s1 e i0])
  have "calm s1 s'" using R s1 by (auto split: option.splits if_splits intro!: calm_intros)
  then show ?thesis by (rule c [OF _ i1])
qed

lemma rtc_wait_keeps:
  assumes r: "rtc_wait env p k s = Some s'" and e: "\<And>k t. I t \<Longrightarrow> I (env k t)" and i: "I s"
  shows "I s'"
proof -
  have "(\<forall>k t. I t \<longrightarrow> I (env k t)) \<longrightarrow> I s \<longrightarrow> I s'"
    by (rule rtc_wait.raw_induct [OF _ r]) (auto split: if_splits)
  then show ?thesis using e i by blast
qed

lemma read_rtc_keeps:
  assumes c: "\<And>s t. calm s t \<Longrightarrow> I s \<Longrightarrow> I t" and r: "read_rtc env s buf nbytes = Some (v, s')"
    and e: "\<And>k t. I t \<Longrightarrow> I (env k t)" and i: "I s"
  shows "I s'"
proof -
  let ?p = "unat (get_current_process s)"
  let ?s = "s\<lparr>rtc_interrupt_occured := (rtc_interrupt_occured s)[?p := 0]\<rparr>"
  have w: "rtc_wait env ?p 0 ?s = Some s'"
    using r unfolding read_rtc_def Let_def by (auto split: if_splits)
  have i0: "I ?s" by (rule c [OF _ i]) (intro calm_intros)
  show ?thesis by (rule rtc_wait_keeps [where I = I, OF w e i0])
qed

section \<open>The process table\<close>

lemma calm_procs:
  fixes s :: "'a pcbs_scheme"
  assumes "calm s s'"
  shows "same_procs s s'" "tss_esp0 s' = tss_esp0 s" "klog s' = klog s"
  using assms by (cases s; cases s'; simp add: calm_def quiet_def same_procs_def)+

end
