(* ===== verification/Kernel.thy ===== *)
theory Kernel
  imports Frames Screens SchedulingProperties Descriptors
begin

text \<open>
  The invariant of the whole kernel, and that the handlers of the timer, the keyboard and the clock
  and the system calls keep it, in any order.  The entries that lead to them are in \<open>Gates\<close>.
\<close>

section \<open>The invariant\<close>

text \<open>The process table is three stacks, the address spaces are intact, the programs' video pages
  follow the terminals recorded in their blocks and only started terminals have programs.\<close>

definition table_inv :: "(nat \<Rightarrow> nat list) \<Rightarrow> 'a pcbs_scheme \<Rightarrow> bool" where
  "table_inv st s \<longleftrightarrow> stacks_ok st s \<and> unat (current_terminal s) < 3 \<and> vids_ok s \<and> paging_ok s \<and>
     unat (terminal_number s) < 3 \<and> length (termis s) = 3 \<and>
     (\<forall>u<3. st u \<noteq> [] \<longrightarrow> run_shell (termis s ! u) \<noteq> 0)"

text \<open>Every program but the running one that the scheduler may resume has saved registers.\<close>

definition waiting_ok :: "(nat \<Rightarrow> nat list) \<Rightarrow> nat \<Rightarrow> 'a pcbs_scheme \<Rightarrow> bool" where
  "waiting_ok st t s \<longleftrightarrow> (\<forall>u<3. u \<noteq> t \<and> st u \<noteq> [] \<longrightarrow>
     sched_esp (block s (hd (st u))) \<noteq> 0 \<and> sched_ebp (block s (hd (st u))) \<noteq> 0)"

text \<open>The address space and the kernel stack are those of the running program.\<close>

definition context_ok :: "nat \<Rightarrow> 'a pcbs_scheme \<Rightarrow> bool" where
  "context_ok i s \<longleftrightarrow> cr3 s = i \<and> tss_esp0 s = KERNEL_BOTTOM - STACK_SIZE * word_of_nat i"

definition kernel_inv :: "(nat \<Rightarrow> nat list) \<Rightarrow> 'a pcbs_scheme \<Rightarrow> bool" where
  "kernel_inv st s \<longleftrightarrow> table_inv st s \<and> st (unat (current_terminal s)) \<noteq> [] \<and>
     waiting_ok st (unat (current_terminal s)) s \<and> context_ok (hd (st (unat (current_terminal s)))) s"

lemma kernel_inv_sched: "kernel_inv st s \<Longrightarrow> sched_ok st s"
  by (simp add: kernel_inv_def sched_ok_def table_inv_def waiting_ok_def)

lemma table_invI:
  "sched_ok st s \<Longrightarrow> vids_ok s \<Longrightarrow> paging_ok s \<Longrightarrow> unat (terminal_number s) < 3 \<Longrightarrow> length (termis s) = 3 \<Longrightarrow>
     (\<And>u. u < 3 \<Longrightarrow> st u \<noteq> [] \<Longrightarrow> run_shell (termis s ! u) \<noteq> 0) \<Longrightarrow>
     context_ok (hd (st (unat (current_terminal s)))) s \<Longrightarrow> kernel_inv st s"
  by (simp add: kernel_inv_def sched_ok_def table_inv_def waiting_ok_def)

lemma tops_differ:
  assumes "stacks_ok st s" "u < 3" "v < 3" "u \<noteq> v" "i \<in> set (st u)" "j \<in> set (st v)"
  shows "i \<noteq> j"
  using stacks_okD(5) [OF assms(1)] assms(2-6) unfolding less_3_cases all_slots_def by auto

lemma vids_blocks:
  assumes "stacks_ok st s"
  shows "vids_ok s \<longleftrightarrow> (\<forall>j<6. if j \<in> set (all_slots st)
     then unat (pcb_terminal (block s j)) < 3 \<and> video_frame s j = page_addr (screen_page (terminal_number s) (pcb_terminal (block s j)))
     else video_frame s j = page_addr 0)"
  using stacks_okD(7) [OF assms] pcb_address_nonzero by (auto simp: vids_ok_def block_def)

lemma shells_map:
  assumes "map run_shell xs = map run_shell ys"
  shows "length xs = length ys" "i < length xs \<Longrightarrow> run_shell (xs ! i) = run_shell (ys ! i)"
  using assms by (auto dest: map_eq_imp_length_eq) (metis length_map nth_map)

section \<open>Steps that stay in one process\<close>

text \<open>What a system call other than \<^verbatim>\<open>execute\<close> and \<^verbatim>\<open>halt\<close> may change: the block of the process in slot \<open>i\<close>, except
  its place in the table and its terminal.\<close>

definition own :: "nat \<Rightarrow> 'a pcbs_scheme \<Rightarrow> 'a pcbs_scheme \<Rightarrow> bool" where
  "own i s s' \<longleftrightarrow> child_only i s s' \<and> pcb_terminal (block s' i) = pcb_terminal (block s i) \<and>
     terminal_number s' = terminal_number s \<and> pd s' = pd s \<and> cr3 s' = cr3 s \<and> vidmem_pt s' = vidmem_pt s \<and>
     tss_esp0 s' = tss_esp0 s \<and> map run_shell (termis s') = map run_shell (termis s) \<and> lines_kept s s' \<and>
     (typed s \<longrightarrow> typed s')"

lemma own_refl [simp]: "own i s s"
  by (simp add: own_def)

lemma own_trans: "own i s t \<Longrightarrow> own i t u \<Longrightarrow> own i s u"
  using child_only_trans [of i s t u] lines_kept_trans [of s t u] by (simp add: own_def)

lemma calm_own: "calm s s' \<Longrightarrow> own i s s'"
  using calm_procs(1,2) [of s s'] same_procs_child_only [of s s' i]
  by (simp add: own_def calm_def quiet_def) (simp add: same_procs_def block_def)

lemma own_inv:
  assumes inv: "kernel_inv st s" and i: "st (unat (current_terminal s)) = i # is" and o: "own i s s'"
  shows "kernel_inv st s'"
proof -
  let ?t = "unat (current_terminal s)"
  have c: "child_only i s s'" using o by (simp add: own_def)
  have T: "stacks_ok st s" "?t < 3" "vids_ok s" "paging_ok s" "unat (terminal_number s) < 3" "length (termis s) = 3"
    using inv by (simp_all add: kernel_inv_def table_inv_def)
  have i6: "i < 6" using stacks_okD(10) [OF T(1,2), of i] i by simp
  have ok: "stacks_ok st s'" by (rule child_only_stacks [OF c T(1) i6])
  have ct: "current_terminal s' = current_terminal s" using c by (simp add: child_only_def)
  have b: "block s' j = block s j" if "j < 6" "j \<noteq> i" for j by (rule child_only_other [OF c i6 that])
  have "pcb_terminal (block s' j) = pcb_terminal (block s j)" if "j < 6" for j
    using b [OF that] o by (cases "j = i") (simp_all add: own_def)
  moreover have "video_frame s' j = video_frame s j" for j using o by (simp add: own_def video_frame_def)
  ultimately have "vids_ok s'" using T(3) o unfolding vids_blocks [OF T(1)] vids_blocks [OF ok]
    by (simp add: own_def)
  moreover have "paging_ok s'" using T(4) o paging_ok_cong [of s' s] by (simp add: own_def)
  moreover have "waiting_ok st ?t s'"
    unfolding waiting_ok_def
  proof (intro allI impI)
    fix u :: nat assume u: "u < 3" "u \<noteq> ?t \<and> st u \<noteq> []"
    then have h: "hd (st u) \<in> set (st u)" by simp
    have "hd (st u) < 6" "hd (st u) \<noteq> i"
      using stacks_okD(10) [OF T(1) u(1) h] tops_differ [OF T(1) u(1) T(2) _ h, of i] u(2) i by auto
    then show "sched_esp (block s' (hd (st u))) \<noteq> 0 \<and> sched_ebp (block s' (hd (st u))) \<noteq> 0"
      using inv u b by (simp add: kernel_inv_def waiting_ok_def)
  qed
  moreover have "map run_shell (termis s') = map run_shell (termis s)" using o by (simp add: own_def)
  from shells_map [OF this] have "length (termis s') = 3" "u < 3 \<Longrightarrow> run_shell (termis s' ! u) = run_shell (termis s ! u)" for u
    using T(6) by simp_all
  ultimately show ?thesis
    using inv ok ct o by (simp add: kernel_inv_def table_inv_def own_def context_ok_def)
qed

lemma calm_inv:
  assumes "kernel_inv st s" "calm s s'"
  shows "kernel_inv st s'"
proof -
  obtain i "is" where "st (unat (current_terminal s)) = i # is"
    using assms(1) by (cases "st (unat (current_terminal s))") (auto simp: kernel_inv_def)
  then show ?thesis using own_inv [OF assms(1)] calm_own [OF assms(2)] by blast
qed

section \<open>execute\<close>

text \<open>What \<^verbatim>\<open>execute\<close> leaves alone besides the process table.\<close>

definition mapped_same :: "'a pcbs_scheme \<Rightarrow> 'a pcbs_scheme \<Rightarrow> bool" where
  "mapped_same s s' \<longleftrightarrow> pd s' = pd s \<and> vidmem_pt s' = vidmem_pt s \<and> termis s' = termis s \<and> io s' = io s \<and>
     irq_handler s' = irq_handler s \<and> master_mask s' = master_mask s \<and> slave_mask s' = slave_mask s \<and>
     pcbs.more s' = pcbs.more s"

lemma mapped_same_intros:
  "mapped_same s s" "mapped_same s t \<Longrightarrow> mapped_same s (cli t)" "mapped_same s t \<Longrightarrow> mapped_same s (set_vmem m t)"
  "mapped_same s t \<Longrightarrow> mapped_same s (log_printk ms t)" "mapped_same s t \<Longrightarrow> mapped_same s (set_new_task i 0 t)"
  "mapped_same s t \<Longrightarrow> mapped_same s (t\<lparr>pcb_num := l\<rparr>)" "mapped_same s t \<Longrightarrow> mapped_same s (t\<lparr>pcb_ptr := q\<rparr>)"
  "mapped_same s t \<Longrightarrow> mapped_same s (upd_pcb p f t)" "mapped_same s t \<Longrightarrow> mapped_same s (t\<lparr>tss_esp0 := a, tss_ss0 := b\<rparr>)"
  "mapped_same s t \<Longrightarrow> mapped_same s (snd (new_pcb p n k t))"
  using blocks_onlyD(2,4,6,9,19-22) [OF blocks_only_new_pcb, of p n k t]
  by (simp_all add: mapped_same_def machine_simps set_vmem_def log_printk_def set_new_task_def set_register_def upd_pcb_def)

lemma tss_memory [simp]: "tss_esp0 (log_printk ms s) = tss_esp0 s" "tss_esp0 (set_vmem m s) = tss_esp0 s"
  by (simp_all add: log_printk_def set_vmem_def)

lemma exe_check_mapped: "exe_check K t = Some (b, s') \<Longrightarrow> mapped_same s t \<Longrightarrow>
     mapped_same s s' \<and> cr3 s' = cr3 t \<and> tss_esp0 s' = tss_esp0 t"
  by (auto simp: exe_check_def split: option.splits prod.splits intro!: mapped_same_intros)

lemma start_process_mapped:
  "start_process K ind n k buffer t = Some (out, s') \<Longrightarrow> mapped_same s t \<Longrightarrow>
     mapped_same s s' \<and> (\<forall>r. out = Returns r \<longrightarrow> cr3 s' = cr3 t \<and> tss_esp0 s' = tss_esp0 t)"
  unfolding start_process_def Let_def
  by (auto split: if_splits option.splits prod.splits intro!: mapped_same_intros)

lemma execute_mapped:
  assumes "execute K c s = Some (out, s')"
  shows "mapped_same s s'" "out = Returns r \<Longrightarrow> cr3 s' = cr3 s" "out = Returns r \<Longrightarrow> tss_esp0 s' = tss_esp0 s"
proof -
  note R = assms [unfolded execute_def Let_def]
  obtain m i where w: "copy_word (vmem (cli s)) c (command_at K) 0 = Some (m, i)"
    using R by (auto split: option.splits)
  obtain buffer where b: "copy_args m c (i + 1) 0 (replicate 128 0) = Some buffer"
    using R w by (auto split: option.splits)
  define s1 where "s1 = set_vmem m (cli s)"
  have s1: "mapped_same s s1" "cr3 s1 = cr3 s" "tss_esp0 s1 = tss_esp0 s"
    unfolding s1_def by (intro mapped_same_intros) (simp_all add: machine_simps set_vmem_def)
  note R = R [unfolded w option.case prod.case b s1_def [symmetric]]
  have "mapped_same s s' \<and> (\<forall>r. out = Returns r \<longrightarrow> cr3 s' = cr3 s \<and> tss_esp0 s' = tss_esp0 s)"
  proof (cases "known_command K (vmem s1)")
    case False
    then show ?thesis using R s1 by simp
  next
    case True
    obtain exe s2 where x: "exe_check K s1 = Some (exe, s2)"
      using R True by (auto split: option.splits)
    note s2 = exe_check_mapped [OF x s1(1)]
    show ?thesis
      using R True x s2 s1(2,3) start_process_mapped [where s = s and t = s2] by (auto split: if_splits)
  qed
  then show "mapped_same s s'" "out = Returns r \<Longrightarrow> cr3 s' = cr3 s" "out = Returns r \<Longrightarrow> tss_esp0 s' = tss_esp0 s"
    by simp_all
qed

lemma table_inv_same:
  assumes T: "table_inv st s" and p: "same_procs s s'" and m: "mapped_same s s'" and c: "cr3 s' < 10"
  shows "table_inv st s'"
proof -
  have "stacks_ok st s'" using T stacks_ok_same [OF p] by (simp add: table_inv_def)
  moreover have "vids_ok s'" using T vids_ok_cong [of s' s] p m by (simp add: table_inv_def same_procs_def mapped_same_def)
  moreover have "paging_ok s'" using T m c by (simp add: table_inv_def paging_ok_def mapped_same_def)
  ultimately show ?thesis using T p m by (simp add: table_inv_def same_procs_def mapped_same_def)
qed

lemma waiting_same: "same_procs s s' \<Longrightarrow> waiting_ok st t s' = waiting_ok st t s"
  by (simp add: waiting_ok_def same_procs_def block_def)

lemma execute_inv:
  assumes T: "table_inv st s" and t: "t = unat (current_terminal s)" "run_shell (termis s ! t) \<noteq> 0"
    and w: "waiting_ok st t s" and run: "execute K c s = Some (out, s')"
  shows "out = Returns ERR \<and> same_procs s s' \<and> table_inv st s' \<and> waiting_ok st t s' \<and> mapped_same s s' \<and>
      (\<forall>i. context_ok i s \<longrightarrow> context_ok i s') \<or>
    (\<exists>i. (\<exists>e. out = Enters e) \<and> kernel_inv (st(t := i # st t)) s')"
proof -
  have t3: "t < 3" and ok: "stacks_ok st s" and V: "vids_ok s" "paging_ok s" "unat (terminal_number s) < 3"
    "length (termis s) = 3"
    and shells: "\<And>u. u < 3 \<Longrightarrow> st u \<noteq> [] \<Longrightarrow> run_shell (termis s ! u) \<noteq> 0"
    using T t(1) by (simp_all add: table_inv_def)
  note M = execute_mapped [OF run]
  have m: "pd s' = pd s" "vidmem_pt s' = vidmem_pt s" "termis s' = termis s" using M(1) by (simp_all add: mapped_same_def)
  from execute_table [OF ok t(1) [symmetric] t3 run] show ?thesis
  proof
    assume a: "out = Returns ERR \<and> stacks_ok st s' \<and> same_procs s s'"
    have "cr3 s' < 10" using a M(2) V(2) by (simp add: paging_ok_def)
    then show ?thesis using a w table_inv_same [OF T _ M(1)] waiting_same [of s s'] M by (simp add: context_ok_def)
  next
    assume "\<exists>i<6. i \<notin> set (all_slots st) \<and> (\<forall>j<i. j \<in> set (all_slots st)) \<and> (\<exists>e. out = Enters e) \<and>
       stacks_ok (st(t := i # st t)) s' \<and> (\<exists>buffer. pushed K (st t) i buffer s s')"
    then obtain i buffer where i: "i < 6" "i \<notin> set (all_slots st)" "\<exists>e. out = Enters e"
      and ok': "stacks_ok (st(t := i # st t)) s'" and p: "pushed K (st t) i buffer s s'" by blast
    let ?st = "st(t := i # st t)"
    have f: "context_ok i s'" "current_terminal s' = current_terminal s" "terminal_number s' = terminal_number s"
      and new: "pcb_terminal (block s' i) = terminal_number s"
      using p by (auto simp: pushed_def fresh_pcb_def context_ok_def)
    have par: "st t = [] \<or> block s' (hd (st t)) = (block s (hd (st t)))\<lparr>esp := cur_esp K, ebp := cur_ebp K\<rparr>"
      using p by (auto simp: pushed_def)
    have other: "block s' j = block s j" if "j < 6" "j \<noteq> i" "st t = [] \<or> j \<noteq> hd (st t)" for j
    proof -
      have h: "st t \<noteq> [] \<Longrightarrow> hd (st t) < 6" using stacks_okD(10) [OF ok t3] by simp
      have "pcb_address (proc_no j) \<noteq> pcb_address (proc_no i)" using pcb_address_inj that i(1) by blast
      moreover have "st t = [] \<or> pcb_address (proc_no j) \<noteq> parent_addr (st t)"
        using that(3) pcb_address_inj [OF that(1) h] by (cases "st t") (auto simp: parent_addr_def)
      ultimately show ?thesis using p by (auto simp: pushed_def block_def)
    qed
    have pt: "pcb_terminal (block s' j) = pcb_terminal (block s j)" if "j < 6" "j \<noteq> i" for j
      using other [OF that] par by (cases "st t = [] \<or> j \<noteq> hd (st t)") auto
    have vf: "video_frame s' j = video_frame s j" for j using m by (simp add: video_frame_def)
    have "vids_ok s'" unfolding vids_blocks [OF ok']
    proof (intro allI impI)
      fix j :: nat assume j: "j < 6"
      show "if j \<in> set (all_slots ?st) then unat (pcb_terminal (block s' j)) < 3 \<and>
          video_frame s' j = page_addr (screen_page (terminal_number s') (pcb_terminal (block s' j)))
        else video_frame s' j = page_addr 0"
        using V(1) [unfolded vids_blocks [OF ok], rule_format, OF j] i(2) j V(3) pt [OF j] new
        by (cases "j = i") (simp_all add: all_slots_push [OF t3] vf f screen_page_def)
    qed
    moreover have "paging_ok s'" using V(2) m f(1) i(1) by (simp add: paging_ok_def context_ok_def)
    moreover have "waiting_ok ?st t s'"
      unfolding waiting_ok_def
    proof (intro allI impI)
      fix u :: nat assume u: "u < 3" "u \<noteq> t \<and> ?st u \<noteq> []"
      then have h: "hd (st u) \<in> set (st u)" by (auto split: if_splits)
      have a: "hd (st u) < 6" "hd (st u) \<noteq> i"
        using stacks_okD(10) [OF ok u(1) h] i(2) h u(1) by (auto simp: all_slots_set)
      have "st t = [] \<or> hd (st u) \<noteq> hd (st t)"
        using tops_differ [OF ok u(1) t3 _ h, of "hd (st t)"] u(2) by auto
      from other [OF a this] show "sched_esp (block s' (hd (?st u))) \<noteq> 0 \<and> sched_ebp (block s' (hd (?st u))) \<noteq> 0"
        using u w by (auto simp: waiting_ok_def split: if_splits)
    qed
    moreover have "run_shell (termis s' ! u) \<noteq> 0" if "u < 3" "?st u \<noteq> []" for u
      using that shells t(2) m by (cases "u = t") simp_all
    ultimately have "table_inv ?st s' \<and> waiting_ok ?st t s'"
      using ok' V f t3 m unfolding table_inv_def by (simp add: t(1))
    then have "kernel_inv ?st s'" using f(1,2) by (simp add: kernel_inv_def t(1))
    then show ?thesis using i(3) by blast
  qed
qed

section \<open>halt\<close>

lemma halted_inv:
  assumes inv: "kernel_inv st s" and t: "t = unat (current_terminal s)" "st t = i # is"
  defines "s' \<equiv> (halted t i s)\<lparr>pcb_num := (pcb_num s)[t := top_no is]\<rparr>"
  shows "table_inv (st(t := is)) s'" "waiting_ok (st(t := is)) t s'" "run_shell (termis s' ! t) \<noteq> 0"
proof -
  have T: "stacks_ok st s" "t < 3" "vids_ok s" "paging_ok s" "unat (terminal_number s) < 3" "length (termis s) = 3"
    "\<And>u. u < 3 \<Longrightarrow> st u \<noteq> [] \<Longrightarrow> run_shell (termis s ! u) \<noteq> 0"
    using inv t by (simp_all add: kernel_inv_def table_inv_def)
  have f: "pcb_mem s' = pcb_mem s" "pcb_ptr s' = (pcb_ptr s)[i := 0]" "pcb_num s' = (pcb_num s)[t := top_no is]"
    "current_terminal s' = current_terminal s" "terminal_number s' = terminal_number s" "pd s' = pd s" "cr3 s' = cr3 s"
    "vidmem_pt s' = upd2 (vidmem_pt s) i 0 (\<lambda>e. e\<lparr>base_address := ucast (drop_bit 12 VIDEO)\<rparr>)"
    by (simp_all add: s'_def halted_fields halted_memory)
  have ok: "stacks_ok (st(t := is)) s'" by (rule stacks_pop [where st = st, OF T(1,2) t(2) f(1-3)])
  have b: "block s' = block s" by (simp add: fun_eq_iff block_def f(1))
  have vf: "video_frame s' j = (if j = i then page_addr 0 else video_frame s j)" for j
    using frame_of_page(2) [of 0] by (simp add: video_frame_def f(8) upd2_def)
  note P = all_slots_pop [where st = st, OF T(2) t(2)]
  have "vids_ok s'" unfolding vids_blocks [OF ok]
  proof (intro allI impI)
    fix j :: nat assume j: "j < 6"
    show "if j \<in> set (all_slots (st(t := is))) then unat (pcb_terminal (block s' j)) < 3 \<and>
        video_frame s' j = page_addr (screen_page (terminal_number s') (pcb_terminal (block s' j)))
      else video_frame s' j = page_addr 0"
      using T(3) [unfolded vids_blocks [OF T(1)], rule_format, OF j] P(2) [OF stacks_okD(5) [OF T(1)]] vf [of j]
      by (auto simp: b f)
  qed
  moreover have "paging_ok s'"
    by (rule paging_ok_restore [OF T(4) f(6) _ f(8)]) (use T(4) in \<open>simp add: f(7) paging_ok_def\<close>)
  moreover have "calm s (snd (close_terminal (cli s)))" by (intro calm_intros)
  then have "map run_shell (termis s') = map run_shell (termis s)"
    by (simp add: calm_def quiet_def s'_def halted_def restore_page_def)
  from shells_map [OF this] T(6) have sh: "length (termis s') = 3"
    "u < 3 \<Longrightarrow> run_shell (termis s' ! u) = run_shell (termis s ! u)" for u by simp_all
  ultimately show "table_inv (st(t := is)) s'"
    using ok T f t sh by (simp add: table_inv_def)
  show "waiting_ok (st(t := is)) t s'" using inv t by (simp add: kernel_inv_def waiting_ok_def b)
  show "run_shell (termis s' ! t) \<noteq> 0" using sh(2) [OF T(2)] T(7) [OF T(2)] t(2) by simp
qed

lemma task_inv:
  assumes "table_inv st s" "waiting_ok st t s" "t = unat (current_terminal s)" "st t = j # js" "j < 10"
  shows "kernel_inv st (set_new_task j 0 (s\<lparr>tss_esp0 := KERNEL_BOTTOM - STACK_SIZE * word_of_nat j, tss_ss0 := b\<rparr>))"
proof -
  let ?a = "KERNEL_BOTTOM - STACK_SIZE * word_of_nat j"
  let ?s = "set_new_task j 0 (s\<lparr>tss_esp0 := ?a, tss_ss0 := b\<rparr>)"
  have p: "same_procs s ?s"
    using same_procs_trans [OF _ same_procs_machine(9), of s "s\<lparr>tss_esp0 := ?a, tss_ss0 := b\<rparr>" j]
    by (simp add: same_procs_def)
  have "mapped_same s ?s" by (intro mapped_same_intros)
  from table_inv_same [OF assms(1) p this] assms(5) have "table_inv st ?s" by simp
  moreover have "current_terminal ?s = current_terminal s" using p by (simp add: same_procs_def)
  ultimately show ?thesis using assms(2-4) waiting_same [OF p] by (simp add: kernel_inv_def context_ok_def)
qed

lemma halt_inv:
  assumes inv: "kernel_inv st s" and run: "halt K status s = Some (out, s')"
  shows "\<exists>st'. kernel_inv st' s'"
proof -
  define t where "t = unat (current_terminal s)"
  have T: "stacks_ok st s" "t < 3" "st t \<noteq> []"
    using inv by (simp_all add: kernel_inv_def table_inv_def t_def)
  obtain i "is" where i: "st t = i # is" using T(3) by (cases "st t") auto
  note H = halted_inv [OF inv t_def i]
  note R = run [unfolded halt_run [OF T(1) t_def [symmetric] T(2) i]]
  have c: "unat (current_terminal (halted t i s)) = t" by (simp add: halted_fields t_def)
  show ?thesis
  proof (cases "is")
    case Nil
    let ?h = "(halted t i s)\<lparr>pcb_num := (pcb_num s)[t := 0]\<rparr>"
    have z: "top_no is = 0" by (simp add: Nil top_no_def)
    have e: "execute K (shell_at K) ?h = Some (out, s')" "\<nexists>r. out = Returns r"
      using R Nil by (auto split: option.splits prod.splits outcome.splits)
    from execute_inv [OF H(1) [unfolded z] _ H(3) [unfolded z] H(2) [unfolded z] e(1)] e(2) c
    show ?thesis by auto
  next
    case (Cons j js)
    have j: "j < 6" using stacks_okD(10) [OF T(1,2), of j] i Cons by simp
    have tn: "top_no is = proc_no j" by (simp add: Cons top_no_def)
    have "s' = set_new_task j 0 ((halted t i s)\<lparr>pcb_num := (pcb_num s)[t := proc_no j],
             tss_esp0 := KERNEL_BOTTOM - STACK_SIZE * word_of_nat j, tss_ss0 := KERNEL_DS\<rparr>)"
      using R Cons by simp
    moreover have "kernel_inv (st(t := is)) (set_new_task j 0 ((halted t i s)\<lparr>pcb_num := (pcb_num s)[t := proc_no j],
             tss_esp0 := KERNEL_BOTTOM - STACK_SIZE * word_of_nat j, tss_ss0 := KERNEL_DS\<rparr>))"
      using task_inv [OF H(1,2) [unfolded tn], of j js] j Cons c by simp
    ultimately show ?thesis by blast
  qed
qed

section \<open>The timer\<close>

lemma switch_next_inv:
  assumes T: "table_inv st s" and w: "\<And>u. u < 3 \<Longrightarrow> st u \<noteq> [] \<Longrightarrow>
      sched_esp (block s (hd (st u))) \<noteq> 0 \<and> sched_ebp (block s (hd (st u))) \<noteq> 0"
    and ne: "\<exists>u<3. st u \<noteq> []"
  shows "\<exists>a b c s'. switch_next s = (Resumes a b c, s') \<and> kernel_inv st s'"
proof -
  define t where "t = unat (current_terminal s)"
  have ok: "stacks_ok st s" "t < 3" using T by (simp_all add: table_inv_def t_def)
  have u3: "next_term st t < 3" by (rule next_term_bound [OF ok(2)])
  have "st (next_term st t) \<noteq> []"
    using ne ok(2) unfolding next_term_def less_3_cases by (auto simp: numeral_2_eq_2)
  then obtain j js where j: "st (next_term st t) = j # js" by (cases "st (next_term st t)") auto
  have j6: "j < 6" using stacks_okD(10) [OF ok(1) u3, of j] j by simp
  have uu: "unat (word_of_nat (next_term st t) :: u32) = next_term st t" using u3 by (intro unat_u32_of_nat) simp
  let ?s = "s\<lparr>current_terminal := word_of_nat (next_term st t)\<rparr>"
  have T': "table_inv st ?s"
    using T u3 uu vids_ok_cong [of ?s s] paging_ok_cong [of ?s s] by (simp add: table_inv_def)
  have "waiting_ok st (next_term st t) ?s" using w by (simp add: waiting_ok_def block_def)
  from task_inv [OF T' this _ j j6 [THEN less_trans]] uu
  have "kernel_inv st (set_new_task j 0 (?s\<lparr>tss_esp0 := KERNEL_BOTTOM - STACK_SIZE * word_of_nat j, tss_ss0 := b\<rparr>))" for b by simp
  with switch_next_run [OF ok(1) t_def [symmetric] ok(2) refl j] w [OF u3] j show ?thesis by auto
qed

lemma tick_inv:
  assumes inv: "kernel_inv st s" and K: "cur_esp K \<noteq> 0" "cur_ebp K \<noteq> 0"
  shows "\<exists>a b c s'. pit_handler K s = Some (Resumes a b c, s') \<and> kernel_inv st s'"
proof -
  let ?t = "unat (current_terminal s)"
  note so = kernel_inv_sched [OF inv]
  have T: "stacks_ok st s" "?t < 3" "vids_ok s" "paging_ok s" "st ?t \<noteq> []" using inv by (simp_all add: kernel_inv_def table_inv_def)
  obtain i "is" where i: "st ?t = i # is" using T(5) by (cases "st ?t") auto
  obtain j js where j: "st (next_term st ?t) = j # js"
    using next_term_nonempty [where st = st, OF T(5)] by (cases "st (next_term st ?t)") auto
  obtain a b c s' where s': "pit_handler K s = Some (Resumes a b c, s')" "sched_ok st s'"
    "pcb_mem s' = pcb_mem (saved K i s)" "pcb_ptr s' = pcb_ptr s" "cr3 s' = j" "pd s' = pd s"
    "vidmem_pt s' = vidmem_pt s" "terminal_number s' = terminal_number s" "termis s' = termis s"
    "context_ok j s'" "unat (current_terminal s') = next_term st ?t"
    using pit_run [OF so refl i refl j K] unfolding context_ok_def by blast
  have i6: "i < 6" using stacks_okD(10) [OF T(1,2), of i] i by simp
  have j6: "j < 6" using stacks_okD(10) [OF T(1) next_term_bound [where st = st, OF T(2)], of j] j by simp
  have ok': "stacks_ok st s'" using s'(2) by (simp add: sched_ok_def)
  have "pcb_terminal (block s' k) = pcb_terminal (block s k)" if "k < 6" for k
    using saved_block [OF i6 that, of K s] by (simp add: block_def s'(3))
  moreover have "video_frame s' k = video_frame s k" for k by (simp add: video_frame_def s'(7))
  ultimately have "vids_ok s'" using T(3) unfolding vids_blocks [OF T(1)] vids_blocks [OF ok'] by (simp add: s'(8))
  moreover have "paging_ok s'" using T(4) s' j6 by (simp add: paging_ok_def)
  ultimately have "kernel_inv st s'"
    using s' inv j by (intro table_invI) (simp_all add: kernel_inv_def table_inv_def)
  then show ?thesis using s'(1) by blast
qed

section \<open>Switching terminals\<close>

lemma calm_display: "calm s t \<Longrightarrow> calm (s\<lparr>terminal_number := n\<rparr>) (t\<lparr>terminal_number := n\<rparr>)"
  by (simp add: calm_def quiet_def lines_kept_def)

lemma display_inv:
  assumes inv: "kernel_inv st s" and t: "unat t < 3"
    and c: "calm ((remap_page (terminal_number s) t s)\<lparr>terminal_number := t\<rparr>) s'"
  shows "kernel_inv st s'"
proof -
  let ?d = "(remap_page (terminal_number s) t s)\<lparr>terminal_number := t, ram := ram s\<rparr>"
  have T: "vids_ok s" "paging_ok s" "unat (terminal_number s) < 3" "stacks_ok st s"
    using inv by (simp_all add: kernel_inv_def table_inv_def)
  have e: "?d = s\<lparr>intf := False, vidmem_pt := vidmem_pt (remap_page (terminal_number s) t s), terminal_number := t\<rparr>"
    by (subst remap_page_fields(1)) simp
  have "vids_ok ?d" by (rule remap_page_vids [OF T(1,3) refl])
  moreover have "paging_ok ?d" using remap_page_paging [OF T(2,3), of t] by (simp add: paging_ok_def)
  moreover have f: "pcb_mem ?d = pcb_mem s" "pcb_ptr ?d = pcb_ptr s" "pcb_num ?d = pcb_num s"
    "current_terminal ?d = current_terminal s" "terminal_number ?d = t" "termis ?d = termis s"
    by (simp_all only: e) simp_all
  moreover have b: "block ?d = block s" by (simp add: fun_eq_iff block_def f(1))
  then have "stacks_ok st ?d" using T(4) by (simp add: stacks_ok_def f)
  moreover have "cr3 ?d = cr3 s" "tss_esp0 ?d = tss_esp0 s" by (simp_all only: e) simp_all
  ultimately have "kernel_inv st ?d" using inv t b
    by (simp add: kernel_inv_def table_inv_def waiting_ok_def context_ok_def)
  moreover have "calm ?d ((remap_page (terminal_number s) t s)\<lparr>terminal_number := t\<rparr>)"
    by (simp add: calm_def quiet_def lines_kept_def)
  ultimately show ?thesis using calm_inv calm_trans [OF _ c] by blast
qed

text \<open>The first switch to a terminal opens a shell there: the state in which it is executed.\<close>

lemma open_shell_state:
  assumes inv: "kernel_inv st s" and t: "unat t < 3" and K: "cur_esp K \<noteq> 0" "cur_ebp K \<noteq> 0"
  shows "\<exists>s3. table_inv st s3 \<and> unat t = unat (current_terminal s3) \<and> run_shell (termis s3 ! unat t) \<noteq> 0 \<and>
    (\<forall>u<3. st u \<noteq> [] \<longrightarrow> sched_esp (block s3 (hd (st u))) \<noteq> 0 \<and> sched_ebp (block s3 (hd (st u))) \<noteq> 0) \<and>
    (\<exists>u<3. st u \<noteq> []) \<and> ram s3 = ram s \<and> pcb_ptr s3 = pcb_ptr s \<and>
    schedule_next_process K t s =
       (case execute K (shell_at K) s3 of Some (Returns _, s) \<Rightarrow> Some (switch_next s) | r \<Rightarrow> r)"
proof -
  define s0 where "s0 = enable_irq 0 s"
  have inv0: "kernel_inv st s0" unfolding s0_def by (rule calm_inv [OF inv]) (intro calm_intros)
  let ?c = "unat (current_terminal s0)"
  have T: "stacks_ok st s0" "?c < 3" "st ?c \<noteq> []" "vids_ok s0" "paging_ok s0" "length (termis s0) = 3"
    using inv0 by (simp_all add: kernel_inv_def table_inv_def)
  obtain i "is" where i: "st ?c = i # is" using T(3) by (cases "st ?c") auto
  have i6: "i < 6" "i \<in> set (all_slots st)"
    using stacks_okD(10) [OF T(1,2), of i] all_slots_pop(4) [where st = st, OF T(2) i] i by simp_all
  define s1 where "s1 = saved K i s0"
  have "own i s0 s1" using saved_child_only [of i s0 K]
    by (simp add: own_def s1_def) (simp add: saved_def upd_pcb_def block_def lines_kept_def)
  from own_inv [OF inv0 i this] have inv1: "kernel_inv st s1" .
  have c1: "current_terminal s1 = current_terminal s0" "termis s1 = termis s0" by (simp_all add: s1_def saved_def)
  have regs: "sched_esp (block s1 (hd (st u))) \<noteq> 0 \<and> sched_ebp (block s1 (hd (st u))) \<noteq> 0" if "u < 3" "st u \<noteq> []" for u
  proof (cases "u = ?c")
    case True
    then show ?thesis using i K saved_block [OF i6(1) i6(1), of K s0] by (simp add: s1_def)
  next
    case False
    then show ?thesis using inv1 that c1 by (simp add: kernel_inv_def waiting_ok_def)
  qed
  define s2 where "s2 = set_next_process t (upd_termi t (\<lambda>r. r\<lparr>run_shell := 1\<rparr>) s1)"
  define s3 where "s3 = enable_irq 1 (enable_irq 0 s2)"
  have c3: "calm s2 s3" unfolding s3_def by (intro calm_intros)
  have p2: "pcb_mem s2 = pcb_mem s1" "pcb_ptr s2 = pcb_ptr s1" "pcb_num s2 = pcb_num s1" "current_terminal s2 = t"
    "terminal_number s2 = terminal_number s1" "pd s2 = pd s1" "vidmem_pt s2 = vidmem_pt s1" "cr3 s2 = cr3 s1"
    "termis s2 = (termis s1)[unat t := (termis s1 ! unat t)\<lparr>run_shell := 1\<rparr>]"
    by (simp_all add: s2_def set_next_process_def upd_termi_def)
  have T1: "table_inv st s1" using inv1 by (simp add: kernel_inv_def)
  have sh: "run_shell (termis s2 ! u) \<noteq> 0" if "u = unat t \<or> st u \<noteq> []" "u < 3" for u
    using T1 that t by (cases "u = unat t") (simp_all add: p2(9) table_inv_def)
  have "stacks_ok st s2" using T1 by (simp add: table_inv_def stacks_ok_def p2 block_def [abs_def])
  moreover have "vids_ok s2" using T1 vids_ok_cong [of s2 s1] p2 by (simp add: table_inv_def)
  moreover have "paging_ok s2" using T1 paging_ok_cong [of s2 s1] p2 by (simp add: table_inv_def)
  ultimately have T2: "table_inv st s2"
    using T1 sh t unfolding table_inv_def p2(4,5) by (simp add: p2(9))
  note P3 = calm_procs(1) [OF c3]
  have w3: "\<And>u. u < 3 \<Longrightarrow> st u \<noteq> [] \<Longrightarrow> sched_esp (block s3 (hd (st u))) \<noteq> 0 \<and> sched_ebp (block s3 (hd (st u))) \<noteq> 0"
    using regs P3 p2(1) by (simp add: same_procs_def block_def)
  have sh3: "map run_shell (termis s3) = map run_shell (termis s2)" using c3 by (simp add: calm_def quiet_def)
  have T3: "table_inv st s3"
  proof -
    have "stacks_ok st s3" using T2 stacks_ok_same [OF P3] by (simp add: table_inv_def)
    moreover have "vids_ok s3" using T2 vids_ok_cong [of s3 s2] P3 c3 by (simp add: table_inv_def same_procs_def calm_def quiet_def)
    moreover have "paging_ok s3" using T2 paging_ok_cong [of s3 s2] c3 by (simp add: table_inv_def calm_def quiet_def)
    ultimately show ?thesis using T2 shells_map [OF sh3] c3 by (simp add: table_inv_def calm_def quiet_def)
  qed
  have t3: "unat t = unat (current_terminal s3)" "run_shell (termis s3 ! unat t) \<noteq> 0"
    using c3 p2(4) sh [of "unat t"] shells_map [OF sh3] T2 t by (simp_all add: calm_def quiet_def table_inv_def)
  have cur: "find_terminal_by_pcb (current_terminal s0) s0 = proc_no i"
    using stacks_okD(8) [OF T(1,2)] i by (simp add: find_terminal_by_pcb_def top_no_def)
  have fp: "find_pcb s0 (proc_no i) = pcb_address (proc_no i)" by (rule stacks_find_pcb(1) [OF T(1) i6(2)])
  have pos: "0 \<le>s t" using t sint_u32_of_nat [of "unat t"] by (simp add: word_sle_eq)
  have "schedule_next_process K t s =
      (case execute K (shell_at K) s3 of Some (Returns _, s) \<Rightarrow> Some (switch_next s) | r \<Rightarrow> r)"
    using proc_no(4) [OF i6(1)] pcb_address_nonzero [OF i6(1)] pos
    by (simp add: schedule_next_process_def Let_def s0_def [symmetric] cur fp saved_def [symmetric] s1_def [symmetric]
        s2_def [symmetric] s3_def [symmetric])
  moreover have "ram s3 = ram s" "pcb_ptr s3 = pcb_ptr s"
    by (simp_all add: s3_def s2_def s1_def s0_def saved_def upd_pcb_def set_next_process_def upd_termi_def enable_irq_def
        machine_simps)
  moreover have "\<exists>u<3. st u \<noteq> []" using T(2,3) by blast
  ultimately show ?thesis using T3 t3 w3 by blast
qed

lemma open_shell_inv:
  assumes inv: "kernel_inv st s" and t: "unat t < 3" "st (unat t) = []"
    and K: "cur_esp K \<noteq> 0" "cur_ebp K \<noteq> 0" and run: "schedule_next_process K t s = Some (out, s')"
  shows "\<exists>st'. kernel_inv st' s'"
proof -
  obtain s3 where T3: "table_inv st s3" and t3: "unat t = unat (current_terminal s3)" "run_shell (termis s3 ! unat t) \<noteq> 0"
    and w3: "\<forall>u<3. st u \<noteq> [] \<longrightarrow> sched_esp (block s3 (hd (st u))) \<noteq> 0 \<and> sched_ebp (block s3 (hd (st u))) \<noteq> 0"
    and ne: "\<exists>u<3. st u \<noteq> []"
    and R: "schedule_next_process K t s =
       (case execute K (shell_at K) s3 of Some (Returns _, s) \<Rightarrow> Some (switch_next s) | r \<Rightarrow> r)"
    using open_shell_state [OF inv t(1) K] by blast
  note R = run [unfolded R]
  obtain o1 s4 where x: "execute K (shell_at K) s3 = Some (o1, s4)" using R by (auto split: option.splits)
  have "waiting_ok st (unat t) s3" using w3 by (simp add: waiting_ok_def)
  from execute_inv [OF T3 t3 this x] show ?thesis
  proof
    assume a: "o1 = Returns ERR \<and> same_procs s3 s4 \<and> table_inv st s4 \<and> waiting_ok st (unat t) s4 \<and> mapped_same s3 s4 \<and>
      (\<forall>i. context_ok i s3 \<longrightarrow> context_ok i s4)"
    have "\<And>u. u < 3 \<Longrightarrow> st u \<noteq> [] \<Longrightarrow> sched_esp (block s4 (hd (st u))) \<noteq> 0 \<and> sched_ebp (block s4 (hd (st u))) \<noteq> 0"
      using w3 a by (simp add: same_procs_def block_def)
    then obtain a' b' c' s5 where "switch_next s4 = (Resumes a' b' c', s5)" "kernel_inv st s5"
      using switch_next_inv [of st s4] a ne by blast
    then show ?thesis using R x a by auto
  next
    assume "\<exists>i. (\<exists>e. o1 = Enters e) \<and> kernel_inv (st(unat t := i # st (unat t))) s4"
    then show ?thesis using R x by auto
  qed
qed

text \<open>With the shell's program in the image, this ends: in the shell if a slot is free, else in the
  program that is scheduled next.\<close>

lemma open_shell_ends:
  fixes s :: "'a pcbs_scheme"
  assumes inv: "kernel_inv st s" and t: "unat t < 3" and K: "cur_esp K \<noteq> 0" "cur_ebp K \<noteq> 0"
    and r: "\<And>s' :: 'a pcbs_scheme. ram s' = ram s \<Longrightarrow> runnable K s' (shell_at K) w arg content"
  shows "\<exists>out s'. schedule_next_process K t s = Some (out, s') \<and>
    (if \<exists>i<6. pcb_ptr s ! i = NULL then \<exists>e. out = Enters e else \<exists>a b c. out = Resumes a b c)"
proof -
  obtain s3 where T3: "table_inv st s3" and t3: "unat t = unat (current_terminal s3)" "run_shell (termis s3 ! unat t) \<noteq> 0"
    and w3: "\<forall>u<3. st u \<noteq> [] \<longrightarrow> sched_esp (block s3 (hd (st u))) \<noteq> 0 \<and> sched_ebp (block s3 (hd (st u))) \<noteq> 0"
    and ne: "\<exists>u<3. st u \<noteq> []" and same: "ram s3 = ram s" "pcb_ptr s3 = pcb_ptr s"
    and R: "schedule_next_process K t s =
       (case execute K (shell_at K) s3 of Some (Returns _, s) \<Rightarrow> Some (switch_next s) | r \<Rightarrow> r)"
    using open_shell_state [OF inv t K] by blast
  have T: "stacks_ok st s3" "paging_ok s3" "unat (current_terminal s3) < 3" using T3 t t3(1) by (simp_all add: table_inv_def)
  obtain o1 s4 where x: "execute K (shell_at K) s3 = Some (o1, s4)"
    "if \<exists>i<6. pcb_ptr s ! i = NULL then \<exists>e. o1 = Enters e else o1 = Returns ERR"
    using execute_ends [OF T r [OF same(1)]] same(2) by auto
  show ?thesis
  proof (cases "\<exists>i<6. pcb_ptr s ! i = NULL")
    case True
    then show ?thesis using R x by auto
  next
    case False
    then have o1: "o1 = Returns ERR" using x(2) by auto
    have "waiting_ok st (unat t) s3" using w3 by (simp add: waiting_ok_def)
    with execute_inv [OF T3 t3 _ x(1)] o1 have a: "same_procs s3 s4" "table_inv st s4" by auto
    have "\<And>u. u < 3 \<Longrightarrow> st u \<noteq> [] \<Longrightarrow> sched_esp (block s4 (hd (st u))) \<noteq> 0 \<and> sched_ebp (block s4 (hd (st u))) \<noteq> 0"
      using w3 a by (simp add: same_procs_def block_def)
    then obtain a' b' c' s5 where "switch_next s4 = (Resumes a' b' c', s5)"
      using switch_next_inv [of st s4] a ne by blast
    then show ?thesis using R x(1) o1 False by auto
  qed
qed

lemma switch_terminal_cases:
  assumes run: "switch_terminal K t s = Some (out, s')"
  obtains "out = Returns 0" "s' = cli s"
    | s3 where "calm ((remap_page (terminal_number (cli s)) t (cli s))\<lparr>terminal_number := t\<rparr>) s3"
        "run_shell (termi t s3) \<noteq> 0" "out = Returns 0" "s' = s3"
    | s3 o1 where "calm ((remap_page (terminal_number (cli s)) t (cli s))\<lparr>terminal_number := t\<rparr>) s3"
        "run_shell (termi t s3) = 0" "schedule_next_process K t s3 = Some (o1, s')"
        "out = (case o1 of Returns _ \<Rightarrow> Returns 0 | r \<Rightarrow> r)"
proof -
  define s0 where "s0 = cli s"
  note R = run [unfolded switch_terminal_def Let_def s0_def [symmetric]]
  show thesis
  proof (cases "terminal_number s0 = t")
    case True
    then show thesis using R that(1) by (simp add: s0_def)
  next
    case False
    define s1 where "s1 = copy_page VIDEO (USER_VIDEO_ADDR + (t + 1) * FOUR_KB)
      (copy_page (USER_VIDEO_ADDR + (terminal_number s0 + 1) * FOUR_KB) VIDEO (remap_page (terminal_number s0) t s0))"
    define s2 where "s2 = s1\<lparr>terminal_number := t\<rparr>"
    define s3 where "s3 = keyboard_set_cursor (cursor_x (termi t s2)) (cursor_y (termi t s2)) s2"
    have "calm (remap_page (terminal_number s0) t s0) s1" unfolding s1_def by (intro calm_intros)
    from calm_display [OF this] have c: "calm ((remap_page (terminal_number s0) t s0)\<lparr>terminal_number := t\<rparr>) s3"
      unfolding s3_def s2_def by (intro calm_intros)
    have tn: "terminal_number s2 = t" by (simp add: s2_def)
    have R: "(if run_shell (termi (terminal_number s3) s3) = 0
        then (case schedule_next_process K (terminal_number s3) s3 of
                Some (Returns _, s) \<Rightarrow> Some (Returns 0, s) | r \<Rightarrow> r)
        else Some (Returns 0, s3)) = Some (out, s')"
      using R by (simp only: False if_False s1_def [symmetric] s2_def [symmetric] tn s3_def [symmetric])
    have "calm s2 s3" unfolding s3_def by (intro calm_intros)
    then have tn3: "terminal_number s3 = t" using tn by (simp add: calm_def quiet_def)
    show thesis
    proof (cases "run_shell (termi t s3) = 0")
      case True
      obtain o1 where "schedule_next_process K t s3 = Some (o1, s')" "out = (case o1 of Returns _ \<Rightarrow> Returns 0 | r \<Rightarrow> r)"
        using R True tn3 by (auto split: option.splits outcome.splits prod.splits)
      then show thesis by (rule that(3) [OF c [unfolded s0_def] True])
    next
      case False
      then show thesis using R tn3 by (intro that(2) [OF c [unfolded s0_def]]) auto
    qed
  qed
qed

lemma switch_terminal_inv:
  assumes inv: "kernel_inv st s" and t: "unat t < 3"
    and K: "cur_esp K \<noteq> 0" "cur_ebp K \<noteq> 0" and run: "switch_terminal K t s = Some (out, s')"
  shows "\<exists>st'. kernel_inv st' s'"
proof -
  have inv0: "kernel_inv st (cli s)" by (rule calm_inv [OF inv]) (intro calm_intros)
  show ?thesis
  proof (cases rule: switch_terminal_cases [OF run])
    case 1
    then show ?thesis using inv0 by auto
  next
    case (2 s3)
    then show ?thesis using display_inv [OF inv0 t 2(1)] by auto
  next
    case (3 s3 o1)
    note inv3 = display_inv [OF inv0 t 3(1)]
    have "st (unat t) = []" using inv3 t 3(2) by (auto simp: kernel_inv_def table_inv_def termi_def)
    from open_shell_inv [OF inv3 t this K 3(3)] show ?thesis .
  qed
qed

text \<open>A key either stays within the terminal or switches to another one.\<close>

lemma kb_handler_cases:
  assumes run: "kb_handler K s = Some (out, s')"
  obtains "out = Returns 0" "calm s s'"
    | t s2 where "unat t < 3" "calm s s2" "switch_terminal K t s2 = Some (out, s')"
proof -
  obtain v s1 where i: "inb (dev K) KB_DATA_PORT (cli s) = (v, s1)" by fastforce
  define c where "c = (ucast v :: u8)"
  have "calm s (snd (inb (dev K) KB_DATA_PORT (cli s)))" by (intro calm_intros)
  then have c1: "calm s s1" by (simp add: i)
  note R = run [unfolded kb_handler_def Let_def i prod.case c_def [symmetric]]
  define s2 where "s2 = arrow_pressed c s1"
  have c2: "calm s s2" unfolding s2_def by (intro calm_intros c1)
  show thesis
  proof (cases "128 \<le> c")
    case True
    then have "out = Returns 0 \<and> key_released c s1 = s'" using R by (simp only: if_True) simp
    then show thesis using that(1) calm_released [OF c1, of c] by auto
  next
    case low: False
    note R = R [unfolded if_not_P [OF low]]
    show thesis
    proof (cases "modifier_pressed c s1")
      case (Some u)
      then have "out = Returns 0 \<and> u = s'" using R by (simp only: option.case) simp
      then show thesis using that(1) calm_modifier [OF c1 Some] by auto
    next
      case None
      have R: "(if c = 0x38 then Some (Returns 0, s2\<lparr>alt_pressed := 1\<rparr>)
         else if c = 0x3A then Some (Returns 0, caps_pressed s2)
         else if c = 0x3B \<and> alt_pressed s2 = 1 then switch_terminal K 0 s2
         else if c = 0x3C \<and> alt_pressed s2 = 1 then switch_terminal K 1 s2
         else if c = 0x3D \<and> alt_pressed s2 = 1 then switch_terminal K 2 s2
         else Some (Returns 0, key_pressed (cursor_x (termi (terminal_number s) s)) (cursor_y (termi (terminal_number s) s)) c s2)) =
         Some (out, s')"
        using R by (simp only: None option.case s2_def [symmetric])
      have "calm s (s2\<lparr>alt_pressed := 1\<rparr>)" "calm s (caps_pressed s2)" "calm s (key_pressed x y c s2)" for x y
        by (intro calm_intros c2)+
      then show thesis using R that(2) [OF _ c2, of 0] that(2) [OF _ c2, of 1] that(2) [OF _ c2, of 2] that(1)
        by (simp split: if_split_asm) blast+
    qed
  qed
qed

lemma keyboard_inv:
  assumes inv: "kernel_inv st s" and K: "cur_esp K \<noteq> 0" "cur_ebp K \<noteq> 0"
    and run: "kb_handler K s = Some (out, s')"
  shows "\<exists>st'. kernel_inv st' s'"
  by (rule kb_handler_cases [OF run]) (use calm_inv [OF inv] switch_terminal_inv [OF _ _ K] in blast)+

section \<open>System calls on descriptors\<close>

lemma own_step:
  "own i s t \<Longrightarrow> calm t u \<Longrightarrow> own i s u" "own i s t \<Longrightarrow> own i s (set_vmem m t)" "own i s t \<Longrightarrow> own i s (log_printk ms t)"
  "own i s t \<Longrightarrow> own i s (set_fops p j ops t)" "own i s t \<Longrightarrow> i < 6 \<Longrightarrow> own i s (upd_file (pcb_address (proc_no i)) fd f t)"
proof -
  have a: "own i t (set_vmem m t)" "own i t (log_printk ms t)" "own i t (set_fops p j ops t)" for t :: "'a pcbs_scheme"
    by (simp_all add: own_def child_only_def set_vmem_def log_printk_def set_fops_def block_def lines_kept_def)
  have b: "own i t (upd_file (pcb_address (proc_no i)) fd f t)" if "i < 6" for t :: "'a pcbs_scheme"
    using upd_file_block [where fd = fd and f = f and s = t, OF that] by (simp add: own_def same_block_files lines_kept_def)
  show "own i s t \<Longrightarrow> calm t u \<Longrightarrow> own i s u" "own i s t \<Longrightarrow> own i s (set_vmem m t)" "own i s t \<Longrightarrow> own i s (log_printk ms t)"
    "own i s t \<Longrightarrow> own i s (set_fops p j ops t)" "own i s t \<Longrightarrow> i < 6 \<Longrightarrow> own i s (upd_file (pcb_address (proc_no i)) fd f t)"
    using own_trans calm_own a b by blast+
qed

lemma kernel_runs:
  assumes "kernel_inv st s"
  obtains i "is" where "st (unat (current_terminal s)) = i # is" "i < 6" "process_runs st s i"
proof -
  obtain i "is" where i: "st (unat (current_terminal s)) = i # is"
    using assms by (cases "st (unat (current_terminal s))") (auto simp: kernel_inv_def)
  have "process_runs st s i" using assms i by (auto simp: process_runs_def kernel_inv_def table_inv_def)
  then show thesis using that [OF i process_runsD(1)] by blast
qed

lemma install_file_own:
  "own i s t \<Longrightarrow> i < 6 \<Longrightarrow> own i s (install_file K (pcb_address (proc_no i)) p fd t)"
  unfolding install_file_def Let_def by (auto split: option.splits intro!: own_step(4,5))

lemma call_open_calm: "call_open K p s = Some (r, s') \<Longrightarrow> calm s s'"
  unfolding call_open_def open_rtc_def using calm_init_rtc [OF calm_refl] by (auto split: open_op.splits)

lemma call_close_calm: "calm s (snd (call_close c s))"
  unfolding call_close_def by (cases c) (auto intro!: calm_intros)

lemma call_write_calm: "calm s (snd (call_write K w buf n s))"
  unfolding call_write_def by (cases w) (auto intro!: calm_intros)

lemma open_call_own:
  assumes p: "process_runs st s i" and run: "open_call K f s = Some (r, s')"
  shows "own i s s'"
proof -
  note c = process_runsD(2,3) [OF p] and i = process_runsD(1) [OF p]
  note R = run [unfolded open_call_def Let_def]
  show ?thesis
  proof (cases "find_fd (pcb_mem s (current_pcb s))")
    case None
    then show ?thesis using R c by simp
  next
    case (Some fd)
    obtain ret m where d: "read_dentry_by_name (vmem s) (bb_start K) f (dentry_at K) = Some (ret, m)"
      using R c Some by (auto split: option.splits)
    have o1: "own i s (set_vmem m s)" by (rule own_step(2) [OF own_refl])
    show ?thesis
    proof (cases "ret = ERR")
      case True
      then have "s' = set_vmem m s" using R c Some d by simp
      then show ?thesis using o1 by simp
    next
      case False
      define s1 where "s1 = install_file K (pcb_address (proc_no i))
        (unat (pcb_num (set_vmem m s) ! unat (get_current_process (set_vmem m s)) - 1)) fd (set_vmem m s)"
      have o2: "own i s s1" unfolding s1_def by (rule install_file_own [OF o1 i])
      have "\<exists>p r'. call_open K p s1 = Some (r', s')"
        using R c Some d False by (auto simp: s1_def split: option.splits)
      then have "calm s1 s'" using call_open_calm by blast
      from own_step(1) [OF o2 this] show ?thesis .
    qed
  qed
qed

lemma close_call_own:
  assumes p: "process_runs st s i" and run: "close_call fd s = Some (r, s')"
  shows "own i s s'"
proof -
  note c = process_runsD(2,3) [OF p] and i = process_runsD(1) [OF p]
  have o: "own i s (upd_file (pcb_address (proc_no i)) (unat fd) (\<lambda>f. f\<lparr>flag := 0\<rparr>) s)"
    by (rule own_step(5) [OF own_refl i])
  have "s' = s \<or> (\<exists>f. s' = snd (call_close f (upd_file (pcb_address (proc_no i)) (unat fd) (\<lambda>f. f\<lparr>flag := 0\<rparr>) s)))"
    using run c unfolding close_call_def Let_def by (auto split: if_splits option.splits) (metis snd_conv)
  then show ?thesis using own_step(1) [OF o call_close_calm] by auto
qed

lemma write_call_calm: "write_call K fd buf n s = Some (r, s') \<Longrightarrow> calm s s'"
proof -
  assume run: "write_call K fd buf n s = Some (r, s')"
  have "s' = s \<or> (\<exists>w. s' = snd (call_write K w buf n s))"
    using run unfolding write_call_def Let_def by (auto split: if_splits option.splits) (metis snd_conv)
  then show ?thesis using call_write_calm by auto
qed

lemma getargs_calm: "getargs buf n s = Some (r, s') \<Longrightarrow> calm s s'" "calm s (snd (vidmap a s))"
  by (auto simp: getargs_def vidmap_def split: if_splits intro!: calm_intros)

text \<open>While a read waits, interrupts are handled: \<open>env\<close> is what happens between two looks at the flag.\<close>

lemma read_call_keeps:
  assumes p: "process_runs st s i" and run: "read_call K env fd buf n s = Some (r, s')"
    and o: "\<And>t. own i s t \<Longrightarrow> I t" and c: "\<And>s t. calm s t \<Longrightarrow> I s \<Longrightarrow> I t" and env: "\<And>k t. I t \<Longrightarrow> I (env k t)"
  shows "I s'"
proof -
  note q = process_runsD(2,3) [OF p] and i = process_runsD(1) [OF p]
  have I: "I s" by (rule o) simp
  have "s' = s \<or> (\<exists>p. call_read K env p (pcb_address (proc_no i)) (unat fd) buf n s = Some (r, s'))"
    using run q unfolding read_call_def Let_def by (auto split: if_splits option.splits)
  then show ?thesis
  proof
    assume "\<exists>p. call_read K env p (pcb_address (proc_no i)) (unat fd) buf n s = Some (r, s')"
    then obtain p where p: "call_read K env p (pcb_address (proc_no i)) (unat fd) buf n s = Some (r, s')" ..
    show ?thesis
    proof (cases p)
      case Read_terminal
      then have "read_terminal env s buf n = Some (r, s')" using p by (simp add: call_read_def)
      from read_terminal_keeps [where I = I, OF c this env I] show ?thesis .
    next
      case Read_rtc
      then have "read_rtc env s buf n = Some (r, s')" using p by (simp add: call_read_def)
      from read_rtc_keeps [where I = I, OF c this env I] show ?thesis .
    next
      case Directory_read
      then obtain m f where "s' = upd_file (pcb_address (proc_no i)) (unat fd) (\<lambda>_. f) (set_vmem m s)"
        using p by (auto simp: call_read_def split: option.splits prod.splits)
      then show ?thesis using o [OF own_step(5) [OF own_step(2) [OF own_refl] i]] by blast
    next
      case Read_file
      then obtain m f ms where "s' = log_printk ms (upd_file (pcb_address (proc_no i)) (unat fd) (\<lambda>_. f) (set_vmem m s))"
        using p by (auto simp: call_read_def split: prod.splits)
      then show ?thesis using o [OF own_step(3) [OF own_step(5) [OF own_step(2) [OF own_refl] i]]] by blast
    qed (use p I in \<open>auto simp: call_read_def\<close>)
  qed (use I in blast)
qed

end
