(* ===== verification/Gates.thy ===== *)
theory Gates
  imports Kernel
begin

text \<open>
  The entries of the kernel: the stub \<^verbatim>\<open>common_interrupt_num\<close> and the system call gate of
  \<^verbatim>\<open>src/idt_gate.S\<close> with its jump table, on top of the dispatcher of \<open>Irq\<close> and the calls of
  \<^verbatim>\<open>src/syscall.c\<close>.  They are the steps of the kernel as a state machine.  A step keeps the invariant
  of the processes, and no step leaves the timer, the keyboard or the clock masked, although a
  handler that switches to another program never comes back to the dispatcher that masked its line.
\<close>

section \<open>The interrupt stub\<close>

definition run_irq :: "kargs \<Rightarrow> do_irq \<Rightarrow> 'a pcbs_scheme \<Rightarrow> (outcome \<times> 'a pcbs_scheme) option" where
  "run_irq K h s =
     (case h of
        Pit_handler \<Rightarrow> pit_handler K s
      | Kb_handler \<Rightarrow> kb_handler K s
      | Rtc_handler \<Rightarrow> Some (Returns 0, rtc_handler (dev K) s))"

text \<open>The stub calls \<^verbatim>\<open>interrupt_handler\<close> with interrupts enabled and disables them before it
  returns.  When the handler leaves for another program, what follows it is not executed.\<close>

definition common_interrupt_num ::
    "kargs \<Rightarrow> stack_register \<Rightarrow> 'a pcbs_scheme \<Rightarrow> (outcome \<times> 'a pcbs_scheme) option" where
  "common_interrupt_num K reg s0 =
     (let s = sti s0;
          irq_num = - 1 * interrupt_num reg - 1
      in if unat irq_num < length (irq_handler s) then
           let s2 = send_eoi irq_num (disable_irq irq_num s)
           in (case (case irq_handler s ! unat irq_num of
                       None \<Rightarrow> Some (Returns 0, s2)
                     | Some h \<Rightarrow> run_irq K h s2) of
                 None \<Rightarrow> None
               | Some (Returns r, s) \<Rightarrow> Some (Returns r, cli (enable_irq irq_num s))
               | Some (out, s) \<Rightarrow> Some (out, s))
         else None)"

text \<open>Seen from the dispatcher, a handler that leaves does not return.\<close>

definition returning :: "(outcome \<times> 's) option \<Rightarrow> 's option" where
  "returning r = (case r of Some (Returns _, s) \<Rightarrow> Some s | _ \<Rightarrow> None)"

lemma common_interrupt_dispatches:
  "returning (common_interrupt_num K reg s) =
     map_option cli (interrupt_handler (\<lambda>h reg t. returning (run_irq K h t)) reg (sti s))"
  unfolding common_interrupt_num_def interrupt_handler_def Let_def returning_def
  by (auto split: option.splits outcome.splits prod.splits)

section \<open>The system call gate\<close>

text \<open>The jump table and its arguments; \<^verbatim>\<open>halt\<close> takes the low byte of \<^verbatim>\<open>ebx\<close>.\<close>

definition syscall_jump ::
    "kargs \<Rightarrow> (nat \<Rightarrow> 'a pcbs_scheme \<Rightarrow> 'a pcbs_scheme) \<Rightarrow> u32 \<Rightarrow> u32 \<Rightarrow> u32 \<Rightarrow> u32 \<Rightarrow> 'a pcbs_scheme \<Rightarrow>
     (outcome \<times> 'a pcbs_scheme) option" where
  "syscall_jump K env eax ebx ecx edx s =
     (let returns = map_option (\<lambda>(r, s). (Returns r, s))
      in if eax = 1 then halt K (ucast ebx) s
         else if eax = 2 then execute K ebx s
         else if eax = 3 then returns (read_call K env ebx ecx edx s)
         else if eax = 4 then returns (write_call K ebx ecx edx s)
         else if eax = 5 then returns (open_call K ebx s)
         else if eax = 6 then returns (close_call ebx s)
         else if eax = 7 then returns (getargs ebx ecx s)
         else if eax = 8 then returns (Some (vidmap ebx s))
         else if eax = 9 then Some (Returns (set_handler ebx ecx), s)
         else if eax = 10 then Some (Returns sigreturn, s)
         else None)"

text \<open>The gate is an interrupt gate, so the code behind it starts with interrupts disabled.\<close>

definition system_call ::
    "kargs \<Rightarrow> (nat \<Rightarrow> 'a pcbs_scheme \<Rightarrow> 'a pcbs_scheme) \<Rightarrow> u32 \<Rightarrow> u32 \<Rightarrow> u32 \<Rightarrow> u32 \<Rightarrow> 'a pcbs_scheme \<Rightarrow>
     (outcome \<times> 'a pcbs_scheme) option" where
  "system_call K env eax ebx ecx edx s0 =
     (if 10 <s eax \<or> eax <s 1 then Some (Returns (- 1), s0)
      else
        case syscall_jump K env eax ebx ecx edx (sti s0) of
          None \<Rightarrow> None
        | Some (Returns r, s) \<Rightarrow> Some (Returns r, cli s)
        | Some (out, s) \<Rightarrow> Some (out, s))"

section \<open>No line is lost\<close>

definition kernel_handlers :: "do_irq option list" where
  "kernel_handlers = (replicate 16 None)[0 := Some Pit_handler, 1 := Some Kb_handler, 8 := Some Rtc_handler]"

text \<open>The handlers of the boot are installed and the timer, the keyboard, the second controller and the
  clock are enabled, but perhaps line \<open>n\<close>.\<close>

definition wired_but :: "nat \<Rightarrow> 'a irqs_scheme \<Rightarrow> bool" where
  "wired_but n s \<longleftrightarrow> irq_handler s = kernel_handlers \<and> (\<forall>k\<in>{0, 1, 2, 8}. k = n \<or> line_enabled s k)"

definition wired :: "'a irqs_scheme \<Rightarrow> bool" where
  "wired s \<longleftrightarrow> irq_handler s = kernel_handlers \<and> (\<forall>k\<in>{0, 1, 2, 8}. line_enabled s k)"

lemma lines_kept_line: "lines_kept s s' \<Longrightarrow> line_enabled s k \<Longrightarrow> line_enabled s' k"
  by (auto simp: lines_kept_def line_enabled_def)

lemma lines_kept_handlers: "lines_kept s s' \<Longrightarrow> irq_handler s = kernel_handlers \<Longrightarrow> irq_handler s' = kernel_handlers"
  by (auto simp: lines_kept_def kernel_handlers_def)

lemma lines_kept_wired:
  "lines_kept s s' \<Longrightarrow> wired_but n s \<Longrightarrow> wired_but n s'" "lines_kept s s' \<Longrightarrow> wired s \<Longrightarrow> wired s'"
  using lines_kept_line lines_kept_handlers unfolding wired_but_def wired_def by blast+

text \<open>What every step keeps: the lines, the range of the terminals' variables, and the page tables
  except the frames behind the video pages.\<close>

definition vid_attrs :: "'a paging_scheme \<Rightarrow> nat \<Rightarrow> nat \<Rightarrow> pte" where
  "vid_attrs s = (\<lambda>i k. (vidmem_pt s i k)\<lparr>base_address := 0\<rparr>)"

lemma vid_attrs_fields [simp]:
  "P (vid_attrs s i k) = P (vidmem_pt s i k)" "U_S (vid_attrs s i k) = U_S (vidmem_pt s i k)"
  "R_W (vid_attrs s i k) = R_W (vidmem_pt s i k)"
  by (simp_all add: vid_attrs_def)

lemma vid_attrs_cong: "vidmem_pt s' = vidmem_pt s \<Longrightarrow> vid_attrs s' = vid_attrs s"
  by (simp add: vid_attrs_def)

definition tables_kept :: "'a paging_scheme \<Rightarrow> 'a paging_scheme \<Rightarrow> bool" where
  "tables_kept s s' \<longleftrightarrow> pd s' = pd s \<and> vid_attrs s' = vid_attrs s"

lemma tables_kept_same: "pd s' = pd s \<Longrightarrow> vidmem_pt s' = vidmem_pt s \<Longrightarrow> tables_kept s s'"
  by (simp add: tables_kept_def vid_attrs_def)

definition kept :: "'a tty_scheme \<Rightarrow> 'a tty_scheme \<Rightarrow> bool" where
  "kept s s' \<longleftrightarrow> lines_kept s s' \<and> (typed s \<longrightarrow> typed s') \<and> tables_kept s s'"

lemma kept_refl [simp]: "kept s s"
  by (simp add: kept_def tables_kept_def)

lemma kept_trans: "kept s t \<Longrightarrow> kept t u \<Longrightarrow> kept s u"
  using lines_kept_trans [of s t u] by (simp add: kept_def tables_kept_def)

lemma kept_same:
  "irq_handler s' = irq_handler s \<Longrightarrow> master_mask s' = master_mask s \<Longrightarrow> slave_mask s' = slave_mask s \<Longrightarrow>
     termis s' = termis s \<Longrightarrow> pd s' = pd s \<Longrightarrow> vidmem_pt s' = vidmem_pt s \<Longrightarrow> kept s s'"
  by (simp add: kept_def lines_kept_same tables_kept_same)

lemma kept_wired:
  "kept s s' \<Longrightarrow> wired_but n s \<Longrightarrow> wired_but n s'" "kept s s' \<Longrightarrow> wired s \<Longrightarrow> wired s'" "kept s s' \<Longrightarrow> typed s \<Longrightarrow> typed s'"
  using lines_kept_wired by (auto simp: kept_def)

lemma calm_kept: "calm s t \<Longrightarrow> kept s t"
  by (simp add: calm_def quiet_def kept_def tables_kept_same)

lemma own_kept: "own i s t \<Longrightarrow> kept s t"
  by (simp add: own_def kept_def tables_kept_same)

lemma typed_list_upd: "list_all Q xs \<Longrightarrow> (\<And>x. Q x \<Longrightarrow> Q (f x)) \<Longrightarrow> list_all Q (xs[i := f (xs ! i)])"
  by (cases "i < length xs") (auto simp: list_all_length nth_list_update not_less list_update_beyond)

lemma wired_mask: "n < 16 \<Longrightarrow> wired s \<Longrightarrow> wired_but n (send_eoi (word_of_nat n) (disable_irq (word_of_nat n) s))"
  by (auto simp: wired_def wired_but_def pic_lines.disable_law)

lemma wired_unmask: "n < 16 \<Longrightarrow> wired_but n s \<Longrightarrow> wired (enable_irq (word_of_nat n) s)"
  by (auto simp: wired_def wired_but_def pic_lines.enable_law)

text \<open>The routines that may leave for another program.\<close>

lemma switch_next_lines: "kept s (snd (switch_next s))"
proof -
  have p: "irq_handler (snd (pick_terminal k n t)) = irq_handler t \<and> master_mask (snd (pick_terminal k n t)) = master_mask t \<and>
      slave_mask (snd (pick_terminal k n t)) = slave_mask t \<and> termis (snd (pick_terminal k n t)) = termis t \<and>
      pd (snd (pick_terminal k n t)) = pd t \<and> vidmem_pt (snd (pick_terminal k n t)) = vidmem_pt t"
    for k n and t :: "'a pcbs_scheme"
    by (induction k arbitrary: n t) (simp_all add: Let_def next_terminal_def)
  obtain m t where t: "pick_terminal 3 0 s = (m, t)" by fastforce
  have "kept s t" using p [of 3 0 s] by (intro kept_same) (simp_all add: t)
  then show ?thesis
    by (simp add: t switch_next_def Let_def set_new_task_def set_register_def machine_simps kept_def lines_kept_def
        tables_kept_def vid_attrs_def)
qed

lemma mapped_lines: "mapped_same s s' \<Longrightarrow> kept s s'"
  by (simp add: mapped_same_def kept_same)

lemma schedule_lines:
  assumes run: "schedule_next_process K t s = Some (out, s')"
  shows "kept (enable_irq 0 s) s'"
    "0 \<le>s t \<Longrightarrow> (\<nexists>r. out = Returns r) \<Longrightarrow> kept (enable_irq 1 (enable_irq 0 s)) s'"
proof -
  define s0 where "s0 = enable_irq 0 s"
  define p where "p = find_terminal_by_pcb (current_terminal s0) s0"
  define s1 where "s1 = upd_pcb (find_pcb s0 p) (\<lambda>b. b\<lparr>sched_esp := cur_esp K, sched_ebp := cur_ebp K\<rparr>) s0"
  define s2 where "s2 = enable_irq 1 (enable_irq 0 (set_next_process t (upd_termi t (\<lambda>r. r\<lparr>run_shell := 1\<rparr>) s1)))"
  note R = run [unfolded schedule_next_process_def Let_def s0_def [symmetric] p_def [symmetric] s1_def [symmetric] s2_def [symmetric]]
  have l1: "kept s0 s1" by (simp add: s1_def upd_pcb_def kept_same)
  have l2: "kept (enable_irq 1 s0) s2" "kept s0 s2"
    by (simp_all add: s2_def s1_def upd_pcb_def upd_termi_def set_next_process_def kept_def lines_kept_def enable_irq_def
        machine_simps bit_and_iff typed_list_upd tables_kept_same)
  have x: "kept s2 u" if "execute K (shell_at K) s2 = Some (o1, u)" for o1 u
    using mapped_lines [OF execute_mapped(1) [OF that]] .
  have y: "kept s2 (snd (switch_next u))" if "execute K (shell_at K) s2 = Some (o1, u)" for o1 u
    using kept_trans [OF x [OF that] switch_next_lines] .
  show "kept (enable_irq 0 s) s'"
    using R l1 kept_trans [OF l1 switch_next_lines] kept_trans [OF l2(2) x] kept_trans [OF l2(2) y]
    by (auto simp: s0_def [symmetric] split: if_splits option.splits prod.splits outcome.splits)
  show "0 \<le>s t \<Longrightarrow> (\<nexists>r. out = Returns r) \<Longrightarrow> kept (enable_irq 1 (enable_irq 0 s)) s'"
    using R kept_trans [OF l2(1) x] kept_trans [OF l2(1) y]
    by (auto simp: s0_def [symmetric] split: if_splits option.splits prod.splits outcome.splits)
qed

text \<open>The handlers, entered with their line masked: one that returns leaves all other lines as they
  were, one that leaves has unmasked its own.\<close>

lemma pit_lines:
  assumes "pit_handler K s = Some (out, s')"
  shows "kept (enable_irq 0 s) s'"
proof -
  obtain o1 u where u: "schedule_next_process K (- 1) (cli s) = Some (o1, u)" "s' = u \<or> s' = sti u"
    using assms by (auto simp: pit_handler_def split: option.splits prod.splits outcome.splits)
  have "kept (enable_irq 0 s) u" using schedule_lines(1) [OF u(1)]
    by (simp add: kept_def lines_kept_def enable_irq_def machine_simps tables_kept_def vid_attrs_def)
  then show ?thesis using u(2) by (auto simp: kept_def lines_kept_def machine_simps tables_kept_def vid_attrs_def)
qed

lemma remap_attrs: "vid_attrs (remap_page o1 t s) = vid_attrs s"
proof -
  have one: "vid_attrs (remap_one o1 t i u) = vid_attrs u" for i u
    by (simp add: remap_one_def Let_def vid_attrs_def upd2_apply fun_eq_iff)
  have "vid_attrs (fold (remap_one o1 t) is u) = vid_attrs u" for "is" u
    by (induction "is" arbitrary: u) (simp_all add: one)
  then have "vid_attrs (remap_page o1 t s) = vid_attrs (cli s)" unfolding remap_page_def .
  then show ?thesis by (simp add: vid_attrs_def machine_simps)
qed

lemma remap_lines: "kept s ((remap_page o1 t (cli s))\<lparr>terminal_number := t\<rparr>)"
proof -
  define r where "r = remap_page o1 t (cli s)"
  have "vid_attrs r = vid_attrs s" unfolding r_def remap_attrs by (simp add: vid_attrs_def machine_simps)
  moreover have "irq_handler r = irq_handler s \<and> master_mask r = master_mask s \<and> slave_mask r = slave_mask s \<and>
      termis r = termis s \<and> pd r = pd s"
    unfolding r_def by (subst (1 2 3 4 5) remap_page_fields(1)) (simp add: machine_simps)
  moreover have "vid_attrs (r\<lparr>terminal_number := t\<rparr>) = vid_attrs r" by (simp add: vid_attrs_def)
  ultimately have "kept s (r\<lparr>terminal_number := t\<rparr>)"
    by (simp add: kept_def lines_kept_def tables_kept_def)
  then show ?thesis unfolding r_def .
qed

lemma switch_terminal_lines:
  assumes "switch_terminal K t s = Some (out, s')" "unat t < 3"
  shows "kept s s'" "(\<nexists>r. out = Returns r) \<Longrightarrow> kept (enable_irq 1 s) s'"
proof -
  have pos: "0 \<le>s t" using assms(2) sint_u32_of_nat [of "unat t"] by (simp add: word_sle_eq)
  have calm: "kept s s3" if "calm ((remap_page (terminal_number (cli s)) t (cli s))\<lparr>terminal_number := t\<rparr>) s3" for s3
    by (rule kept_trans [OF remap_lines [of s t "terminal_number (cli s)"]]) (use that in \<open>simp add: calm_kept\<close>)
  have en: "kept s (enable_irq 0 s3)" "kept (enable_irq 1 s) (enable_irq 1 (enable_irq 0 s3))"
    if "kept s s3" for s3
    using that by (auto simp: kept_def lines_kept_def enable_irq_def machine_simps bit_and_iff tables_kept_def vid_attrs_def)
  have "kept s s' \<and> ((\<nexists>r. out = Returns r) \<longrightarrow> kept (enable_irq 1 s) s')"
  proof (cases rule: switch_terminal_cases [OF assms(1)])
    case 1
    then show ?thesis by (simp add: kept_def lines_kept_def machine_simps tables_kept_same)
  next
    case (2 s3)
    then show ?thesis using calm by simp
  next
    case (3 s3 o1)
    have "(\<nexists>r. out = Returns r) \<Longrightarrow> \<nexists>r. o1 = Returns r" using 3(4) by (auto split: outcome.splits)
    then show ?thesis
      using kept_trans [OF en(1) schedule_lines(1) [OF 3(3)]] kept_trans [OF en(2) schedule_lines(2) [OF 3(3) pos]]
        calm [OF 3(1)] by blast
  qed
  then show "kept s s'" "(\<nexists>r. out = Returns r) \<Longrightarrow> kept (enable_irq 1 s) s'" by blast+
qed

lemma kb_lines:
  assumes "kb_handler K s = Some (out, s')"
  shows "kept s s'" "(\<nexists>r. out = Returns r) \<Longrightarrow> kept (enable_irq 1 s) s'"
proof -
  have "kept s s' \<and> ((\<nexists>r. out = Returns r) \<longrightarrow> kept (enable_irq 1 s) s')"
  proof (cases rule: kb_handler_cases [OF assms])
    case 1
    then show ?thesis by (simp add: calm_kept)
  next
    case (2 t s2)
    have "kept s s2" using 2(2) by (rule calm_kept)
    moreover from this have "kept (enable_irq 1 s) (enable_irq 1 s2)"
      by (auto simp: kept_def lines_kept_def enable_irq_def machine_simps bit_and_iff tables_kept_def vid_attrs_def)
    ultimately show ?thesis using kept_trans switch_terminal_lines [OF 2(3,1)] by blast
  qed
  then show "kept s s'" "(\<nexists>r. out = Returns r) \<Longrightarrow> kept (enable_irq 1 s) s'" by blast+
qed

text \<open>Once every terminal has its shell, a key always returns.\<close>

lemma switch_terminal_returns:
  assumes sh: "run_shell (termi t s) \<noteq> 0" and t: "unat t < length (termis s)"
  shows "\<exists>s'. switch_terminal K t s = Some (Returns 0, s')"
proof (cases "terminal_number (cli s) = t")
  case True
  then show ?thesis by (simp add: switch_terminal_def Let_def)
next
  case False
  define s1 where "s1 = copy_page VIDEO (USER_VIDEO_ADDR + (t + 1) * FOUR_KB)
    (copy_page (USER_VIDEO_ADDR + (terminal_number (cli s) + 1) * FOUR_KB) VIDEO (remap_page (terminal_number (cli s)) t (cli s)))"
  define s2 where "s2 = s1\<lparr>terminal_number := t\<rparr>"
  define s3 where "s3 = keyboard_set_cursor (cursor_x (termi t s2)) (cursor_y (termi t s2)) s2"
  have "calm (remap_page (terminal_number (cli s)) t (cli s)) s1" unfolding s1_def by (intro calm_intros)
  from calm_display [OF this] have "calm ((remap_page (terminal_number (cli s)) t (cli s))\<lparr>terminal_number := t\<rparr>) s3"
    unfolding s3_def s2_def by (intro calm_intros)
  moreover have "termis (remap_page (terminal_number (cli s)) t (cli s)) = termis s"
    by (subst remap_page_fields(1)) (simp add: machine_simps)
  ultimately have c: "map run_shell (termis s3) = map run_shell (termis s)" "terminal_number s3 = t"
    by (simp_all add: calm_def quiet_def)
  have "run_shell (termi (terminal_number s3) s3) \<noteq> 0"
    using shells_map [OF c(1)] sh t by (simp add: c(2) termi_def)
  moreover have tn: "terminal_number s2 = t" by (simp add: s2_def)
  have "switch_terminal K t s = (if run_shell (termi (terminal_number s3) s3) = 0
      then (case schedule_next_process K (terminal_number s3) s3 of
              Some (Returns _, s) \<Rightarrow> Some (Returns 0, s) | r \<Rightarrow> r)
      else Some (Returns 0, s3))"
    by (simp only: switch_terminal_def Let_def False if_False s1_def [symmetric] s2_def [symmetric] tn s3_def [symmetric])
  ultimately show ?thesis by simp
qed

lemma kb_handler_returns:
  assumes "\<forall>u<3. run_shell (termis s ! u) \<noteq> 0" "length (termis s) = 3"
  shows "\<exists>s'. kb_handler K s = Some (Returns 0, s')"
proof -
  obtain v s1 where i: "inb (dev K) KB_DATA_PORT (cli s) = (v, s1)" by fastforce
  define c where "c = (ucast v :: u8)"
  have "calm s (snd (inb (dev K) KB_DATA_PORT (cli s)))" by (intro calm_intros)
  then have "calm s (arrow_pressed c s1)" unfolding i snd_conv by (intro calm_intros)
  then have m: "map run_shell (termis (arrow_pressed c s1)) = map run_shell (termis s)" by (simp add: calm_def quiet_def)
  have "\<exists>s'. switch_terminal K t (arrow_pressed c s1) = Some (Returns 0, s')" if "unat t < 3" for t
    using shells_map [OF m] assms that by (intro switch_terminal_returns) (simp_all add: termi_def)
  from this [of 0] this [of 1] this [of 2] show ?thesis
    by (simp add: kb_handler_def Let_def i c_def [symmetric] split: option.split) blast
qed

text \<open>The handler of line \<open>n\<close> in the table.\<close>

lemma kernel_handlers_nth:
  "n < 16 \<Longrightarrow> kernel_handlers ! n =
     (if n = 0 then Some Pit_handler else if n = 1 then Some Kb_handler else if n = 8 then Some Rtc_handler else None)"
  by (simp add: kernel_handlers_def nth_list_update)

lemma run_irq_lines:
  assumes "run_irq K h s = Some (out, s')" "kernel_handlers ! n = Some h" "n < 16" "wired_but n s"
  shows "wired_but n s'" "(\<nexists>r. out = Returns r) \<Longrightarrow> wired s'"
proof -
  have c: "h = Pit_handler \<and> n = 0 \<or> h = Kb_handler \<and> n = 1 \<or> h = Rtc_handler \<and> n = 8"
    using assms(2) kernel_handlers_nth [OF assms(3)] by (auto split: if_splits)
  have r: "kept s (rtc_handler (dev K) s)" by (intro calm_kept calm_intros)
  have w: "wired (enable_irq (word_of_nat n) s)" by (rule wired_unmask [OF assms(3,4)])
  have "wired_but n s' \<and> ((\<nexists>r. out = Returns r) \<longrightarrow> wired s')"
    using c
  proof (elim disjE conjE)
    assume h: "h = Pit_handler" "n = 0"
    then have "pit_handler K s = Some (out, s')" using assms(1) by (simp add: run_irq_def)
    from kept_wired(2) [OF pit_lines [OF this]] have "wired s'" using w h(2) by simp
    then show ?thesis by (simp add: wired_def wired_but_def)
  next
    assume h: "h = Kb_handler" "n = 1"
    then have k: "kb_handler K s = Some (out, s')" using assms(1) by (simp add: run_irq_def)
    show ?thesis using kept_wired(1) [OF kb_lines(1) [OF k] assms(4)] kept_wired(2) [OF kb_lines(2) [OF k]] w h(2)
      by auto
  next
    assume "h = Rtc_handler" "n = 8"
    then show ?thesis using assms(1,4) kept_wired(1) [OF r] by (auto simp: run_irq_def)
  qed
  then show "wired_but n s'" "(\<nexists>r. out = Returns r) \<Longrightarrow> wired s'" by blast+
qed

text \<open>The stub of line \<open>n\<close>, in the terms of the handler.\<close>

lemma common_interrupt_cases:
  assumes run: "common_interrupt_num K reg s = Some (out, s')" and reg: "interrupt_num reg = stub_number n" and n: "n < 16"
  defines "t \<equiv> send_eoi (word_of_nat n) (disable_irq (word_of_nat n) (sti s))"
  obtains r u where "out = Returns r" "s' = cli (enable_irq (word_of_nat n) u)"
      "irq_handler s ! n = None \<and> u = t \<or> (\<exists>h. irq_handler s ! n = Some h \<and> run_irq K h t = Some (out, u))"
    | h where "\<nexists>r. out = Returns r" "irq_handler s ! n = Some h" "run_irq K h t = Some (out, s')"
proof -
  have u: "unat (word_of_nat n :: u32) = n" using n by (intro unat_u32_of_nat) simp
  note R = run [unfolded common_interrupt_num_def Let_def reg irq_number u t_def [symmetric]]
  show thesis
  proof (cases "irq_handler s ! n")
    case None
    then show thesis using R that(1) [of 0 t] by (auto split: if_splits)
  next
    case (Some h)
    then obtain o1 v where v: "run_irq K h t = Some (o1, v)" using R by (auto split: if_splits option.splits)
    then show thesis using R Some that(1) [of _ v] that(2) [of h]
      by (cases o1) (auto split: if_splits)
  qed
qed

lemma common_interrupt_run:
  assumes "irq_handler s = kernel_handlers" "interrupt_num reg = stub_number n" "n < 16"
  shows "common_interrupt_num K reg s =
    (let t = send_eoi (word_of_nat n) (disable_irq (word_of_nat n) (sti s))
     in case (case kernel_handlers ! n of None \<Rightarrow> Some (Returns 0, t) | Some h \<Rightarrow> run_irq K h t) of
          None \<Rightarrow> None
        | Some (Returns r, u) \<Rightarrow> Some (Returns r, cli (enable_irq (word_of_nat n) u))
        | Some (out, u) \<Rightarrow> Some (out, u))"
proof -
  have u: "unat (word_of_nat n :: u32) = n" using assms(3) by (intro unat_u32_of_nat) simp
  have "irq_handler (sti s) = kernel_handlers" "n < length kernel_handlers"
    using assms(1,3) by (simp_all add: kernel_handlers_def)
  then show ?thesis unfolding common_interrupt_num_def Let_def assms(2) irq_number u by simp
qed

lemma interrupt_wired:
  assumes run: "common_interrupt_num K reg s = Some (out, s')" and reg: "interrupt_num reg = stub_number n" "n < 16"
    and w: "wired s"
  shows "wired s'"
proof -
  have m: "wired_but n (send_eoi (word_of_nat n) (disable_irq (word_of_nat n) (sti s)))"
    by (rule wired_mask [OF reg(2)]) (use w in \<open>simp add: wired_def\<close>)
  have h: "irq_handler s = kernel_handlers" using w by (simp add: wired_def)
  show ?thesis
  proof (cases rule: common_interrupt_cases [OF run reg])
    case (1 r u)
    then have "wired_but n u" using m run_irq_lines(1) [OF _ _ reg(2) m] unfolding h by blast
    from wired_unmask [OF reg(2) this] show ?thesis by (simp add: 1(2) wired_def)
  next
    case (2 h')
    then show ?thesis using run_irq_lines(2) [OF 2(3) _ reg(2) m 2(1)] h by simp
  qed
qed

lemma termis_irq [simp]:
  "termis (enable_irq n s) = termis s" "termis (disable_irq n s) = termis s" "termis (send_eoi n s) = termis s"
  "termis (cli s) = termis s" "termis (sti s) = termis s"
  by (simp_all add: enable_irq_def disable_irq_def send_eoi_def machine_simps Let_def)

lemma run_irq_typed: "run_irq K h s = Some (out, s') \<Longrightarrow> typed s \<Longrightarrow> typed s'"
  using kept_wired(3) [OF pit_lines, of K s out s'] kept_wired(3) [OF kb_lines(1), of K s out s']
    kept_wired(3) [OF calm_kept [OF calm_rtc_handler [OF calm_refl]], of s "dev K"]
  by (cases h) (auto simp: run_irq_def)

lemma interrupt_typed:
  assumes run: "common_interrupt_num K reg s = Some (out, s')" "interrupt_num reg = stub_number n" "n < 16"
    and t: "typed s"
  shows "typed s'"
proof (cases rule: common_interrupt_cases [OF run])
  case (1 r u)
  then have "typed u" using t by (auto dest: run_irq_typed)
  then show ?thesis by (simp add: 1(2))
next
  case (2 h)
  then show ?thesis using run_irq_typed [OF 2(3)] t by simp
qed

text \<open>No interrupt changes a page table but for the frames of the video pages.\<close>

lemma tables_irq [simp]:
  "tables_kept s (enable_irq n t) = tables_kept s t" "tables_kept s (disable_irq n t) = tables_kept s t"
  "tables_kept s (send_eoi n t) = tables_kept s t" "tables_kept s (cli t) = tables_kept s t" "tables_kept s (sti t) = tables_kept s t"
  "tables_kept (enable_irq n s) t = tables_kept s t"
  by (simp_all add: enable_irq_def disable_irq_def send_eoi_def machine_simps Let_def tables_kept_def vid_attrs_def)

lemma run_irq_tables: "run_irq K h s = Some (out, s') \<Longrightarrow> tables_kept s s'"
  using pit_lines [of K s out s'] kb_lines(1) [of K s out s'] calm_kept [OF calm_rtc_handler [OF calm_refl], of s "dev K"]
  by (cases h) (auto simp: run_irq_def kept_def)

lemma interrupt_tables:
  fixes s :: "'a pcbs_scheme"
  assumes run: "common_interrupt_num K reg s = Some (out, s')" "interrupt_num reg = stub_number n" "n < 16"
  shows "tables_kept s s'"
proof -
  define t where "t = send_eoi (word_of_nat n) (disable_irq (word_of_nat n) (sti s))"
  have "tables_kept s s" by (simp add: tables_kept_def)
  then have t: "tables_kept s t" by (simp add: t_def)
  have r: "tables_kept s u" if "run_irq K h t = Some (o1, u)" for h o1 u
    using t run_irq_tables [OF that] by (simp add: tables_kept_def)
  show ?thesis
    by (cases rule: common_interrupt_cases [OF run]) (use r t in \<open>auto simp flip: t_def\<close>)
qed

section \<open>What the entries keep\<close>

lemma halt_lines:
  assumes inv: "kernel_inv st s" and run: "halt K status s = Some (out, s')"
  shows "kept s s'"
proof -
  define t where "t = unat (current_terminal s)"
  have T: "stacks_ok st s" "t < 3" "st t \<noteq> []"
    using inv by (simp_all add: kernel_inv_def table_inv_def t_def)
  obtain i "is" where i: "st t = i # is" using T(3) by (cases "st t") auto
  note R = run [unfolded halt_run [OF T(1) t_def [symmetric] T(2) i]]
  have "calm s (snd (close_terminal (cli s)))" by (intro calm_intros)
  then have h: "kept s ((halted t i s)\<lparr>pcb_num := l\<rparr>)" for l
    by (simp add: calm_def quiet_def halted_def restore_page_def kept_def lines_kept_def tables_kept_def vid_attrs_def
        upd2_apply fun_eq_iff)
  show ?thesis
  proof (cases "is")
    case Nil
    have "execute K (shell_at K) ((halted t i s)\<lparr>pcb_num := (pcb_num s)[t := 0]\<rparr>) = Some (out, s')"
      using R Nil by (auto split: option.splits prod.splits outcome.splits)
    from kept_trans [OF h mapped_lines [OF execute_mapped(1) [OF this]]] show ?thesis .
  next
    case (Cons j js)
    define u where "u = (halted t i s)\<lparr>pcb_num := (pcb_num s)[t := proc_no j]\<rparr>"
    have "mapped_same u s'" using R Cons by (auto simp: u_def intro!: mapped_same_intros)
    from kept_trans [OF h mapped_lines [OF this [unfolded u_def]]] show ?thesis .
  qed
qed

lemma disable_inv:
  fixes s :: "'a pcbs_scheme"
  assumes "kernel_inv st s"
  shows "kernel_inv st (disable_irq n s)"
proof -
  let ?d = "disable_irq n s"
  have f: "pd ?d = pd s" "vidmem_pt ?d = vidmem_pt s" "cr3 ?d = cr3 s" "termis ?d = termis s" "tss_esp0 ?d = tss_esp0 s"
    by (simp_all add: disable_irq_def machine_simps Let_def)
  have p: "same_procs s ?d" by simp
  have "stacks_ok st ?d" "vids_ok ?d" "paging_ok ?d"
    using assms stacks_ok_same [OF p] vids_ok_cong [of ?d s] paging_ok_cong [of ?d s] f p
    by (simp_all add: kernel_inv_def table_inv_def same_procs_def)
  then show ?thesis
    using assms f p waiting_same [OF p] by (simp add: kernel_inv_def table_inv_def context_ok_def same_procs_def)
qed

lemma interrupt_inv:
  fixes s :: "'a pcbs_scheme"
  assumes inv: "kernel_inv st s" and K: "cur_esp K \<noteq> 0" "cur_ebp K \<noteq> 0"
    and run: "common_interrupt_num K reg s = Some (out, s')" "interrupt_num reg = stub_number n" "n < 16"
  shows "\<exists>st'. kernel_inv st' s'"
proof -
  let ?d = "disable_irq (word_of_nat n) (sti s)"
  let ?t = "send_eoi (word_of_nat n) ?d"
  have i1: "kernel_inv st (sti s)" by (rule calm_inv [OF inv]) (intro calm_intros)
  have "kernel_inv st ?d" by (rule disable_inv [OF i1])
  then have i2: "kernel_inv st ?t" by (rule calm_inv) (intro calm_intros)
  have h: "\<exists>st'. kernel_inv st' u" if "run_irq K h ?t = Some (out, u)" for h u
  proof (cases h)
    case Pit_handler
    then show ?thesis using that tick_inv [OF i2 K] by (auto simp: run_irq_def)
  next
    case Kb_handler
    then show ?thesis using that keyboard_inv [OF i2 K] by (auto simp: run_irq_def)
  next
    case Rtc_handler
    have "calm ?t (rtc_handler (dev K) ?t)" by (intro calm_intros)
    then show ?thesis using that Rtc_handler calm_inv [OF i2] by (auto simp: run_irq_def)
  qed
  show ?thesis
  proof (cases rule: common_interrupt_cases [OF run])
    case (1 r u)
    then obtain st' where "kernel_inv st' u" using h i2 by blast
    from calm_inv [OF this, of s'] show ?thesis using 1(2) by (auto intro!: calm_intros)
  qed (use h in blast)
qed

text \<open>One system call, for any condition that the steps of the running program and whatever happens
  while it waits preserve.\<close>

lemma system_call_keeps:
  fixes s :: "'a pcbs_scheme"
  assumes p: "process_runs st (sti s) i" and run: "system_call K env eax ebx ecx edx s = Some (out, s')"
    and o: "\<And>t. own i (sti s) t \<Longrightarrow> I t" and c: "\<And>s t. calm s t \<Longrightarrow> I s \<Longrightarrow> I t" and env: "\<And>k t. I t \<Longrightarrow> I (env k t)"
    and x: "\<And>t. execute K ebx (sti s) = Some (out, t) \<Longrightarrow> I t"
    and h: "\<And>t. halt K (ucast ebx) (sti s) = Some (out, t) \<Longrightarrow> I t" and I: "I s"
  shows "I s'"
proof (cases "10 <s eax \<or> eax <s 1")
  case False
  note R = run [unfolded system_call_def if_not_P [OF False]]
  obtain u where u: "syscall_jump K env eax ebx ecx edx (sti s) = Some (out, u)" "s' = u \<or> s' = cli u"
    using R by (auto split: option.splits prod.splits outcome.splits)
  have s1: "I (sti s)" by (rule o) simp
  have keep: "I t" if "calm (sti s) t" for t using c [OF that s1] .
  have r: "I t" if "read_call K env ebx ecx edx (sti s) = Some (r, t)" for r t
    by (rule read_call_keeps [where I = I, OF p that o c env])
  have v: "I t" if "vidmap ebx (sti s) = (r, t)" for r t
    using keep [OF getargs_calm(2), of ebx] that by simp
  have "I u"
    using u(1) x h s1 o [OF open_call_own [OF p]] o [OF close_call_own [OF p]] keep [OF write_call_calm]
      keep [OF getargs_calm(1)] v r
    by (auto simp: syscall_jump_def Let_def split: if_splits prod.splits)
  moreover have "calm u (cli u)" by (intro calm_intros)
  ultimately show ?thesis using u(2) c by blast
qed (use run I in \<open>auto simp: system_call_def\<close>)

section \<open>The steps of the kernel\<close>

text \<open>A store of a program goes through the page tables: the processor refuses it, which is \<open>None\<close>,
  unless the entries of both levels are present and give the user write access.\<close>

definition page_writable :: "(nat \<Rightarrow> u32) \<Rightarrow> (nat \<Rightarrow> u32) \<Rightarrow> 'a paging_scheme \<Rightarrow> u32 \<Rightarrow> bool" where
  "page_writable pa va s a =
     (let e = pd s (cr3 s) (unat a div 4194304)
      in R_W e = 1 \<and> (PS e = 1 \<or>
           (case table_of pa va s (frame (base_address e)) of
              None \<Rightarrow> False
            | Some t \<Rightarrow> R_W (t (unat a div 4096 mod 1024)) = 1)))"

definition user_store ::
    "(nat \<Rightarrow> u32) \<Rightarrow> (nat \<Rightarrow> u32) \<Rightarrow> u32 \<Rightarrow> u8 \<Rightarrow> 'a paging_scheme \<Rightarrow> 'a paging_scheme option" where
  "user_store pa va a b s =
     (case translate pa va s a of
        Some (p, True) \<Rightarrow> if page_writable pa va s a then Some (s\<lparr>ram := (ram s)(p := b)\<rparr>) else None
      | _ \<Rightarrow> None)"

lemma user_store_calm:
  fixes s :: "'a tty_scheme"
  shows "user_store pa va a b s = Some s' \<Longrightarrow> calm s s'"
  by (auto simp: user_store_def calm_def quiet_def lines_kept_def split: option.splits bool.splits if_splits)

definition live_regs :: "kargs \<Rightarrow> bool" where
  "live_regs K \<longleftrightarrow> cur_esp K \<noteq> 0 \<and> cur_ebp K \<noteq> 0"

text \<open>One entry to the kernel that comes to an end, or one store of the running program; the tables
  lie at \<open>pa\<close> and \<open>va\<close>.  A read contains the steps that are taken while it waits.\<close>

inductive kernel_step :: "(nat \<Rightarrow> u32) \<Rightarrow> (nat \<Rightarrow> u32) \<Rightarrow> 'a pcbs_scheme \<Rightarrow> 'a pcbs_scheme \<Rightarrow> bool"
  for pa va :: "nat \<Rightarrow> u32" where
  interrupt: "live_regs K \<Longrightarrow> n < 16 \<Longrightarrow> interrupt_num reg = stub_number n \<Longrightarrow>
    common_interrupt_num K reg s = Some (out, s') \<Longrightarrow> kernel_step pa va s s'"
| syscall: "(\<forall>k t. (kernel_step pa va)\<^sup>*\<^sup>* t (env k t)) \<Longrightarrow> system_call K env eax ebx ecx edx s = Some (out, s') \<Longrightarrow>
    kernel_step pa va s s'"
| program: "user_store pa va a b s = Some s' \<Longrightarrow> kernel_step pa va s s'"

text \<open>The invariant of a step: the processes, the lines if \<open>W\<close>, the terminals if \<open>T\<close> and whatever \<open>U\<close>
  says of the page tables.\<close>

definition kernel_ok ::
    "bool \<Rightarrow> bool \<Rightarrow> ((nat \<Rightarrow> nat \<Rightarrow> pde) \<Rightarrow> (nat \<Rightarrow> nat \<Rightarrow> pte) \<Rightarrow> bool) \<Rightarrow> 'a pcbs_scheme \<Rightarrow> bool" where
  "kernel_ok W T U s \<longleftrightarrow> (\<exists>st. kernel_inv st s) \<and> (W \<longrightarrow> wired s) \<and> (T \<longrightarrow> typed s) \<and> U (pd s) (vid_attrs s)"

lemma kernel_ok_kept: "kernel_ok W T U s \<Longrightarrow> kept s t \<Longrightarrow> kernel_inv st t \<Longrightarrow> kernel_ok W T U t"
  using kept_wired(2,3) [of s t] by (auto simp: kernel_ok_def kept_def tables_kept_def)

lemma kernel_ok_calm: "calm s t \<Longrightarrow> kernel_ok W T U s \<Longrightarrow> kernel_ok W T U t"
proof -
  assume c: "calm s t" and k: "kernel_ok W T U s"
  then obtain st where "kernel_inv st t" using calm_inv by (auto simp: kernel_ok_def)
  then show "kernel_ok W T U t" by (rule kernel_ok_kept [OF k calm_kept [OF c]])
qed

lemma execute_ok:
  assumes "kernel_inv st s" "kernel_ok W T U s" "execute K c s = Some (out, s')"
  shows "kernel_ok W T U s'"
proof -
  have t: "table_inv st s" "waiting_ok st (unat (current_terminal s)) s" "run_shell (termis s ! unat (current_terminal s)) \<noteq> 0"
    using assms(1) by (auto simp: kernel_inv_def table_inv_def)
  have "\<exists>st'. kernel_inv st' s'"
    using execute_inv [OF t(1) refl t(3,2) assms(3)] assms(1) by (auto simp: kernel_inv_def same_procs_def)
  then show ?thesis using kernel_ok_kept [OF assms(2) mapped_lines [OF execute_mapped(1) [OF assms(3)]]] by blast
qed

lemma kernel_step_ok: "kernel_step pa va s s' \<Longrightarrow> kernel_ok W T U s \<Longrightarrow> kernel_ok W T U s'"
proof (induction rule: kernel_step.induct)
  case (interrupt K n reg s out s')
  then show ?case
    using interrupt_inv [OF _ _ _ interrupt(4,3,2)] interrupt_wired [OF interrupt(4,3,2)] interrupt_typed [OF interrupt(4,3,2)]
      interrupt_tables [OF interrupt(4,3,2)]
    by (auto simp: kernel_ok_def live_regs_def tables_kept_def)
next
  case (syscall env K eax ebx ecx edx s out s')
  have env: "kernel_ok W T U (env k t)" if "kernel_ok W T U t" for k t
  proof -
    have "(\<lambda>x y. kernel_step pa va x y \<and> (kernel_ok W T U x \<longrightarrow> kernel_ok W T U y))\<^sup>*\<^sup>* t (env k t)" using syscall(1) by blast
    then show ?thesis using that by (induction rule: rtranclp_induct) auto
  qed
  have "calm s (sti s)" by (intro calm_intros)
  then have ok: "kernel_ok W T U (sti s)" using kernel_ok_calm syscall(3) by blast
  then obtain st where inv: "kernel_inv st (sti s)" by (auto simp: kernel_ok_def)
  obtain i "is" where i: "st (unat (current_terminal (sti s))) = i # is" "process_runs st (sti s) i"
    by (rule kernel_runs [OF inv])
  have o: "kernel_ok W T U t" if "own i (sti s) t" for t
    by (rule kernel_ok_kept [OF ok own_kept [OF that] own_inv [OF inv i(1) that]])
  have h: "kernel_ok W T U t" if "halt K (ucast ebx) (sti s) = Some (out, t)" for t
    using halt_inv [OF inv that] kernel_ok_kept [OF ok halt_lines [OF inv that]] by blast
  show ?case
    by (rule system_call_keeps [where I = "kernel_ok W T U", OF i(2) syscall(2) o kernel_ok_calm env execute_ok [OF inv ok] h syscall(3)])
next
  case (program a b s s')
  then show ?case using kernel_ok_calm [OF user_store_calm] by blast
qed

lemma kernel_steps_ok: "(kernel_step pa va)\<^sup>*\<^sup>* s s' \<Longrightarrow> kernel_ok W T U s \<Longrightarrow> kernel_ok W T U s'"
  by (induction rule: rtranclp_induct) (use kernel_step_ok in blast)+

lemma kernel_steps_inv: "(kernel_step pa va)\<^sup>*\<^sup>* s s' \<Longrightarrow> kernel_inv st s \<Longrightarrow> \<exists>st'. kernel_inv st' s'"
  using kernel_steps_ok [of pa va s s' False False "\<lambda>_ _. True"] by (auto simp: kernel_ok_def)

section \<open>What a program may write\<close>

text \<open>The page tables as the boot fills them, seen from a program: the user bits are set for its own
  4 MB and for the first four video pages, and for nothing else.\<close>

definition user_tables :: "(nat \<Rightarrow> u32) \<Rightarrow> (nat \<Rightarrow> nat \<Rightarrow> pde) \<Rightarrow> (nat \<Rightarrow> nat \<Rightarrow> pte) \<Rightarrow> bool" where
  "user_tables va d w \<longleftrightarrow> (\<forall>i<10.
     (\<forall>k<1024. k \<noteq> PROGRAM \<and> k \<noteq> USER_VIDEO \<longrightarrow> P (d i k) = 0 \<or> U_S (d i k) = 0) \<and>
     P (d i PROGRAM) = 1 \<and> PS (d i PROGRAM) = 1 \<and> R_W (d i PROGRAM) = 1 \<and> U_S (d i PROGRAM) = 1 \<and>
     P (d i USER_VIDEO) = 1 \<and> PS (d i USER_VIDEO) = 0 \<and> R_W (d i USER_VIDEO) = 1 \<and> U_S (d i USER_VIDEO) = 1 \<and>
     frame (base_address (d i USER_VIDEO)) = va i \<and>
     (\<forall>k<1024. if k < 4 then P (w i k) = 1 \<and> R_W (w i k) = 1 \<and> U_S (w i k) = 1 else P (w i k) = 0))"

text \<open>The addresses this gives: the program's 4 MB and the four pages of video memory.\<close>

definition user_address :: "u32 \<Rightarrow> bool" where
  "user_address a \<longleftrightarrow> in_region PROG_START 4194304 a \<or> in_region USER_VIDEO_ADDR 16384 a"

lemma region_index:
  "in_region PROG_START 4194304 a \<longleftrightarrow> unat a div 4194304 = 32"
  "in_region USER_VIDEO_ADDR 4194304 a \<longleftrightarrow> unat a div 4194304 = 33"
  "in_region USER_VIDEO_ADDR 16384 a \<longleftrightarrow> unat a div 4194304 = 33 \<and> unat a div 4096 mod 1024 < 4"
proof -
  have div: "n * d \<le> v \<and> v < m * d \<longleftrightarrow> n \<le> v div d \<and> v div d < m" if "0 < d" for n m d v :: nat
    using less_eq_div_iff_mult_less_eq [OF that, of n v] div_less_iff_less_mult [OF that, of v m] by blast
  have one: "n * d \<le> v \<and> v < Suc n * d \<longleftrightarrow> v div d = n" if "0 < d" for n d v :: nat
    unfolding div [OF that] by auto
  show "in_region PROG_START 4194304 a \<longleftrightarrow> unat a div 4194304 = 32"
    using one [of 4194304 32 "unat a"] by (subst in_region_iff) simp_all
  show "in_region USER_VIDEO_ADDR 4194304 a \<longleftrightarrow> unat a div 4194304 = 33"
    using one [of 4194304 33 "unat a"] by (subst in_region_iff) simp_all
  define q where "q = unat a div 4194304"
  define k where "k = unat a div 4096 mod 1024"
  have k: "k < 1024" by (simp add: k_def)
  have s: "unat a div 4096 = 1024 * q + k" unfolding q_def k_def by (rule split_4096)
  consider "q \<le> 32" | "q = 33" | "34 \<le> q" by linarith
  then have "33792 \<le> unat a div 4096 \<and> unat a div 4096 < 33796 \<longleftrightarrow> q = 33 \<and> k < 4"
    unfolding s by cases (use k in simp_all)
  then show "in_region USER_VIDEO_ADDR 16384 a \<longleftrightarrow> unat a div 4194304 = 33 \<and> unat a div 4096 mod 1024 < 4"
    using div [of 4096 33792 "unat a" 33796] by (subst in_region_iff) (simp_all flip: q_def k_def)
qed

text \<open>The two indices and the two offsets of an address in a given 4 MB.\<close>

lemma region_offset:
  fixes a b :: u32
  assumes "unat a div 4194304 = n" "unat b = n * 4194304"
  shows "a - b = word_of_nat (unat a mod 4194304)" "unat (a - b) div 4096 = unat a div 4096 mod 1024"
    "unat (a - b) mod 4096 = unat a mod 4096"
proof -
  have v: "unat a = unat b + unat a mod 4194304" using div_mult_mod_eq [of "unat a" 4194304] assms by simp
  then have le: "b \<le> a" by (simp add: word_le_nat_alt)
  have m: "unat (a - b) = unat a mod 4194304" unfolding unat_sub [OF le] using v by simp
  then show "a - b = word_of_nat (unat a mod 4194304)" by (simp flip: m)
  have "unat a div 4096 = 1024 * n + unat a div 4096 mod 1024" using split_4096 [of "unat a"] assms(1) by simp
  moreover have "v = 4096 * d + r \<Longrightarrow> d = 1024 * n + k \<Longrightarrow> v = 4194304 * n + (4096 * k + r)" for v d r k :: nat by simp
  ultimately have "unat a = 4194304 * n + (4096 * (unat a div 4096 mod 1024) + unat a mod 4096)"
    by (metis mult_div_mod_eq)
  then have "unat (a - b) = 4096 * (unat a div 4096 mod 1024) + unat a mod 4096"
    using v assms(2) unfolding m by simp
  then show "unat (a - b) div 4096 = unat a div 4096 mod 1024" "unat (a - b) mod 4096 = unat a mod 4096"
    by simp_all
qed

lemma translate_walk:
  assumes e: "e = pd s (cr3 s) (unat a div 4194304)"
  shows "P e = 0 \<Longrightarrow> user_store pa va a b s = None" "U_S e = 0 \<Longrightarrow> user_store pa va a b s = None"
    "P e = 1 \<Longrightarrow> PS e = 1 \<Longrightarrow> R_W e = 1 \<Longrightarrow> U_S e = 1 \<Longrightarrow>
       user_store pa va a b s = Some (s\<lparr>ram := (ram s)(frame (base_address e) + word_of_nat (unat a mod 4194304) := b)\<rparr>)"
    "P e = 1 \<Longrightarrow> PS e = 0 \<Longrightarrow> R_W e = 1 \<Longrightarrow> U_S e = 1 \<Longrightarrow> table_of pa va s (frame (base_address e)) = Some t \<Longrightarrow>
       e' = t (unat a div 4096 mod 1024) \<Longrightarrow>
       user_store pa va a b s = (if P e' = 0 \<or> U_S e' \<noteq> 1 \<or> R_W e' \<noteq> 1 then None
         else Some (s\<lparr>ram := (ram s)(frame (base_address e') + word_of_nat (unat a mod 4096) := b)\<rparr>))"
  by (auto simp: user_store_def translate_def page_writable_def Let_def assms split: option.splits bool.splits)

lemma user_store_run:
  assumes pl: "tables_placed pa va" and ok: "paging_ok s" and u: "user_tables va (pd s) (vid_attrs s)"
  shows "user_store pa va a b s = (if user_address a then Some (vwrite s a b) else None)"
proof -
  let ?q = "unat a div 4194304" and ?k = "unat a div 4096 mod 1024" and ?i = "cr3 s"
  have i: "?i < 10" using ok by (simp add: paging_ok_def)
  have q: "?q < 1024" using unat_less_u32 [of a] by (intro less_mult_imp_div_less) simp
  note U = u [unfolded user_tables_def, rule_format, OF i]
  consider "?q = 32" | "?q = 33" | "?q \<noteq> 32" "?q \<noteq> 33" by blast
  then show ?thesis
  proof cases
    case 1
    then have "user_address a" "in_region PROG_START 4194304 a" by (simp_all add: user_address_def region_index)
    then show ?thesis using U translate_walk(3) [of "pd s ?i 32" s a pa va b] 1 region_offset(1) [OF 1, of PROG_START]
      by (simp add: vwrite_def phys_def prog_frame_def)
  next
    case 2
    have t: "table_of pa va s (va ?i) = Some (vidmem_pt s ?i)" by (rule table_of_placed(2) [OF pl i])
    have n: "\<not> in_region PROG_START 4194304 a" "in_region USER_VIDEO_ADDR 4194304 a" using 2 by (simp_all add: region_index)
    have "unat (a - USER_VIDEO_ADDR) div 4096 = ?k \<and> unat (a - USER_VIDEO_ADDR) mod 4096 = unat a mod 4096"
      using region_offset(2,3) [OF 2, of USER_VIDEO_ADDR] by simp
    then have p: "phys s a = frame (base_address (vidmem_pt s ?i ?k)) + word_of_nat (unat a mod 4096)"
      by (simp add: phys_def n vid_page_def)
    have "user_address a \<longleftrightarrow> ?k < 4" using 2 n by (simp add: user_address_def region_index)
    moreover have "?k < 1024" by simp
    then have "if ?k < 4 then P (vidmem_pt s ?i ?k) = 1 \<and> R_W (vidmem_pt s ?i ?k) = 1 \<and> U_S (vidmem_pt s ?i ?k) = 1
        else P (vidmem_pt s ?i ?k) = 0"
      using U by (metis vid_attrs_fields)
    ultimately show ?thesis
      using U translate_walk(4) [of "pd s ?i 33" s a pa va "vidmem_pt s ?i" "vidmem_pt s ?i ?k" b] 2 t p
      by (simp add: vwrite_def split: if_split_asm)
  next
    case 3
    have "\<not> user_address a" using 3 by (simp add: user_address_def region_index)
    moreover have "P (pd s ?i ?q) = 0 \<or> U_S (pd s ?i ?q) = 0" using U q 3 by blast
    ultimately show ?thesis using translate_walk(1,2) [OF refl, of s a pa va b] by auto
  qed
qed

text \<open>Where such a store goes in memory.\<close>

lemma store_frame:
  assumes inv: "kernel_inv st s" and a: "user_address a"
  obtains i where "i < 6" "pcb_num s ! unat (current_terminal s) = proc_no i"
    "in_region (EIGHT_MB + word_of_nat i * FOUR_MB) 4194304 (phys s a) \<or> in_region VIDEO 16384 (phys s a)"
proof -
  obtain i "is" where i: "st (unat (current_terminal s)) = i # is" "i < 6" "process_runs st s i"
    by (rule kernel_runs [OF inv])
  have c: "cr3 s = i" and p: "paging_ok s"
    using inv i(1) by (simp_all add: kernel_inv_def context_ok_def table_inv_def)
  have "in_region (EIGHT_MB + word_of_nat i * FOUR_MB) 4194304 (phys s a) \<or> in_region VIDEO 16384 (phys s a)"
  proof (cases "in_region PROG_START 4194304 a")
    case True
    then show ?thesis using paging_okD(1) [OF p] by (simp add: phys_def c in_region_def)
  next
    case False
    then have v: "in_region USER_VIDEO_ADDR 16384 a" using a by (simp add: user_address_def)
    define k where "k = unat (a - USER_VIDEO_ADDR) div 4096"
    define j where "j = unat (a - USER_VIDEO_ADDR) mod 4096"
    have k: "k < 4" "j < 4096" using v by (auto simp: k_def j_def in_region_def)
    have vid: "\<exists>n<4. vid_page s k = page_addr n"
      using paging_okD(3,4) [OF p] k(1) by (cases "k = 0") (auto simp: page_addr_def)
    have "in_region USER_VIDEO_ADDR 4194304 a" using v by (simp add: in_region_def)
    then have ph: "phys s a = vid_page s k + word_of_nat j" using False by (simp add: phys_def k_def j_def)
    obtain n where n: "n < 4" "vid_page s k = VIDEO + word_of_nat n * FOUR_KB"
      using vid by (auto simp: page_addr_def)
    have "phys s a - VIDEO = word_of_nat (4096 * n + j)" by (simp add: ph n(2) mult.commute)
    moreover have "unat (word_of_nat (4096 * n + j) :: u32) = 4096 * n + j"
      using n(1) k(2) by (intro unat_u32_of_nat) simp
    ultimately have "in_region VIDEO 16384 (phys s a)" using n(1) k(2) by (simp add: in_region_def)
    then show ?thesis ..
  qed
  then show thesis using that i(2) process_runsD(4) [OF i(3)] by blast
qed

lemma stores_confined:
  assumes pl: "tables_placed pa va" and inv: "\<exists>st. kernel_inv st s" and u: "user_tables va (pd s) (vid_attrs s)"
  shows "(\<forall>a b. user_store pa va a b s = (if user_address a then Some (vwrite s a b) else None)) \<and>
    (\<exists>i<6. pcb_num s ! unat (current_terminal s) = proc_no i \<and>
      (\<forall>a b s'. user_store pa va a b s = Some s' \<longrightarrow> s' = s\<lparr>ram := ram s'\<rparr> \<and>
        (\<forall>p. ram s' p = ram s p \<or> in_region (EIGHT_MB + word_of_nat i * FOUR_MB) 4194304 p \<or> in_region VIDEO 16384 p)))"
proof -
  obtain st where st: "kernel_inv st s" using inv ..
  then have "paging_ok s" by (simp add: kernel_inv_def table_inv_def)
  note r = user_store_run [OF pl this u]
  obtain i where i: "i < 6" "pcb_num s ! unat (current_terminal s) = proc_no i"
    using store_frame [OF st, of PROG_START] by (auto simp: user_address_def in_region_def)
  have "s' = s\<lparr>ram := ram s'\<rparr> \<and> (\<forall>p. ram s' p = ram s p \<or> in_region (EIGHT_MB + word_of_nat i * FOUR_MB) 4194304 p \<or>
      in_region VIDEO 16384 p)" if "user_store pa va a b s = Some s'" for a b s'
  proof -
    have a: "user_address a" "s' = vwrite s a b" using that r [of a b] by (auto split: if_splits)
    obtain j where j: "j < 6" "pcb_num s ! unat (current_terminal s) = proc_no j"
      "in_region (EIGHT_MB + word_of_nat j * FOUR_MB) 4194304 (phys s a) \<or> in_region VIDEO 16384 (phys s a)"
      by (rule store_frame [OF st a(1)])
    have "j = i" using i j(1,2) proc_no_inj by metis
    then show ?thesis using j(3) a(2) by (auto simp: vwrite_def)
  qed
  then show ?thesis using r i by blast
qed

end
