(* ===== verification/KernelProperties.thy ===== *)
theory KernelProperties
  imports Gates
begin

text \<open>
  What holds in every state the kernel reaches, whatever programs do and whenever interrupts come.
\<close>

section \<open>A state in which one program runs\<close>

definition sample_kernel :: pcbs where
  "sample_kernel = sample_display\<lparr>tss_esp0 := KERNEL_BOTTOM, irq_handler := kernel_handlers, master_mask := 0xF8,
     slave_mask := 0xFE\<rparr>"

lemma sample_kernel_inv: "kernel_inv ((\<lambda>_. [])(0 := [0])) sample_kernel"
proof -
  let ?st = "(\<lambda>_. [])(0 := [0]) :: nat \<Rightarrow> nat list"
  have f: "pcb_mem sample_kernel = pcb_mem sample_display" "pcb_ptr sample_kernel = pcb_ptr sample_single"
    "pcb_num sample_kernel = pcb_num sample_single" "current_terminal sample_kernel = 0"
    "terminal_number sample_kernel = 0" "termis sample_kernel = replicate 3 (sample_termi\<lparr>run_shell := 1\<rparr>)"
    "pcb_mem sample_display = pcb_mem sample_single"
    by (simp_all add: sample_kernel_def sample_display_def) (simp add: sample_single_def)
  have "stacks_ok ?st sample_kernel"
    using sample_single_stacks by (simp add: stacks_ok_def f block_def [abs_def])
  moreover have "vids_ok sample_kernel"
    using sample_display_ok(2) vids_ok_cong [of sample_kernel sample_display] by (simp add: sample_kernel_def)
  moreover have "paging_ok sample_kernel"
    using sample_display_ok(1) paging_ok_cong [of sample_kernel sample_display] by (simp add: sample_kernel_def)
  moreover have "cr3 sample_kernel = 0"
    by (simp add: sample_kernel_def sample_display_def sample_single_def sample_exec_def sample_pcbs_def tty.extend_def
        sample_tty_def set_paging_def Let_def set_register_def)
  ultimately show ?thesis
    by (simp add: kernel_inv_def table_inv_def waiting_ok_def context_ok_def f nth_replicate)
      (simp add: sample_kernel_def)
qed

lemma sample_kernel_live: "live_regs sample_kargs"
  by (simp add: live_regs_def sample_kargs_def)

lemma sample_kernel_wired: "wired sample_kernel"
  by (simp add: wired_def sample_kernel_def line_enabled_def)

text \<open>A tick.\<close>

lemma sample_kernel_reach:
  "\<exists>s out. common_interrupt_num sample_kargs (sample_reg 0xFFFFFFFF) sample_kernel = Some (out, s) \<and>
     (kernel_step pa va)\<^sup>*\<^sup>* sample_kernel s"
proof -
  have n: "interrupt_num (sample_reg 0xFFFFFFFF) = stub_number 0" by (simp add: sample_reg_def stub_number_def)
  have "kernel_inv ((\<lambda>_. [])(0 := [0])) (send_eoi 0 (disable_irq 0 (sti sample_kernel)))"
    by (rule calm_inv [OF disable_inv [OF calm_inv [OF sample_kernel_inv]], of "sti sample_kernel" 0]; intro calm_intros)
  then obtain a b c s where s: "pit_handler sample_kargs (send_eoi 0 (disable_irq 0 (sti sample_kernel))) = Some (Resumes a b c, s)"
    using tick_inv [of _ _ sample_kargs] by (fastforce simp: sample_kargs_def)
  have h: "irq_handler sample_kernel = kernel_handlers" by (simp add: sample_kernel_def)
  have "common_interrupt_num sample_kargs (sample_reg 0xFFFFFFFF) sample_kernel = Some (Resumes a b c, s)"
    using s by (simp add: common_interrupt_run [OF h n] run_irq_def kernel_handlers_nth)
  from this kernel_step.interrupt [OF sample_kernel_live _ n this] show ?thesis by auto
qed

section \<open>Properties\<close>

text \<open>C1: The invariant of the kernel: from a state in which it holds (the process table is three
  disjoint stacks of processes with their parents, the address spaces are those of \<^verbatim>\<open>set_paging\<close>, every
  program's video page follows the terminal recorded in its block, every waiting program has saved registers, the address
  space and the kernel stack are the running program's), every sequence of interrupts through the
  stub and the dispatcher, of system calls through their gate and of stores of programs keeps it.
  And no sequence of them leaves the line of the timer, the keyboard or the clock masked or without
  its handler, although a handler that switches to another program does not return to unmask it.\<close>

theorem kernel_invariant:
  assumes "kernel_inv st s" "(kernel_step pa va)\<^sup>*\<^sup>* s s'"
  shows "(\<exists>st'. kernel_inv st' s') \<and> (wired s \<longrightarrow> wired s')"
  using kernel_steps_ok [OF assms(2), of "wired s" False "\<lambda>_ _. True"] assms(1) by (auto simp: kernel_ok_def)

theorem kernel_invariant_witness:
  "\<exists>s st out. common_interrupt_num sample_kargs (sample_reg 0xFFFFFFFF) sample_kernel = Some (out, s) \<and>
     kernel_inv st s \<and> wired s"
  using kernel_invariant [OF sample_kernel_inv] sample_kernel_reach sample_kernel_wired by blast

text \<open>C3: The kernel never gets stuck between programs: in every reachable state a tick resumes a
  program, and the top program of every terminal runs within three ticks.\<close>

theorem kernel_schedules_all:
  assumes "kernel_inv st s" "(kernel_step pa va)\<^sup>*\<^sup>* s s'" "u < 3" "pcb_num s' ! u \<noteq> 0"
    and "live_regs K1" "live_regs K2" "live_regs K3"
  shows "\<exists>n s''. 1 \<le> n \<and> n \<le> 3 \<and> ticks (take n [K1, K2, K3]) s' = Some s'' \<and> unat (current_terminal s'') = u"
proof -
  obtain st' where inv: "kernel_inv st' s'" using kernel_steps_inv [OF assms(2,1)] ..
  have ok: "stacks_ok st' s'" using inv by (simp add: kernel_inv_def table_inv_def)
  have "st' u \<noteq> []" using stacks_okD(8) [OF ok assms(3)] assms(4) by (auto simp: top_no_def)
  then show ?thesis
    using ticks_reach [OF kernel_inv_sched [OF inv] assms(3)] assms(5-7) by (simp add: live_regs_def)
qed

theorem kernel_schedules_all_witness:
  "\<exists>n s''. 1 \<le> n \<and> n \<le> 3 \<and> ticks (take n [sample_kargs, sample_kargs, sample_kargs]) sample_kernel = Some s'' \<and>
     unat (current_terminal s'') = 0"
proof -
  have "pcb_num sample_kernel ! 0 \<noteq> 0" by (simp add: sample_kernel_def sample_display_def sample_single_def)
  from kernel_schedules_all [OF sample_kernel_inv rtranclp.rtrancl_refl _ this sample_kernel_live sample_kernel_live sample_kernel_live]
  show ?thesis by simp
qed

text \<open>The block of a new program names the displayed terminal, whatever terminal runs it.\<close>

lemma execute_screen:
  assumes inv: "kernel_inv st s" and run: "execute K c s = Some (Enters e, s')"
  shows "vids_ok s' \<and> terminal_number s' = terminal_number s \<and> current_terminal s' = current_terminal s \<and>
    (\<exists>n<6. pcb_ptr s ! n = 0 \<and> pcb_ptr s' ! n \<noteq> 0 \<and> pcb_num s' ! unat (current_terminal s) = proc_no n \<and>
       pcb_terminal (pcb_mem s' (pcb_ptr s' ! n)) = terminal_number s)"
proof -
  define t where "t = unat (current_terminal s)"
  have T: "stacks_ok st s" "t < 3" "table_inv st s" "waiting_ok st t s" "run_shell (termis s ! t) \<noteq> 0"
    using inv by (auto simp: kernel_inv_def table_inv_def t_def)
  have V: "vids_ok s'"
    using execute_inv [OF T(3) t_def T(5,4) run] by (auto simp: kernel_inv_def table_inv_def)
  obtain i buffer where i: "i < 6" "i \<notin> set (all_slots st)" "stacks_ok (st(t := i # st t)) s'" "pushed K (st t) i buffer s s'"
    using execute_table [OF T(1) t_def [symmetric] T(2) run] by auto
  have p: "pcb_ptr s ! i = 0" "pcb_ptr s' ! i = pcb_address (proc_no i)" "pcb_num s' ! t = proc_no i"
    using stacks_okD(7) [OF T(1) i(1)] stacks_okD(7) [OF i(3) i(1)] stacks_okD(8) [OF i(3) T(2)] i(2)
    by (simp_all add: all_slots_push [OF T(2)] top_no_def)
  have "pcb_terminal (block s' i) = terminal_number s" "terminal_number s' = terminal_number s" "current_terminal s' = current_terminal s"
    using i(4) by (auto simp: pushed_def fresh_pcb_def)
  then show ?thesis using V p i(1) pcb_address_nonzero [OF i(1)] by (auto simp: block_def simp flip: t_def)
qed

lemma shown_frame:
  assumes "vids_ok s" "i < 6" "pcb_ptr s ! i \<noteq> 0"
  shows "video_frame s i = (if pcb_terminal (pcb_mem s (pcb_ptr s ! i)) = terminal_number s then VIDEO
    else VIDEO + (pcb_terminal (pcb_mem s (pcb_ptr s ! i)) + 1) * FOUR_KB)"
proof -
  define t where "t = pcb_terminal (pcb_mem s (pcb_ptr s ! i))"
  have v: "video_frame s i = page_addr (screen_page (terminal_number s) t)"
    using assms by (auto simp: vids_ok_def t_def)
  have "word_of_nat (unat t + 1) = t + 1" by simp
  then show ?thesis unfolding v screen_page_def page_addr_def by (simp flip: t_def)
qed

text \<open>C20: The video page of a program follows the terminal that is recorded in its block: in every
  reachable state it is the visible page if that terminal is displayed and that terminal's own buffer
  otherwise.  The recorded terminal is the one that was displayed when the program was started, and not
  the one that runs it: in every reachable state a program that is started, in a slot that was free,
  by whatever terminal has the processor gets the displayed terminal's number and draws on the visible
  page.\<close>

theorem video_follows_terminal:
  assumes "kernel_inv st s" "(kernel_step pa va)\<^sup>*\<^sup>* s s'"
  shows "(\<forall>i<6. pcb_ptr s' ! i \<noteq> 0 \<longrightarrow>
      (let t = pcb_terminal (pcb_mem s' (pcb_ptr s' ! i))
       in video_frame s' i = (if t = terminal_number s' then VIDEO else VIDEO + (t + 1) * FOUR_KB))) \<and>
    (\<forall>K c e s''. execute K c s' = Some (Enters e, s'') \<longrightarrow>
      current_terminal s'' = current_terminal s' \<and> terminal_number s'' = terminal_number s' \<and>
      (\<exists>n<6. pcb_ptr s' ! n = 0 \<and> pcb_ptr s'' ! n \<noteq> 0 \<and> pcb_num s'' ! unat (current_terminal s') = proc_no n \<and>
        pcb_terminal (pcb_mem s'' (pcb_ptr s'' ! n)) = terminal_number s' \<and> video_frame s'' n = VIDEO))"
proof -
  obtain st' where inv: "kernel_inv st' s'" using kernel_steps_inv [OF assms(2,1)] ..
  then have "vids_ok s'" by (simp add: kernel_inv_def table_inv_def)
  note live = shown_frame [OF this]
  have new: "current_terminal s'' = current_terminal s' \<and> terminal_number s'' = terminal_number s' \<and> (\<exists>n<6. pcb_ptr s' ! n = 0 \<and> pcb_ptr s'' ! n \<noteq> 0 \<and> pcb_num s'' ! unat (current_terminal s') = proc_no n \<and>
      pcb_terminal (pcb_mem s'' (pcb_ptr s'' ! n)) = terminal_number s' \<and> video_frame s'' n = VIDEO)"
    if "execute K c s' = Some (Enters e, s'')" for K c e s''
    using execute_screen [OF inv that] shown_frame [of s''] by metis
  show ?thesis
    unfolding Let_def by (rule conjI, use live in blast, use new in blast)
qed

theorem video_follows_terminal_witness:
  "video_frame sample_kernel 0 = VIDEO"
proof -
  have f: "pcb_ptr sample_kernel ! 0 = pcb_address 1" "terminal_number sample_kernel = 0"
    "pcb_terminal (pcb_mem sample_kernel (pcb_address 1)) = 0"
    by (simp_all add: sample_kernel_def sample_display_fields) (simp add: sample_display_def sample_single_def sample_pcb_def)
  have "pcb_ptr sample_kernel ! 0 \<noteq> 0" using f(1) by (simp add: pcb_address_def)
  with video_follows_terminal [OF sample_kernel_inv rtranclp.rtrancl_refl] f show ?thesis by (simp add: Let_def)
qed

section \<open>Interrupts come to an end\<close>

text \<open>The shell can be started from the current state: its name and its program are where \<^verbatim>\<open>execute\<close> looks
  for them, and not in video memory.\<close>

definition clear_of_screens :: "u32 \<Rightarrow> nat \<Rightarrow> bool" where
  "clear_of_screens a n \<longleftrightarrow> unat a + n \<le> 8388608 \<and> separate a n VIDEO 16384"

definition shell_ready :: "kargs \<Rightarrow> 'a pcbs_scheme \<Rightarrow> bool" where
  "shell_ready K s \<longleftrightarrow> (\<exists>w content. runnable K s (shell_at K) w [] content \<and>
     clear_of_screens (bb_start K) (Suc (image_size (vmem s) (bb_start K))) \<and> clear_of_screens (parse_at K) 220 \<and>
     clear_of_screens (shell_at K) (length w + 2))"

lemma agree_clear:
  assumes "clear_of_screens a n" "\<And>p. \<not> in_region VIDEO 16384 p \<Longrightarrow> ram s' p = ram s p"
  shows "agree a n (vmem s) (vmem s')"
  unfolding agree_def
proof (intro allI impI)
  fix x assume x: "in_region a n x"
  have "unat x < 8388608" using assms(1) in_region_low [OF _ x] by (simp add: clear_of_screens_def)
  moreover have "\<not> in_region VIDEO 16384 x"
    using assms(1) separate_disjoint [OF _ x] by (auto simp: clear_of_screens_def)
  ultimately show "vmem s' x = vmem s x" using assms(2) by (simp add: vmem_low)
qed

lemma shell_ready_agree:
  fixes s s' :: "'a pcbs_scheme"
  assumes r: "shell_ready K s" and m: "\<And>p. \<not> in_region VIDEO 16384 p \<Longrightarrow> ram s' p = ram s p"
  shows "\<exists>w content. \<forall>u :: 'a pcbs_scheme. ram u = ram s' \<longrightarrow> runnable K u (shell_at K) w [] content"
    "shell_ready K s'"
proof -
  obtain w content where r: "runnable K s (shell_at K) w [] content"
    and c: "clear_of_screens (bb_start K) (Suc (image_size (vmem s) (bb_start K)))" "clear_of_screens (parse_at K) 220"
      "clear_of_screens (shell_at K) (length w + 2)"
    using r unfolding shell_ready_def by blast
  have u: "runnable K u (shell_at K) w [] content"
    if "\<And>p. \<not> in_region VIDEO 16384 p \<Longrightarrow> ram u p = ram s p" for u :: "'a pcbs_scheme"
    by (rule runnable_agree [OF r]) (use c that in \<open>simp_all add: agree_clear\<close>)
  then show "\<exists>w content. \<forall>u :: 'a pcbs_scheme. ram u = ram s' \<longrightarrow> runnable K u (shell_at K) w [] content" using m by metis
  have "program_file (vmem s) (bb_start K) w content" using r by (simp add: runnable_def)
  then have "image_size (vmem s') (bb_start K) = image_size (vmem s) (bb_start K)"
    using same_image_sizes(3) [OF agree_clear [OF c(1) m]] by (simp add: program_file_def)
  then show "shell_ready K s'" unfolding shell_ready_def using u [OF m] c by auto
qed

text \<open>A switch to another terminal returns if it has a shell, and otherwise ends in the new shell, or, if no
  slot is free for it, in the next program.\<close>

definition leaves :: "'a pcbs_scheme \<Rightarrow> outcome \<Rightarrow> bool" where
  "leaves s out \<longleftrightarrow> (if \<exists>i<6. pcb_ptr s ! i = 0 then \<exists>e. out = Enters e else \<exists>a b c. out = Resumes a b c)"

lemma page_in_screens: "k < 4 \<Longrightarrow> in_region (page_addr k) 4096 p \<Longrightarrow> in_region VIDEO 16384 p"
proof -
  assume k: "k < 4" "in_region (page_addr k) 4096 p"
  have "page_addr k = VIDEO + word_of_nat (4096 * k)" by (simp add: page_addr_def mult.commute)
  then show ?thesis using k in_region_sub [of VIDEO "4096 * k" 4096 p 16384] by simp
qed

lemma switch_terminal_ends:
  fixes s :: "'a pcbs_scheme"
  assumes inv: "kernel_inv st s" and t: "unat t < 3" and K: "live_regs K"
    and r: "run_shell (termi t s) \<noteq> 0 \<or> shell_ready K s"
  shows "\<exists>out s'. switch_terminal K t s = Some (out, s') \<and> (out = Returns 0 \<or> run_shell (termi t s) = 0 \<and> leaves s out)"
proof (cases "terminal_number s = t")
  case True
  then show ?thesis by (simp add: switch_terminal_def Let_def machine_simps)
next
  case ne: False
  have T: "paging_ok s" "unat (terminal_number s) < 3" using inv by (simp_all add: kernel_inv_def table_inv_def)
  obtain es s' where s': "s' = (remap_page (terminal_number s) t s)
      \<lparr>ram := store_bytes (store_bytes (ram s) (page_addr (unat (terminal_number s) + 1)) (page s 0)) (page_addr 0)
         (page s (unat t + 1)), terminal_number := t, io := io s @ es\<rparr>"
    and run: "switch_terminal K t s = (if run_shell (termi t s) = 0
      then (case schedule_next_process K t s' of Some (Returns _, s) \<Rightarrow> Some (Returns 0, s) | r \<Rightarrow> r)
      else Some (Returns 0, s'))"
    using switch_display [OF T t ne, of K] by (auto simp: Let_def)
  show ?thesis
  proof (cases "run_shell (termi t s) = 0")
    case False
    then show ?thesis using run by simp
  next
    case True
    have "calm ((remap_page (terminal_number s) t s)\<lparr>terminal_number := t\<rparr>) s'"
      unfolding s' by (simp add: calm_def quiet_def lines_kept_def)
    from display_inv [OF inv t this] have inv': "kernel_inv st s'" .
    have m: "ram s' p = ram s p" if "\<not> in_region VIDEO 16384 p" for p
    proof -
      have "\<not> in_region (page_addr 0) 4096 p" "\<not> in_region (page_addr (unat (terminal_number s) + 1)) 4096 p"
        using that page_in_screens [of 0 p] page_in_screens [of "unat (terminal_number s) + 1" p] T(2) by auto
      then show ?thesis unfolding s' by (simp add: store_bytes_other page_def)
    qed
    have "pcb_ptr (remap_page (terminal_number s) t s) = pcb_ptr s" by (subst remap_page_fields(1)) simp
    then have p: "pcb_ptr s' = pcb_ptr s" by (simp add: s')
    obtain w content where "\<forall>u :: 'a pcbs_scheme. ram u = ram s' \<longrightarrow> runnable K u (shell_at K) w [] content"
      using shell_ready_agree(1) [of K s s'] r True m by blast
    then obtain out s2 where "schedule_next_process K t s' = Some (out, s2)" "leaves s out"
      using open_shell_ends [OF inv' t, of K w "[]" content] K p by (auto simp: live_regs_def leaves_def)
    then show ?thesis using run True by (auto simp: leaves_def split: if_splits)
  qed
qed

lemma kb_handler_ends:
  fixes s :: "'a pcbs_scheme"
  assumes inv: "kernel_inv st s" and K: "live_regs K" and r: "(\<forall>u<3. run_shell (termis s ! u) \<noteq> 0) \<or> shell_ready K s"
  shows "\<exists>out s'. kb_handler K s = Some (out, s') \<and> (out = Returns 0 \<or> (\<exists>u<3. run_shell (termis s ! u) = 0) \<and> leaves s out)"
proof -
  obtain v s1 where i: "inb (dev K) KB_DATA_PORT (cli s) = (v, s1)" by fastforce
  define c where "c = (ucast v :: u8)"
  define s2 where "s2 = arrow_pressed c s1"
  have "calm s (snd (inb (dev K) KB_DATA_PORT (cli s)))" by (intro calm_intros)
  then have calm: "calm s s2" unfolding i snd_conv s2_def by (intro calm_intros)
  have inv2: "kernel_inv st s2" by (rule calm_inv [OF inv calm])
  have m: "map run_shell (termis s2) = map run_shell (termis s)" using calm by (simp add: calm_def quiet_def)
  have p: "pcb_ptr s2 = pcb_ptr s" using calm_procs(1) [OF calm] by (simp add: same_procs_def)
  have l: "leaves s2 = leaves s" by (simp add: fun_eq_iff leaves_def p)
  have "ram s1 = ram s" using i by (auto simp: machine_simps)
  then have "ram s2 = ram s"
    by (simp add: s2_def arrow_pressed_def Let_def upd_cur_def upd_termi_def)
  then have r2: "shell_ready K s \<Longrightarrow> shell_ready K s2" using shell_ready_agree(2) [of K s s2] by simp
  have len: "length (termis s) = 3" using inv by (simp add: kernel_inv_def table_inv_def)
  have sh: "run_shell (termi t s2) = run_shell (termis s ! unat t)" if "unat t < 3" for t
    using shells_map [OF m] len that by (simp add: termi_def)
  have sw: "\<exists>out s'. switch_terminal K t s2 = Some (out, s') \<and>
      (out = Returns 0 \<or> (\<exists>u<3. run_shell (termis s ! u) = 0) \<and> leaves s out)" if "unat t < 3" for t
    using switch_terminal_ends [OF inv2 that K] r r2 sh [OF that] that l by (auto split del: if_split)
  show ?thesis
    using sw [of 0] sw [of 1] sw [of 2]
    by (simp add: kb_handler_def Let_def i c_def [symmetric] s2_def [symmetric] split: option.split)
qed

text \<open>The outcome of an interrupt, by its line.\<close>

lemma interrupt_outcome:
  assumes inv: "kernel_inv st s" and w: "wired s" and K: "live_regs K" and n: "n < 16" "interrupt_num reg = stub_number n"
    and sh: "n = 1 \<longrightarrow> (\<forall>u<3. run_shell (termis s ! u) \<noteq> 0) \<or> shell_ready K s"
  shows "\<exists>out s'. common_interrupt_num K reg s = Some (out, s') \<and>
    (if n = 0 then \<exists>a b c. out = Resumes a b c
     else out = Returns 0 \<and> intf s' = False \<or> n = 1 \<and> (\<exists>u<3. run_shell (termis s ! u) = 0) \<and> leaves s out)"
proof -
  define t where "t = send_eoi (word_of_nat n) (disable_irq (word_of_nat n) (sti s))"
  have c: "calm (disable_irq (word_of_nat n) (sti s)) t" unfolding t_def by (intro calm_intros)
  have "kernel_inv st (sti s)" by (rule calm_inv [OF inv]) (intro calm_intros)
  from calm_inv [OF disable_inv [OF this] c] have it: "kernel_inv st t" .
  have h: "irq_handler s = kernel_handlers" using w by (simp add: wired_def)
  have f: "termis t = termis s" "ram t = ram s" "pcb_ptr t = pcb_ptr s"
    by (simp_all add: t_def send_eoi_def disable_irq_def machine_simps Let_def)
  have l: "leaves t = leaves s" by (simp add: fun_eq_iff leaves_def f(3))
  have "shell_ready K s \<Longrightarrow> shell_ready K t" using shell_ready_agree(2) [of K s t] f(2) by simp
  then have kb: "\<exists>out s'. kb_handler K t = Some (out, s') \<and>
      (out = Returns 0 \<or> (\<exists>u<3. run_shell (termis s ! u) = 0) \<and> leaves s out)" if "n = 1"
    using kb_handler_ends [OF it K] sh that f(1) l by auto
  obtain a b d s' where pit: "pit_handler K t = Some (Resumes a b d, s')"
    using tick_inv [OF it, of K] K by (auto simp: live_regs_def)
  note run = common_interrupt_run [OF h n(2,1), of K, unfolded Let_def t_def [symmetric] kernel_handlers_nth [OF n(1)]]
  show ?thesis
  proof (cases "n = 1")
    case True
    then obtain out u where u: "kb_handler K t = Some (out, u)" "out = Returns 0 \<or> (\<exists>u<3. run_shell (termis s ! u) = 0) \<and> leaves s out"
      using kb by blast
    then have "out = Returns 0 \<or> (\<exists>e. out = Enters e) \<or> (\<exists>a b c. out = Resumes a b c)" by (auto simp: leaves_def split: if_splits)
    then show ?thesis using run u True by (auto simp: run_irq_def machine_simps)
  next
    case False
    then show ?thesis using run pit by (simp add: run_irq_def machine_simps)
  qed
qed

text \<open>C34: Every interrupt comes to an end: in every reachable state with the handlers installed, a tick
  of the timer leaves for some program, and an interrupt of the clock or of a line without a handler
  returns to the interrupted program with interrupts disabled until its \<^verbatim>\<open>iret\<close>.  So does every key
  once all three terminals have a shell.  While some terminal has none, a key comes to an end
  provided the shell's program can be loaded: it returns, or it is the key that displays such a terminal
  and leaves for the new shell if a slot of the process table is free and for the next program
  if none is.\<close>

theorem interrupts_end:
  assumes "kernel_inv st s" "wired s" "(kernel_step pa va)\<^sup>*\<^sup>* s s'"
    and "live_regs K" "n < 16" "interrupt_num reg = stub_number n"
    and "n = 1 \<longrightarrow> (\<forall>u<3. run_shell (termis s' ! u) \<noteq> 0) \<or> shell_ready K s'"
  shows "\<exists>out s''. common_interrupt_num K reg s' = Some (out, s'') \<and>
    (if n = 0 then \<exists>a b c. out = Resumes a b c
     else out = Returns 0 \<and> intf s'' = False \<or>
       n = 1 \<and> (\<exists>u<3. run_shell (termis s' ! u) = 0) \<and>
       (if \<exists>i<6. pcb_ptr s' ! i = 0 then \<exists>e. out = Enters e else \<exists>a b c. out = Resumes a b c))"
proof -
  have "kernel_ok True False (\<lambda>_ _. True) s'"
    using kernel_steps_ok [OF assms(3), of True False "\<lambda>_ _. True"] assms(1,2) by (auto simp: kernel_ok_def)
  then obtain st' where "kernel_inv st' s'" "wired s'" by (auto simp: kernel_ok_def)
  from interrupt_outcome [OF this assms(4-7)] show ?thesis unfolding leaves_def .
qed

text \<open>The same state before the other terminals have their shells, whose program is in the image.\<close>

definition sample_opening :: pcbs where
  "sample_opening = sample_kernel\<lparr>termis := (termis sample_kernel)[1 := sample_termi, 2 := sample_termi]\<rparr>"

lemma sample_opening_ok:
  "kernel_inv ((\<lambda>_. [])(0 := [0])) sample_opening" "wired sample_opening" "shell_ready sample_kargs sample_opening"
  "run_shell (termis sample_opening ! 1) = 0"
proof -
  have t: "termis sample_kernel = replicate 3 (sample_termi\<lparr>run_shell := 1\<rparr>)"
    by (simp add: sample_kernel_def sample_display_def)
  have c: "current_terminal sample_kernel = 0" by (simp add: sample_kernel_def sample_display_def)
  show "run_shell (termis sample_opening ! 1) = 0" by (simp add: sample_opening_def t sample_termi_def)
  have "stacks_ok ((\<lambda>_. [])(0 := [0])) sample_opening \<and> vids_ok sample_opening \<and> paging_ok sample_opening"
    using sample_kernel_inv vids_ok_cong [of sample_opening sample_kernel] paging_ok_cong [of sample_opening sample_kernel]
    by (simp add: kernel_inv_def table_inv_def sample_opening_def stacks_ok_def block_def [abs_def])
  then show "kernel_inv ((\<lambda>_. [])(0 := [0])) sample_opening"
    using sample_kernel_inv c
    by (simp add: kernel_inv_def table_inv_def waiting_ok_def context_ok_def sample_opening_def t)
  show "wired sample_opening" using sample_kernel_wired by (simp add: wired_def sample_opening_def line_enabled_def)
  have r: "ram sample_opening = ram sample_single"
    by (simp add: sample_opening_def sample_kernel_def sample_display_def)
  have "runnable sample_kargs sample_opening 0x5100 [0x6C, 0x73] [] sample_content"
    by (rule runnable_low [OF sample_single_runnable(2)]) (simp_all add: r)
  moreover have "image_size (vmem sample_opening) 0x10000 = 12288"
    by (simp add: image_size_def num_inodes_def num_blocks_def load32_def vmem_low r sample_single_def exec_ram_def)
  ultimately show "shell_ready sample_kargs sample_opening"
    unfolding shell_ready_def by (intro exI [of _ "[0x6C, 0x73]"] exI [of _ sample_content])
      (simp add: clear_of_screens_def separate_def sample_kargs_def)
qed

theorem interrupts_end_witness:
  "\<exists>a b c s s'. common_interrupt_num sample_kargs (sample_reg 0xFFFFFFFF) sample_kernel = Some (Resumes a b c, s) \<and>
     common_interrupt_num sample_kargs (sample_reg 0xFFFFFFFE) sample_kernel = Some (Returns 0, s') \<and>
     (\<exists>out s''. common_interrupt_num sample_kargs (sample_reg 0xFFFFFFFE) sample_opening = Some (out, s''))"
proof -
  have n: "interrupt_num (sample_reg 0xFFFFFFFF) = stub_number 0" "interrupt_num (sample_reg 0xFFFFFFFE) = stub_number 1"
    by (simp_all add: sample_reg_def stub_number_def)
  have "termis sample_kernel = replicate 3 (sample_termi\<lparr>run_shell := 1\<rparr>)"
    by (simp add: sample_kernel_def sample_display_def)
  then have sh: "\<forall>u<3. run_shell (termis sample_kernel ! u) \<noteq> 0" by simp
  have "\<exists>a b c s. common_interrupt_num sample_kargs (sample_reg 0xFFFFFFFF) sample_kernel = Some (Resumes a b c, s)"
    using interrupts_end [OF sample_kernel_inv sample_kernel_wired rtranclp.rtrancl_refl sample_kernel_live _ n(1)] by auto
  moreover have "\<exists>s'. common_interrupt_num sample_kargs (sample_reg 0xFFFFFFFE) sample_kernel = Some (Returns 0, s')"
    using interrupts_end [OF sample_kernel_inv sample_kernel_wired rtranclp.rtrancl_refl sample_kernel_live _ n(2)] sh by auto
  moreover have "\<exists>out s''. common_interrupt_num sample_kargs (sample_reg 0xFFFFFFFE) sample_opening = Some (out, s'')"
    using interrupts_end [OF sample_opening_ok(1,2) rtranclp.rtrancl_refl sample_kernel_live _ n(2)] sample_opening_ok(3) by auto
  ultimately show ?thesis by blast
qed

text \<open>What the range of the variables means for the routines that use them.\<close>

lemma typed_termi_ranges:
  assumes "typed_termi r"
  shows "unat (cell_offset (cursor_x r) (cursor_y r)) + 1 < 4000" "0 \<le> sint (buffer_size r)" "sint (buffer_size r) \<le> 128"
    "length (kbuffer r) = 4096" "length (storage_buffer r) = 4096" "unat (kmap r) < length keyboard_array"
proof -
  have b: "cursor_x r < 80" "cursor_y r < 25" "line_ok r" "kmap r < 3" using assms by (simp_all add: typed_termi_def)
  have x: "unat (cursor_x r) < 80" "unat (cursor_y r) < 25" using b(1,2) by (simp_all add: word_less_nat_alt)
  have "cell_offset (cursor_x r) (cursor_y r) = word_of_nat ((unat (cursor_y r) * 80 + unat (cursor_x r)) * 2)"
    by (simp add: cell_offset_def)
  moreover have c: "(b * 80 + a) * 2 + 1 < 4000" if "a < 80" "b < 25" for a b :: nat using that by simp
  have "(unat (cursor_y r) * 80 + unat (cursor_x r)) * 2 < 65536" using c [OF x] by simp
  ultimately have "unat (cell_offset (cursor_x r) (cursor_y r)) = (unat (cursor_y r) * 80 + unat (cursor_x r)) * 2"
    by (simp only: unat_of_nat) simp
  then show "unat (cell_offset (cursor_x r) (cursor_y r)) + 1 < 4000" using c [OF x] by simp
  show "unat (kmap r) < length keyboard_array" using b(4) by (simp add: keyboard_array_def word_less_nat_alt)
qed (use assms in \<open>simp_all add: typed_termi_def line_ok_def\<close>)

text \<open>C4: The variables of the terminals stay in their range: in every reachable state, whatever the keys
  and the programs write, the cursor of every terminal addresses a cell of its screen page, its line
  buffer holds at most 128 characters of its array, its key table is one of the three, and the
  displayed terminal satisfies the precondition under which every key is a step of the line editor.\<close>

theorem terminals_typed:
  assumes "kernel_inv st s" "\<forall>r\<in>set (termis s). typed_termi r" "(kernel_step pa va)\<^sup>*\<^sup>* s s'" "u < 3"
  defines "r \<equiv> termis s' ! u"
  shows "unat (cell_offset (cursor_x r) (cursor_y r)) + 1 < 4000 \<and> 0 \<le> sint (buffer_size r) \<and> sint (buffer_size r) \<le> 128 \<and>
    length (kbuffer r) = 4096 \<and> length (storage_buffer r) = 4096 \<and> unat (kmap r) < length keyboard_array \<and> edit_ok s'"
proof -
  have "kernel_ok False True (\<lambda>_ _. True) s'"
    using kernel_steps_ok [OF assms(3), of False True "\<lambda>_ _. True"] assms(1,2) by (auto simp: kernel_ok_def list_all_iff)
  then obtain st' where k: "kernel_inv st' s'" "typed s'" by (auto simp: kernel_ok_def)
  have n: "length (termis s') = 3" "unat (terminal_number s') < 3" using k(1) by (simp_all add: kernel_inv_def table_inv_def)
  have "typed_termi r" using k(2) n(1) assms(4) by (simp add: r_def list_all_length)
  note R = typed_termi_ranges [OF this]
  have "kbd_ok s'" using n by (simp add: kbd_ok_def)
  moreover from this have "typed_termi (shown s')" by (rule typed_shown [OF k(2)])
  ultimately have "edit_ok s'"
    by (simp add: edit_ok_def kbd.good_def kbd.view_def on_screen_def typed_termi_def kbd_cx_def kbd_cy_def word_less_nat_alt)
  then show ?thesis using R by blast
qed

theorem terminals_typed_witness:
  "\<exists>s out. common_interrupt_num sample_kargs (sample_reg 0xFFFFFFFF) sample_kernel = Some (out, s) \<and>
     sint (buffer_size (termis s ! 0)) \<le> 128 \<and> edit_ok s"
proof -
  have "typed_termi (sample_termi\<lparr>run_shell := 1\<rparr>)"
    by (simp add: typed_termi_def line_ok_def line_of_def padded_def sample_termi_def)
  moreover have "termis sample_kernel = replicate 3 (sample_termi\<lparr>run_shell := 1\<rparr>)"
    by (simp add: sample_kernel_def sample_display_def)
  ultimately have "\<forall>r\<in>set (termis sample_kernel). typed_termi r" by simp
  from terminals_typed [OF sample_kernel_inv this _ zero_less_numeral] sample_kernel_reach show ?thesis by blast
qed

end
