(* ===== verification/Printf.thy ===== *)
theory Printf
  imports Frames Programs
begin

text \<open>
  Formatted output of \<^verbatim>\<open>src/lib.c\<close>: \<^verbatim>\<open>clear\<close>, \<^verbatim>\<open>putc\<close>, \<^verbatim>\<open>puts\<close>, \<^verbatim>\<open>printf\<close> and \<^verbatim>\<open>test_interrupts\<close>.  The
  format of every call is a string literal and is given by its bytes, the terminating NUL left
  out; the other arguments are the words on the stack behind it.  Strings and the conversion
  buffer are in memory.  The three conversion buffers of \<^verbatim>\<open>printf\<close> are never live together: one
  address \<open>conv_buf\<close> stands for them.  What a format prints is also given as a function of its
  directives, and \<^verbatim>\<open>printf\<close> is proved to write exactly that on the console.
\<close>

section \<open>The routines\<close>

abbreviation (input) NUM_COLS :: nat where "NUM_COLS \<equiv> 80"
abbreviation (input) NUM_ROWS :: nat where "NUM_ROWS \<equiv> 25"
abbreviation (input) ATTRIB :: u8 where "ATTRIB \<equiv> 7"

definition clear :: "'a paging_scheme \<Rightarrow> 'a paging_scheme" where
  "clear s = fold (\<lambda>i s.
     let s = vwrite s (VIDEO + push_bit 1 (word_of_nat i)) 0x20
     in vwrite s (VIDEO + push_bit 1 (word_of_nat i) + 1) ATTRIB) [0..<NUM_ROWS * NUM_COLS] s"

definition test_interrupts :: "'a paging_scheme \<Rightarrow> 'a paging_scheme" where
  "test_interrupts s = fold (\<lambda>i s.
     vwrite s (VIDEO + push_bit 1 (word_of_nat i)) (vread s (VIDEO + push_bit 1 (word_of_nat i)) + 1))
     [0..<NUM_ROWS * NUM_COLS] s"

text \<open>\<^verbatim>\<open>write_terminal\<close> on the one byte of the argument.\<close>

definition putc :: "u8 \<Rightarrow> 'a tty_scheme \<Rightarrow> 'a tty_scheme" where
  "putc c s = write_terminal_char c s"

partial_function (option) puts_loop :: "u32 \<Rightarrow> i32 \<Rightarrow> 'a tty_scheme \<Rightarrow> (i32 \<times> 'a tty_scheme) option" where
  "puts_loop a index s =
     (if vread s (a + index) \<noteq> 0 then puts_loop a (index + 1) (putc (vread s (a + index)) s)
      else Some (index, s))"

definition puts :: "u32 \<Rightarrow> 'a tty_scheme \<Rightarrow> (i32 \<times> 'a tty_scheme) option" where
  "puts a s = puts_loop a 0 s"

definition put_number :: "u32 \<Rightarrow> u32 \<Rightarrow> i32 \<Rightarrow> 'a tty_scheme \<Rightarrow> 'a tty_scheme option" where
  "put_number buf v radix s = map_option (\<lambda>(_, m). set_vmem m s) (itoa (vmem s) v buf radix)"

definition print_hex :: "u32 \<Rightarrow> bool \<Rightarrow> u32 \<Rightarrow> 'a tty_scheme \<Rightarrow> 'a tty_scheme option" where
  "print_hex conv_buf alternate v s =
     (if \<not> alternate then
        Option.bind (put_number conv_buf v 16 s) (\<lambda>s. map_option snd (puts conv_buf s))
      else
        Option.bind (put_number (conv_buf + 8) v 16 s) (\<lambda>s.
        Option.bind (strlen (vmem s) (conv_buf + 8)) (\<lambda>starting_index.
          let m = fold (\<lambda>i m. m(conv_buf + word_of_nat i := 0x30)) [unat starting_index..<8] (vmem s)
          in map_option snd (puts (conv_buf + starting_index) (set_vmem m s)))))"

definition print_unsigned :: "u32 \<Rightarrow> u32 \<Rightarrow> 'a tty_scheme \<Rightarrow> 'a tty_scheme option" where
  "print_unsigned conv_buf v s =
     Option.bind (put_number conv_buf v 10 s) (\<lambda>s. map_option snd (puts conv_buf s))"

definition print_signed :: "u32 \<Rightarrow> i32 \<Rightarrow> 'a tty_scheme \<Rightarrow> 'a tty_scheme option" where
  "print_signed conv_buf v s =
     Option.bind
       (if v <s 0 then put_number (conv_buf + 1) (- v) 10 (set_vmem ((vmem s)(conv_buf := 0x2D)) s)
        else put_number conv_buf v 10 s)
       (\<lambda>s. map_option snd (puts conv_buf s))"

text \<open>The loop over the format, outside of a directive and inside one (after the \<^verbatim>\<open>%\<close> and, with
  \<^verbatim>\<open>alternate\<close>, after a \<^verbatim>\<open>#\<close>).  A format that ends inside a directive is read past its end, and so
  are arguments that are not there: no value.\<close>

fun printf_loop :: "u32 \<Rightarrow> u8 list \<Rightarrow> u32 list \<Rightarrow> 'a tty_scheme \<Rightarrow> 'a tty_scheme option"
  and printf_directive :: "u32 \<Rightarrow> bool \<Rightarrow> u8 list \<Rightarrow> u32 list \<Rightarrow> 'a tty_scheme \<Rightarrow> 'a tty_scheme option"
where
  "printf_loop conv_buf [] argv s = Some s"
| "printf_loop conv_buf (c # buf) argv s =
     (if c = 0x25 then printf_directive conv_buf False buf argv s
      else printf_loop conv_buf buf argv (putc c s))"
| "printf_directive conv_buf alternate [] argv s = None"
| "printf_directive conv_buf alternate (c # buf) argv s =
     (if c = 0x25 then printf_loop conv_buf buf argv (putc 0x25 s)
      else if c = 0x23 then printf_directive conv_buf True buf argv s
      else if c \<in> {0x78, 0x75, 0x64, 0x63, 0x73} then
        (case argv of
           [] \<Rightarrow> None
         | v # argv \<Rightarrow>
             (case (if c = 0x78 then print_hex conv_buf alternate v s
                    else if c = 0x75 then print_unsigned conv_buf v s
                    else if c = 0x64 then print_signed conv_buf v s
                    else if c = 0x63 then Some (putc (ucast v) s)
                    else map_option snd (puts v s)) of
                None \<Rightarrow> None
              | Some s \<Rightarrow> printf_loop conv_buf buf argv s))
      else printf_loop conv_buf buf argv s)"

definition printf :: "u32 \<Rightarrow> u8 list \<Rightarrow> u32 list \<Rightarrow> 'a tty_scheme \<Rightarrow> (i32 \<times> 'a tty_scheme) option" where
  "printf conv_buf format argv s =
     map_option (\<lambda>s. (word_of_nat (length format), s)) (printf_loop conv_buf format argv s)"

section \<open>What a format prints\<close>

datatype piece = Literal u8 | Hex bool | Unsigned | Signed | Character | Text

definition piece_of :: "u8 \<Rightarrow> bool \<Rightarrow> piece list" where
  "piece_of c alternate =
     (if c = 0x25 then [Literal 0x25] else if c = 0x78 then [Hex alternate] else if c = 0x75 then [Unsigned]
      else if c = 0x64 then [Signed] else if c = 0x63 then [Character] else if c = 0x73 then [Text] else [])"

text \<open>The pieces of a format: any number of \<^verbatim>\<open>#\<close> between \<^verbatim>\<open>%\<close> and the letter.\<close>

function pieces :: "u8 list \<Rightarrow> piece list option" where
  "pieces [] = Some []"
| "pieces (c # cs) =
     (if c = 0x25 then
        case dropWhile (\<lambda>c. c = 0x23) cs of
          [] \<Rightarrow> None
        | d # ds \<Rightarrow> map_option ((@) (piece_of d (cs \<noteq> d # ds))) (pieces ds)
      else map_option ((#) (Literal c)) (pieces cs))"
  by pat_completeness auto
termination
proof (relation "measure length", goal_cases)
  case (2 c cs d ds)
  then show ?case using length_dropWhile_le [of "\<lambda>c. c = 0x23" cs] by simp
qed simp_all

text \<open>The bytes a list of pieces prints; \<open>str\<close> gives the string at an address.\<close>

fun render :: "(u32 \<Rightarrow> u8 list) \<Rightarrow> piece list \<Rightarrow> u32 list \<Rightarrow> u8 list option" where
  "render str [] vs = Some []"
| "render str (Literal c # ps) vs = map_option ((#) c) (render str ps vs)"
| "render str (p # ps) [] = None"
| "render str (Hex alternate # ps) (v # vs) =
     map_option ((@) (replicate (if alternate then 8 - length (number_text 16 v) else 0) 0x30 @ number_text 16 v))
       (render str ps vs)"
| "render str (Unsigned # ps) (v # vs) = map_option ((@) (number_text 10 v)) (render str ps vs)"
| "render str (Signed # ps) (v # vs) =
     map_option ((@) (if v <s 0 then 0x2D # number_text 10 (- v) else number_text 10 v)) (render str ps vs)"
| "render str (Character # ps) (v # vs) = map_option ((#) (ucast v)) (render str ps vs)"
| "render str (Text # ps) (v # vs) = map_option ((@) (str v)) (render str ps vs)"

section \<open>Writing on the console\<close>

text \<open>A state in which the kernel can print: the running process has a console, and the conversion
  buffer is in the kernel's page.\<close>

definition in_kernel :: "u32 \<Rightarrow> nat \<Rightarrow> bool" where
  "in_kernel a n \<longleftrightarrow> 4194304 \<le> unat a \<and> unat a + n \<le> 8388608"

definition printing :: "u32 \<Rightarrow> 'a tty_scheme \<Rightarrow> bool" where
  "printing conv_buf s \<longleftrightarrow> proc.good s \<and> paging_ok s \<and> in_kernel conv_buf 64"

text \<open>What printing changes: the page of the screen, the cursor of the running process's terminal, the
  cursor ports if that terminal is displayed, and the conversion buffer.\<close>

definition prints :: "u32 \<Rightarrow> 'a tty_scheme \<Rightarrow> 'a tty_scheme \<Rightarrow> bool" where
  "prints conv_buf s s' \<longleftrightarrow> calm s s' \<and> printing conv_buf s' \<and> console_only s s' \<and>
     (\<forall>t. unat t \<noteq> unat (current_terminal s) \<longrightarrow> termi t s' = termi t s) \<and>
     sans_cursor (running s') = sans_cursor (running s) \<and> length (termis s') = length (termis s) \<and>
     (current_terminal s \<noteq> terminal_number s \<longrightarrow> io s' = io s) \<and>
     (\<forall>a. \<not> in_region (vid_page s 0) 4096 a \<and> \<not> in_region conv_buf 64 a \<longrightarrow> ram s' a = ram s a)"

lemma prints_refl: "printing conv_buf s \<Longrightarrow> prints conv_buf s s"
  by (simp add: prints_def)

lemma prints_trans: "prints c s t \<Longrightarrow> prints c t u \<Longrightarrow> prints c s u"
proof -
  assume a: "prints c s t" "prints c t u"
  then have "vid_page t = vid_page s" "current_terminal t = current_terminal s" "terminal_number t = terminal_number s"
    using vid_page_cong [of t s] by (simp_all add: prints_def calm_def quiet_def)
  moreover have "calm s u" "console_only s u"
    using a calm_trans [of s t u] console_only_trans [of s t u] by (simp_all add: prints_def)
  ultimately show ?thesis using a by (simp add: prints_def)
qed

lemma calm_paging: "calm s t \<Longrightarrow> paging_ok t = paging_ok s"
  by (rule paging_ok_cong) (simp_all add: calm_def quiet_def)

lemma screen_below:
  assumes "paging_ok s" "in_region (vid_page s 0) 4096 a"
  shows "unat a < 4194304"
proof -
  obtain j where j: "j < 4" "vid_page s 0 = VIDEO + word_of_nat j * FOUR_KB"
    using paging_okD(3) [OF assms(1)] by blast
  have "VIDEO + word_of_nat j * FOUR_KB = (word_of_nat (753664 + 4096 * j) :: u32)"
    by (simp add: mult.commute)
  moreover have "753664 + 4096 * j < 4294967296" using j(1) by simp
  ultimately have u: "unat (vid_page s 0) = 753664 + 4096 * j"
    unfolding j(2) using unat_u32_of_nat by (simp only:)
  have b: "unat (vid_page s 0) + 4096 \<le> 4294967296" unfolding u using j(1) by simp
  from assms(2) show ?thesis unfolding in_region_iff [OF b] u using j(1) by simp
qed

lemma prints_kernel: "prints c s s' \<Longrightarrow> in_kernel a 1 \<Longrightarrow> \<not> in_region c 64 a \<Longrightarrow> ram s' a = ram s a"
  using calm_paging [of s s'] screen_below [of s a] by (auto simp: prints_def printing_def in_kernel_def)

lemma in_kernel_vmem: "in_kernel a 1 \<Longrightarrow> vmem s a = ram s a"
  by (intro vmem_low) (simp add: in_kernel_def)

lemma in_kernel_at:
  assumes "in_kernel a n" "k < n"
  shows "in_kernel (a + word_of_nat k) 1"
proof -
  have "unat a + k < 4294967296" using assms by (simp add: in_kernel_def)
  then have "unat (a + word_of_nat k) = unat a + k" by (simp add: unat_word_ariths unat_u32_of_nat)
  then show ?thesis using assms by (simp add: in_kernel_def)
qed

lemma in_kernel_sub: "in_kernel a n \<Longrightarrow> k + j \<le> n \<Longrightarrow> 0 < j \<Longrightarrow> in_kernel (a + word_of_nat k) j"
  using in_kernel_at [of a n k] by (simp add: in_kernel_def unat_word_ariths unat_u32_of_nat)

lemma chars_print:
  assumes "printing conv_buf s"
  shows "prints conv_buf s (fold proc.write_char cs s)"
    "in_kernel a 1 \<Longrightarrow> ram (fold proc.write_char cs s) a = ram s a"
    "proc.view (fold proc.write_char cs s) = fold spec_char cs (proc.view s)"
proof -
  have g: "proc.good s" "paging_ok s" "in_kernel conv_buf 64" using assms by (simp_all add: printing_def)
  have calm: "calm s (fold proc.write_char cs s)"
    by (intro calm_fold calm_refl) (simp only: proc_write_char [symmetric] calm_write_char)
  show same: "in_kernel a 1 \<Longrightarrow> ram (fold proc.write_char cs s) a = ram s a" for a
    using proc.frame_write_chars [OF g(1), of cs] screen_below [OF g(2), of a]
    by (auto simp: proc_frame_def in_kernel_def)
  show "prints conv_buf s (fold proc.write_char cs s)"
    unfolding prints_def printing_def
    using calm proc.frame_write_chars [OF g(1), of cs] calm_paging [OF calm] proc.write_chars_spec [OF g(1)] g
    by (simp add: proc_frame_def)
  show "proc.view (fold proc.write_char cs s) = fold spec_char cs (proc.view s)"
    using proc.write_chars_spec [OF g(1)] by simp
qed

text \<open>Filling the conversion buffer.\<close>

lemma view_ram:
  assumes "phys s' = phys s" "termis s' = termis s" "current_terminal s' = current_terminal s"
    "\<And>p. in_region (vid_page s 0) 4096 p \<Longrightarrow> ram s' p = ram s p"
  shows "proc.view s' = proc.view s"
proof -
  have "proc.cell s' x y = proc.cell s x y" for x y
  proof (cases "x < 80 \<and> y < 25")
    case True
    then have "ram s' (phys s (USER_VIDEO_ADDR + word_of_nat (cell_pos x y))) =
        ram s (phys s (USER_VIDEO_ADDR + word_of_nat (cell_pos x y)))"
      using cell_pos_bound [of x y] by (intro assms(4), subst phys_screen(2)) (auto intro: in_region_cell)
    then show ?thesis using True assms(1) by (simp add: proc.cell_def proc_getc_cell vread_def)
  qed (auto simp: proc.cell_def)
  then show ?thesis using assms(2,3) by (simp add: proc.view_def proc_defs termi_def fun_eq_iff)
qed

lemma buffer_fill:
  assumes "printing conv_buf s" "\<And>a. \<not> in_region conv_buf 64 a \<Longrightarrow> m a = vmem s a"
  shows "prints conv_buf s (set_vmem m s)" "proc.view (set_vmem m s) = proc.view s"
    "in_kernel a 1 \<Longrightarrow> vmem (set_vmem m s) a = m a"
proof -
  have g: "proc.good s" "paging_ok s" "in_kernel conv_buf 64" using assms(1) by (simp_all add: printing_def)
  have low: "ram (set_vmem m s) a = m a" if "unat a < 8388608" for a
    using vmem_set_vmem [OF g(2), of a m] that by (simp add: vmem_low)
  have calm: "calm s (set_vmem m s)" by (intro calm_machine calm_refl)
  have tt: "termis (set_vmem m s) = termis s" "current_terminal (set_vmem m s) = current_terminal s"
    by (simp_all add: set_vmem_def)
  have ph: "phys (set_vmem m s) = phys s" by (rule phys_cong) simp_all
  have out: "\<not> in_region conv_buf 64 a" if "unat a < 4194304" for a
    using g(3) that by (subst in_region_iff) (simp_all add: in_kernel_def)
  show view: "proc.view (set_vmem m s) = proc.view s"
  proof (rule view_ram [OF ph tt])
    fix p assume "in_region (vid_page s 0) 4096 p"
    then have "unat p < 4194304" by (rule screen_below [OF g(2)])
    then show "ram (set_vmem m s) p = ram s p" using out assms(2) by (simp add: low vmem_low)
  qed
  have "proc.good (set_vmem m s)" using g(1) view tt by (simp add: proc.good_def proc_defs termi_def)
  moreover have "ram (set_vmem m s) a = ram s a" if "\<not> in_region conv_buf 64 a" for a
    using set_vmem_ram [OF g(2) assms(2) _ that] g(3) by (simp add: in_kernel_def)
  moreover have "console_only s (set_vmem m s)" by (simp add: set_vmem_def)
  ultimately show "prints conv_buf s (set_vmem m s)"
    using calm g calm_paging [OF calm] tt by (simp add: prints_def printing_def running_def get_current_process_def termi_def)
  show "in_kernel a 1 \<Longrightarrow> vmem (set_vmem m s) a = m a"
    by (intro vmem_set_vmem g) (simp add: in_kernel_def)
qed

lemma store_outside:
  assumes "in_kernel conv_buf 64" "k + length bs \<le> 64" "\<not> in_region conv_buf 64 a"
  shows "store_bytes m (conv_buf + word_of_nat k) bs a = m a"
  using assms by (intro store_bytes_other) (auto dest: in_region_sub)

text \<open>Printing a string of the kernel's page.\<close>

lemma puts_run:
  assumes "printing conv_buf s" "cstring_at (vmem s) a str" "in_kernel a (length str + 1)"
  shows "puts a s = Some (word_of_nat (length str), fold proc.write_char str s)"
proof -
  have here: "vread (fold proc.write_char cs s) (a + word_of_nat k) = vmem s (a + word_of_nat k)"
    if "k \<le> length str" for cs k
  proof -
    have k: "in_kernel (a + word_of_nat k) 1" using in_kernel_at [OF assms(3)] that by simp
    then have "unat (a + word_of_nat k) < 8388608" by (simp add: in_kernel_def)
    with k show ?thesis using chars_print(2) [OF assms(1) k, of cs]
      by (simp add: vread_def phys_low in_kernel_vmem)
  qed
  have "puts_loop a (word_of_nat k) (fold proc.write_char (take k str) s) =
      Some (word_of_nat (length str), fold proc.write_char str s)" if "k \<le> length str" for k
    using that
  proof (induction rule: inc_induct)
    case base
    show ?case using here [of "length str" str] cstring_at_end [OF assms(2)]
      by (subst puts_loop.simps) simp
  next
    case (step k)
    then have c: "vread (fold proc.write_char (take k str) s) (a + word_of_nat k) = str ! k" "str ! k \<noteq> 0"
      using here [of k] cstring_at_nth [OF assms(2)] by simp_all
    have "take (Suc k) str = take k str @ [str ! k]" using step(2) by (rule take_Suc_conv_app_nth)
    with c step(3) show ?case
      by (subst puts_loop.simps) (simp add: putc_def proc_write_char add.commute)
  qed
  from this [of 0] show ?thesis by (simp add: puts_def)
qed

section \<open>The directives\<close>

text \<open>A step that shows the characters \<open>cs\<close> on the console and does nothing else.\<close>

definition emits :: "u32 \<Rightarrow> u8 list \<Rightarrow> 'a tty_scheme \<Rightarrow> 'a tty_scheme \<Rightarrow> bool" where
  "emits conv_buf cs s s' \<longleftrightarrow> prints conv_buf s s' \<and> proc.view s' = fold spec_char cs (proc.view s)"

lemma emits_refl: "printing conv_buf s \<Longrightarrow> emits conv_buf [] s s"
  by (simp add: emits_def prints_refl)

lemma emits_trans: "emits c xs s t \<Longrightarrow> emits c ys t u \<Longrightarrow> emits c (xs @ ys) s u"
  by (simp add: emits_def) (blast intro: prints_trans)

lemma emits_printing: "emits c xs s t \<Longrightarrow> printing c t"
  by (simp add: emits_def prints_def)

lemma putc_emits: "printing conv_buf s \<Longrightarrow> emits conv_buf [c] s (putc c s)"
  using chars_print(1,3) [of conv_buf s "[c]"] by (simp add: emits_def putc_def proc_write_char)

lemma fill_emits:
  "printing conv_buf s \<Longrightarrow> (\<And>a. \<not> in_region conv_buf 64 a \<Longrightarrow> m a = vmem s a) \<Longrightarrow>
     emits conv_buf [] s (set_vmem m s)"
  unfolding emits_def using buffer_fill(1,2) [of conv_buf s m] by simp

lemma string_emits:
  assumes "printing conv_buf s" "cstring_at (vmem s) a str" "in_kernel a (length str + 1)"
  shows "\<exists>s'. map_option snd (puts a s) = Some s' \<and> emits conv_buf str s s'"
  using puts_run [OF assms] chars_print(1,3) [OF assms(1), of str] by (simp add: emits_def)

lemma buffer_emits:
  assumes p: "printing conv_buf s" and m: "\<And>a. \<not> in_region conv_buf 64 a \<Longrightarrow> m a = vmem s a"
    and str: "cstring_at m (conv_buf + word_of_nat k) str" "k + length str < 64"
  shows "\<exists>s'. map_option snd (puts (conv_buf + word_of_nat k) (set_vmem m s)) = Some s' \<and>
    emits conv_buf str s s'"
proof -
  have b: "in_kernel conv_buf 64" using p by (simp add: printing_def)
  have ink: "in_kernel (conv_buf + word_of_nat k) (length str + 1)"
    by (rule in_kernel_sub [OF b]) (use str(2) in simp_all)
  have "cstring_at (vmem (set_vmem m s)) (conv_buf + word_of_nat k) str"
  proof (subst cstring_at_cong)
    fix x assume "in_region (conv_buf + word_of_nat k) (Suc (length str)) x"
    then have "in_region conv_buf 64 x" by (rule in_region_sub) (use str(2) in simp_all)
    then have "in_kernel x 1"
      using b in_kernel_at [of conv_buf 64 "unat (x - conv_buf)"] by (simp add: in_region_def)
    then show "vmem (set_vmem m s) x = m x" using buffer_fill(3) [OF p m] by simp
  qed (rule str(1))
  from string_emits [OF _ this ink, of conv_buf] emits_trans [OF fill_emits [OF p m]]
  show ?thesis using emits_printing [OF fill_emits [OF p m]] by fastforce
qed

lemma print_unsigned_emits:
  assumes "printing conv_buf s"
  shows "\<exists>s'. print_unsigned conv_buf v s = Some s' \<and> emits conv_buf (number_text 10 v) s s'"
proof -
  note T = number_text [of 10 v, simplified]
  have "\<exists>s'. map_option snd (puts (conv_buf + word_of_nat 0)
      (set_vmem (store_bytes (vmem s) conv_buf (number_text 10 v @ [0])) s)) = Some s' \<and>
    emits conv_buf (number_text 10 v) s s'"
    using T(2,3) assms store_outside [of conv_buf 0 "number_text 10 v @ [0]"]
    by (intro buffer_emits) (simp_all add: stored_cstring printing_def)
  then show ?thesis by (simp add: print_unsigned_def put_number_def itoa_text)
qed

lemma print_signed_emits:
  assumes p: "printing conv_buf s"
  shows "\<exists>s'. print_signed conv_buf v s = Some s' \<and>
    emits conv_buf (if v <s 0 then 0x2D # number_text 10 (- v) else number_text 10 v) s s'"
proof (cases "v <s 0")
  case False
  then have "print_signed conv_buf v s = print_unsigned conv_buf v s"
    by (simp add: print_signed_def print_unsigned_def)
  with False print_unsigned_emits [OF p] show ?thesis by simp
next
  case True
  let ?cs = "number_text 10 (- v)"
  note T = number_text [of 10 "- v", simplified]
  have b: "in_kernel conv_buf 64" using p by (simp add: printing_def)
  define s1 where "s1 = set_vmem ((vmem s)(conv_buf := 0x2D)) s"
  have outside: "((vmem s)(conv_buf := 0x2D)) a = vmem s a" if "\<not> in_region conv_buf 64 a" for a
    using that by (auto simp: in_region_def)
  note F = fill_emits [OF p outside, folded s1_def]
  have "vmem s1 conv_buf = ((vmem s)(conv_buf := 0x2D)) conv_buf"
    unfolding s1_def by (rule buffer_fill(3) [OF p outside]) (use b in \<open>simp_all add: in_kernel_def\<close>)
  then have first: "vmem s1 conv_buf = 0x2D" by simp
  define m where "m = store_bytes (vmem s1) (conv_buf + 1) (?cs @ [0])"
  have "\<not> in_region (conv_buf + 1) (length (?cs @ [0])) conv_buf"
  proof -
    have "unat (- 1 :: u32) = 4294967295" by (simp add: unsigned_minus_1_eq_mask mask_eq_exp_minus_1)
    then show ?thesis using T(3) by (simp add: in_region_def)
  qed
  then have "m conv_buf = 0x2D" using first T(3) by (simp add: m_def store_bytes_other)
  moreover have "cstring_at m (conv_buf + 1) ?cs"
    unfolding m_def using T by (intro stored_cstring) simp_all
  ultimately have str: "cstring_at m (conv_buf + word_of_nat 0) (0x2D # ?cs)"
    using T(3) by (simp add: cstring_at_def add.assoc)
  have "\<exists>s'. map_option snd (puts (conv_buf + word_of_nat 0) (set_vmem m s1)) = Some s' \<and>
      emits conv_buf (0x2D # ?cs) s1 s'"
    by (rule buffer_emits [OF emits_printing [OF F] _ str])
      (use T(3) store_outside [OF b, of 1 "?cs @ [0]"] in \<open>simp_all add: m_def\<close>)
  then obtain s' where s': "map_option snd (puts conv_buf (set_vmem m s1)) = Some s'"
      "emits conv_buf (0x2D # ?cs) s1 s'" by auto
  have "print_signed conv_buf v s = Some s'"
    using True s'(1) by (simp add: print_signed_def put_number_def itoa_text s1_def [symmetric] m_def)
  with True emits_trans [OF F s'(2)] show ?thesis by simp
qed

lemma zero_fill: "fold (\<lambda>i m. m(a + word_of_nat i := c)) [i..<i + n] m = store_bytes m (a + word_of_nat i) (replicate n c)"
proof (induction n arbitrary: m)
  case (Suc n)
  then show ?case by (simp add: replicate_append_same [symmetric] store_bytes_snoc add.assoc del: fun_upd_apply)
qed simp

lemma print_hex_emits:
  assumes p: "printing conv_buf s"
  shows "\<exists>s'. print_hex conv_buf alternate v s = Some s' \<and>
    emits conv_buf (replicate (if alternate then 8 - length (number_text 16 v) else 0) 0x30 @ number_text 16 v) s s'"
proof -
  let ?cs = "number_text 16 v" and ?n = "length (number_text 16 v)"
  note T = number_text [of 16 v, simplified]
  have n8: "?n \<le> 8"
    using to_digits_length [of 16 "unat v" 8] unat_less_u32 [of v] by (simp add: number_text_def)
  have b: "in_kernel conv_buf 64" using p by (simp add: printing_def)
  show ?thesis
  proof (cases alternate)
    case False
    have "\<exists>s'. map_option snd (puts (conv_buf + word_of_nat 0)
        (set_vmem (store_bytes (vmem s) conv_buf (?cs @ [0])) s)) = Some s' \<and> emits conv_buf ?cs s s'"
      using T(2,3) p store_outside [OF b, of 0 "?cs @ [0]"]
      by (intro buffer_emits) (simp_all add: stored_cstring)
    with False show ?thesis by (simp add: print_hex_def put_number_def itoa_text)
  next
    case True
    define m where "m = store_bytes (vmem s) (conv_buf + 8) (?cs @ [0])"
    have outside: "m a = vmem s a" if "\<not> in_region conv_buf 64 a" for a
      using store_outside [OF b, of 8 "?cs @ [0]"] that n8 by (simp add: m_def)
    define s1 where "s1 = set_vmem m s"
    note F = fill_emits [OF p outside, folded s1_def]
    have s1: "cstring_at (vmem s1) (conv_buf + 8) ?cs"
    proof (subst cstring_at_cong)
      fix x assume "in_region (conv_buf + 8) (Suc ?n) x"
      then have "in_region conv_buf 64 x" using in_region_sub [of conv_buf 8 "Suc ?n" x 64] n8 by simp
      then have "in_kernel x 1"
        using b in_kernel_at [of conv_buf 64 "unat (x - conv_buf)"] by (simp add: in_region_def)
      then show "vmem s1 x = m x" unfolding s1_def using buffer_fill(3) [OF p outside] by simp
    next
      show "cstring_at m (conv_buf + 8) ?cs" unfolding m_def using T by (intro stored_cstring) simp_all
    qed
    define m2 where "m2 = store_bytes (vmem s1) (conv_buf + word_of_nat ?n) (replicate (8 - ?n) 0x30)"
    have fill: "fold (\<lambda>i m. m(conv_buf + word_of_nat i := 0x30)) [?n..<8] (vmem s1) = m2"
      using zero_fill [of conv_buf "0x30" ?n "8 - ?n" "vmem s1"] n8 by (simp add: m2_def)
    have eq: "conv_buf + word_of_nat ?n + word_of_nat (8 - ?n) = conv_buf + 8"
      using n8 by (simp add: of_nat_diff)
    have sep: "separate (conv_buf + word_of_nat ?n) (8 - ?n) (conv_buf + 8) (?n + 1)"
    proof -
      have "unat (conv_buf + word_of_nat ?n) = unat conv_buf + ?n" "unat (conv_buf + 8) = unat conv_buf + 8"
        using b n8 by (simp_all add: in_kernel_def unat_word_ariths unat_u32_of_nat)
      then show ?thesis using b n8 by (simp add: separate_def in_kernel_def)
    qed
    have "load_bytes m2 (conv_buf + word_of_nat ?n) (8 - ?n) = replicate (8 - ?n) 0x30"
      unfolding m2_def using load_store_bytes [of "replicate (8 - ?n) 0x30"] by simp
    moreover have "load_bytes m2 (conv_buf + 8) (?n + 1) = load_bytes (vmem s1) (conv_buf + 8) (?n + 1)"
      unfolding m2_def using sep n8 by (intro load_store_separate) simp_all
    moreover have "load_bytes (vmem s1) (conv_buf + 8) (?n + 1) = ?cs @ [0]"
      using s1 by (simp only: load_bytes_add) (simp add: cstring_at_def)
    ultimately have "load_bytes m2 (conv_buf + word_of_nat ?n) ((8 - ?n) + (?n + 1)) =
        replicate (8 - ?n) 0x30 @ ?cs @ [0]"
      by (simp only: load_bytes_add eq)
    moreover have "load_bytes m2 (conv_buf + word_of_nat ?n) ((8 - ?n) + (?n + 1)) =
        load_bytes m2 (conv_buf + word_of_nat ?n) 8 @ [m2 (conv_buf + word_of_nat ?n + word_of_nat 8)]"
      using n8 load_bytes_add [of m2 "conv_buf + word_of_nat ?n" 8 1] by simp
    ultimately have "load_bytes m2 (conv_buf + word_of_nat ?n) 8 = replicate (8 - ?n) 0x30 @ ?cs"
      "m2 (conv_buf + word_of_nat ?n + word_of_nat 8) = 0"
      by simp_all
    then have str: "cstring_at m2 (conv_buf + word_of_nat ?n) (replicate (8 - ?n) 0x30 @ ?cs)"
      using n8 T(2) by (simp add: cstring_at_def)
    have "\<exists>s'. map_option snd (puts (conv_buf + word_of_nat ?n) (set_vmem m2 s1)) = Some s' \<and>
        emits conv_buf (replicate (8 - ?n) 0x30 @ ?cs) s1 s'"
      by (rule buffer_emits [OF emits_printing [OF F] _ str])
        (use n8 store_outside [OF b, of ?n "replicate (8 - ?n) 0x30"] in \<open>simp_all add: m2_def\<close>)
    then obtain s' where s': "map_option snd (puts (conv_buf + word_of_nat ?n) (set_vmem m2 s1)) = Some s'"
        "emits conv_buf (replicate (8 - ?n) 0x30 @ ?cs) s1 s'" by auto
    have "print_hex conv_buf alternate v s = Some s'"
      using True s'(1) n8 strlen_cstring [OF s1] fill
      by (simp add: print_hex_def put_number_def itoa_text s1_def [symmetric] m_def [symmetric] unat_u32_of_nat)
    with True emits_trans [OF F s'(2)] show ?thesis by simp
  qed
qed

section \<open>The whole format\<close>

text \<open>The strings the arguments of the pieces point to: in the kernel's page, apart from the
  conversion buffer.\<close>

fun strings_at :: "u32 \<Rightarrow> 'a paging_scheme \<Rightarrow> (u32 \<Rightarrow> u8 list) \<Rightarrow> piece list \<Rightarrow> u32 list \<Rightarrow> bool" where
  "strings_at c s str (Literal ch # ps) vs \<longleftrightarrow> strings_at c s str ps vs"
| "strings_at c s str (Text # ps) (v # vs) \<longleftrightarrow>
     cstring_at (vmem s) v (str v) \<and> in_kernel v (length (str v) + 1) \<and> separate v (length (str v) + 1) c 64 \<and>
     strings_at c s str ps vs"
| "strings_at c s str (p # ps) (v # vs) \<longleftrightarrow> strings_at c s str ps vs"
| "strings_at c s str ps vs \<longleftrightarrow> True"

lemma strings_at_prints:
  assumes "prints c s s'" "strings_at c s str ps vs"
  shows "strings_at c s' str ps vs"
  using assms
proof (induction c s str ps vs rule: strings_at.induct)
  case (2 c s str ps v vs)
  have "cstring_at (vmem s') v (str v)"
  proof (subst cstring_at_cong)
    fix x assume "in_region v (Suc (length (str v))) x"
    then have "in_kernel x 1" "\<not> in_region c 64 x"
      using 2(3) in_kernel_at [of v "Suc (length (str v))" "unat (x - v)"]
        separate_disjoint [of v "Suc (length (str v))" c 64 x]
      by (auto simp: in_region_def)
    then show "vmem s' x = vmem s x" using prints_kernel [OF 2(2)] by (simp add: in_kernel_vmem)
  qed (use 2(3) in simp)
  with 2 show ?case by simp
qed simp_all

text \<open>One directive with its argument.\<close>

lemma directive_emits:
  assumes "printing c s" "d \<in> {0x78, 0x75, 0x64, 0x63, 0x73}"
    "render str (piece_of d alternate @ ps) vs = Some out" "strings_at c s str (piece_of d alternate @ ps) vs"
  shows "\<exists>v vs' cs s' out'. vs = v # vs' \<and> out = cs @ out' \<and> render str ps vs' = Some out' \<and>
    (if d = 0x78 then print_hex c alternate v s
     else if d = 0x75 then print_unsigned c v s
     else if d = 0x64 then print_signed c v s
     else if d = 0x63 then Some (putc (ucast v) s)
     else map_option snd (puts v s)) = Some s' \<and> emits c cs s s' \<and> strings_at c s' str ps vs'"
proof -
  obtain v vs' where vs: "vs = v # vs'"
    using assms(2,3) by (cases vs) (auto simp: piece_of_def)
  have rest: "emits c cs s s' \<Longrightarrow> strings_at c s str ps vs' \<Longrightarrow> strings_at c s' str ps vs'" for cs s'
    using strings_at_prints by (auto simp: emits_def)
  consider "d = 0x78" | "d = 0x75" | "d = 0x64" | "d = 0x63" | "d = 0x73" using assms(2) by auto
  then show ?thesis
  proof cases
    case 1
    then show ?thesis using print_hex_emits [OF assms(1), of alternate v] assms(3,4) vs rest
      by (fastforce simp: piece_of_def)
  next
    case 2
    then show ?thesis using print_unsigned_emits [OF assms(1), of v] assms(3,4) vs rest
      by (fastforce simp: piece_of_def)
  next
    case 3
    then show ?thesis using print_signed_emits [OF assms(1), of v] assms(3,4) vs rest
      by (fastforce simp: piece_of_def simp del: if_split_eq1)
  next
    case 4
    then show ?thesis using putc_emits [OF assms(1), of "ucast v"] assms(3,4) vs rest
      by (fastforce simp: piece_of_def)
  next
    case 5
    then have "cstring_at (vmem s) v (str v)" "in_kernel v (length (str v) + 1)"
      using assms(4) vs by (simp_all add: piece_of_def)
    from string_emits [OF assms(1) this] 5 show ?thesis using assms(3,4) vs rest
      by (fastforce simp: piece_of_def)
  qed
qed

lemma printf_emits:
  shows "printing c s \<Longrightarrow> pieces buf = Some ps \<Longrightarrow> render str ps argv = Some out \<Longrightarrow>
      strings_at c s str ps argv \<Longrightarrow> \<exists>s'. printf_loop c buf argv s = Some s' \<and> emits c out s s'"
    and "printing c s \<Longrightarrow> dropWhile (\<lambda>c. c = 0x23) buf = d # ds \<Longrightarrow> pieces ds = Some ps \<Longrightarrow>
      render str (piece_of d (alternate \<or> buf \<noteq> d # ds) @ ps) argv = Some out \<Longrightarrow>
      strings_at c s str (piece_of d (alternate \<or> buf \<noteq> d # ds) @ ps) argv \<Longrightarrow>
      \<exists>s'. printf_directive c alternate buf argv s = Some s' \<and> emits c out s s'"
proof (induction c buf argv s and c alternate buf argv s arbitrary: ps out and d ds ps out
    rule: printf_loop_printf_directive.induct)
  case (1 c argv s)
  then show ?case by (simp add: emits_refl)
next
  case (2 c ch buf argv s)
  show ?case
  proof (cases "ch = 0x25")
    case True
    with 2(4) obtain d ds qs where d: "dropWhile (\<lambda>c. c = 0x23) buf = d # ds" "pieces ds = Some qs"
      "ps = piece_of d (buf \<noteq> d # ds) @ qs" by (auto split: list.splits)
    with 2(1) [OF True 2(3) d(1,2)] 2(5,6) True show ?thesis by simp
  next
    case False
    with 2(4) obtain qs where q: "pieces buf = Some qs" "ps = Literal ch # qs" by auto
    with 2(5) obtain rest where r: "render str qs argv = Some rest" "out = ch # rest" by auto
    note P = putc_emits [OF 2(3), of ch]
    have "strings_at c (putc ch s) str qs argv"
      using strings_at_prints 2(6) P q(2) by (auto simp: emits_def)
    with 2(2) [OF False emits_printing [OF P] q(1) r(1)] obtain s' where
      "printf_loop c buf argv (putc ch s) = Some s'" "emits c rest (putc ch s) s'" by blast
    with False emits_trans [OF P] show ?thesis by (auto simp: r(2))
  qed
next
  case (3 c alternate argv s)
  then show ?case by simp
next
  case (4 c alternate ch buf argv s)
  note prems = 4(5-9)
  consider (hash) "ch = 0x23" | (percent) "ch = 0x25" | (arg) "ch \<in> {0x78, 0x75, 0x64, 0x63, 0x73}"
    | (other) "ch \<notin> {0x23, 0x25, 0x78, 0x75, 0x64, 0x63, 0x73}" by blast
  then show ?case
  proof cases
    case hash
    have len: "length (dropWhile (\<lambda>c. c = 0x23) buf) \<le> length buf" by (rule length_dropWhile_le)
    have "ch # buf \<noteq> d # ds" using hash prems(2) len by auto
    with 4(2) [of d ds ps out] hash prems show ?thesis by simp
  next
    case percent
    then have d: "d = 0x25" "ds = buf" using prems(2) by simp_all
    with prems(4) obtain rest where r: "render str ps argv = Some rest" "out = 0x25 # rest"
      by (auto simp: piece_of_def)
    note P = putc_emits [OF prems(1), of "0x25"]
    have "strings_at c (putc 0x25 s) str ps argv"
      using strings_at_prints prems(5) P d(1) by (auto simp: emits_def piece_of_def)
    with 4(1) [OF percent emits_printing [OF P] _ r(1)] prems(3) d(2) obtain s' where
      "printf_loop c buf argv (putc 0x25 s) = Some s'" "emits c rest (putc 0x25 s) s'" by blast
    with percent emits_trans [OF P] show ?thesis by (auto simp: r(2))
  next
    case arg
    then have d: "d = ch" "ds = buf" using prems(2) by auto
    have prem: "render str (piece_of ch alternate @ ps) argv = Some out"
      "strings_at c s str (piece_of ch alternate @ ps) argv"
      using prems(4,5) d by simp_all
    obtain v vs cs s1 rest where v: "argv = v # vs" "out = cs @ rest" "render str ps vs = Some rest"
      "(if ch = 0x78 then print_hex c alternate v s
        else if ch = 0x75 then print_unsigned c v s
        else if ch = 0x64 then print_signed c v s
        else if ch = 0x63 then Some (putc (ucast v) s)
        else map_option snd (puts v s)) = Some s1" "emits c cs s s1" "strings_at c s1 str ps vs"
      using directive_emits [OF prems(1) arg prem] by blast
    have ne: "ch \<noteq> 0x25" "ch \<noteq> 0x23" using arg by auto
    from 4(3) [OF ne arg v(1,4) emits_printing [OF v(5)] _ v(3,6)] prems(3) d(2)
    obtain s' where s': "printf_loop c buf vs s1 = Some s'" "emits c rest s1 s'" by blast
    have "printf_directive c alternate (ch # buf) argv s = printf_loop c buf vs s1"
      using ne arg by (simp only: printf_directive.simps if_False if_True v(1) list.case v(4) option.case)
    with s' emits_trans [OF v(5)] show ?thesis by (auto simp: v(2))
  next
    case other
    then have d: "d = ch" "ds = buf" using prems(2) by auto
    have "piece_of ch alternate = []" using other by (simp add: piece_of_def)
    with 4(4) [of ps out] other prems d show ?thesis by simp
  qed
qed

section \<open>Properties\<close>

text \<open>C23: \<^verbatim>\<open>printf\<close> prints what its format says.  When the directives of the format have their
  arguments and the strings among them lie in the kernel's page, the call ends, returns the
  length of the format, and leaves on the console of the running process exactly what the
  specification makes of the rendered bytes: literals, hexadecimal (padded to eight digits after
  a \<^verbatim>\<open>#\<close>), unsigned and signed decimal numbers, characters and strings.  It changes nothing else: of
  memory only the page of the screen and the conversion buffer, of the other variables only the cursor and
  the scroll counter of the running process's terminal, and of the ports only those of the hardware
  cursor, and these only if that terminal is displayed.\<close>

theorem printf_renders:
  assumes "proc.good s" "paging_ok s" "in_kernel conv_buf 64"
    and "pieces format = Some ps" "render str ps argv = Some out" "strings_at conv_buf s str ps argv"
  shows "\<exists>s'. printf conv_buf format argv s = Some (word_of_nat (length format), s') \<and>
    proc.view s' = fold spec_char out (proc.view s) \<and> on_screen (proc.view s') \<and>
    s' = s\<lparr>ram := ram s', io := io s', termis := termis s'\<rparr> \<and>
    (\<forall>a. \<not> in_region (vid_page s 0) 4096 a \<and> \<not> in_region conv_buf 64 a \<longrightarrow> ram s' a = ram s a) \<and>
    length (termis s') = length (termis s) \<and> sans_cursor (running s') = sans_cursor (running s) \<and>
    (\<forall>t. unat t \<noteq> unat (current_terminal s) \<longrightarrow> termi t s' = termi t s) \<and>
    (\<exists>es. io s' = io s @ es \<and> list_all cursor_port es \<and> (current_terminal s \<noteq> terminal_number s \<longrightarrow> es = []))"
proof -
  have p: "printing conv_buf s" using assms(1-3) by (simp add: printing_def)
  obtain s' where "printf_loop conv_buf format argv s = Some s'" "emits conv_buf out s s'"
    using printf_emits(1) [OF p assms(4-6)] by blast
  then have "printf conv_buf format argv s = Some (word_of_nat (length format), s')" "prints conv_buf s s'"
    "proc.view s' = fold spec_char out (proc.view s)" by (simp_all add: printf_def emits_def)
  moreover from this obtain es where "io s' = io s @ es" "list_all cursor_port es"
    by (auto simp: prints_def console_only_def)
  ultimately show ?thesis
    by (intro exI [of _ s']) (simp add: prints_def printing_def proc.good_def console_only_def)
qed

definition sample_format :: "u8 list" where
  "sample_format = bytes_of ''%s: %#x %d%%''"

lemma sample_format_pieces:
  "pieces sample_format = Some [Text, Literal 0x3A, Literal 0x20, Hex True, Literal 0x20, Signed, Literal 0x25]"
  by code_simp

lemma sample_numbers:
  "number_text 16 0xBEEF = bytes_of ''BEEF''" "number_text 10 12 = bytes_of ''12''"
  by (simp_all add: number_text_def to_digits.simps lookup_def bytes_of_def)

lemma sample_format_render:
  "render ((\<lambda>_. [])(0x500000 := bytes_of ''hi''))
     [Text, Literal 0x3A, Literal 0x20, Hex True, Literal 0x20, Signed, Literal 0x25] [0x500000, 0xBEEF, - 12] =
   Some (bytes_of ''hi: 0000BEEF -12%'')"
  by (simp add: sample_numbers word_sless_alt) (simp add: bytes_of_def eval_nat_numeral)

lemma sample_string:
  "cstring_at (vmem (sample_tty t d)) 0x500000 (bytes_of ''hi'') \<and> length (bytes_of ''hi'') = 2"
proof -
  have hi: "bytes_of ''hi'' = [0x68, 0x69]" by code_simp
  have b: "vmem (sample_tty t d) 0x500000 = 0x68" "vmem (sample_tty t d) 0x500001 = 0x69"
    "vmem (sample_tty t d) 0x500002 = 0"
    by (simp_all add: vmem_low)
  show ?thesis unfolding hi by (simp add: cstring_at_def b)
qed

theorem printf_renders_witness:
  "\<exists>s'. printf 0x600000 sample_format [0x500000, 0xBEEF, - 12] (sample_tty 1 0) = Some (12, s') \<and>
     proc.view s' = fold spec_char (bytes_of ''hi: 0000BEEF -12%'') (proc.view (sample_tty 1 0))"
proof -
  have len: "length sample_format = 12" by code_simp
  have "strings_at 0x600000 (sample_tty 1 0) ((\<lambda>_. [])(0x500000 := bytes_of ''hi''))
     [Text, Literal 0x3A, Literal 0x20, Hex True, Literal 0x20, Signed, Literal 0x25] [0x500000, 0xBEEF, - 12]"
    using sample_string by (simp add: in_kernel_def separate_def)
  moreover have "proc.good (sample_tty 1 0)" using sample_good(1) by simp
  moreover have "in_kernel 0x600000 64" by (simp add: in_kernel_def)
  ultimately have "\<exists>s'. printf 0x600000 sample_format [0x500000, 0xBEEF, - 12] (sample_tty 1 0) =
      Some (word_of_nat (length sample_format), s') \<and>
      proc.view s' = fold spec_char (bytes_of ''hi: 0000BEEF -12%'') (proc.view (sample_tty 1 0))"
    using printf_renders [OF _ sample_tty_fields(5) _ sample_format_pieces sample_format_render] by blast
  then show ?thesis unfolding len by simp
qed

section \<open>Clearing the screen\<close>

lemma vwrite_screen:
  "k < 4096 \<Longrightarrow> vwrite s (VIDEO + word_of_nat k) b = s\<lparr>ram := (ram s)(VIDEO + word_of_nat k := b)\<rparr>"
  by (simp add: vwrite_def phys_screen(1))

text \<open>\<^verbatim>\<open>clear\<close> blanks the text screen and changes nothing else.\<close>

lemma clear_run: "clear s = s\<lparr>ram := store_bytes (ram s) VIDEO (concat (replicate 2000 [0x20, ATTRIB]))\<rparr>"
proof -
  have "fold (\<lambda>i s. let s = vwrite s (VIDEO + push_bit 1 (word_of_nat i)) 0x20
      in vwrite s (VIDEO + push_bit 1 (word_of_nat i) + 1) ATTRIB) [0..<n] s =
    s\<lparr>ram := store_bytes (ram s) VIDEO (concat (replicate n [0x20, ATTRIB]))\<rparr>" if "n \<le> 2000" for n
    using that
  proof (induction n)
    case (Suc n)
    have len: "length (concat (replicate n [0x20 :: u8, ATTRIB])) = 2 * n"
      by (simp add: length_concat sum_list_replicate)
    have a: "VIDEO + push_bit 1 (word_of_nat n) = VIDEO + word_of_nat (2 * n)"
      "VIDEO + push_bit 1 (word_of_nat n) + 1 = VIDEO + word_of_nat (2 * n + 1)"
      by (simp_all add: push_bit_eq_mult)
    have "concat (replicate (Suc n) [0x20 :: u8, ATTRIB]) = concat (replicate n [0x20, ATTRIB]) @ [0x20] @ [ATTRIB]"
      by (simp only: replicate_Suc replicate_append_same [symmetric] concat_append) simp
    then have "store_bytes (ram s) VIDEO (concat (replicate (Suc n) [0x20, ATTRIB])) =
      ((store_bytes (ram s) VIDEO (concat (replicate n [0x20, ATTRIB])))(VIDEO + word_of_nat (2 * n) := 0x20))
        (VIDEO + word_of_nat (2 * n + 1) := ATTRIB)"
      by (simp only: append_assoc [symmetric] store_bytes_snoc len length_append list.size) (simp only: One_nat_def add_0)
    moreover have "2 * n < 4096" "2 * n + 1 < 4096" using Suc.prems by simp_all
    note two = vwrite_screen [OF this(1)] vwrite_screen [OF this(2)]
    have "vwrite (vwrite t (VIDEO + push_bit 1 (word_of_nat n)) 0x20) (VIDEO + push_bit 1 (word_of_nat n) + 1) ATTRIB =
      t\<lparr>ram := ((ram t)(VIDEO + word_of_nat (2 * n) := 0x20))(VIDEO + word_of_nat (2 * n + 1) := ATTRIB)\<rparr>" for t :: "'a paging_scheme"
      unfolding a(2) unfolding a(1) unfolding two by simp
    moreover note Suc.IH [OF Suc_leD [OF Suc.prems]]
    ultimately show ?case by (simp del: fun_upd_apply push_bit_word_beyond of_nat_mult of_nat_add
        of_nat_Suc store_bytes.simps replicate.simps upt_rec_numeral)
  qed simp
  from this [of 2000] show ?thesis by (simp add: clear_def)
qed

end
