(* ===== verification/Exceptions.thy ===== *)
theory Exceptions
  imports Printf ProcessProperties
begin

text \<open>
  The exceptions: \<^verbatim>\<open>exception_handler\<close> of \<^verbatim>\<open>src/isr.c\<close>, which the gates of vectors 0 to 31 reach, and
  the routines \<^verbatim>\<open>exception_*\<close> of \<^verbatim>\<open>src/lib.c\<close>, which no gate refers to.  The handler prints the
  number of the exception and spins, so its result is the state in which it spins; the routines
  print a message and end the program.
\<close>

section \<open>The handler\<close>

definition exception_handler :: "u32 \<Rightarrow> stack_register \<Rightarrow> 'a tty_scheme \<Rightarrow> 'a tty_scheme option" where
  "exception_handler conv_buf reg s =
     map_option snd (printf conv_buf (bytes_of ''   No.%d exception detected'') [interrupt_num reg] s)"

section \<open>The routines of the library\<close>

text \<open>Which routine clears the screen first, and its message.\<close>

definition exception_routines :: "(string \<times> bool \<times> string) list" where
  "exception_routines =
     [(''DE'', True, ''Divide Error Exception!''), (''DB'', False, ''Debug Exception!''),
      (''NMI'', True, ''NMI Interrupt!''), (''BP'', True, ''Breakpoint Exception!''),
      (''OF'', True, ''Overflow Exception!''), (''BR'', True, ''BOUND Range Exceeded Exception!''),
      (''UD'', True, ''Invalid Opcode Exception!''), (''NM'', True, ''Device Not Available Exception!''),
      (''DF'', True, ''Double Fault Exception!''), (''CS'', True, ''Coprocessor Segment Overrun Exception!''),
      (''TS'', True, ''Invalid TSS Exception!''), (''NP'', True, ''Segment Not Present!''),
      (''SS'', True, ''Stack Fault Exception!''), (''GP'', False, ''General Protection Exception!''),
      (''MF'', True, ''FPU Floating-Point Error!''), (''AC'', True, ''Alignment Check Exception!''),
      (''MC'', True, ''Machine Check Exception!''), (''XF'', True, ''SIMD Floating-Point Exception!'')]"

definition exception_routine ::
    "kargs \<Rightarrow> u32 \<Rightarrow> bool \<Rightarrow> string \<Rightarrow> 'a pcbs_scheme \<Rightarrow> (outcome \<times> 'a pcbs_scheme) option" where
  "exception_routine K conv_buf clears message s =
     (case printf conv_buf (bytes_of message @ [10]) [] (cli (if clears then clear s else s)) of
        None \<Rightarrow> None
      | Some (_, s) \<Rightarrow>
          (case halt K 255 s of
             Some (Returns r, s) \<Rightarrow> Some (Returns r, sti s)
           | r \<Rightarrow> r))"

text \<open>A page fault prints the faulting address and spins: the \<^verbatim>\<open>halt\<close> behind its loop is never
  reached.\<close>

definition exception_PF :: "u32 \<Rightarrow> u32 \<Rightarrow> 'a tty_scheme \<Rightarrow> 'a tty_scheme option" where
  "exception_PF conv_buf cr2 s =
     (case printf conv_buf (bytes_of ''Page Fault Exception!'' @ [10]) [] s of
        None \<Rightarrow> None
      | Some (_, s) \<Rightarrow>
          map_option snd (printf conv_buf (bytes_of ''CR2 register value is 0x%x'' @ [10]) [cr2] s))"

section \<open>What they print\<close>

lemma pieces_append:
  "0x25 \<notin> set cs \<Longrightarrow> pieces (cs @ ds) = map_option ((@) (map Literal cs)) (pieces ds)"
  by (induction cs; cases "pieces ds") auto

lemma render_append:
  "render str (map Literal cs @ ps) vs = map_option ((@) cs) (render str ps vs)"
  by (induction cs; cases "render str ps vs") auto

lemma strings_append [simp]: "strings_at c s str (map Literal cs @ ps) vs = strings_at c s str ps vs"
  by (induction cs) simp_all

lemma printf_plain:
  assumes "printing conv_buf s" "0x25 \<notin> set msg"
  shows "\<exists>s'. printf conv_buf msg [] s = Some (word_of_nat (length msg), s') \<and> emits conv_buf msg s s'"
proof -
  have "pieces msg = Some (map Literal msg)" "render (\<lambda>_. []) (map Literal msg) [] = Some msg"
    "strings_at conv_buf s (\<lambda>_. []) (map Literal msg) []"
    using pieces_append [OF assms(2), of "[]"] render_append [of "\<lambda>_. []" msg "[]" "[]"]
      strings_append [of conv_buf s "\<lambda>_. []" msg "[]" "[]"]
    by (simp_all del: strings_append)
  from printf_emits(1) [OF assms(1) this] show ?thesis by (auto simp: printf_def)
qed

text \<open>A fault of a program prints its number and the processor spins.\<close>

lemma exception_handler_prints:
  assumes "printing conv_buf s" "n = interrupt_num reg"
  shows "\<exists>s'. exception_handler conv_buf reg s = Some s' \<and>
    emits conv_buf (bytes_of ''   No.'' @
      (if n <s 0 then 0x2D # number_text 10 (- n) else number_text 10 n) @ bytes_of '' exception detected'') s s'"
proof -
  let ?ps = "map Literal (bytes_of ''   No.'') @ Signed # map Literal (bytes_of '' exception detected'')"
  have fmt: "bytes_of ''   No.%d exception detected'' =
      bytes_of ''   No.'' @ [0x25, 0x64] @ bytes_of '' exception detected''"
    by code_simp
  have plain: "0x25 \<notin> set (bytes_of ''   No.'')" "0x25 \<notin> set (bytes_of '' exception detected'')"
    by code_simp+
  have "pieces (bytes_of ''   No.%d exception detected'') = Some ?ps"
    unfolding fmt pieces_append [OF plain(1)]
    using pieces_append [OF plain(2), of "[]"] by (simp add: piece_of_def)
  moreover have "render (\<lambda>_. []) ?ps [n] = Some (bytes_of ''   No.'' @
      (if n <s 0 then 0x2D # number_text 10 (- n) else number_text 10 n) @ bytes_of '' exception detected'')"
    unfolding render_append
    using render_append [of "\<lambda>_. []" "bytes_of '' exception detected''" "[]" "[]"] by simp
  moreover have "strings_at conv_buf s (\<lambda>_. []) ?ps [n]"
    using strings_append [of conv_buf s "\<lambda>_. []" "bytes_of '' exception detected''" "[]" "[]"] by simp
  ultimately show ?thesis
    using printf_emits(1) [OF assms(1)] by (fastforce simp: exception_handler_def printf_def assms(2))
qed

section \<open>Ending the program\<close>

lemma calm_clear: "calm s t \<Longrightarrow> calm s (clear t)"
  unfolding clear_def Let_def by (intro calm_intros)

lemma clear_printing:
  assumes "printing conv_buf s"
  shows "printing conv_buf (clear s)"
proof -
  have "calm s (clear s)" by (rule calm_clear) simp
  then have "paging_ok (clear s)" using assms calm_paging by (auto simp: printing_def)
  moreover have "proc.good (clear s)"
    using assms by (simp add: clear_run printing_def proc.good_def proc.view_def proc_defs on_screen_def termi_def)
  ultimately show ?thesis using assms by (simp add: printing_def)
qed

lemma cli_printing: "printing conv_buf (cli s) = printing conv_buf s"
  by (simp add: printing_def proc.good_def proc.view_def proc_defs on_screen_def termi_def cli_def paging_ok_def)

lemma messages_plain: "(e, clears, msg) \<in> set exception_routines \<Longrightarrow> 0x25 \<notin> set (bytes_of msg @ [10])"
proof -
  have "list_all (\<lambda>(e, clears, msg). 0x25 \<notin> set (bytes_of msg @ [10])) exception_routines"
    by code_simp
  then show "(e, clears, msg) \<in> set exception_routines \<Longrightarrow> ?thesis" by (auto simp: list_all_iff)
qed

text \<open>Each routine prints its message and resumes the parent of the program with the status 255.\<close>

lemma exception_ends_program:
  assumes "(e, clears, msg) \<in> set exception_routines" "printing conv_buf s"
    and "stacks_ok st s" "unat (current_terminal s) = t" "t < 3" "st t = i # j # is"
  shows "\<exists>s1 s'. emits conv_buf (bytes_of msg @ [10]) (cli (if clears then clear s else s)) s1 \<and>
    exception_routine K conv_buf clears msg s =
      Some (Resumes (esp (block s j)) (ebp (block s j)) 255, s') \<and> stacks_ok (st(t := j # is)) s'"
proof -
  let ?s0 = "cli (if clears then clear s else s)"
  have "printing conv_buf ?s0" using assms(2) clear_printing [OF assms(2)] by (simp add: cli_printing)
  from printf_plain [OF this messages_plain [OF assms(1)]] obtain s1 where
    s1: "printf conv_buf (bytes_of msg @ [10]) [] ?s0 = Some (word_of_nat (length (bytes_of msg @ [10])), s1)"
      "emits conv_buf (bytes_of msg @ [10]) ?s0 s1" by blast
  have "calm s ?s0" by (intro calm_intros calm_clear)
  then have "calm s s1" using s1(2) by (auto simp: emits_def prints_def intro: calm_trans)
  note same = calm_procs(1) [OF this]
  then have "unat (current_terminal s1) = t" "block s1 j = block s j"
    using assms(4) by (simp_all add: same_procs_def block_def)
  with halt_run_parent [of st s1 t i j "is" K 255] stacks_ok_same [OF same] assms(3,5,6)
  obtain s' where "halt K 255 s1 = Some (Resumes (esp (block s j)) (ebp (block s j)) 255, s')"
    "stacks_ok (st(t := j # is)) s'" by auto
  then show ?thesis using s1 by (auto simp: exception_routine_def)
qed

end
