(* ===== verification/Boot.thy ===== *)
theory Boot
  imports Gates Printf Idt
begin

text \<open>
  Starting the kernel: \<^verbatim>\<open>entry\<close> of \<^verbatim>\<open>src/kernel.c\<close> with the descriptors of \<^verbatim>\<open>src/x86_desc.h\<close>, from the
  boot loader's call to the first shell.  The addresses the linker chooses are the fields of
  \<open>linker\<close>.  Before \<^verbatim>\<open>set_paging\<close> the kernel reads physical memory.  The messages of the boot are
  recorded like those of the file system; the code prints them with a console whose
  \<^verbatim>\<open>video_memory\<close> is still zero, so they go to the first page of physical memory and not to the screen,
  which the model leaves out.
\<close>

section \<open>Segment descriptors\<close>

record seg_desc =
  seg_lim_15_00 :: u16
  base_15_00 :: u16
  base_23_16 :: u8
  seg_type :: "4 word"
  seg_sys :: u1
  seg_dpl :: "2 word"
  seg_present :: u1
  seg_lim_19_16 :: "4 word"
  seg_avail :: u1
  seg_reserved :: u1
  seg_opsize :: u1
  seg_granularity :: u1
  base_31_24 :: u8

text \<open>\<^verbatim>\<open>SET_LDT_PARAMS\<close> and \<^verbatim>\<open>SET_TSS_PARAMS\<close> have the same body.\<close>

definition SET_SEG_PARAMS :: "seg_desc \<Rightarrow> u32 \<Rightarrow> u32 \<Rightarrow> seg_desc" where
  "SET_SEG_PARAMS str addr lim =
     str\<lparr>base_31_24 := ucast (drop_bit 24 (addr AND 0xFF000000)),
         base_23_16 := ucast (drop_bit 16 (addr AND 0x00FF0000)),
         base_15_00 := ucast (addr AND 0x0000FFFF),
         seg_lim_19_16 := ucast (drop_bit 16 (lim AND 0x000F0000)),
         seg_lim_15_00 := ucast (lim AND 0x0000FFFF)\<rparr>"

text \<open>The two words of the packed structure, lowest bit first.\<close>

definition seg_val0 :: "seg_desc \<Rightarrow> u32" where
  "seg_val0 d = ucast (seg_lim_15_00 d) OR push_bit 16 (ucast (base_15_00 d))"

definition seg_val1 :: "seg_desc \<Rightarrow> u32" where
  "seg_val1 d =
     ucast (base_23_16 d) OR push_bit 8 (ucast (seg_type d)) OR push_bit 12 (ucast (seg_sys d)) OR
     push_bit 13 (ucast (seg_dpl d)) OR push_bit 15 (ucast (seg_present d)) OR
     push_bit 16 (ucast (seg_lim_19_16 d)) OR push_bit 20 (ucast (seg_avail d)) OR
     push_bit 21 (ucast (seg_reserved d)) OR push_bit 22 (ucast (seg_opsize d)) OR
     push_bit 23 (ucast (seg_granularity d)) OR push_bit 24 (ucast (base_31_24 d))"

section \<open>State\<close>

record boot = pcbs +
  idt_table :: "nat \<Rightarrow> idt_desc"
  ldt_desc_ptr :: seg_desc
  tss_desc_ptr :: seg_desc
  ldtr :: u16
  task_register :: u16
  tss_ldt :: u16

record linker =
  stub_at :: "entry_stub \<Rightarrow> u32"
  page_table_at :: "nat \<Rightarrow> u32"
  vid_table_at :: "nat \<Rightarrow> u32"
  ldt_at :: u32
  tss_at :: u32

abbreviation (input) KERNEL_TSS :: u16 where "KERNEL_TSS \<equiv> 0x30"
abbreviation (input) KERNEL_LDT :: u16 where "KERNEL_LDT \<equiv> 0x38"
abbreviation (input) TSS_SIZE :: u32 where "TSS_SIZE \<equiv> 104"
abbreviation (input) MULTIBOOT_BOOTLOADER_MAGIC :: u32 where "MULTIBOOT_BOOTLOADER_MAGIC \<equiv> 0x2BADB002"

text \<open>\<^verbatim>\<open>ldt_size\<close> and \<^verbatim>\<open>tss_size\<close> of \<^verbatim>\<open>src/x86_desc.S\<close>: four descriptors and 104 bytes, less one.\<close>

definition ldt_size :: u32 where "ldt_size = 4 * 8 - 1"
definition tss_size :: u32 where "tss_size = 104 - 1"

section \<open>The multiboot information\<close>

definition CHECK_FLAG :: "u32 \<Rightarrow> nat \<Rightarrow> bool" where
  "CHECK_FLAG flgs n \<longleftrightarrow> flgs AND push_bit n 1 \<noteq> 0"

text \<open>The fields of \<^verbatim>\<open>multiboot_info_t\<close>, by their offsets.\<close>

definition mbi_flags :: "mem \<Rightarrow> u32 \<Rightarrow> u32" where "mbi_flags m mbi = load32 m mbi"
definition mbi_mem_lower :: "mem \<Rightarrow> u32 \<Rightarrow> u32" where "mbi_mem_lower m mbi = load32 m (mbi + 4)"
definition mbi_mem_upper :: "mem \<Rightarrow> u32 \<Rightarrow> u32" where "mbi_mem_upper m mbi = load32 m (mbi + 8)"
definition mbi_boot_device :: "mem \<Rightarrow> u32 \<Rightarrow> u32" where "mbi_boot_device m mbi = load32 m (mbi + 12)"
definition mbi_cmdline :: "mem \<Rightarrow> u32 \<Rightarrow> u32" where "mbi_cmdline m mbi = load32 m (mbi + 16)"
definition mbi_mods_count :: "mem \<Rightarrow> u32 \<Rightarrow> u32" where "mbi_mods_count m mbi = load32 m (mbi + 20)"
definition mbi_mods_addr :: "mem \<Rightarrow> u32 \<Rightarrow> u32" where "mbi_mods_addr m mbi = load32 m (mbi + 24)"
definition mbi_elf_sec :: "u32 \<Rightarrow> u32" where "mbi_elf_sec mbi = mbi + 28"
definition mbi_mmap_length :: "mem \<Rightarrow> u32 \<Rightarrow> u32" where "mbi_mmap_length m mbi = load32 m (mbi + 44)"
definition mbi_mmap_addr :: "mem \<Rightarrow> u32 \<Rightarrow> u32" where "mbi_mmap_addr m mbi = load32 m (mbi + 48)"

text \<open>One module of the list at \<^verbatim>\<open>mods_addr\<close>: its messages, and the file system's address from the
  first one.  The bytes are signed characters.\<close>

definition boot_module :: "mem \<Rightarrow> u32 \<Rightarrow> nat \<Rightarrow> u32 \<times> printk list \<Rightarrow> u32 \<times> printk list" where
  "boot_module m mods_addr mod_count st =
     (let md = mods_addr + word_of_nat (16 * mod_count);
          mod_start = load32 m md;
          mod_end = load32 m (md + 4)
      in (if mod_count = 0 then mod_start else fst st,
          snd st @
          [(''Module %d loaded at address: 0x%#x'' @ [CHR 0x0A], [word_of_nat mod_count, mod_start]),
           (''Module %d ends at address: 0x%#x'' @ [CHR 0x0A], [word_of_nat mod_count, mod_end]),
           (''First few bytes of module:'' @ [CHR 0x0A], [])] @
          map (\<lambda>i. (''0x%x '', [scast (m (mod_start + word_of_nat i))])) [0..<16] @
          [([CHR 0x0A], [])]))"

text \<open>The memory map; a size field of \<open>- 4\<close> makes the loop spin.\<close>

partial_function (option) mmap_loop :: "mem \<Rightarrow> u32 \<Rightarrow> u32 \<Rightarrow> printk list \<Rightarrow> printk list option" where
  "mmap_loop m mmap limit msgs =
     (if mmap < limit then
        mmap_loop m (mmap + load32 m mmap + 4) limit
          (msgs @ [('' size = 0x%x,     base_addr = 0x%#x%#x'' @ [CHR 0x0A] @
                    ''     type = 0x%x,  length    = 0x%#x%#x'' @ [CHR 0x0A],
                    [load32 m mmap, load32 m (mmap + 8), load32 m (mmap + 4), load32 m (mmap + 20),
                     load32 m (mmap + 16), load32 m (mmap + 12)])])
      else Some msgs)"

text \<open>What \<^verbatim>\<open>entry\<close> does with the information: the messages up to the modules, the modules, the
  symbols and the memory map; whether it goes on, the address of the file system and the messages.\<close>

definition boot_head :: "mem \<Rightarrow> u32 \<Rightarrow> printk list" where
  "boot_head m mbi =
     (let flgs = mbi_flags m mbi
      in [(''flags = 0x%#x'' @ [CHR 0x0A], [flgs])] @
         (if CHECK_FLAG flgs 0
          then [(''mem_lower = %uKB, mem_upper = %uKB'' @ [CHR 0x0A], [mbi_mem_lower m mbi, mbi_mem_upper m mbi])]
          else []) @
         (if CHECK_FLAG flgs 1 then [(''boot_device = 0x%#x'' @ [CHR 0x0A], [mbi_boot_device m mbi])] else []) @
         (if CHECK_FLAG flgs 2 then [(''cmdline = %s'' @ [CHR 0x0A], [mbi_cmdline m mbi])] else []))"

definition boot_modules :: "mem \<Rightarrow> u32 \<Rightarrow> u32 \<times> printk list \<Rightarrow> u32 \<times> printk list" where
  "boot_modules m mbi st =
     (if CHECK_FLAG (mbi_flags m mbi) 3
      then fold (boot_module m (mbi_mods_addr m mbi)) [0..<unat (mbi_mods_count m mbi)] st else st)"

definition boot_symbols :: "mem \<Rightarrow> u32 \<Rightarrow> printk list" where
  "boot_symbols m mbi =
     (let sec = mbi_elf_sec mbi
      in if CHECK_FLAG (mbi_flags m mbi) 5
         then [(''elf_sec: num = %u, size = 0x%#x, addr = 0x%#x, shndx = 0x%#x'' @ [CHR 0x0A],
                [load32 m sec, load32 m (sec + 4), load32 m (sec + 8), load32 m (sec + 12)])]
         else [])"

definition boot_map :: "mem \<Rightarrow> u32 \<Rightarrow> printk list \<Rightarrow> printk list option" where
  "boot_map m mbi msgs =
     (if CHECK_FLAG (mbi_flags m mbi) 6
      then mmap_loop m (mbi_mmap_addr m mbi) (mbi_mmap_addr m mbi + mbi_mmap_length m mbi)
             (msgs @ [(''mmap_addr = 0x%#x, mmap_length = 0x%x'' @ [CHR 0x0A],
                       [mbi_mmap_addr m mbi, mbi_mmap_length m mbi])])
      else Some msgs)"

definition multiboot_info :: "mem \<Rightarrow> u32 \<Rightarrow> u32 \<Rightarrow> (bool \<times> u32 \<times> printk list) option" where
  "multiboot_info m mbi bb =
     (let (bb, msgs) = boot_modules m mbi (bb, boot_head m mbi)
      in if CHECK_FLAG (mbi_flags m mbi) 4 \<and> CHECK_FLAG (mbi_flags m mbi) 5
         then Some (False, bb, msgs @ [(''Both bits 4 and 5 are set.'' @ [CHR 0x0A], [])])
         else map_option (\<lambda>msgs. (True, bb, msgs)) (boot_map m mbi (msgs @ boot_symbols m mbi)))"

section \<open>The entry of the kernel\<close>

definition boot_ldt :: "linker \<Rightarrow> seg_desc" where
  "boot_ldt L = SET_SEG_PARAMS
     \<lparr>seg_lim_15_00 = 0, base_15_00 = 0, base_23_16 = 0, seg_type = 0x2, seg_sys = 0, seg_dpl = 0, seg_present = 1,
      seg_lim_19_16 = 0, seg_avail = 0, seg_reserved = 0, seg_opsize = 1, seg_granularity = 0, base_31_24 = 0\<rparr>
     (ldt_at L) ldt_size"

text \<open>The limit written first is replaced by the macro.\<close>

definition boot_tss :: "linker \<Rightarrow> seg_desc" where
  "boot_tss L = SET_SEG_PARAMS
     \<lparr>seg_lim_15_00 = ucast (TSS_SIZE AND 0x0000FFFF), base_15_00 = 0, base_23_16 = 0, seg_type = 0x9, seg_sys = 0,
      seg_dpl = 0, seg_present = 1, seg_lim_19_16 = ucast (TSS_SIZE AND 0x000F0000), seg_avail = 0,
      seg_reserved = 0, seg_opsize = 0, seg_granularity = 0, base_31_24 = 0\<rparr>
     (tss_at L) tss_size"

definition load_descriptors :: "linker \<Rightarrow> 'a boot_scheme \<Rightarrow> 'a boot_scheme" where
  "load_descriptors L s =
     (let s = s\<lparr>ldt_desc_ptr := boot_ldt L, ldtr := KERNEL_LDT\<rparr>
      in s\<lparr>tss_desc_ptr := boot_tss L, tss_ldt := KERNEL_LDT, tss_ss0 := KERNEL_DS, tss_esp0 := 0x800000,
           task_register := KERNEL_TSS\<rparr>)"

definition init_devices :: "device \<Rightarrow> 'a pcbs_scheme \<Rightarrow> 'a pcbs_scheme option" where
  "init_devices dv s =
     (let s = i8259_init s
      in Option.bind (initialize_pit s) (\<lambda>s.
         Option.bind (set_kb s) (\<lambda>s.
           let s = enable_irq SLAVE_PIC_IRQ s;
               s = init_termis 0 s;
               s = init_termis 1 s;
               s = init_termis 2 s
           in map_option init_pcb (init_rtc dv s))))"

text \<open>How the boot ends: the loader's information is refused and the processor halts, the shell
  cannot be started and the kernel idles, or the shell runs.\<close>

datatype boot_end = Refused | Idle | Running kargs outcome

definition entry ::
    "linker \<Rightarrow> kargs \<Rightarrow> u32 \<Rightarrow> u32 \<Rightarrow> 'a boot_scheme \<Rightarrow> (boot_end \<times> 'a boot_scheme) option" where
  "entry L K magic addr s0 =
     (let s = clear s0
      in if magic \<noteq> MULTIBOOT_BOOTLOADER_MAGIC
         then Some (Refused, log_printk [(''Invalid magic number: 0x%#x'' @ [CHR 0x0A], [magic])] s)
         else (case multiboot_info (ram s) addr (bb_start K) of
           None \<Rightarrow> None
         | Some (go_on, bb, msgs) \<Rightarrow>
             let s = log_printk msgs s;
                 K = K\<lparr>bb_start := bb\<rparr>
             in if \<not> go_on then Some (Refused, s)
                else
                  let s = load_descriptors L s;
                      s = s\<lparr>idt_table := install_idt (stub_at L) (idt_table s)\<rparr>;
                      s = set_paging (page_table_at L) (vid_table_at L) s
                  in (case init_devices (dev K) s of
                       None \<Rightarrow> None
                     | Some s \<Rightarrow>
                         let s = sti s;
                             s = upd_termi 0 (\<lambda>r. r\<lparr>run_shell := 1\<rparr>) s;
                             s = clean_screen s
                         in (case execute K (shell_at K) s of
                               None \<Rightarrow> None
                             | Some (Returns _, s) \<Rightarrow> Some (Idle, s)
                             | Some (out, s) \<Rightarrow> Some (Running K out, s)))))"

section \<open>How the processor reads a segment descriptor\<close>

definition seg_base :: "u32 \<Rightarrow> u32 \<Rightarrow> u32" where
  "seg_base v0 v1 = (v1 AND 0xFF000000) OR push_bit 16 (v1 AND 0xFF) OR drop_bit 16 v0"

definition seg_limit :: "u32 \<Rightarrow> u32 \<Rightarrow> u32" where
  "seg_limit v0 v1 = (v1 AND 0x000F0000) OR (v0 AND 0xFFFF)"

lemma byte_masks:
  "(0xFF :: u32) = mask 8" "(0x00FF0000 :: u32) = push_bit 16 (mask 8)" "(0xFF000000 :: u32) = push_bit 24 (mask 8)"
  "(0x000F0000 :: u32) = push_bit 16 (mask 4)" "(0xFFFF :: u32) = mask 16"
  by (simp_all add: mask_eq_exp_minus_1 push_bit_eq_mult)

lemma seg_val1_parts:
  "seg_val1 d AND 0xFF000000 = push_bit 24 (ucast (base_31_24 d))"
  "seg_val1 d AND 0xFF = ucast (base_23_16 d)"
  "seg_val1 d AND 0x000F0000 = push_bit 16 (ucast (seg_lim_19_16 d))"
  unfolding byte_masks seg_val1_def
  by (rule bit_word_eqI; auto simp: bit_simps dest: bit_imp_le_length)+

lemma seg_descriptor_decode:
  "seg_base (seg_val0 (SET_SEG_PARAMS d addr lim)) (seg_val1 (SET_SEG_PARAMS d addr lim)) = addr"
  "seg_limit (seg_val0 (SET_SEG_PARAMS d addr lim)) (seg_val1 (SET_SEG_PARAMS d addr lim)) = take_bit 20 lim"
proof -
  have top: "\<not> bit addr (24 + (n - 24)) \<Longrightarrow> bit addr n \<Longrightarrow> n - 16 < 8" for n
    by (cases "24 \<le> n") auto
  have high: "16 + (n - 16) = n" if "\<not> n < 16" for n :: nat using that by simp
  show "seg_base (seg_val0 (SET_SEG_PARAMS d addr lim)) (seg_val1 (SET_SEG_PARAMS d addr lim)) = addr"
    unfolding seg_base_def seg_val1_parts unfolding byte_masks seg_val0_def
    by (rule bit_word_eqI; auto simp: SET_SEG_PARAMS_def byte_masks bit_simps dest: bit_imp_le_length top)
  show "seg_limit (seg_val0 (SET_SEG_PARAMS d addr lim)) (seg_val1 (SET_SEG_PARAMS d addr lim)) = take_bit 20 lim"
    unfolding seg_limit_def seg_val1_parts unfolding byte_masks seg_val0_def
    by (rule bit_word_eqI; auto simp: SET_SEG_PARAMS_def byte_masks bit_simps high dest: bit_imp_le_length)
qed

text \<open>The two descriptors of the boot: where the tables are, their limits, and the attributes (a present
  local descriptor table and a present, available 32-bit task state segment).\<close>

definition describes :: "seg_desc \<Rightarrow> u32 \<Rightarrow> u32 \<Rightarrow> u32 \<Rightarrow> bool" where
  "describes d base limit attributes \<longleftrightarrow> seg_base (seg_val0 d) (seg_val1 d) = base \<and>
     seg_limit (seg_val0 d) (seg_val1 d) = limit \<and> seg_val1 d AND 0x00F0FF00 = attributes"

lemma attribute_masks:
  "(ucast (b :: u8) :: u32) AND 0x00F0FF00 = 0" "push_bit 24 (ucast (b :: u8) :: u32) AND 0x00F0FF00 = 0"
  "push_bit 16 (ucast (n :: 4 word) :: u32) AND 0x00F0FF00 = 0"
proof -
  have m: "(0x00F0FF00 :: u32) = push_bit 8 (mask 8) OR push_bit 20 (mask 4)"
    by (simp add: mask_eq_exp_minus_1 push_bit_eq_mult)
  show "(ucast b :: u32) AND 0x00F0FF00 = 0" "push_bit 24 (ucast b :: u32) AND 0x00F0FF00 = 0"
    "push_bit 16 (ucast n :: u32) AND 0x00F0FF00 = 0"
    unfolding m by (rule bit_word_eqI; auto simp: bit_simps dest: bit_imp_le_length)+
qed

lemma boot_descriptors:
  "describes (boot_ldt L) (ldt_at L) 31 0x00408200" "describes (boot_tss L) (tss_at L) 103 0x00008900"
  unfolding describes_def boot_ldt_def boot_tss_def seg_descriptor_decode
  by (simp_all add: ldt_size_def tss_size_def take_bit_eq_mod)
    (simp_all add: SET_SEG_PARAMS_def seg_val1_def bit.conj_disj_distrib2 attribute_masks)

section \<open>Starting the devices\<close>

text \<open>What the drivers of the interrupt controller, the timer, the keyboard and the clock leave alone.\<close>

definition device_frame :: "'a irqs_scheme \<Rightarrow> 'a irqs_scheme \<Rightarrow> bool" where
  "device_frame s s' \<longleftrightarrow> irqs.more s' = irqs.more s \<and> ram s' = ram s \<and>
     length (irq_handler s') = length (irq_handler s)"

text \<open>One more line is enabled, and the table of handlers is \<open>hs\<close>.\<close>

definition line_added :: "nat \<Rightarrow> do_irq option list \<Rightarrow> 'a irqs_scheme \<Rightarrow> 'a irqs_scheme \<Rightarrow> bool" where
  "line_added n hs s s' \<longleftrightarrow> device_frame s s' \<and> (\<forall>k<16. line_enabled s' k \<longleftrightarrow> k = n \<or> line_enabled s k) \<and>
     irq_handler s' = hs"

lemma enable_irq_frame [simp]:
  "irqs.more (enable_irq n s) = irqs.more s" "ram (enable_irq n s) = ram s"
  "irq_handler (enable_irq n s) = irq_handler s"
  by (simp_all add: enable_irq_def machine_simps)

lemma line_enabled_machine [simp]:
  "line_enabled (s\<lparr>intf := b\<rparr>) k = line_enabled s k" "line_enabled (s\<lparr>io := e\<rparr>) k = line_enabled s k"
  by (simp_all add: line_enabled_def)

lemma enable_line_added: "n < 16 \<Longrightarrow> line_added n (irq_handler s) s (enable_irq (word_of_nat n) s)"
  by (simp add: line_added_def device_frame_def enable_irq_line)

lemma set_interrupt_added:
  assumes "n < 16" "length (irq_handler s) = 16"
  shows "\<exists>s'. set_interrupt (word_of_nat n) h s = Some s' \<and> line_added n ((irq_handler s)[n := Some h]) s s'"
  using assms
  by (simp add: set_interrupt_def Let_def unat_u32_of_nat line_added_def device_frame_def enable_irq_line machine_simps)

lemma line_added_machine [simp]:
  "line_added n hs (outb d p s) s' = line_added n hs s s'"
  "line_added n hs (cli s) s' = line_added n hs s s'" "line_added n hs (sti s) s' = line_added n hs s s'"
  "line_added n hs s (cli s') = line_added n hs s s'" "line_added n hs s (sti s') = line_added n hs s s'"
  "line_added n hs (s\<lparr>io := e\<rparr>) s' = line_added n hs s s'"
  by (simp_all add: line_added_def device_frame_def machine_simps)

lemma i8259_init_frame:
  "device_frame s (i8259_init s)" "irq_handler (i8259_init s) = irq_handler s"
  "line_enabled (i8259_init s) k = line_enabled s k"
  by (simp_all add: i8259_init_def device_frame_def machine_simps)

lemma set_interrupt_after:
  assumes "n < 16" "length (irq_handler s) = 16"
  shows "\<exists>s'. set_interrupt (word_of_nat n) h (s\<lparr>io := e, intf := b\<rparr>) = Some s' \<and>
    line_added n ((irq_handler s)[n := Some h]) s s'"
  using set_interrupt_added [of n "s\<lparr>io := e, intf := b\<rparr>" h] assms
  by (auto simp: line_added_def device_frame_def)

lemma initialize_pit_added:
  assumes "length (irq_handler s) = 16"
  shows "\<exists>s'. initialize_pit s = Some s' \<and> line_added 0 ((irq_handler s)[0 := Some Pit_handler]) s s'"
proof -
  obtain e where "initialize_pit s = set_interrupt (word_of_nat 0) Pit_handler (s\<lparr>io := e, intf := True\<rparr>)"
    by (simp add: initialize_pit_def machine_simps)
  with set_interrupt_after [OF _ assms, of 0] show ?thesis by simp
qed

lemma set_kb_added:
  "length (irq_handler s) = 16 \<Longrightarrow>
     \<exists>s'. set_kb s = Some s' \<and> line_added 1 ((irq_handler s)[1 := Some Kb_handler]) s s'"
  using set_interrupt_added [of 1 s Kb_handler] by (simp add: set_kb_def)

lemma init_rtc_added:
  assumes "length (irq_handler s) = 16"
  shows "\<exists>s'. init_rtc dv s = Some s' \<and> line_added 8 ((irq_handler s)[8 := Some Rtc_handler]) s s'"
proof -
  obtain e where "init_rtc dv s = map_option sti (set_interrupt (word_of_nat 8) Rtc_handler (s\<lparr>io := e, intf := False\<rparr>))"
    by (simp add: init_rtc_def machine_simps)
  with set_interrupt_after [OF _ assms, of 8] show ?thesis by fastforce
qed

lemma irqs_more:
  fixes s :: "'a pcbs_scheme"
  assumes "irqs.more s' = irqs.more s"
  shows "pd s' = pd s" "vidmem_pt s' = vidmem_pt s" "cr3 s' = cr3 s" "current_terminal s' = current_terminal s"
    "termis s' = termis s" "terminal_number s' = terminal_number s" "pcb_mem s' = pcb_mem s" "pcb_ptr s' = pcb_ptr s"
    "pcb_num s' = pcb_num s" "fops s' = fops s" "tss_esp0 s' = tss_esp0 s" "klog s' = klog s" "pcbs.more s' = pcbs.more s"
  using assms by (cases s; cases s'; simp)+

text \<open>What the start of the devices leaves alone in the rest of the kernel.\<close>

definition rest_same :: "'a pcbs_scheme \<Rightarrow> 'a pcbs_scheme \<Rightarrow> bool" where
  "rest_same s s' \<longleftrightarrow> ram s' = ram s \<and> pd s' = pd s \<and> vidmem_pt s' = vidmem_pt s \<and> cr3 s' = cr3 s \<and>
     current_terminal s' = current_terminal s \<and> terminal_number s' = terminal_number s \<and>
     length (termis s') = length (termis s) \<and> pcb_mem s' = pcb_mem s \<and> length (pcb_ptr s') = length (pcb_ptr s) \<and>
     pcb_num s' = pcb_num s \<and> tss_esp0 s' = tss_esp0 s \<and> pcbs.more s' = pcbs.more s"

lemma rest_same_trans: "rest_same s t \<Longrightarrow> rest_same t u \<Longrightarrow> rest_same s u"
  by (simp add: rest_same_def)

lemma rest_same_device: "device_frame s s' \<Longrightarrow> rest_same s s'"
  using irqs_more [of s' s] by (simp add: rest_same_def device_frame_def)

lemma rest_same_added: "line_added n hs s s' \<Longrightarrow> rest_same s s'"
  by (simp add: line_added_def rest_same_device)

lemma init_termis_frame:
  "rest_same s (init_termis t s)" "irq_handler (init_termis t s) = irq_handler s"
  "line_enabled (init_termis t s) k = line_enabled s k"
  by (simp_all add: init_termis_def upd_termi_def rest_same_def line_enabled_def)

lemma device_termis:
  fixes s :: "'a pcbs_scheme"
  shows "device_frame s s' \<Longrightarrow> termis s' = termis s"
  using irqs_more(5) [of s' s] by (simp add: device_frame_def)

lemma added_termis:
  fixes s :: "'a pcbs_scheme"
  shows "line_added n hs s s' \<Longrightarrow> termis s' = termis s"
  using device_termis [of s s'] by (simp add: line_added_def)

text \<open>The two arrays of each terminal have their declared length.\<close>

definition buffers_declared :: "'a tty_scheme \<Rightarrow> bool" where
  "buffers_declared s \<longleftrightarrow> length (termis s) = 3 \<and>
     (\<forall>r\<in>set (termis s). length (kbuffer r) = 4096 \<and> length (storage_buffer r) = 4096)"

lemma init_termis_typed:
  assumes "buffers_declared s"
  shows "typed (init_termis 2 (init_termis 1 (init_termis 0 s)))"
proof -
  obtain a b c where s: "termis s = [a, b, c]"
    using assms by (auto simp: buffers_declared_def length_Suc_conv numeral_3_eq_3)
  have "typed_termi (r\<lparr>ctrl := 0, caps_lock := 0, shift := 0, caps_on := 0, caps_off := 1,
      video_memory := USER_VIDEO_ADDR, kmap := 0, up := 0, down := 0, left := 0, right := 0,
      scroll_index := 0, run_shell := 0, terminal_id := t, buffer_flag := 1, enter_flag := 0,
      cursor_x := 0, cursor_y := 0, buffer_size := 0,
      kbuffer := blank (kbuffer r) 4096, storage_buffer := blank (storage_buffer r) 4096\<rparr>)"
    if "length (kbuffer r) = 4096" "length (storage_buffer r) = 4096" for r t
    using that by (simp add: typed_termi_def line_ok_def line_of_def blank_prefix padded_def)
  then show ?thesis
    using assms by (simp add: init_termis_def upd_termi_def s buffers_declared_def)
qed

lemma init_pcb_run:
  "length (pcb_ptr s) = 6 \<Longrightarrow> init_pcb s = s\<lparr>pcb_ptr := replicate 6 NULL\<rparr>"
proof -
  assume "length (pcb_ptr s) = 6"
  then have "fold (\<lambda>i l. l[i := NULL]) [0..<6] (pcb_ptr s) = replicate 6 NULL"
    by (intro nth_equalityI) (auto simp: upt_rec nth_list_update less_6_cases)
  then show ?thesis by (simp add: init_pcb_def)
qed

lemma init_devices_run:
  assumes h: "length (irq_handler s) = 16" and p: "length (pcb_ptr s) = 6"
  shows "\<exists>s'. init_devices dv s = Some s' \<and> rest_same s s' \<and> pcb_ptr s' = replicate 6 NULL \<and>
    irq_handler s' = (irq_handler s)[0 := Some Pit_handler, 1 := Some Kb_handler, 8 := Some Rtc_handler] \<and>
    (\<forall>k<16. line_enabled s' k \<longleftrightarrow> k \<in> {0, 1, 2, 8} \<or> line_enabled s k) \<and>
    (buffers_declared s \<longrightarrow> typed s')"
proof -
  define s1 where "s1 = i8259_init s"
  have s1: "device_frame s s1" "irq_handler s1 = irq_handler s" "line_enabled s1 k = line_enabled s k" for k
    unfolding s1_def by (rule i8259_init_frame)+
  obtain s2 where s2: "initialize_pit s1 = Some s2" "line_added 0 ((irq_handler s)[0 := Some Pit_handler]) s1 s2"
    using initialize_pit_added [of s1] h s1(2) by auto
  let ?h3 = "(irq_handler s)[0 := Some Pit_handler, 1 := Some Kb_handler]"
  obtain s3 where s3: "set_kb s2 = Some s3" "line_added 1 ?h3 s2 s3"
    using set_kb_added [of s2] h s2(2) by (auto simp: line_added_def)
  define s4 where "s4 = enable_irq 2 s3"
  have s4: "line_added 2 ?h3 s3 s4"
    using enable_line_added [of 2 s3] s3(2) unfolding s4_def by (simp add: line_added_def)
  define s5 where "s5 = init_termis 2 (init_termis 1 (init_termis 0 s4))"
  have s5: "rest_same s4 s5" "irq_handler s5 = ?h3" "line_enabled s5 k = line_enabled s4 k" for k
    using rest_same_trans [OF rest_same_trans [OF init_termis_frame(1) init_termis_frame(1)] init_termis_frame(1)] s4
    unfolding s5_def by (simp_all add: init_termis_frame line_added_def)
  obtain s6 where s6: "init_rtc dv s5 = Some s6" "line_added 8 (?h3[8 := Some Rtc_handler]) s5 s6"
    using init_rtc_added [of s5] h s5(2) by auto
  have same: "rest_same s s6"
    by (rule rest_same_trans [OF _ rest_same_added [OF s6(2)]], rule rest_same_trans [OF _ s5(1)],
        rule rest_same_trans [OF _ rest_same_added [OF s4]], rule rest_same_trans [OF _ rest_same_added [OF s3(2)]],
        rule rest_same_trans [OF _ rest_same_added [OF s2(2)]], rule rest_same_device [OF s1(1)])
  have run: "init_devices dv s = Some (init_pcb s6)"
    by (simp add: init_devices_def s1_def [symmetric] s2 s3 s4_def [symmetric] s5_def [symmetric] s6)
  have p6: "length (pcb_ptr s6) = 6" using same p by (simp add: rest_same_def)
  have "\<forall>k<16. line_enabled s6 k \<longleftrightarrow> k \<in> {0, 1, 2, 8} \<or> line_enabled s k"
    using s2(2) s3(2) s4 s6(2) by (auto simp: line_added_def s1(3) s5(3))
  moreover have "irq_handler s6 = ?h3[8 := Some Rtc_handler]" using s6(2) by (simp add: line_added_def)
  moreover have "buffers_declared s \<longrightarrow> typed s6"
  proof -
    have "termis s1 = termis s" "termis s2 = termis s1" "termis s3 = termis s2" "termis s4 = termis s3" "termis s6 = termis s5"
      by (rule device_termis [OF s1(1)] added_termis [OF s2(2)] added_termis [OF s3(2)] added_termis [OF s4]
          added_termis [OF s6(2)])+
    then show ?thesis using init_termis_typed [of s4] by (simp add: s5_def buffers_declared_def)
  qed
  moreover have "line_enabled (s6\<lparr>pcb_ptr := q\<rparr>) k = line_enabled s6 k" for q k by (simp add: line_enabled_def)
  ultimately show ?thesis using run same p6 p unfolding init_pcb_run [OF p6]
    by (simp add: rest_same_def)
qed

section \<open>From the boot loader to the shell\<close>

text \<open>The static variables as the program starts: zero, but for the masks.\<close>

definition initial_statics :: "'a pcbs_scheme \<Rightarrow> bool" where
  "initial_statics s \<longleftrightarrow> current_terminal s = 0 \<and> terminal_number s = 0 \<and> pcb_num s = [0, 0, 0] \<and>
     length (pcb_ptr s) = 6 \<and> buffers_declared s \<and> irq_handler s = replicate 16 None \<and>
     master_mask s = 0xFF \<and> slave_mask s = 0xFF \<and>
     (\<forall>p. length (files (pcb_mem s p)) = 8 \<and> length (args (pcb_mem s p)) = 128)"

lemma no_process_inv:
  assumes "pcb_ptr s = replicate 6 NULL" "pcb_num s = [0, 0, 0]" "current_terminal s = 0" "terminal_number s = 0"
    "length (termis s) = 3" "\<forall>p. length (files (pcb_mem s p)) = 8 \<and> length (args (pcb_mem s p)) = 128"
    and "paging_ok s" "\<forall>i<6. video_frame s i = page_addr 0"
  shows "table_inv (\<lambda>_. []) s" "waiting_ok (\<lambda>_. []) t s"
  using assms
  by (auto simp: table_inv_def waiting_ok_def stacks_ok_def vids_ok_def all_slots_def top_no_def less_3_cases)

lemma set_paging_video_frame:
  "i < 6 \<Longrightarrow> video_frame (set_paging pa va s) i = page_addr 0"
  by (simp add: video_frame_def set_paging_tables(3) mapped_vid_def frame_def page_addr_def)

text \<open>The user bits of the filled tables; the entries of the video tables behind the fourth are those of
  the static variables.\<close>

definition video_blank :: "'a paging_scheme \<Rightarrow> bool" where
  "video_blank s \<longleftrightarrow> (\<forall>i<10. \<forall>k<1024. 4 \<le> k \<longrightarrow> P (vidmem_pt s i k) = 0)"

lemma set_paging_user:
  assumes pl: "tables_placed pa va" and b: "video_blank s"
  shows "user_tables va (pd (set_paging pa va s)) (vid_attrs (set_paging pa va s))"
  unfolding user_tables_def
proof (intro allI impI)
  fix i :: nat assume i: "i < 10"
  note tabs = set_paging_tables [OF i, where pa = pa and va = va and s = s]
  have va: "frame (ucast (drop_bit 12 (va i))) = va i" by (rule frame_aligned [OF table_of_placed(4) [OF pl i]])
  have d: "P (pd (set_paging pa va s) i k) = 0 \<or> U_S (pd (set_paging pa va s) i k) = 0"
    if "k < 1024" "k \<noteq> PROGRAM \<and> k \<noteq> USER_VIDEO" for k
    using that by (simp add: tabs(1) mapped_pd_def cleared_def)
  have v: "if k < 4 then P (vidmem_pt (set_paging pa va s) i k) = 1 \<and> R_W (vidmem_pt (set_paging pa va s) i k) = 1 \<and>
      U_S (vidmem_pt (set_paging pa va s) i k) = 1 else P (vidmem_pt (set_paging pa va s) i k) = 0" if "k < 1024" for k
    using that b i by (simp add: tabs(3) mapped_vid_def video_blank_def)
  let ?d = "pd (set_paging pa va s)" and ?w = "vid_attrs (set_paging pa va s)"
  show "(\<forall>k<1024. k \<noteq> PROGRAM \<and> k \<noteq> USER_VIDEO \<longrightarrow> P (?d i k) = 0 \<or> U_S (?d i k) = 0) \<and>
     P (?d i PROGRAM) = 1 \<and> PS (?d i PROGRAM) = 1 \<and> R_W (?d i PROGRAM) = 1 \<and> U_S (?d i PROGRAM) = 1 \<and>
     P (?d i USER_VIDEO) = 1 \<and> PS (?d i USER_VIDEO) = 0 \<and> R_W (?d i USER_VIDEO) = 1 \<and> U_S (?d i USER_VIDEO) = 1 \<and>
     frame (base_address (?d i USER_VIDEO)) = va i \<and>
     (\<forall>k<1024. if k < 4 then P (?w i k) = 1 \<and> R_W (?w i k) = 1 \<and> U_S (?w i k) = 1 else P (?w i k) = 0)"
    using d v by (simp add: tabs(1) mapped_pd_def va)
qed

text \<open>The screen routines of the boot touch nothing but the text page, the cursor and its ports.\<close>

lemma keyboard_putc_irqs [simp]:
  "irq_handler (keyboard_console_putc x y c s) = irq_handler s"
  "master_mask (keyboard_console_putc x y c s) = master_mask s"
  "slave_mask (keyboard_console_putc x y c s) = slave_mask s"
  by (simp_all add: keyboard_console_putc_def Let_def)

lemma clean_screen_irqs [simp]:
  "irq_handler (clean_screen s) = irq_handler s" "line_enabled (clean_screen s) k = line_enabled s k"
proof -
  have "irq_handler (clean_screen s) = irq_handler s" "master_mask (clean_screen s) = master_mask s"
    "slave_mask (clean_screen s) = slave_mask s"
    by (simp_all add: clean_screen_def Let_def fold_keeps keyboard_set_cursor_def upd_termi_def machine_simps)
  then show "irq_handler (clean_screen s) = irq_handler s" "line_enabled (clean_screen s) k = line_enabled s k"
    by (simp_all add: line_enabled_def)
qed

lemma clean_screen_ram:
  assumes "unat (terminal_number s) < length (termis s)" "\<not> in_region VIDEO 4096 p"
  shows "ram (clean_screen s) p = ram s p"
proof -
  let ?row = "\<lambda>y. fold (\<lambda>x. keyboard_console_putc (word_of_nat x) (word_of_nat y) 0x20) [0..<80]"
  have ok: "kbd_ok s" using assms(1) by (simp add: kbd_ok_def)
  have row: "kbd_ok (?row y t) \<and> kbd_frame t (?row y t)" if "y \<in> set [0..<25]" "kbd_ok t" for y and t :: "'a tty_scheme"
    using that by (intro kbd.frame_fold) (auto intro: kbd.putc_frame kbd.frame_putc)
  have "kbd_frame s (fold ?row [0..<25] s)"
    using kbd.frame_fold [where f = ?row and es = "[0..<25]", OF ok row] by simp
  then show ?thesis using assms(2)
    by (simp add: clean_screen_def Let_def kbd_frame_def keyboard_set_cursor_def upd_termi_def machine_simps)
qed

lemma set_paging_boot [simp]:
  fixes s :: "'a boot_scheme"
  shows "pcb_mem (set_paging pa va s) = pcb_mem s" "pcb_ptr (set_paging pa va s) = pcb_ptr s"
    "pcb_num (set_paging pa va s) = pcb_num s" "idt_table (set_paging pa va s) = idt_table s"
    "tss_desc_ptr (set_paging pa va s) = tss_desc_ptr s" "ldt_desc_ptr (set_paging pa va s) = ldt_desc_ptr s"
  by (subst retabled_set_paging [unfolded retabled_def]; simp)+

lemma boot_more:
  fixes s :: "'a boot_scheme"
  assumes "pcbs.more s' = pcbs.more s"
  shows "idt_table s' = idt_table s" "tss_desc_ptr s' = tss_desc_ptr s" "ldt_desc_ptr s' = ldt_desc_ptr s"
  using assms by (cases s; cases s'; simp)+

lemma no_line: "k < 16 \<Longrightarrow> master_mask s = 0xFF \<Longrightarrow> slave_mask s = 0xFF \<Longrightarrow> \<not> line_enabled s k"
proof -
  have m: "(0xFF :: u8) = mask 8" by (simp add: mask_eq_exp_minus_1)
  show "k < 16 \<Longrightarrow> master_mask s = 0xFF \<Longrightarrow> slave_mask s = 0xFF \<Longrightarrow> \<not> line_enabled s k"
    unfolding m by (auto simp: line_enabled_def bit_simps)
qed

text \<open>The state in which the first shell is started, from the state after the messages.\<close>

lemma boot_ready:
  fixes s :: "'a boot_scheme"
  assumes st: "initial_statics s"
    and s1_def: "s1 = set_paging pa va ((load_descriptors L s)\<lparr>idt_table := install_idt (stub_at L) (idt_table s)\<rparr>)"
  shows "\<exists>s2 s3. init_devices dv s1 = Some s2 \<and> s3 = clean_screen (upd_termi 0 (\<lambda>r. r\<lparr>run_shell := 1\<rparr>) (sti s2)) \<and>
    table_inv (\<lambda>_. []) s3 \<and> waiting_ok (\<lambda>_. []) 0 s3 \<and> current_terminal s3 = 0 \<and> run_shell (termis s3 ! 0) = 1 \<and>
    (\<forall>p. \<not> in_region VIDEO 4096 p \<longrightarrow> ram s3 p = ram s p) \<and>
    (\<forall>k<16. line_enabled s3 k \<longleftrightarrow> k \<in> {0, 1, 2, 8}) \<and> typed s3 \<and>
    irq_handler s3 = (replicate 16 None)[0 := Some Pit_handler, 1 := Some Kb_handler, 8 := Some Rtc_handler] \<and>
    idt_table s3 = install_idt (stub_at L) (idt_table s) \<and> tss_desc_ptr s3 = boot_tss L \<and> ldt_desc_ptr s3 = boot_ldt L \<and>
    pd s3 = pd s1 \<and> vidmem_pt s3 = vidmem_pt s1"
proof -
  have s1: "irq_handler s1 = replicate 16 None" "length (pcb_ptr s1) = 6" "master_mask s1 = 0xFF" "slave_mask s1 = 0xFF"
    "current_terminal s1 = 0" "terminal_number s1 = 0" "pcb_num s1 = [0, 0, 0]" "buffers_declared s1" "ram s1 = ram s"
    "\<forall>p. length (files (pcb_mem s1 p)) = 8 \<and> length (args (pcb_mem s1 p)) = 128"
    "idt_table s1 = install_idt (stub_at L) (idt_table s)" "tss_desc_ptr s1 = boot_tss L" "ldt_desc_ptr s1 = boot_ldt L"
    using st by (simp_all add: s1_def initial_statics_def load_descriptors_def buffers_declared_def)
  have len: "length (termis s1) = 3" using s1(8) by (simp add: buffers_declared_def)
  have pg: "paging_ok s1" "\<forall>i<6. video_frame s1 i = page_addr 0"
    unfolding s1_def by (simp_all add: set_paging_ok set_paging_video_frame)
  obtain s2 where run: "init_devices dv s1 = Some s2" and s2: "rest_same s1 s2" "pcb_ptr s2 = replicate 6 NULL"
    "irq_handler s2 = (replicate 16 None)[0 := Some Pit_handler, 1 := Some Kb_handler, 8 := Some Rtc_handler]"
    "\<forall>k<16. line_enabled s2 k \<longleftrightarrow> k \<in> {0, 1, 2, 8} \<or> line_enabled s1 k" "buffers_declared s1 \<longrightarrow> typed s2"
    using init_devices_run [of s1 dv] s1(1,2) by auto
  have off: "\<not> line_enabled s1 k" if "k < 16" for k
    by (rule no_line [OF that s1(3,4)])
  define s' where "s' = upd_termi 0 (\<lambda>r. r\<lparr>run_shell := 1\<rparr>) (sti s2)"
  have s': "pcb_ptr s' = replicate 6 NULL" "current_terminal s' = 0" "terminal_number s' = 0" "pcb_num s' = [0, 0, 0]"
    "length (termis s') = 3" "ram s' = ram s" "run_shell (termis s' ! 0) = 1" "pd s' = pd s1" "vidmem_pt s' = vidmem_pt s1"
    "cr3 s' = cr3 s1" "\<forall>p. length (files (pcb_mem s' p)) = 8 \<and> length (args (pcb_mem s' p)) = 128"
    "irq_handler s' = irq_handler s2" "line_enabled s' k = line_enabled s2 k" "idt_table s' = idt_table s1"
    "tss_desc_ptr s' = boot_tss L" "ldt_desc_ptr s' = boot_ldt L" for k
    using s1 len s2(1,2) boot_more [of s2 s1]
    by (simp_all add: s'_def rest_same_def upd_termi_def sti_def line_enabled_def)
  have "typed (sti s2)" using s2(5) s1(8) by simp
  from typed_upd_termi [OF this] have ty: "typed s'" by (simp add: s'_def)
  define s3 where "s3 = clean_screen s'"
  have calm: "calm s' s3" unfolding s3_def by (intro calm_intros)
  note procs = calm_procs(1) [OF calm, unfolded same_procs_def]
  have shells: "map run_shell (termis s3) = map run_shell (termis s')" using calm by (simp add: calm_def quiet_def)
  have p3: "pcb_ptr s3 = replicate 6 NULL" "pcb_num s3 = [0, 0, 0]" "current_terminal s3 = 0" "terminal_number s3 = 0"
    "\<forall>p. length (files (pcb_mem s3 p)) = 8 \<and> length (args (pcb_mem s3 p)) = 128"
    using procs s' by simp_all
  have t3: "length (termis s3) = 3" "run_shell (termis s3 ! 0) = 1"
    using shells_map [OF shells] s'(5,7) by simp_all
  have tabs: "pd s3 = pd s1" "vidmem_pt s3 = vidmem_pt s1" "cr3 s3 = cr3 s1"
    using calm s'(8-10) by (simp_all add: calm_def quiet_def)
  have pg3: "paging_ok s3" "\<forall>i<6. video_frame s3 i = page_addr 0"
    using pg tabs paging_ok_cong [OF tabs] by (simp_all add: video_frame_def)
  note inv = no_process_inv [OF p3(1-4) t3(1) p3(5) pg3]
  have mem: "ram s3 p = ram s p" if "\<not> in_region VIDEO 4096 p" for p
    unfolding s3_def using clean_screen_ram [OF _ that, of s'] s' by simp
  have more: "pcbs.more s3 = pcbs.more s'" using calm by (cases s3; cases s'; simp add: calm_def quiet_def)
  have irqs: "irq_handler s3 = irq_handler s2" "line_enabled s3 k = line_enabled s2 k" for k
    using s'(12,13) by (simp_all add: s3_def)
  have "s3 = clean_screen (upd_termi 0 (\<lambda>r. r\<lparr>run_shell := 1\<rparr>) (sti s2))" by (simp add: s3_def s'_def)
  then show ?thesis
    using run inv p3(3) t3(2) mem boot_more [OF more] s'(14-16) s1(11) irqs s2(3,4) off ty calm tabs(1,2)
    by (simp add: calm_def)
qed

text \<open>A region of the kernel that does not overlap the text screen survives the boot.\<close>

definition off_screen :: "u32 \<Rightarrow> nat \<Rightarrow> bool" where
  "off_screen a n \<longleftrightarrow> unat a + n \<le> 8388608 \<and> separate a n VIDEO 4096"

lemma agree_off_screen:
  assumes "off_screen a n" "\<And>p. \<not> in_region VIDEO 4096 p \<Longrightarrow> ram s' p = ram s p"
  shows "agree a n (vmem s) (vmem s')"
  unfolding agree_def
proof (intro allI impI)
  fix x assume x: "in_region a n x"
  have "unat x < 8388608" using assms(1) in_region_low [OF _ x] by (simp add: off_screen_def)
  moreover have "\<not> in_region VIDEO 4096 x" using assms(1) separate_disjoint [OF _ x] by (auto simp: off_screen_def)
  ultimately show "vmem s' x = vmem s x" using assms(2) by (simp add: vmem_low)
qed

section \<open>The information of the boot loader\<close>

fun mmap_at :: "mem \<Rightarrow> u32 \<Rightarrow> nat \<Rightarrow> u32" where
  "mmap_at m a 0 = a"
| "mmap_at m a (Suc n) = mmap_at m (a + load32 m a + 4) n"

text \<open>What the loader has to deliver: a first module, one of the two symbol formats at most, and a
  memory map whose entries reach its end.\<close>

definition multiboot_ok :: "mem \<Rightarrow> u32 \<Rightarrow> bool" where
  "multiboot_ok m mbi \<longleftrightarrow>
     CHECK_FLAG (mbi_flags m mbi) 3 \<and> mbi_mods_count m mbi \<noteq> 0 \<and>
     \<not> (CHECK_FLAG (mbi_flags m mbi) 4 \<and> CHECK_FLAG (mbi_flags m mbi) 5) \<and>
     (CHECK_FLAG (mbi_flags m mbi) 6 \<longrightarrow>
        (\<exists>n. (\<forall>i<n. mmap_at m (mbi_mmap_addr m mbi) i < mbi_mmap_addr m mbi + mbi_mmap_length m mbi) \<and>
             mbi_mmap_addr m mbi + mbi_mmap_length m mbi \<le> mmap_at m (mbi_mmap_addr m mbi) n))"

lemma mmap_loop_ends:
  "(\<forall>i<n. mmap_at m a i < limit) \<Longrightarrow> limit \<le> mmap_at m a n \<Longrightarrow>
     \<exists>msgs'. mmap_loop m a limit msgs = Some (msgs @ msgs') \<and> length msgs' = n"
proof (induction n arbitrary: a msgs)
  case 0
  then have "\<not> a < limit" by (simp add: not_less)
  then show ?case by (subst mmap_loop.simps) simp
next
  case (Suc n)
  have "a < limit" "\<forall>i<n. mmap_at m (a + load32 m a + 4) i < limit"
    using Suc.prems(1) [rule_format, of 0] Suc.prems(1) [rule_format, of "Suc i" for i] by auto
  then show ?case
    using Suc.IH [of "a + load32 m a + 4"] Suc.prems(2) by (subst mmap_loop.simps) fastforce
qed

lemma mmap_loop_reaches: "mmap_loop m a limit msgs = Some msgs' \<Longrightarrow> \<exists>n. limit \<le> mmap_at m a n"
proof (erule mmap_loop.raw_induct [where P = "\<lambda>m a limit msgs msgs'. \<exists>n. limit \<le> mmap_at m a n", rotated], goal_cases)
  case (1 loop m a limit msgs msgs')
  show ?case
  proof (cases "a < limit")
    case True
    with 1(2) have "\<exists>n. limit \<le> mmap_at m (a + load32 m a + 4) n" by (auto intro: 1(1))
    then show ?thesis by (metis mmap_at.simps(2))
  qed (metis mmap_at.simps(1) not_less)
qed

text \<open>The first entry behind the end.\<close>

lemma mmap_loop_ends_iff: "mmap_loop m a limit msgs = None \<longleftrightarrow> (\<forall>n. mmap_at m a n < limit)"
proof
  show "mmap_loop m a limit msgs = None \<Longrightarrow> \<forall>n. mmap_at m a n < limit"
  proof (rule ccontr)
    assume "\<not> (\<forall>n. mmap_at m a n < limit)"
    then have "limit \<le> mmap_at m a (LEAST n. limit \<le> mmap_at m a n)" by (auto simp: not_less intro: LeastI)
    moreover have "\<forall>i<(LEAST n. limit \<le> mmap_at m a n). mmap_at m a i < limit" by (auto dest: not_less_Least)
    ultimately show "mmap_loop m a limit msgs = None \<Longrightarrow> False" using mmap_loop_ends [of _ m a limit msgs] by fastforce
  qed
  show "\<forall>n. mmap_at m a n < limit \<Longrightarrow> mmap_loop m a limit msgs = None"
    using mmap_loop_reaches [of m a limit msgs] by (cases "mmap_loop m a limit msgs") (auto simp: not_le [symmetric])
qed

lemma boot_modules_first:
  "fst (fold (boot_module m md) [0..<n] st) = (if n = 0 then fst st else load32 m md)"
  by (induction n) (auto simp: boot_module_def Let_def)

lemma multiboot_info_ok:
  assumes "multiboot_ok m mbi"
  shows "\<exists>msgs. multiboot_info m mbi bb = Some (True, load32 m (mbi_mods_addr m mbi), msgs)"
proof -
  let ?flgs = "mbi_flags m mbi" and ?a = "mbi_mmap_addr m mbi"
  have f: "CHECK_FLAG ?flgs 3" "\<not> (CHECK_FLAG ?flgs 4 \<and> CHECK_FLAG ?flgs 5)" "unat (mbi_mods_count m mbi) \<noteq> 0"
    using assms by (simp_all add: multiboot_ok_def unat_eq_0)
  obtain msgs where first: "boot_modules m mbi (bb, boot_head m mbi) = (load32 m (mbi_mods_addr m mbi), msgs)"
    using boot_modules_first [of m "mbi_mods_addr m mbi" "unat (mbi_mods_count m mbi)" "(bb, boot_head m mbi)"] f
    by (metis boot_modules_def prod.collapse)
  have "\<exists>msgs'. boot_map m mbi (msgs @ boot_symbols m mbi) = Some msgs'"
  proof (cases "CHECK_FLAG ?flgs 6")
    case True
    with assms obtain n where n: "\<forall>i<n. mmap_at m ?a i < ?a + mbi_mmap_length m mbi"
      "?a + mbi_mmap_length m mbi \<le> mmap_at m ?a n" unfolding multiboot_ok_def by blast
    show ?thesis unfolding boot_map_def using mmap_loop_ends [OF n] True by auto
  qed (simp add: boot_map_def)
  then show ?thesis using f(2) by (auto simp: multiboot_info_def first)
qed

lemma boot_run:
  fixes s :: "'a boot_scheme"
  assumes st: "initial_statics s"
    and mb: "magic = MULTIBOOT_BOOTLOADER_MAGIC" "multiboot_info (ram (clear s)) addr (bb_start K) = Some (True, bb, msgs)"
    and r: "runnable (K\<lparr>bb_start := bb\<rparr>) s (shell_at K) w [] content"
    and k: "off_screen bb (Suc (image_size (vmem s) bb))" "off_screen (parse_at K) 220" "off_screen (shell_at K) (length w + 2)"
  shows "\<exists>e s'. entry L K magic addr s = Some (Running (K\<lparr>bb_start := bb\<rparr>) (Enters e), s') \<and>
    kernel_inv ((\<lambda>_. [])(0 := [0])) s' \<and> typed s' \<and>
    load_bytes (vmem s') FILE_START (length content) = content \<and> bytes32 e = take 4 (drop 24 content) \<and>
    (\<forall>k<16. line_enabled s' k \<longleftrightarrow> k \<in> {0, 1, 2, 8}) \<and>
    irq_handler s' = (replicate 16 None)[0 := Some Pit_handler, 1 := Some Kb_handler, 8 := Some Rtc_handler] \<and>
    idt_table s' = install_idt (stub_at L) (idt_table s) \<and> tss_desc_ptr s' = boot_tss L \<and> ldt_desc_ptr s' = boot_ldt L \<and>
    (tables_placed (page_table_at L) (vid_table_at L) \<and> video_blank s \<longrightarrow>
       user_tables (vid_table_at L) (pd s') (vid_attrs s'))"
proof -
  let ?K = "K\<lparr>bb_start := bb\<rparr>"
  define s0 where "s0 = log_printk msgs (clear s)"
  have s0: "initial_statics s0" "ram s0 = ram (clear s)" "idt_table s0 = idt_table s" "vidmem_pt s0 = vidmem_pt s"
    using st by (simp_all add: s0_def initial_statics_def log_printk_def clear_run buffers_declared_def)
  define s1 where "s1 = set_paging (page_table_at L) (vid_table_at L)
      ((load_descriptors L s0)\<lparr>idt_table := install_idt (stub_at L) (idt_table s0)\<rparr>)"
  obtain s2 s3 where run: "init_devices (dev ?K) s1 = Some s2"
    and s3: "s3 = clean_screen (upd_termi 0 (\<lambda>r. r\<lparr>run_shell := 1\<rparr>) (sti s2))"
      "table_inv (\<lambda>_. []) s3" "waiting_ok (\<lambda>_. []) 0 s3" "current_terminal s3 = 0" "run_shell (termis s3 ! 0) = 1"
      "\<forall>p. \<not> in_region VIDEO 4096 p \<longrightarrow> ram s3 p = ram s0 p" "\<forall>k<16. line_enabled s3 k \<longleftrightarrow> k \<in> {0, 1, 2, 8}"
      "typed s3"
      "irq_handler s3 = (replicate 16 None)[0 := Some Pit_handler, 1 := Some Kb_handler, 8 := Some Rtc_handler]"
      "idt_table s3 = install_idt (stub_at L) (idt_table s)" "tss_desc_ptr s3 = boot_tss L" "ldt_desc_ptr s3 = boot_ldt L"
      "pd s3 = pd s1" "vidmem_pt s3 = vidmem_pt s1"
    using boot_ready [OF s0(1) s1_def] unfolding s0(3) by blast
  have cl: "ram (clear s) p = ram s p" if "\<not> in_region VIDEO 4096 p" for p
  proof -
    have "\<not> in_region VIDEO 4000 p" using that in_region_mono [of VIDEO 4000 p 4096] by auto
    then show ?thesis by (simp add: clear_run store_bytes_other length_concat sum_list_replicate)
  qed
  have mem: "ram s3 p = ram s p" if "\<not> in_region VIDEO 4096 p" for p
    using s3(6) that s0(2) cl by simp
  have "runnable ?K s3 (shell_at ?K) w [] content"
  proof -
    have "runnable ?K s3 (shell_at K) w [] content"
      by (rule runnable_agree [OF r]) (use k in \<open>simp_all add: agree_off_screen mem\<close>)
    then show ?thesis by simp
  qed
  note rn = this
  have T: "stacks_ok (\<lambda>_. []) s3" "paging_ok s3" using s3(2) by (simp_all add: table_inv_def)
  obtain e s' where ex: "execute ?K (shell_at ?K) s3 = Some (Enters e, s')" "stacks_ok ((\<lambda>_. [])(0 := [0])) s'"
    "load_bytes (vmem s') FILE_START (length content) = content" "bytes32 e = take 4 (drop 24 content)"
    using execute_run [OF T _ _ rn, of 0 0] s3(4) by (auto simp: all_slots_def)
  note same = execute_mapped(1) [OF ex(1), unfolded mapped_same_def]
  have inv: "kernel_inv ((\<lambda>_. [])(0 := [0])) s'"
  proof -
    obtain i where i: "kernel_inv ((\<lambda>_. [])(0 := [i])) s'"
      using execute_inv [OF s3(2) _ _ s3(3) ex(1)] s3(4,5) by auto
    then have ok: "stacks_ok ((\<lambda>_. [])(0 := [i])) s'" by (simp add: kernel_inv_def table_inv_def)
    have "pcb_ptr s' ! 0 \<noteq> NULL" using stacks_okD(7) [OF ex(2), of 0] pcb_address_nonzero by (simp add: all_slots_def)
    then have "i = 0" using stacks_okD(7) [OF ok, of 0] by (simp add: all_slots_def split: if_splits)
    with i show ?thesis by simp
  qed
  have ld: "idt_table (load_descriptors L s0) = idt_table s0" by (simp add: load_descriptors_def)
  have "entry L K magic addr s = Some (Running ?K (Enters e), s')"
    using run ex(1) by (simp add: entry_def Let_def mb s0_def [symmetric] ld s1_def [symmetric] s3(1) [symmetric])
  moreover have "user_tables (vid_table_at L) (pd s') (vid_attrs s')"
    if "tables_placed (page_table_at L) (vid_table_at L)" "video_blank s"
  proof -
    have "video_blank ((load_descriptors L s0)\<lparr>idt_table := install_idt (stub_at L) (idt_table s0)\<rparr>)"
      using that(2) s0(4) by (simp add: video_blank_def load_descriptors_def)
    from set_paging_user [OF that(1) this] have "user_tables (vid_table_at L) (pd s1) (vid_attrs s1)" by (simp add: s1_def)
    moreover have "pd s' = pd s1" "vid_attrs s' = vid_attrs s1"
      using same s3(13,14) vid_attrs_cong [of s' s1] by simp_all
    ultimately show ?thesis by simp
  qed
  moreover have "line_enabled s' k = line_enabled s3 k" for k using same by (simp add: line_enabled_def)
  ultimately show ?thesis using inv ex same s3(7-12) boot_more [of s' s3] by simp
qed

section \<open>Properties\<close>

text \<open>C5: The kernel boots. From the static variables as the program starts and multiboot information
  with a first module, \<^verbatim>\<open>entry\<close> takes that module as the file system, starts the devices and enters
  the shell of the image: the program is in its page, the invariant of the kernel holds with the shell
  as the only process and in every state reached from there, where the lines stay wired and the variables of the terminals in their range,
  exactly the lines of the timer, the
  keyboard, the cascade and the clock are enabled, their handlers are installed, and the descriptor
  table entries decode to the local descriptor table and the task state segment.\<close>

theorem boot_starts_shell:
  fixes s :: "'a boot_scheme"
  assumes "initial_statics s" "magic = MULTIBOOT_BOOTLOADER_MAGIC" "multiboot_ok (ram (clear s)) addr"
    and "bb = load32 (ram (clear s)) (mbi_mods_addr (ram (clear s)) addr)"
    and "runnable (K\<lparr>bb_start := bb\<rparr>) s (shell_at K) w [] content"
    and "off_screen bb (Suc (image_size (vmem s) bb))" "off_screen (parse_at K) 220" "off_screen (shell_at K) (length w + 2)"
  shows "\<exists>e s'. entry L K magic addr s = Some (Running (K\<lparr>bb_start := bb\<rparr>) (Enters e), s') \<and>
    load_bytes (vmem s') FILE_START (length content) = content \<and> bytes32 e = take 4 (drop 24 content) \<and>
    kernel_inv ((\<lambda>_. [])(0 := [0])) s' \<and> (\<forall>t. (kernel_step (page_table_at L) (vid_table_at L))\<^sup>*\<^sup>* s' t \<longrightarrow> (\<exists>st. kernel_inv st t) \<and> wired t \<and> typed t) \<and>
    (\<forall>k<16. line_enabled s' k \<longleftrightarrow> k \<in> {0, 1, 2, 8}) \<and>
    irq_handler s' = (replicate 16 None)[0 := Some Pit_handler, 1 := Some Kb_handler, 8 := Some Rtc_handler] \<and>
    idt_table s' = install_idt (stub_at L) (idt_table s) \<and>
    describes (ldt_desc_ptr s') (ldt_at L) 31 0x00408200 \<and> describes (tss_desc_ptr s') (tss_at L) 103 0x00008900"
proof -
  obtain msgs where m: "multiboot_info (ram (clear s)) addr (bb_start K) = Some (True, bb, msgs)"
    using multiboot_info_ok [OF assms(3)] assms(4) by blast
  obtain e s' where "entry L K magic addr s = Some (Running (K\<lparr>bb_start := bb\<rparr>) (Enters e), s')"
    "kernel_inv ((\<lambda>_. [])(0 := [0])) s'" "typed s'" "load_bytes (vmem s') FILE_START (length content) = content"
    "bytes32 e = take 4 (drop 24 content)" "\<forall>k<16. line_enabled s' k \<longleftrightarrow> k \<in> {0, 1, 2, 8}"
    "irq_handler s' = (replicate 16 None)[0 := Some Pit_handler, 1 := Some Kb_handler, 8 := Some Rtc_handler]"
    "idt_table s' = install_idt (stub_at L) (idt_table s)" "tss_desc_ptr s' = boot_tss L" "ldt_desc_ptr s' = boot_ldt L"
    using boot_run [OF assms(1,2) m assms(5-8), of L] by blast
  moreover from this have "describes (ldt_desc_ptr s') (ldt_at L) 31 0x00408200"
    "describes (tss_desc_ptr s') (tss_at L) 103 0x00008900" by (simp_all add: boot_descriptors)
  moreover have w: "wired s'" using calculation(6,7) by (auto simp: wired_def kernel_handlers_def)
  moreover have "(kernel_step (page_table_at L) (vid_table_at L))\<^sup>*\<^sup>* s' t \<Longrightarrow> (\<exists>st. kernel_inv st t) \<and> wired t \<and> typed t" for t
    using kernel_steps_ok [of _ _ s' t True True "\<lambda>_ _. True"] calculation(2,3) w by (auto simp: kernel_ok_def)
  ultimately show ?thesis by blast
qed

text \<open>C2: Programs are isolated: in every state reached from the boot, the page tables let a store
  instruction of the running program through exactly for its own 4 MB and the four video pages and
  refuse it for every other address, and a store that goes through changes nothing but memory, in the
  4 MB frame of the program's own slot or in the video memory; the kernel's memory and every other
  program's stay as they are.  (The kernel itself, asked by \<^verbatim>\<open>read\<close> or \<^verbatim>\<open>getargs\<close>, writes wherever the
  program's unchecked pointer says.)\<close>

theorem program_isolation:
  fixes s :: "'a boot_scheme"
  assumes "initial_statics s" "magic = MULTIBOOT_BOOTLOADER_MAGIC" "multiboot_ok (ram (clear s)) addr"
    and "bb = load32 (ram (clear s)) (mbi_mods_addr (ram (clear s)) addr)"
    and "runnable (K\<lparr>bb_start := bb\<rparr>) s (shell_at K) w [] content"
    and "off_screen bb (Suc (image_size (vmem s) bb))" "off_screen (parse_at K) 220" "off_screen (shell_at K) (length w + 2)"
    and "tables_placed (page_table_at L) (vid_table_at L)" "video_blank s"
  shows "\<exists>e s'. entry L K magic addr s = Some (Running (K\<lparr>bb_start := bb\<rparr>) (Enters e), s') \<and>
    (\<forall>t. (kernel_step (page_table_at L) (vid_table_at L))\<^sup>*\<^sup>* s' t \<longrightarrow>
      (\<forall>a b. user_store (page_table_at L) (vid_table_at L) a b t = (if user_address a then Some (vwrite t a b) else None)) \<and>
      (\<exists>i<6. pcb_num t ! unat (current_terminal t) = proc_no i \<and>
        (\<forall>a b t'. user_store (page_table_at L) (vid_table_at L) a b t = Some t' \<longrightarrow> t' = t\<lparr>ram := ram t'\<rparr> \<and>
          (\<forall>p. ram t' p = ram t p \<or> in_region (EIGHT_MB + word_of_nat i * FOUR_MB) 4194304 p \<or>
             in_region VIDEO 16384 p))))"
proof -
  let ?step = "kernel_step (page_table_at L) (vid_table_at L)"
  let ?store = "user_store (page_table_at L) (vid_table_at L)"
  obtain msgs where m: "multiboot_info (ram (clear s)) addr (bb_start K) = Some (True, bb, msgs)"
    using multiboot_info_ok [OF assms(3)] assms(4) by blast
  obtain e s' where s': "entry L K magic addr s = Some (Running (K\<lparr>bb_start := bb\<rparr>) (Enters e), s')"
    "kernel_inv ((\<lambda>_. [])(0 := [0])) s'" "user_tables (vid_table_at L) (pd s') (vid_attrs s')"
    using boot_run [OF assms(1,2) m assms(5-8), of L] assms(9,10) by blast
  have "(\<forall>a b. ?store a b t = (if user_address a then Some (vwrite t a b) else None)) \<and>
      (\<exists>i<6. pcb_num t ! unat (current_terminal t) = proc_no i \<and>
        (\<forall>a b t'. ?store a b t = Some t' \<longrightarrow> t' = t\<lparr>ram := ram t'\<rparr> \<and>
          (\<forall>p. ram t' p = ram t p \<or> in_region (EIGHT_MB + word_of_nat i * FOUR_MB) 4194304 p \<or> in_region VIDEO 16384 p)))"
    if "?step\<^sup>*\<^sup>* s' t" for t
    using kernel_steps_ok [OF that, of False False "user_tables (vid_table_at L)"] s'(2,3)
    by (intro stores_confined [OF assms(9)]) (auto simp: kernel_ok_def)
  then show ?thesis using s'(1) by blast
qed

text \<open>The loop over the memory map returns exactly when some entry of the list lies at or behind the
  end that the loader announces; an entry whose size field makes the list cyclic (\<open>- 4\<close>, or any sum that
  wraps around) hangs the boot.\<close>

theorem boot_map_returns:
  "boot_map m mbi msgs = None \<longleftrightarrow>
     CHECK_FLAG (mbi_flags m mbi) 6 \<and>
     (\<forall>n. mmap_at m (mbi_mmap_addr m mbi) n < mbi_mmap_addr m mbi + mbi_mmap_length m mbi)"
  by (simp add: boot_map_def mmap_loop_ends_iff)

text \<open>The sample machine with multiboot information at \<open>0x2000\<close>: one module, the image at \<open>0x10000\<close>.\<close>

definition boot_ram :: mem where
  "boot_ram = exec_ram(0x2000 := 8, 0x2014 := 1, 0x2019 := 0x21, 0x2102 := 1)"

definition blank_seg :: seg_desc where
  "blank_seg = \<lparr>seg_lim_15_00 = 0, base_15_00 = 0, base_23_16 = 0, seg_type = 0, seg_sys = 0, seg_dpl = 0,
     seg_present = 0, seg_lim_19_16 = 0, seg_avail = 0, seg_reserved = 0, seg_opsize = 0, seg_granularity = 0,
     base_31_24 = 0\<rparr>"

definition sample_boot :: boot where
  "sample_boot = pcbs.extend (sample_exec\<lparr>ram := boot_ram\<rparr>)
     \<lparr>idt_table = \<lambda>_. \<lparr>offset_15_00 = 0, seg_selector = 0, reserved4 = 0, reserved3 = 0, reserved2 = 0, reserved1 = 0,
        gate_size = 0, reserved0 = 0, dpl = 0, present = 0, offset_31_16 = 0\<rparr>,
      ldt_desc_ptr = blank_seg, tss_desc_ptr = blank_seg, ldtr = 0, task_register = 0, tss_ldt = 0\<rparr>"

definition sample_linker :: linker where
  "sample_linker = \<lparr>stub_at = \<lambda>_. 0x400000, page_table_at = sample_pt_addr, vid_table_at = sample_vidmem_addr,
     ldt_at = 0x401000, tss_at = 0x401100\<rparr>"

lemma sample_boot_statics: "initial_statics sample_boot" "ram sample_boot = boot_ram"
  by (simp_all add: initial_statics_def buffers_declared_def sample_termi_def sample_boot_def pcbs.extend_def sample_exec_def sample_pcbs_def tty.extend_def
      sample_tty_def sample_pcb_def numeral_3_eq_3)

lemma clear_word: "separate a 4 VIDEO 4096 \<Longrightarrow> load32 (ram (clear s)) a = load32 (ram s) a"
proof -
  assume sep: "separate a 4 VIDEO 4096"
  have "\<not> in_region VIDEO 4000 x" if "in_region a 4 x" for x
    using separate_disjoint [OF sep that] in_region_mono [of VIDEO 4000 x 4096] by auto
  then show ?thesis by (intro load32_cong) (simp add: clear_run store_bytes_other length_concat sum_list_replicate)
qed

lemma boot_words:
  "load32 boot_ram 0x2000 = 8" "load32 boot_ram 0x2014 = 1" "load32 boot_ram 0x2018 = 0x2100" "load32 boot_ram 0x2100 = 0x10000"
  by (simp_all add: load32_def boot_ram_def exec_ram_def)

lemma sample_multiboot:
  "multiboot_ok (ram (clear sample_boot)) 0x2000"
  "load32 (ram (clear sample_boot)) (mbi_mods_addr (ram (clear sample_boot)) 0x2000) = 0x10000"
proof -
  have w: "load32 (ram (clear sample_boot)) 0x2000 = 8" "load32 (ram (clear sample_boot)) 0x2014 = 1"
    "load32 (ram (clear sample_boot)) 0x2018 = 0x2100" "load32 (ram (clear sample_boot)) 0x2100 = 0x10000"
    by (simp_all add: clear_word separate_def sample_boot_statics boot_words)
  then show "multiboot_ok (ram (clear sample_boot)) 0x2000"
    by (simp add: multiboot_ok_def mbi_flags_def mbi_mods_count_def CHECK_FLAG_def)
  show "load32 (ram (clear sample_boot)) (mbi_mods_addr (ram (clear sample_boot)) 0x2000) = 0x10000"
    by (simp add: mbi_mods_addr_def w)
qed

lemma sample_boot_runnable: "runnable sample_kargs sample_boot 0x5100 [0x6C, 0x73] [] sample_content"
proof -
  have "agree a n (vmem sample_exec) (vmem sample_boot)" if "unat a + n \<le> 8388608" "separate a n 0x2000 0x200" for a n
    unfolding agree_def
  proof (intro allI impI)
    fix x assume x: "in_region a n x"
    have "\<not> in_region 0x2000 0x200 x" using separate_disjoint [OF that(2) x] by blast
    then have "x \<noteq> 0x2000" "x \<noteq> 0x2014" "x \<noteq> 0x2019" "x \<noteq> 0x2102" by (auto simp: in_region_def)
    then show "vmem sample_boot x = vmem sample_exec x"
      using in_region_low [OF that(1) x] by (simp add: vmem_low sample_boot_statics boot_ram_def)
  qed
  then show ?thesis
    by (intro runnable_agree [OF sample_runnable(2)]) (simp_all add: sample_kargs_def sample_exec_sizes separate_def)
qed

lemma sample_boot_kargs: "(sample_kargs\<lparr>bb_start := 0\<rparr>)\<lparr>bb_start := 0x10000\<rparr> = sample_kargs"
  by (simp add: sample_kargs_def)

lemma sample_boot_shell:
  "runnable ((sample_kargs\<lparr>bb_start := 0\<rparr>)\<lparr>bb_start := 0x10000\<rparr>) sample_boot (shell_at (sample_kargs\<lparr>bb_start := 0\<rparr>))
     [0x6C, 0x73] [] sample_content"
  unfolding sample_boot_kargs using sample_boot_runnable by (simp add: sample_kargs_def)

lemma sample_boot_regions:
  "off_screen 0x10000 (Suc (image_size (vmem sample_boot) 0x10000))"
  "off_screen (parse_at (sample_kargs\<lparr>bb_start := 0\<rparr>)) 220"
  "off_screen (shell_at (sample_kargs\<lparr>bb_start := 0\<rparr>)) (length [0x6C, 0x73 :: u8] + 2)"
proof -
  have "image_size (vmem sample_boot) 0x10000 = 12288"
    by (simp add: image_size_def num_inodes_def num_blocks_def load32_def vmem_low sample_boot_statics boot_ram_def exec_ram_def)
  then show "off_screen 0x10000 (Suc (image_size (vmem sample_boot) 0x10000))" by (simp add: off_screen_def separate_def)
  show "off_screen (parse_at (sample_kargs\<lparr>bb_start := 0\<rparr>)) 220"
    "off_screen (shell_at (sample_kargs\<lparr>bb_start := 0\<rparr>)) (length [0x6C, 0x73 :: u8] + 2)"
    by (simp_all add: off_screen_def separate_def sample_kargs_def)
qed

lemma sample_boot_video: "tables_placed sample_pt_addr sample_vidmem_addr" "video_blank sample_boot"
proof -
  show "tables_placed sample_pt_addr sample_vidmem_addr" by (rule sample_placed)
  show "video_blank sample_boot"
    by (auto simp: video_blank_def sample_boot_def pcbs.extend_def sample_exec_def sample_pcbs_def tty.extend_def sample_tty_def
        set_paging_tables(3) mapped_vid_def sample_blank blank_entry_def)
qed

theorem boot_starts_shell_witness:
  "\<exists>e s'. entry sample_linker (sample_kargs\<lparr>bb_start := 0\<rparr>) 0x2BADB002 0x2000 sample_boot =
      Some (Running sample_kargs (Enters e), s') \<and>
    load_bytes (vmem s') FILE_START 40 = sample_content \<and> kernel_inv ((\<lambda>_. [])(0 := [0])) s' \<and>
    line_enabled s' 1 \<and> \<not> line_enabled s' 3"
  using boot_starts_shell [OF sample_boot_statics(1) refl sample_multiboot(1) sample_multiboot(2) [symmetric] sample_boot_shell
      sample_boot_regions, of sample_linker]
  unfolding sample_boot_kargs by (fastforce simp: sample_content_def)

theorem program_isolation_witness:
  "\<exists>e s'. entry sample_linker (sample_kargs\<lparr>bb_start := 0\<rparr>) 0x2BADB002 0x2000 sample_boot =
      Some (Running sample_kargs (Enters e), s') \<and>
    user_store sample_pt_addr sample_vidmem_addr 0x08048000 1 s' = Some (vwrite s' 0x08048000 1) \<and>
    user_store sample_pt_addr sample_vidmem_addr 0x00500000 1 s' = None"
proof -
  have L: "page_table_at sample_linker = sample_pt_addr" "vid_table_at sample_linker = sample_vidmem_addr"
    by (simp_all add: sample_linker_def)
  have "user_address 0x08048000" "\<not> user_address 0x00500000" by (simp_all add: user_address_def in_region_def)
  with program_isolation [OF sample_boot_statics(1) refl sample_multiboot(1) sample_multiboot(2) [symmetric] sample_boot_shell
      sample_boot_regions sample_boot_video(1) [folded L] sample_boot_video(2)]
  show ?thesis unfolding sample_boot_kargs L by (metis rtranclp.rtrancl_refl)
qed

end
