(* ===== verification/Stubs.thy ===== *)
theory Stubs
  imports Irq LibMem
begin

text \<open>
  The assembly of the kernel, \<^verbatim>\<open>src/idt_gate.S\<close>, \<^verbatim>\<open>src/int_syscall_wrapper.S\<close> and \<^verbatim>\<open>src/boot.S\<close>, instruction by
  instruction on a processor with registers and memory; the instructions are those these files use.  A stub saves
  the registers of the interrupted program on the kernel stack, where the C code reads them as a \<^verbatim>\<open>stack_register\<close>, and
  restores them; the theorems relate the two ends, and what the C code between them may do is their hypotheses.
  Of the flags only the interrupt flag is kept, by its bit; jumps and calls to a fixed label are the order of the
  lists, and \<^verbatim>\<open>lgdt\<close>, whose table is in \<open>Boot\<close>, is left out.
\<close>

section \<open>The processor\<close>

datatype reg = EAX | ECX | EDX | EBX | ESP | EBP | ESI | EDI

datatype seg = CS | SS | DS | ES | FS | GS

record cpu =
  c_regs :: "reg \<Rightarrow> u32"
  c_segs :: "seg \<Rightarrow> u16"
  c_eip :: u32
  c_eflags :: u32
  c_mem :: mem

definition load16 :: "mem \<Rightarrow> u32 \<Rightarrow> u16" where
  "load16 m a = ucast (m a) OR push_bit 8 (ucast (m (a + 1)))"

definition bytes16 :: "u16 \<Rightarrow> u8 list" where
  "bytes16 v = [ucast v, ucast (drop_bit 8 v)]"

definition push_bytes :: "u8 list \<Rightarrow> cpu \<Rightarrow> cpu" where
  "push_bytes bs c =
     (let sp = c_regs c ESP - word_of_nat (length bs)
      in c\<lparr>c_regs := (c_regs c)(ESP := sp), c_mem := store_bytes (c_mem c) sp bs\<rparr>)"

definition drop_stack :: "u32 \<Rightarrow> cpu \<Rightarrow> cpu" where
  "drop_stack n c = c\<lparr>c_regs := (c_regs c)(ESP := c_regs c ESP + n)\<rparr>"

definition set_reg :: "reg \<Rightarrow> u32 \<Rightarrow> cpu \<Rightarrow> cpu" where
  "set_reg r v c = c\<lparr>c_regs := (c_regs c)(r := v)\<rparr>"

definition set_seg :: "seg \<Rightarrow> u16 \<Rightarrow> cpu \<Rightarrow> cpu" where
  "set_seg x v c = c\<lparr>c_segs := (c_segs c)(x := v)\<rparr>"

definition pop_reg :: "reg \<Rightarrow> cpu \<Rightarrow> cpu" where
  "pop_reg r c = set_reg r (load32 (c_mem c) (c_regs c ESP)) (drop_stack 4 c)"

datatype instr =
    Push_imm u32 | Pushl reg | Pushw seg | Pushal | Pushf
  | Popl reg | Popw seg | Popal
  | Movl_imm u32 reg | Movw_imm u16 reg | Movw_seg reg seg
  | Movl_stack u32 reg | Movl_store reg u32 | Movl_load u32 reg
  | Addl_esp u32 | Orl u32 reg | Cli | Sti | Ljmp u16 | Leave | Ret | Iret

text \<open>\<^verbatim>\<open>pushal\<close> pushes the stack pointer as it was before and \<^verbatim>\<open>popal\<close> skips it.  \<^verbatim>\<open>iret\<close> also takes the
  stack of the interrupted program when it returns to a less privileged level.\<close>

definition privilege :: "u16 \<Rightarrow> nat" where
  "privilege s = unat (s AND 3)"

definition iret :: "cpu \<Rightarrow> cpu" where
  "iret c =
     (let sp = c_regs c ESP;
          m = c_mem c;
          cs = load16 m (sp + 4);
          d = drop_stack 12 (c\<lparr>c_eip := load32 m sp, c_eflags := load32 m (sp + 8)\<rparr>)
      in if privilege (c_segs c CS) < privilege cs
         then set_seg CS cs (set_seg SS (load16 m (sp + 16)) (set_reg ESP (load32 m (sp + 12)) d))
         else set_seg CS cs d)"

fun exec1 :: "instr \<Rightarrow> cpu \<Rightarrow> cpu" where
  "exec1 (Push_imm v) c = push_bytes (bytes32 v) c"
| "exec1 (Pushl r) c = push_bytes (bytes32 (c_regs c r)) c"
| "exec1 (Pushw x) c = push_bytes (bytes16 (c_segs c x)) c"
| "exec1 Pushal c =
     fold (\<lambda>v. push_bytes (bytes32 v)) (map (c_regs c) [EAX, ECX, EDX, EBX, ESP, EBP, ESI, EDI]) c"
| "exec1 Pushf c = push_bytes (bytes32 (c_eflags c)) c"
| "exec1 (Popl r) c = pop_reg r c"
| "exec1 (Popw x) c = drop_stack 2 (set_seg x (load16 (c_mem c) (c_regs c ESP)) c)"
| "exec1 Popal c =
     fold pop_reg [EBX, EDX, ECX, EAX] (drop_stack 4 (fold pop_reg [EDI, ESI, EBP] c))"
| "exec1 (Movl_imm v r) c = set_reg r v c"
| "exec1 (Movw_imm v r) c = set_reg r ((c_regs c r AND 0xFFFF0000) OR ucast v) c"
| "exec1 (Movw_seg r x) c = set_seg x (ucast (c_regs c r)) c"
| "exec1 (Movl_stack d r) c = set_reg r (load32 (c_mem c) (c_regs c ESP + d)) c"
| "exec1 (Movl_store r a) c = c\<lparr>c_mem := store32 (c_mem c) a (c_regs c r)\<rparr>"
| "exec1 (Movl_load a r) c = set_reg r (load32 (c_mem c) a) c"
| "exec1 (Addl_esp n) c = drop_stack n c"
| "exec1 (Orl v r) c = set_reg r (c_regs c r OR v) c"
| "exec1 Cli c = c\<lparr>c_eflags := unset_bit 9 (c_eflags c)\<rparr>"
| "exec1 Sti c = c\<lparr>c_eflags := set_bit 9 (c_eflags c)\<rparr>"
| "exec1 (Ljmp s) c = set_seg CS s c"
| "exec1 Leave c = pop_reg EBP (set_reg ESP (c_regs c EBP) c)"
| "exec1 Ret c = drop_stack 4 (c\<lparr>c_eip := load32 (c_mem c) (c_regs c ESP)\<rparr>)"
| "exec1 Iret c = iret c"

definition exec :: "instr list \<Rightarrow> cpu \<Rightarrow> cpu" where
  "exec is c = fold exec1 is c"

lemma exec_simps [simp]: "exec [] c = c" "exec (i # is) c = exec is (exec1 i c)" "exec (xs @ ys) c = exec ys (exec xs c)"
  by (simp_all add: exec_def)

text \<open>What the processor does by itself at an interrupt gate to level 0: it saves where it was, and if that was a
  program, takes the kernel stack from the task state segment first and saves the stack of the program there.\<close>

definition switch_stack :: "u32 \<Rightarrow> u16 \<Rightarrow> cpu \<Rightarrow> cpu" where
  "switch_stack esp0 ss0 c =
     (if privilege (c_segs c CS) = 0 then c
      else push_bytes (bytes32 (c_regs c ESP))
             (push_bytes (bytes32 (ucast (c_segs c SS))) (set_seg SS ss0 (set_reg ESP esp0 c))))"

definition enter_gate :: "u32 \<Rightarrow> u16 \<Rightarrow> u32 \<Rightarrow> cpu \<Rightarrow> cpu" where
  "enter_gate esp0 ss0 handler c =
     (let d = switch_stack esp0 ss0 c;
          d = push_bytes (bytes32 (c_eflags c)) d;
          d = push_bytes (bytes32 (ucast (c_segs c CS))) d;
          d = push_bytes (bytes32 (c_eip c)) d
      in set_seg CS 0x10 (d\<lparr>c_eip := handler, c_eflags := unset_bit 9 (c_eflags c)\<rparr>))"

section \<open>The stubs\<close>

text \<open>All three entries begin and end alike.\<close>

definition save_registers :: "instr list" where
  "save_registers = [Pushal, Pushw DS, Pushw ES, Pushw FS, Pushw GS]"

definition load_kernel_segments :: "instr list" where
  "load_kernel_segments =
     [Movw_imm 0x18 EAX, Movw_seg EAX DS, Movw_seg EAX ES, Movw_seg EAX FS, Movw_seg EAX GS]"

definition restore_segments :: "instr list" where
  "restore_segments = [Popw GS, Popw FS, Popw ES, Popw DS]"

definition interrupt_entry :: "nat \<Rightarrow> instr list" where
  "interrupt_entry n =
     [Push_imm 0, Push_imm (stub_number n)] @ save_registers @ load_kernel_segments @ [Sti]"

definition interrupt_exit :: "instr list" where
  "interrupt_exit = [Cli] @ restore_segments @ [Popal, Addl_esp 8, Iret]"

text \<open>The processor pushes an error code itself for some exceptions; the stubs that count on it push
  their number only.\<close>

definition exception_entry :: "nat \<Rightarrow> instr list" where
  "exception_entry n =
     [Cli] @ (if n \<in> {8, 10, 11, 12, 13, 14} then [] else [Push_imm 0]) @ [Push_imm (word_of_nat n)] @
     save_registers @ load_kernel_segments"

definition exception_exit :: "instr list" where
  "exception_exit = restore_segments @ [Popal, Addl_esp 8, Sti, Iret]"

text \<open>The system call: up to the test of the number, and what follows the call or the error.  The test itself and the
  jump through the table are \<open>system_call\<close> of \<open>Gates\<close>.\<close>

definition system_call_entry :: "instr list" where
  "system_call_entry =
     save_registers @ [Pushl EAX] @ load_kernel_segments @ [Popl EAX, Pushl EDX, Pushl ECX, Pushl EBX]"

definition system_call_exit :: "u32 \<Rightarrow> instr list" where
  "system_call_exit ec =
     [Addl_esp 12] @ restore_segments @ [Movl_store EAX ec, Popal, Movl_load ec EAX, Iret]"

definition context_switch :: "instr list" where
  "context_switch =
     [Cli, Movl_stack 4 EBX, Movl_imm 0x2B EAX, Movw_seg EAX GS, Movw_seg EAX FS, Movw_seg EAX DS, Movw_seg EAX ES,
      Pushl EAX, Push_imm 0x83FFFFC, Pushf, Popl EAX, Orl 0x200 EAX, Pushl EAX, Push_imm 0x23, Pushl EBX, Iret]"

definition halt_ret :: "instr list" where
  "halt_ret = [Leave, Ret]"

definition start :: "instr list" where
  "start =
     [Cli, Ljmp 0x10, Movl_imm 0x800000 ESP, Movw_imm 0x18 ECX, Movw_seg ECX SS, Movw_seg ECX DS, Movw_seg ECX ES,
      Movw_seg ECX FS, Movw_seg ECX GS, Pushl EBX, Pushl EAX]"

text \<open>How the C code finds its argument at the stack pointer.\<close>

definition read_stack_register :: "mem \<Rightarrow> u32 \<Rightarrow> stack_register" where
  "read_stack_register m a = \<lparr>r_gs = load16 m a, r_fs = load16 m (a + 2), r_es = load16 m (a + 4), r_ds = load16 m (a + 6),
     r_edi = load32 m (a + 8), r_esi = load32 m (a + 12), r_ebp = load32 m (a + 16), r_esp = load32 m (a + 20),
     r_edx = load32 m (a + 24), r_ecx = load32 m (a + 28), r_ebx = load32 m (a + 32), r_eax = load32 m (a + 36),
     interrupt_num = load32 m (a + 40), error_code = load32 m (a + 44)\<rparr>"

section \<open>The stack\<close>

text \<open>The bytes \<open>bs\<close> lie at an address; a processor holds them if that is its stack pointer.\<close>

definition lies :: "mem \<Rightarrow> u32 \<Rightarrow> u8 list \<Rightarrow> bool" where
  "lies m a bs \<longleftrightarrow> load_bytes m a (length bs) = bs"

definition holds :: "cpu \<Rightarrow> u8 list \<Rightarrow> bool" where
  "holds c bs \<longleftrightarrow> lies (c_mem c) (c_regs c ESP) bs"

lemma load_bytes_below:
  assumes "length bs + n \<le> 4294967296"
  shows "load_bytes (store_bytes m (a - word_of_nat (length bs)) bs) (a - word_of_nat (length bs)) (length bs + n) =
    bs @ load_bytes m a n"
proof -
  have "\<not> in_region (a - word_of_nat (length bs)) (length bs) x" if "in_region a n x" for x
  proof -
    have "x - (a - word_of_nat (length bs)) = word_of_nat (unat (x - a) + length bs)" by simp
    moreover have "unat (x - a) + length bs < 4294967296" using that assms by (simp add: in_region_def)
    ultimately have "unat (x - (a - word_of_nat (length bs))) = unat (x - a) + length bs"
      by (metis unat_u32_of_nat)
    then show ?thesis by (simp add: in_region_def)
  qed
  then have "load_bytes (store_bytes m (a - word_of_nat (length bs)) bs) a n = load_bytes m a n"
    using assms by (intro load_bytes_cong store_bytes_other) auto
  then show ?thesis using assms by (simp add: load_bytes_add load_store_bytes)
qed

lemma lies_agree: "lies m a bs \<Longrightarrow> agree a n m m' \<Longrightarrow> n = length bs \<Longrightarrow> length bs \<le> 1000 \<Longrightarrow> lies m' a bs"
  by (simp add: lies_def agree_load_bytes)

lemma append_eq_length: "length xs = length ys \<Longrightarrow> xs @ us = ys @ vs \<longleftrightarrow> xs = ys \<and> us = vs"
  by simp

lemma holds_push [simp]:
  "length bs' + length bs \<le> 4294967296 \<Longrightarrow> holds (push_bytes bs' c) (bs' @ bs) = holds c bs"
  by (simp add: holds_def lies_def push_bytes_def Let_def load_bytes_below)

lemma holds_nil [simp]: "holds c []"
  by (simp add: holds_def lies_def)

lemma holds_pushed [simp]: "length bs \<le> 1000 \<Longrightarrow> holds (push_bytes bs c) bs"
  using holds_push [of bs "[]" c] by simp

lemma holds_registers [simp]:
  "r \<noteq> ESP \<Longrightarrow> holds (set_reg r v c) bs = holds c bs" "holds (set_seg x w c) bs = holds c bs"
  "holds (c\<lparr>c_eflags := f\<rparr>) bs = holds c bs" "holds (c\<lparr>c_eip := e\<rparr>) bs = holds c bs"
  by (simp_all add: holds_def set_reg_def set_seg_def)

lemma cpu_fields [simp]:
  "c_regs (push_bytes bs c) = (c_regs c)(ESP := c_regs c ESP - word_of_nat (length bs))"
  "c_segs (push_bytes bs c) = c_segs c" "c_eflags (push_bytes bs c) = c_eflags c" "c_eip (push_bytes bs c) = c_eip c"
  "c_regs (set_reg r v c) = (c_regs c)(r := v)" "c_segs (set_reg r v c) = c_segs c"
  "c_eflags (set_reg r v c) = c_eflags c" "c_eip (set_reg r v c) = c_eip c" "c_mem (set_reg r v c) = c_mem c"
  "c_regs (set_seg x w c) = c_regs c" "c_segs (set_seg x w c) = (c_segs c)(x := w)"
  "c_eflags (set_seg x w c) = c_eflags c" "c_eip (set_seg x w c) = c_eip c" "c_mem (set_seg x w c) = c_mem c"
  "c_regs (drop_stack n c) = (c_regs c)(ESP := c_regs c ESP + n)" "c_segs (drop_stack n c) = c_segs c"
  "c_eflags (drop_stack n c) = c_eflags c" "c_eip (drop_stack n c) = c_eip c" "c_mem (drop_stack n c) = c_mem c"
  by (simp_all add: push_bytes_def set_reg_def set_seg_def drop_stack_def Let_def)

lemma length_bytes16 [simp]: "length (bytes16 v) = 2"
  by (simp add: bytes16_def)

lemma load32_iff: "load_bytes m a 4 = bytes32 v \<longleftrightarrow> load32 m a = v"
proof
  show "load_bytes m a 4 = bytes32 v \<Longrightarrow> load32 m a = v" by (simp add: load32_bytes bytes32_def join_bytes32)
qed (simp flip: bytes32_load32)

lemma load16_iff: "load_bytes m a 2 = bytes16 w \<longleftrightarrow> load16 m a = w"
proof -
  have "ucast (ucast w :: u8) OR push_bit 8 (ucast (ucast (drop_bit 8 w) :: u8)) = w"
    by (rule bit_word_eqI) (auto simp: bit_simps)
  moreover have "ucast (ucast b0 OR push_bit 8 (ucast b1) :: u16) = (b0 :: u8)"
    "ucast (drop_bit 8 (ucast b0 OR push_bit 8 (ucast b1) :: u16)) = (b1 :: u8)" for b0 b1
    by (rule bit_word_eqI, auto simp: bit_simps dest: bit_imp_le_length)+
  ultimately show ?thesis by (auto simp: load16_def bytes16_def numeral_2_eq_2)
qed

lemma load16_low: "load16 m a = ucast (load32 m a)"
  by (rule bit_word_eqI) (auto simp: load16_def load32_def bit_simps)

lemma lies_words [simp]:
  "lies m a (bytes32 v @ bs) \<longleftrightarrow> load32 m a = v \<and> lies m (a + 4) bs"
  "lies m a (bytes16 w @ bs) \<longleftrightarrow> load16 m a = w \<and> lies m (a + 2) bs"
  "lies m a (bytes32 v) \<longleftrightarrow> load32 m a = v"
proof -
  have "lies m a (ws @ bs) \<longleftrightarrow> load_bytes m a (length ws) = ws \<and> lies m (a + word_of_nat (length ws)) bs" for ws
    by (simp add: lies_def load_bytes_add append_eq_length)
  from this [of "bytes32 v"] this [of "bytes16 w"]
  show "lies m a (bytes32 v @ bs) \<longleftrightarrow> load32 m a = v \<and> lies m (a + 4) bs"
    "lies m a (bytes16 w @ bs) \<longleftrightarrow> load16 m a = w \<and> lies m (a + 2) bs"
    by (simp_all only: length_bytes16 length_bytes32 load16_iff load32_iff of_nat_numeral)
  show "lies m a (bytes32 v) \<longleftrightarrow> load32 m a = v"
    by (simp only: lies_def length_bytes32 load32_iff)
qed

section \<open>What the stubs leave on the stack\<close>

text \<open>The registers as the stubs save them, and above them what the processor saved.\<close>

definition saved_segments :: "cpu \<Rightarrow> u8 list" where
  "saved_segments c = bytes16 (c_segs c GS) @ bytes16 (c_segs c FS) @ bytes16 (c_segs c ES) @ bytes16 (c_segs c DS)"

definition saved_general :: "cpu \<Rightarrow> u8 list" where
  "saved_general c = bytes32 (c_regs c EDI) @ bytes32 (c_regs c ESI) @ bytes32 (c_regs c EBP) @ bytes32 (c_regs c ESP) @
     bytes32 (c_regs c EBX) @ bytes32 (c_regs c EDX) @ bytes32 (c_regs c ECX) @ bytes32 (c_regs c EAX)"

definition gate_frame :: "cpu \<Rightarrow> u8 list" where
  "gate_frame c = bytes32 (c_eip c) @ bytes32 (ucast (c_segs c CS)) @ bytes32 (c_eflags c) @
     (if privilege (c_segs c CS) = 0 then [] else bytes32 (c_regs c ESP) @ bytes32 (ucast (c_segs c SS)))"

definition gate_sp :: "u32 \<Rightarrow> cpu \<Rightarrow> u32" where
  "gate_sp esp0 c = (if privilege (c_segs c CS) = 0 then c_regs c ESP - 12 else esp0 - 20)"

lemma lengths [simp]: "length (saved_segments c) = 8" "length (saved_general c) = 32"
  by (simp_all add: saved_segments_def saved_general_def)

lemma length_gate_frame: "length (gate_frame c) = (if privilege (c_segs c CS) = 0 then 12 else 20)"
  by (simp add: gate_frame_def)

lemma enter_gate_frame: "holds (enter_gate esp0 ss0 h c) (gate_frame c)"
  by (simp add: enter_gate_def switch_stack_def gate_frame_def Let_def)

lemma enter_gate_fields [simp]:
  "c_regs (enter_gate esp0 ss0 h c) = (c_regs c)(ESP := gate_sp esp0 c)"
  "x \<noteq> SS \<Longrightarrow> x \<noteq> CS \<Longrightarrow> c_segs (enter_gate esp0 ss0 h c) x = c_segs c x"
  "c_segs (enter_gate esp0 ss0 h c) CS = 0x10"
  "privilege (c_segs c CS) = 0 \<Longrightarrow> c_segs (enter_gate esp0 ss0 h c) SS = c_segs c SS"
  by (simp_all add: enter_gate_def switch_stack_def gate_sp_def Let_def fun_eq_iff)

lemma save_registers_frame:
  "length bs \<le> 1000 \<Longrightarrow> holds (exec save_registers c) (saved_segments c @ saved_general c @ bs) = holds c bs"
  by (simp add: save_registers_def saved_segments_def saved_general_def)

lemma save_registers_fields [simp]:
  "c_regs (exec save_registers c) = (c_regs c)(ESP := c_regs c ESP - 40)"
  "c_segs (exec save_registers c) = c_segs c"
  by (simp_all add: save_registers_def fun_eq_iff)

lemma load_kernel_segments_fields [simp]:
  "c_regs (exec load_kernel_segments c) ESP = c_regs c ESP"
  "r \<noteq> EAX \<Longrightarrow> c_regs (exec load_kernel_segments c) r = c_regs c r"
  "c_segs (exec load_kernel_segments c) CS = c_segs c CS" "c_segs (exec load_kernel_segments c) SS = c_segs c SS"
  "c_mem (exec load_kernel_segments c) = c_mem c"
  "holds (exec load_kernel_segments c) bs = holds c bs"
  by (simp_all add: load_kernel_segments_def)

text \<open>What each part of a way out takes from the stack.\<close>

lemma restore_segments_frame:
  assumes "holds d (saved_segments c @ bs)"
  shows "exec restore_segments d = d\<lparr>c_regs := (c_regs d)(ESP := c_regs d ESP + 8),
      c_segs := (c_segs d)(GS := c_segs c GS, FS := c_segs c FS, ES := c_segs c ES, DS := c_segs c DS)\<rparr>"
    "holds (exec restore_segments d) bs"
  using assms
  by (simp_all add: saved_segments_def restore_segments_def set_seg_def drop_stack_def holds_def add.assoc)

lemma pop_reg_eq:
  "r \<noteq> ESP \<Longrightarrow> pop_reg r c =
   c\<lparr>c_regs := (c_regs c)(ESP := c_regs c ESP + 4, r := load32 (c_mem c) (c_regs c ESP))\<rparr>"
  by (simp add: pop_reg_def set_reg_def drop_stack_def)

lemma reg_fun_eq: "f EAX = g EAX \<Longrightarrow> f ECX = g ECX \<Longrightarrow> f EDX = g EDX \<Longrightarrow> f EBX = g EBX \<Longrightarrow> f ESP = g ESP \<Longrightarrow>
  f EBP = g EBP \<Longrightarrow> f ESI = g ESI \<Longrightarrow> f EDI = g EDI \<Longrightarrow> f = g"
  by (rule ext, case_tac x) simp_all

lemma popal_frame:
  assumes "holds d (saved_general c @ bs)"
  shows "exec1 Popal d = d\<lparr>c_regs := (c_regs c)(ESP := c_regs d ESP + 32)\<rparr>" "holds (exec1 Popal d) bs"
proof -
  define g where "g = c_regs (exec1 Popal d)"
  have d: "exec1 Popal d = d\<lparr>c_regs := g\<rparr>"
    by (simp add: g_def pop_reg_eq drop_stack_def)
  have "g = (c_regs c)(ESP := c_regs d ESP + 32)"
    using assms unfolding g_def
    by (intro reg_fun_eq) (simp_all add: saved_general_def holds_def pop_reg_eq drop_stack_def add.assoc)
  then show *: "exec1 Popal d = d\<lparr>c_regs := (c_regs c)(ESP := c_regs d ESP + 32)\<rparr>"
    by (simp only: d)
  show "holds (exec1 Popal d) bs"
    using assms unfolding * by (simp add: saved_general_def holds_def add.assoc)
qed

lemma ucast_ucast16 [simp]: "ucast (ucast s :: u32) = (s :: u16)"
  by (rule bit_word_eqI) (auto simp: bit_simps)

text \<open>To a program \<^verbatim>\<open>iret\<close> restores the stack too; inside the kernel it must be the stack of the frame.\<close>

definition same_stack :: "u32 \<Rightarrow> cpu \<Rightarrow> cpu \<Rightarrow> bool" where
  "same_stack n d c \<longleftrightarrow> privilege (c_segs c CS) = 0 \<longrightarrow> c_regs d ESP + n = c_regs c ESP \<and> c_segs d SS = c_segs c SS"

lemma iret_frame:
  assumes "holds d (gate_frame c)" "privilege (c_segs d CS) = 0" "same_stack 12 d c"
  shows "iret d = d\<lparr>c_regs := (c_regs d)(ESP := c_regs c ESP), c_segs := (c_segs d)(SS := c_segs c SS, CS := c_segs c CS),
      c_eip := c_eip c, c_eflags := c_eflags c\<rparr>"
proof (cases "privilege (c_segs c CS) = 0")
  case True
  then have "(c_segs d)(SS := c_segs c SS, CS := c_segs c CS) = (c_segs d)(CS := c_segs c CS)"
    using assms(3) by (simp add: same_stack_def fun_eq_iff)
  with True assms show ?thesis
    by (simp add: gate_frame_def holds_def iret_def load16_low set_seg_def drop_stack_def Let_def same_stack_def
        add.commute)
next
  case False
  with assms show ?thesis
    by (simp add: gate_frame_def holds_def iret_def load16_low set_seg_def set_reg_def drop_stack_def add.assoc
        Let_def)
qed

section \<open>Interrupts and exceptions\<close>

text \<open>What lies between the saved registers and the frame of the processor is the number of the stub and
  the error code; \<open>sp\<close> is the stack pointer \<^verbatim>\<open>pushal\<close> stored.\<close>

definition trap_frame :: "u32 \<Rightarrow> u32 \<Rightarrow> u32 \<Rightarrow> cpu \<Rightarrow> u8 list" where
  "trap_frame num code sp c =
     saved_segments c @ saved_general (set_reg ESP sp c) @ bytes32 num @ bytes32 code @ gate_frame c"

lemma length_trap_frame: "length (trap_frame num code sp c) = 48 + length (gate_frame c)"
  by (simp add: trap_frame_def)

definition registers_of :: "u32 \<Rightarrow> u32 \<Rightarrow> u32 \<Rightarrow> cpu \<Rightarrow> stack_register" where
  "registers_of num code sp c = \<lparr>r_gs = c_segs c GS, r_fs = c_segs c FS, r_es = c_segs c ES, r_ds = c_segs c DS,
     r_edi = c_regs c EDI, r_esi = c_regs c ESI, r_ebp = c_regs c EBP, r_esp = sp,
     r_edx = c_regs c EBX, r_ecx = c_regs c EDX, r_ebx = c_regs c ECX, r_eax = c_regs c EAX,
     interrupt_num = num, error_code = code\<rparr>"

lemma trap_frame_registers:
  "lies m a (trap_frame num code sp c) \<Longrightarrow> read_stack_register m a = registers_of num code sp c"
  by (simp add: trap_frame_def saved_segments_def saved_general_def read_stack_register_def registers_of_def
      add.assoc)

definition pop_trap :: "instr list" where
  "pop_trap = restore_segments @ [Popal, Addl_esp 8]"

lemma pop_trap_frame:
  assumes d: "holds d (trap_frame num code sp c)" and p: "privilege (c_segs d CS) = 0" "same_stack 60 d c"
  shows "iret (exec pop_trap d) = c\<lparr>c_mem := c_mem d\<rparr>"
proof -
  define d1 where "d1 = exec restore_segments d"
  define d2 where "d2 = exec1 Popal d1"
  note r = restore_segments_frame [OF d [unfolded trap_frame_def], folded d1_def]
  note q = popal_frame [OF r(2), folded d2_def]
  have "holds (drop_stack 8 d2) (gate_frame c)"
    using q(2) by (simp add: holds_def drop_stack_def add.assoc)
  moreover have "privilege (c_segs (drop_stack 8 d2) CS) = 0" "same_stack 12 (drop_stack 8 d2) c"
    using p by (simp_all add: same_stack_def q(1) r(1) add.assoc)
  ultimately have "iret (drop_stack 8 d2) = (drop_stack 8 d2)
      \<lparr>c_regs := (c_regs (drop_stack 8 d2))(ESP := c_regs c ESP),
       c_segs := (c_segs (drop_stack 8 d2))(SS := c_segs c SS, CS := c_segs c CS), c_eip := c_eip c, c_eflags := c_eflags c\<rparr>"
    by (rule iret_frame)
  also have "\<dots> = c\<lparr>c_mem := c_mem d\<rparr>"
  proof -
    have "(c_segs (drop_stack 8 d2))(SS := c_segs c SS, CS := c_segs c CS) = c_segs c"
    proof
      fix x show "((c_segs (drop_stack 8 d2))(SS := c_segs c SS, CS := c_segs c CS)) x = c_segs c x"
        by (cases x) (simp_all add: q(1) r(1))
    qed
    then show ?thesis
      by (simp add: q(1) r(1) drop_stack_def set_reg_def)
  qed
  finally show ?thesis
    by (simp add: pop_trap_def d1_def d2_def)
qed

lemma interrupt_entry_frame:
  "holds (exec (interrupt_entry n) (enter_gate esp0 ss0 h c)) (trap_frame (stub_number n) 0 (gate_sp esp0 c - 8) c)"
  "c_regs (exec (interrupt_entry n) (enter_gate esp0 ss0 h c)) ESP = gate_sp esp0 c - 48"
proof -
  define d where "d = push_bytes (bytes32 (stub_number n)) (push_bytes (bytes32 0) (enter_gate esp0 ss0 h c))"
  have "holds d (bytes32 (stub_number n) @ bytes32 0 @ gate_frame c)"
    by (cases "privilege (c_segs c CS) = 0") (simp_all add: d_def enter_gate_frame length_gate_frame)
  then have "holds (exec save_registers d) (saved_segments d @ saved_general d @ bytes32 (stub_number n) @ bytes32 0 @ gate_frame c)"
    by (subst save_registers_frame) (simp_all add: length_gate_frame)
  moreover have "saved_segments d = saved_segments c" "saved_general d = saved_general (set_reg ESP (gate_sp esp0 c - 8) c)"
    by (simp_all add: d_def saved_segments_def saved_general_def)
  ultimately show "holds (exec (interrupt_entry n) (enter_gate esp0 ss0 h c)) (trap_frame (stub_number n) 0 (gate_sp esp0 c - 8) c)"
    by (simp add: interrupt_entry_def trap_frame_def d_def)
  show "c_regs (exec (interrupt_entry n) (enter_gate esp0 ss0 h c)) ESP = gate_sp esp0 c - 48"
    by (simp add: interrupt_entry_def)
qed

lemma interrupt_entry_fields:
  "c_regs (exec (interrupt_entry n) (enter_gate esp0 ss0 h c)) ESP = gate_sp esp0 c - 48"
  "c_segs (exec (interrupt_entry n) (enter_gate esp0 ss0 h c)) CS = 0x10"
  "c_segs (exec (interrupt_entry n) (enter_gate esp0 ss0 h c)) SS = c_segs (enter_gate esp0 ss0 h c) SS"
  by (simp_all add: interrupt_entry_def)

lemma handler_stack:
  assumes "c_regs c1 ESP = gate_sp esp0 c - 48" "c_segs c1 CS = 0x10" "c_segs c1 SS = c_segs (enter_gate esp0 ss0 h c) SS"
    and "c_regs c2 ESP = c_regs c1 ESP" "c_segs c2 CS = c_segs c1 CS" "c_segs c2 SS = c_segs c1 SS"
  shows "privilege (c_segs c2 CS) = 0" "same_stack 60 c2 c"
  using assms by (simp_all add: same_stack_def gate_sp_def) (simp add: privilege_def)

lemma trap_frame_kept:
  assumes "holds c1 (trap_frame num code sp c)" "c_regs c2 ESP = c_regs c1 ESP"
    and "agree (c_regs c1 ESP) (48 + length (gate_frame c)) (c_mem c1) (c_mem c2)"
  shows "holds c2 (trap_frame num code sp c)"
proof -
  have small: "length (trap_frame num code sp c) \<le> 1000"
    by (simp add: length_trap_frame length_gate_frame)
  show ?thesis
    using lies_agree [OF assms(1) [unfolded holds_def] assms(3) length_trap_frame [symmetric] small]
    by (simp add: holds_def assms(2))
qed

text \<open>C31: an interrupt is transparent, of a program and of the kernel.  The handler in C is called with a
  \<^verbatim>\<open>stack_register\<close> of the interrupted registers and the number of its line, although the three fields \<^verbatim>\<open>edx\<close>, \<^verbatim>\<open>ecx\<close> and
  \<^verbatim>\<open>ebx\<close> hold EBX, EDX and ECX; and if it comes back with its stack pointer, its code and stack segments and those
  bytes of the stack as they were, whatever it did to the other registers, what was interrupted goes on with all its registers,
  segments and flags where it was.\<close>

theorem interrupt_transparent:
  assumes "c1 = exec (interrupt_entry n) (enter_gate esp0 ss0 h c)"
    and "c_regs c2 ESP = c_regs c1 ESP" "c_segs c2 CS = c_segs c1 CS" "c_segs c2 SS = c_segs c1 SS"
    and "agree (c_regs c1 ESP) (48 + length (gate_frame c)) (c_mem c1) (c_mem c2)"
  shows "read_stack_register (c_mem c1) (c_regs c1 ESP) = registers_of (stub_number n) 0 (gate_sp esp0 c - 8) c \<and>
    exec interrupt_exit c2 = c\<lparr>c_mem := c_mem c2\<rparr>"
proof
  have f: "holds c1 (trap_frame (stub_number n) 0 (gate_sp esp0 c - 8) c)"
    unfolding assms(1) by (rule interrupt_entry_frame)
  then show "read_stack_register (c_mem c1) (c_regs c1 ESP) = registers_of (stub_number n) 0 (gate_sp esp0 c - 8) c"
    by (intro trap_frame_registers) (simp add: holds_def)
  have "holds (exec1 Cli c2) (trap_frame (stub_number n) 0 (gate_sp esp0 c - 8) c)"
    using trap_frame_kept [OF f assms(2,5)] by simp
  moreover have "privilege (c_segs c2 CS) = 0" "same_stack 60 c2 c"
    using handler_stack [OF interrupt_entry_fields(1,2,3) assms(2,3,4) [unfolded assms(1)]] by simp_all
  ultimately have "iret (exec pop_trap (exec1 Cli c2)) = c\<lparr>c_mem := c_mem (exec1 Cli c2)\<rparr>"
    by (intro pop_trap_frame) (simp_all add: same_stack_def)
  then show "exec interrupt_exit c2 = c\<lparr>c_mem := c_mem c2\<rparr>"
    by (simp add: interrupt_exit_def pop_trap_def)
qed

text \<open>A program that has just begun, and a handler that loses the registers it may use.\<close>

definition user_cpu :: cpu where
  "user_cpu = \<lparr>c_regs = (\<lambda>_. 7)(ESP := 0x83FFFFC),
     c_segs = (\<lambda>_. 0x2B)(CS := 0x23), c_eip = 0x8048000, c_eflags = 0x202, c_mem = (\<lambda>_. 0)\<rparr>"

definition after_handler :: "cpu \<Rightarrow> cpu" where
  "after_handler c = set_reg EAX 1 (set_reg ECX 2 (set_reg EDX 3 c))"

lemma interrupt_transparent_witness:
  "exec interrupt_exit (after_handler (exec (interrupt_entry 1) (enter_gate 0x7FE000 0x18 0x400000 user_cpu))) =
   user_cpu\<lparr>c_mem := c_mem (exec (interrupt_entry 1) (enter_gate 0x7FE000 0x18 0x400000 user_cpu))\<rparr>"
  using interrupt_transparent [OF refl,
      of "after_handler (exec (interrupt_entry 1) (enter_gate 0x7FE000 0x18 0x400000 user_cpu))" 1 "0x7FE000" "0x18" "0x400000"
        user_cpu]
  by (simp add: after_handler_def)

text \<open>The processor pushes an error code of its own for these exceptions.  It does so for 17 too, where the
  stub pushes a second one.\<close>

definition error_code_vectors :: "nat set" where
  "error_code_vectors = {8, 10, 11, 12, 13, 14, 17}"

definition raise_exception :: "nat \<Rightarrow> u32 \<Rightarrow> u32 \<Rightarrow> u16 \<Rightarrow> u32 \<Rightarrow> cpu \<Rightarrow> cpu" where
  "raise_exception n code esp0 ss0 h c =
     (if n \<in> error_code_vectors then push_bytes (bytes32 code) else id) (enter_gate esp0 ss0 h c)"

lemma exception_entry_push:
  assumes "holds e (bytes32 code @ bs)" "length bs \<le> 500" "c_regs e = (c_regs c)(ESP := sp + 4)"
    and "\<And>x. x \<in> {DS, ES, FS, GS} \<Longrightarrow> c_segs e x = c_segs c x"
  shows "holds (exec (save_registers @ load_kernel_segments) (push_bytes (bytes32 num) e))
    (saved_segments c @ saved_general (set_reg ESP sp c) @ bytes32 num @ bytes32 code @ bs)"
proof -
  define d where "d = push_bytes (bytes32 num) e"
  have "holds d (bytes32 num @ bytes32 code @ bs)"
    using assms(1,2) by (simp add: d_def)
  then have "holds (exec save_registers d) (saved_segments d @ saved_general d @ bytes32 num @ bytes32 code @ bs)"
    using assms(2) by (subst save_registers_frame) simp_all
  moreover have "saved_segments d = saved_segments c" "saved_general d = saved_general (set_reg ESP sp c)"
    using assms(3,4) by (simp_all add: d_def saved_segments_def saved_general_def)
  ultimately show ?thesis
    by (simp add: d_def)
qed

lemma exception_frame:
  assumes "n \<noteq> 17"
  shows "holds (exec (exception_entry n) (raise_exception n code esp0 ss0 h c))
      (trap_frame (word_of_nat n) (if n \<in> error_code_vectors then code else 0) (gate_sp esp0 c - 8) c)"
    "c_regs (exec (exception_entry n) (raise_exception n code esp0 ss0 h c)) ESP = gate_sp esp0 c - 48"
    "c_segs (exec (exception_entry n) (raise_exception n code esp0 ss0 h c)) CS = 0x10"
    "c_segs (exec (exception_entry n) (raise_exception n code esp0 ss0 h c)) SS = c_segs (enter_gate esp0 ss0 h c) SS"
proof -
  let ?k = "if n \<in> error_code_vectors then code else 0"
  let ?e = "push_bytes (bytes32 ?k) (exec1 Cli (enter_gate esp0 ss0 h c))"
  have push: "push_bytes bs (d\<lparr>c_eflags := f\<rparr>) = (push_bytes bs d)\<lparr>c_eflags := f\<rparr>" for bs d f
    by (simp add: push_bytes_def Let_def)
  have e: "exec (exception_entry n) (raise_exception n code esp0 ss0 h c) =
      exec (save_registers @ load_kernel_segments) (push_bytes (bytes32 (word_of_nat n)) ?e)"
    using assms by (auto simp: exception_entry_def raise_exception_def error_code_vectors_def push)
  have "holds ?e (bytes32 ?k @ gate_frame c)"
    by (cases "privilege (c_segs c CS) = 0") (simp_all add: enter_gate_frame length_gate_frame)
  then show "holds (exec (exception_entry n) (raise_exception n code esp0 ss0 h c))
      (trap_frame (word_of_nat n) ?k (gate_sp esp0 c - 8) c)"
    unfolding e trap_frame_def by (rule exception_entry_push) (auto simp: length_gate_frame)
  show "c_regs (exec (exception_entry n) (raise_exception n code esp0 ss0 h c)) ESP = gate_sp esp0 c - 48"
    "c_segs (exec (exception_entry n) (raise_exception n code esp0 ss0 h c)) CS = 0x10"
    "c_segs (exec (exception_entry n) (raise_exception n code esp0 ss0 h c)) SS = c_segs (enter_gate esp0 ss0 h c) SS"
    unfolding e by simp_all
qed

text \<open>An exception.  The handler in C sees the registers, the number of the exception and
  the error code of the processor, or 0 if there is none; the way back is that of an interrupt.  Exception 17
  is left out: its stub pushes one word too many.\<close>

theorem exception_transparent:
  assumes "c1 = exec (exception_entry n) (raise_exception n code esp0 ss0 h c)" "n \<noteq> 17"
    and "c_regs c2 ESP = c_regs c1 ESP" "c_segs c2 CS = c_segs c1 CS" "c_segs c2 SS = c_segs c1 SS"
    and "agree (c_regs c1 ESP) (48 + length (gate_frame c)) (c_mem c1) (c_mem c2)"
  shows "read_stack_register (c_mem c1) (c_regs c1 ESP) =
      registers_of (word_of_nat n) (if n \<in> error_code_vectors then code else 0) (gate_sp esp0 c - 8) c \<and>
    exec exception_exit c2 = c\<lparr>c_mem := c_mem c2\<rparr>"
proof
  let ?k = "if n \<in> error_code_vectors then code else 0"
  have f: "holds c1 (trap_frame (word_of_nat n) ?k (gate_sp esp0 c - 8) c)"
    unfolding assms(1) by (rule exception_frame) (rule assms(2))
  then show "read_stack_register (c_mem c1) (c_regs c1 ESP) = registers_of (word_of_nat n) ?k (gate_sp esp0 c - 8) c"
    by (intro trap_frame_registers) (simp add: holds_def)
  have "privilege (c_segs c2 CS) = 0" "same_stack 60 c2 c"
    using handler_stack [OF exception_frame(2-4) assms(3,4,5) [unfolded assms(1)]] assms(2) by simp_all
  with trap_frame_kept [OF f assms(3,6)] have "iret (exec pop_trap c2) = c\<lparr>c_mem := c_mem c2\<rparr>"
    by (rule pop_trap_frame)
  moreover have "iret (d\<lparr>c_eflags := e\<rparr>) = iret d" for d e
    by (simp add: iret_def Let_def set_seg_def set_reg_def drop_stack_def)
  ultimately show "exec exception_exit c2 = c\<lparr>c_mem := c_mem c2\<rparr>"
    by (simp add: exception_exit_def pop_trap_def)
qed

text \<open>At exception 17 the extra word takes the place of the error code, and the processor's lies where the way out
  expects the address to return to.\<close>

lemma alignment_check_frame:
  assumes "c1 = exec (exception_entry 17) (raise_exception 17 code esp0 ss0 h c)"
  shows "holds c1 (saved_segments c @ saved_general (set_reg ESP (gate_sp esp0 c - 12) c) @ bytes32 17 @ bytes32 0 @
    bytes32 code @ gate_frame c)"
proof -
  let ?e = "push_bytes (bytes32 0) (exec1 Cli (push_bytes (bytes32 code) (enter_gate esp0 ss0 h c)))"
  have "holds ?e (bytes32 0 @ bytes32 code @ gate_frame c)"
    by (cases "privilege (c_segs c CS) = 0") (simp_all add: enter_gate_frame length_gate_frame)
  then have "holds (exec (save_registers @ load_kernel_segments) (push_bytes (bytes32 17) ?e))
      (saved_segments c @ saved_general (set_reg ESP (gate_sp esp0 c - 12) c) @ bytes32 17 @ bytes32 0 @ bytes32 code @ gate_frame c)"
    by (rule exception_entry_push) (auto simp: length_gate_frame)
  then show ?thesis
    by (simp add: assms exception_entry_def raise_exception_def error_code_vectors_def)
qed

section \<open>System calls\<close>

text \<open>The frame of a system call has no number and no error code; below it lie the three arguments.\<close>

lemma system_call_frame:
  assumes "c1 = exec system_call_entry (enter_gate esp0 ss0 h c)" "privilege (c_segs c CS) = 3"
  shows "holds c1 (bytes32 (c_regs c EBX) @ bytes32 (c_regs c ECX) @ bytes32 (c_regs c EDX) @
      saved_segments c @ saved_general (set_reg ESP (esp0 - 20) c) @ gate_frame c)"
    and "c_regs c1 EAX = c_regs c EAX" "c_regs c1 ESP = esp0 - 72"
proof -
  define d where "d = exec save_registers (enter_gate esp0 ss0 h c)"
  define e where "e = exec load_kernel_segments (push_bytes (bytes32 (c_regs d EAX)) d)"
  have regs: "c_regs d = (c_regs c)(ESP := esp0 - 60)"
    using assms(2) by (simp add: d_def gate_sp_def)
  have "holds d (saved_segments (enter_gate esp0 ss0 h c) @ saved_general (enter_gate esp0 ss0 h c) @ gate_frame c)"
    unfolding d_def by (subst save_registers_frame) (simp_all add: enter_gate_frame length_gate_frame)
  then have d: "holds d (saved_segments c @ saved_general (set_reg ESP (esp0 - 20) c) @ gate_frame c)"
    using assms(2) by (simp add: saved_segments_def saved_general_def gate_sp_def)
  then have "holds e (bytes32 (c_regs d EAX) @ saved_segments c @ saved_general (set_reg ESP (esp0 - 20) c) @ gate_frame c)"
    using assms(2) by (simp add: e_def length_gate_frame)
  then have p: "holds (pop_reg EAX e) (saved_segments c @ saved_general (set_reg ESP (esp0 - 20) c) @ gate_frame c)"
    "c_regs (pop_reg EAX e) EAX = c_regs c EAX"
    by (simp_all add: holds_def pop_reg_eq regs)
  have r: "c_regs (pop_reg EAX e) = (c_regs c)(ESP := esp0 - 60)"
    using p(2) by (intro reg_fun_eq) (simp_all add: pop_reg_eq e_def regs)
  show "holds c1 (bytes32 (c_regs c EBX) @ bytes32 (c_regs c ECX) @ bytes32 (c_regs c EDX) @
      saved_segments c @ saved_general (set_reg ESP (esp0 - 20) c) @ gate_frame c)"
    and "c_regs c1 EAX = c_regs c EAX" "c_regs c1 ESP = esp0 - 72"
    using p(1) assms(2) unfolding assms(1)
    by (simp_all add: system_call_entry_def r length_gate_frame flip: d_def e_def)
qed

lemma popal_memory [simp]: "c_mem (exec1 Popal d) = c_mem d"
  by (simp add: pop_reg_def)

lemma system_call_exit_frame:
  assumes d: "holds (drop_stack 12 d) (saved_segments c @ saved_general (set_reg ESP sp c) @ gate_frame c)"
    and ec: "separate (c_regs d ESP + 12) 60 ec 4"
    and p: "privilege (c_segs d CS) = 0" "privilege (c_segs c CS) = 3"
  shows "exec (system_call_exit ec) d =
    c\<lparr>c_regs := (c_regs c)(EAX := c_regs d EAX), c_mem := store32 (c_mem d) ec (c_regs d EAX)\<rparr>"
proof -
  define d1 where "d1 = exec restore_segments (drop_stack 12 d)"
  define d2 where "d2 = exec1 (Movl_store EAX ec) d1"
  define d3 where "d3 = exec1 Popal d2"
  define d4 where "d4 = exec1 (Movl_load ec EAX) d3"
  note r = restore_segments_frame [OF d, folded d1_def]
  have "agree (c_regs d1 ESP) 52 (c_mem d1) (c_mem d2)"
  proof -
    have "agree (c_regs d ESP + 12) 60 (c_mem d) (store32 (c_mem d) ec (c_regs d EAX))"
      using ec by (rule agree_store32)
    then have "agree (c_regs d ESP + 12 + word_of_nat 8) 52 (c_mem d) (store32 (c_mem d) ec (c_regs d EAX))"
      by (rule agree_sub) simp_all
    then show ?thesis by (simp add: r(1) d2_def)
  qed
  with r(2) have "holds d2 (saved_general (set_reg ESP sp c) @ gate_frame c)"
    using p(2) by (simp add: holds_def lies_agree d2_def length_gate_frame)
  note q = popal_frame [OF this, folded d3_def]
  have "load32 (c_mem d3) ec = c_regs d EAX"
    by (simp add: q(1) d2_def r(1) load32_store32)
  then have d4: "d4 = set_reg EAX (c_regs d EAX) d3"
    by (simp add: d4_def)
  have "iret d4 = d4\<lparr>c_regs := (c_regs d4)(ESP := c_regs c ESP), c_segs := (c_segs d4)(SS := c_segs c SS, CS := c_segs c CS),
      c_eip := c_eip c, c_eflags := c_eflags c\<rparr>"
    using q(2) p by (intro iret_frame) (simp_all add: d4 q(1) d2_def r(1) same_stack_def)
  also have "\<dots> = c\<lparr>c_regs := (c_regs c)(EAX := c_regs d EAX), c_mem := store32 (c_mem d) ec (c_regs d EAX)\<rparr>"
  proof -
    have "(c_segs d4)(SS := c_segs c SS, CS := c_segs c CS) = c_segs c"
    proof
      fix x show "((c_segs d4)(SS := c_segs c SS, CS := c_segs c CS)) x = c_segs c x"
        by (cases x) (simp_all add: d4 q(1) d2_def r(1))
    qed
    moreover have "(c_regs d4)(ESP := c_regs c ESP) = (c_regs c)(EAX := c_regs d EAX)"
      by (rule reg_fun_eq) (simp_all add: d4 q(1))
    ultimately show ?thesis
      by (simp add: d4 q(1) d2_def r(1) set_reg_def drop_stack_def)
  qed
  finally show ?thesis
    by (simp add: system_call_exit_def d1_def d2_def d3_def d4_def)
qed

lemma lies_arguments:
  "lies m a (bytes32 u @ bytes32 v @ bytes32 w @ bs) \<longleftrightarrow>
   lies m a (bytes32 u @ bytes32 v @ bytes32 w) \<and> lies m (a + 12) bs"
  by (simp add: add.assoc)

text \<open>C32: a system call.  The C function finds the program's EBX, ECX and EDX as its three arguments and the
  entry selects it by the program's EAX; when it comes back in the kernel with its stack pointer and the saved bytes as they
  were - it may change its arguments -, the program goes on with the result in EAX and everything else as it was.  The
  variable \<^verbatim>\<open>error_code\<close> carries the result over \<^verbatim>\<open>popal\<close>.\<close>

theorem system_call_transparent:
  assumes "c1 = exec system_call_entry (enter_gate esp0 ss0 h c)" "privilege (c_segs c CS) = 3"
    and "c_regs c2 ESP = c_regs c1 ESP" "privilege (c_segs c2 CS) = 0"
    and "agree (c_regs c1 ESP + 12) 60 (c_mem c1) (c_mem c2)" "separate (c_regs c1 ESP + 12) 60 ec 4"
  shows "lies (c_mem c1) (c_regs c1 ESP) (bytes32 (c_regs c EBX) @ bytes32 (c_regs c ECX) @ bytes32 (c_regs c EDX)) \<and>
    c_regs c1 EAX = c_regs c EAX \<and>
    exec (system_call_exit ec) c2 =
      c\<lparr>c_regs := (c_regs c)(EAX := c_regs c2 EAX), c_mem := store32 (c_mem c2) ec (c_regs c2 EAX)\<rparr>"
proof -
  let ?f = "saved_segments c @ saved_general (set_reg ESP (esp0 - 20) c) @ gate_frame c"
  note f = system_call_frame [OF assms(1,2)]
  have args: "lies (c_mem c1) (c_regs c1 ESP) (bytes32 (c_regs c EBX) @ bytes32 (c_regs c ECX) @ bytes32 (c_regs c EDX))"
    "lies (c_mem c1) (c_regs c1 ESP + 12) ?f"
    using f(1) unfolding holds_def lies_arguments by blast+
  from args(2) assms(5) have "lies (c_mem c2) (c_regs c1 ESP + 12) ?f"
    by (rule lies_agree [where n = 60]) (simp_all add: length_gate_frame assms(2))
  then have "holds (drop_stack 12 c2) ?f"
    using assms(3) by (simp add: holds_def)
  then have "exec (system_call_exit ec) c2 =
      c\<lparr>c_regs := (c_regs c)(EAX := c_regs c2 EAX), c_mem := store32 (c_mem c2) ec (c_regs c2 EAX)\<rparr>"
    using assms(2,3,4,6) by (intro system_call_exit_frame) simp_all
  then show ?thesis
    using args(1) f(2) by blast
qed

lemma system_call_entry_fields:
  "c_segs (exec system_call_entry c) CS = c_segs c CS"
  "privilege (c_segs c CS) = 3 \<Longrightarrow> c_regs (exec system_call_entry (enter_gate esp0 ss0 h c)) ESP = esp0 - 72"
  by (simp_all add: system_call_entry_def pop_reg_def gate_sp_def)

lemma system_call_transparent_witness:
  "exec (system_call_exit 0x400100) (after_handler (exec system_call_entry (enter_gate 0x7FE000 0x18 0x400000 user_cpu))) =
   user_cpu\<lparr>c_regs := (c_regs user_cpu)(EAX := 1),
     c_mem := store32 (c_mem (exec system_call_entry (enter_gate 0x7FE000 0x18 0x400000 user_cpu))) 0x400100 1\<rparr>"
  using system_call_transparent [OF refl, of user_cpu
      "after_handler (exec system_call_entry (enter_gate 0x7FE000 0x18 0x400000 user_cpu))" "0x7FE000" "0x18" "0x400000"
      "0x400100"]
  by (simp add: after_handler_def system_call_entry_fields user_cpu_def privilege_def separate_def)

section \<open>Starting programs and the kernel\<close>

lemma pop_push:
  assumes "r \<noteq> ESP"
  shows "pop_reg r (push_bytes (bytes32 v) c) = set_reg r v (c\<lparr>c_mem := c_mem (push_bytes (bytes32 v) c)\<rparr>)"
proof -
  have "holds (push_bytes (bytes32 v) c) (bytes32 v)" by simp
  then show ?thesis
    using assms by (simp add: pop_reg_eq set_reg_def push_bytes_def holds_def Let_def fun_upd_twist)
qed

lemma holds_push_memory: "length bs \<le> 1000 \<Longrightarrow> holds (c\<lparr>c_mem := c_mem (push_bytes (bytes32 v) c)\<rparr>) bs = holds c bs"
proof -
  assume "length bs \<le> 1000"
  then have "holds (push_bytes (bytes32 v) c) (bytes32 v @ bs) = holds c bs" by simp
  moreover have "holds (push_bytes (bytes32 v) c) (bytes32 v)" by simp
  ultimately show ?thesis by (simp add: holds_def)
qed

text \<open>C33: the switch to a new program.  Called in the kernel with an entry point, it leaves the kernel for that address at
  level 3: on the program's segments, with an empty stack at the end of its page and with interrupts enabled.\<close>

theorem context_switch_enters:
  assumes "privilege (c_segs c CS) = 0" "load32 (c_mem c) (c_regs c ESP + 4) = entry_point"
  shows "c_eip (exec context_switch c) = entry_point \<and> c_segs (exec context_switch c) = (\<lambda>_. 0x2B)(CS := 0x23) \<and>
    c_regs (exec context_switch c) ESP = 0x83FFFFC \<and> bit (c_eflags (exec context_switch c)) 9"
proof -
  define f where "f = unset_bit 9 (c_eflags c) OR 0x200"
  define t where "t = c\<lparr>c_eip := entry_point, c_segs := (\<lambda>_. 0x2B)(CS := 0x23), c_eflags := f,
    c_regs := (c_regs c)(ESP := 0x83FFFFC)\<rparr>"
  define d where "d = exec (butlast context_switch) c"
  have "c_segs d x = ((\<lambda>_. 0x2B)(SS := c_segs c SS, CS := c_segs c CS)) x" for x
    by (cases x) (simp_all add: d_def context_switch_def pop_push)
  then have d: "c_segs d = (\<lambda>_. 0x2B)(SS := c_segs c SS, CS := c_segs c CS)" by (rule ext)
  have "holds d (gate_frame t)"
    using assms(2) by (simp add: d_def context_switch_def gate_frame_def t_def f_def pop_push holds_push_memory privilege_def)
  then have "iret d = d\<lparr>c_regs := (c_regs d)(ESP := c_regs t ESP), c_segs := (c_segs d)(SS := c_segs t SS, CS := c_segs t CS),
      c_eip := c_eip t, c_eflags := c_eflags t\<rparr>"
    using assms(1) by (intro iret_frame) (simp_all add: d t_def privilege_def same_stack_def)
  moreover have "exec context_switch c = iret d"
    by (simp add: d_def context_switch_def)
  moreover have "bit f 9"
    by (simp add: f_def bit_simps)
  ultimately show ?thesis
    by (simp add: t_def d fun_eq_iff)
qed

lemma context_switch_enters_witness:
  "c_eip (exec context_switch (user_cpu\<lparr>c_segs := \<lambda>_. 0x18, c_mem := store32 (\<lambda>_. 0) 0x8400000 0x8048094\<rparr>)) = 0x8048094 \<and>
   c_regs (exec context_switch (user_cpu\<lparr>c_segs := \<lambda>_. 0x18, c_mem := store32 (\<lambda>_. 0) 0x8400000 0x8048094\<rparr>)) ESP = 0x83FFFFC"
  using context_switch_enters [of "user_cpu\<lparr>c_segs := \<lambda>_. 0x18, c_mem := store32 (\<lambda>_. 0) 0x8400000 0x8048094\<rparr>" "0x8048094"]
  by (simp add: user_cpu_def privilege_def load32_store32)

text \<open>\<^verbatim>\<open>halt\<close> loads the frame pointer that \<^verbatim>\<open>execute\<close> saved and jumps to \<^verbatim>\<open>halt_ret\<close>, which leaves that function: the
  caller of \<^verbatim>\<open>execute\<close> goes on with its own frame pointer and with the result in EAX.\<close>

lemma halt_ret_returns:
  assumes "lies (c_mem c) (c_regs c EBP) (bytes32 caller_frame @ bytes32 return_address)"
  shows "c_eip (exec halt_ret c) = return_address" "c_regs (exec halt_ret c) EBP = caller_frame"
    "c_regs (exec halt_ret c) ESP = c_regs c EBP + 8" "c_regs (exec halt_ret c) EAX = c_regs c EAX"
  using assms by (simp_all add: halt_ret_def pop_reg_eq)

lemma selector_low_half: "ucast ((v AND 0xFFFF0000) OR u :: u32) = (ucast u :: u16)"
proof -
  have m: "(0xFFFF0000 :: u32) = push_bit 16 (mask 16)" by (simp add: mask_eq_exp_minus_1)
  show ?thesis unfolding m by (rule bit_word_eqI) (auto simp: bit_simps)
qed

text \<open>The boot loader enters with a magic number in EAX and the address of its data in EBX; \<^verbatim>\<open>start\<close> hands both to the
  C function \<^verbatim>\<open>entry\<close>, on the kernel's stack and segments and without interrupts.\<close>

lemma start_calls_entry:
  "lies (c_mem (exec start c)) (c_regs (exec start c) ESP) (bytes32 (c_regs c EAX) @ bytes32 (c_regs c EBX))"
  "c_regs (exec start c) ESP = 0x7FFFF8"
  "c_segs (exec start c) = (\<lambda>_. 0x18)(CS := 0x10)"
  "\<not> bit (c_eflags (exec start c)) 9"
proof -
  have "holds (exec start c) (bytes32 (c_regs c EAX) @ bytes32 (c_regs c EBX))"
    by (simp add: start_def)
  then show "lies (c_mem (exec start c)) (c_regs (exec start c) ESP) (bytes32 (c_regs c EAX) @ bytes32 (c_regs c EBX))"
    unfolding holds_def .
  have "c_segs (exec start c) x = ((\<lambda>_. 0x18)(CS := 0x10)) x" for x
    by (cases x) (simp_all add: start_def selector_low_half)
  then show "c_segs (exec start c) = (\<lambda>_. 0x18)(CS := 0x10)" by (rule ext)
qed (simp_all add: start_def bit_simps)

end
