(* ===== verification/Spec2Isabelle.thy ===== *)
theory Spec2Isabelle
  imports FsProperties Irq Idt Paging Rtc LineBuffer Pcb Syscall Process Scheduling SyscallProperties SchedulingProperties KeyboardProperties
    Gates KernelProperties Exceptions Boot Stubs
begin

text \<open>
  A verification library for the kernel under \<^verbatim>\<open>src/\<close>: a 32-bit x86 teaching kernel with three
  terminals, up to six processes, a read-only file system that the boot loader leaves in memory, a
  keyboard, a timer and a real-time clock.  All of its C code is modelled; this text says how.

  \<^bold>\<open>The program.\<close>  The boot loader calls \<^verbatim>\<open>entry\<close> (\<^verbatim>\<open>kernel.c\<close>), which reads the multiboot
  information, fills the descriptor tables, starts the devices and executes the first shell.  From
  then on the kernel only runs when it is entered: an interrupt goes through its stub
  (\<^verbatim>\<open>idt_gate.S\<close>) to \<^verbatim>\<open>interrupt_handler\<close> (\<^verbatim>\<open>irq.c\<close>), which masks and acknowledges the line at the
  controllers (\<^verbatim>\<open>i8259.c\<close>) and calls the handler of the timer (\<^verbatim>\<open>scheduling.c\<close>), of the keyboard
  (\<^verbatim>\<open>kb.c\<close>) or of the clock (\<^verbatim>\<open>rtc.c\<close>); a system call goes through its gate and the jump table to
  one of ten routines of \<^verbatim>\<open>syscall.c\<close>.  \<^verbatim>\<open>execute\<close> and \<^verbatim>\<open>halt\<close> keep the process table (\<^verbatim>\<open>pcb.c\<close>) and
  the address spaces (\<^verbatim>\<open>paging.c\<close>), the descriptor calls reach the drivers of \<^verbatim>\<open>kb.c\<close>, \<^verbatim>\<open>rtc.c\<close> and
  \<^verbatim>\<open>file_system.c\<close> through tables of function pointers, and everything uses the string, memory and
  output routines of \<^verbatim>\<open>lib.c\<close>.

  \<^bold>\<open>The state\<close> is one record that grows with the components, so a routine is a function on the
  part of the state it can see and its callers apply it to theirs:
    \<^item> \<open>machine\<close> (theory \<open>Machine\<close>): physical memory \<open>ram\<close>, the interrupt flag and the trace of all
      port accesses (\<^verbatim>\<open>lib.h\<close>);
    \<^item> \<open>pic\<close> and \<open>irqs\<close> (\<open>I8259\<close>, \<open>Irq\<close>): the shadow masks of the controllers and the table of
      handlers;
    \<^item> \<open>paging\<close> (\<open>Paging\<close>, \<open>AddressSpace\<close>): the page directories, the two kinds of page tables and the
      control registers; \<open>vmem\<close> is memory as code running in the current address space sees it;
    \<^item> \<open>rtc\<close>, \<open>tty\<close> (\<open>Rtc\<close>, \<open>Terminal\<close>): the flags of the clock, the three terminals with cursor, line
      buffer and modifiers, and the number of the displayed one;
    \<^item> \<open>pcbs\<close> (\<open>Pcb\<close>): the process control blocks with their descriptors, the two arrays that find
      them, the task state segment's kernel stack and the log of printed messages;
    \<^item> \<open>boot\<close> (\<open>Boot\<close>): the interrupt descriptor table and the descriptors of \<^verbatim>\<open>kernel.c\<close>.
  Variables of C that are \<^verbatim>\<open>static\<close> are fields; C integers are words of their width and wrap
  around as on the machine; a pointer is a 32-bit word.  Process control blocks lie in kernel memory,
  but are only reached through their fields and are a map from addresses to records.

  \<^bold>\<open>Which theory models which file.\<close>
    \<^item> \<open>Prelude\<close>: words, byte-addressed memory, regions, strings, for all theories.
    \<^item> \<open>LibString\<close>, \<open>LibMem\<close>, \<open>Printf\<close>: \<^verbatim>\<open>lib.c\<close>.  The string routines have their effect on memory as
      lemmas; the inline assembly of \<^verbatim>\<open>memset\<close>, \<^verbatim>\<open>memcpy\<close> and \<^verbatim>\<open>memmove\<close> is modelled register by register
      and proved equal to byte-wise definitions; \<^verbatim>\<open>itoa\<close> is inverted by a parser; \<^verbatim>\<open>printf\<close> writes
      exactly the characters that a function of its directives renders.
    \<^item> \<open>FileSystem\<close> has the routines of \<^verbatim>\<open>file_system.c\<close>, \<open>FsImage\<close> the abstract image and the bytes a
      read delivers, \<open>FsLoader\<close> the directory and the program loader, \<open>FsReaders\<close> the readers that
      continue where they stopped (one locale, interpreted for files, for directories and, in
      \<open>Descriptors\<close>, for the system call), \<open>FsProperties\<close> the properties.
    \<^item> \<open>Machine\<close>, \<open>I8259\<close>, \<open>Irq\<close>, \<open>Idt\<close>, \<open>Rtc\<close>: \<^verbatim>\<open>lib.h\<close>, \<^verbatim>\<open>i8259.c\<close>, \<^verbatim>\<open>irq.c\<close>, \<^verbatim>\<open>idt.c\<close>, \<^verbatim>\<open>rtc.c\<close>
      and \<^verbatim>\<open>initialize_pit\<close>; what the lines do is derived once in the locale \<open>irq_lines\<close>.
    \<^item> \<open>Paging\<close>, \<open>AddressSpace\<close>: \<^verbatim>\<open>paging.c\<close>, against a page walk written after the processor's manual.
    \<^item> \<open>Terminal\<close>, \<open>Keyboard\<close>: \<^verbatim>\<open>kb.c\<close>.  \<open>Console\<close> states a text console as a contract, which \<open>Consoles\<close>
      discharges for the two copies of the console code; \<open>LineBuffer\<close> proves the line buffer to
      implement a line editor, \<open>KeyboardProperties\<close> the same from make and break codes, and \<open>Screens\<close>
      that a switch of terminals changes no screen.
    \<^item> \<open>Pcb\<close>, \<open>Syscall\<close>, \<open>Process\<close>: \<^verbatim>\<open>pcb.c\<close> and \<^verbatim>\<open>syscall.c\<close>.  \<open>ProcessTable\<close> shows the arrays and
      parent pointers to implement three stacks of processes, \<open>Programs\<close> and \<open>ProcessProperties\<close> are
      \<^verbatim>\<open>execute\<close> and \<^verbatim>\<open>halt\<close> as a whole, \<open>Descriptors\<close> and \<open>SyscallProperties\<close> the other calls; a free
      slot is found by one contract, \<open>slot_table\<close>, for processes and descriptors.
    \<^item> \<open>Scheduling\<close>, \<open>SchedulingProperties\<close>: \<^verbatim>\<open>scheduling.c\<close> against round robin over the terminals.
    \<^item> \<open>Exceptions\<close>: \<^verbatim>\<open>isr.c\<close> and the exception routines of \<^verbatim>\<open>lib.c\<close>.
    \<^item> \<open>Frames\<close>, \<open>Kernel\<close>, \<open>Gates\<close>, \<open>KernelProperties\<close>: the kernel as a state machine.  \<open>Frames\<close> says
      what drivers leave alone, \<open>Kernel\<close> states the invariant \<open>kernel_inv\<close> of the whole state and
      proves that handlers and calls keep it, \<open>Gates\<close> models the entries of \<^verbatim>\<open>idt_gate.S\<close> and composes
      everything to the relation \<open>kernel_step\<close>.
    \<^item> \<open>Stubs\<close>: the assembly of \<^verbatim>\<open>idt_gate.S\<close>, \<^verbatim>\<open>int_syscall_wrapper.S\<close> and \<^verbatim>\<open>boot.S\<close> on a processor with
      registers, which gives an interrupted program its registers back.
    \<^item> \<open>Boot\<close>: \<^verbatim>\<open>kernel.c\<close>, \<^verbatim>\<open>x86_desc.h\<close> and the fields of \<^verbatim>\<open>multiboot.h\<close>; the first shell starts in a
      state with the invariant.

  \<^bold>\<open>What is shown.\<close>  On top: in every state reached from the boot by interrupts, system calls and
  stores of programs, in any order, the process table is three stacks of processes, the page tables
  confine the stores of a program to its own frame and the video pages, a program's video page is the
  visible one exactly while the terminal recorded in its block is displayed (which is the terminal that was
  displayed when the program was started, not always the one that runs it), the variables of the
  terminals stay in their ranges, no interrupt line is lost, every interrupt comes to an end (a key that
  displays a terminal without a shell ends in the new shell, provided it can be loaded), and every
  terminal that has a program gets the processor within three ticks.  Below that, each component: \<^verbatim>\<open>execute\<close> puts exactly
  the file's bytes into the new address space and \<^verbatim>\<open>halt\<close> undoes it; a preempted program gets its own
  registers back; opening and reading a file delivers its bytes; keys edit a line and \<^verbatim>\<open>read\<close> returns
  it; the console implements its contract; the library routines equal their specifications.  Where
  the code deviates from what it means to do, the theorem says what it does: \<^verbatim>\<open>read_data\<close> repeats a
  byte at every block boundary, \<^verbatim>\<open>vidmap\<close> accepts pointers that wrap around, the shift table is chosen
  wrongly for some keys, a program started by a terminal in the background draws on the visible page.

  \<^bold>\<open>Conventions.\<close>  There is no fuel.  A loop whose end the code does not guarantee is a
  \<^theory_text>\<open>partial_function (option)\<close>, and \<open>None\<close> is a loop that never ends or undefined behaviour: a local
  array that overflows, a null pointer that is followed, an index outside its array that would
  change other variables.  Results are therefore stated with \<open>Some\<close>.  A kernel entry that does
  not return to its caller ends in an \<open>outcome\<close>: \<open>Enters\<close> a program or \<open>Resumes\<close> a kernel stack.
  A routine that waits gets an environment, the function that says what happens between two
  looks at the flag it waits for; in \<open>kernel_step\<close> that is any sequence of steps.  A store of a program
  is \<open>user_store\<close>: the processor's page walk over the tables as they are, with the user and write bits of
  both levels; that these admit exactly \<open>user_address\<close> is proved from what \<^verbatim>\<open>set_paging\<close> writes.

  \<^bold>\<open>Parameters.\<close>  What is not code of the repository is an argument: the \<open>device\<close> behind the ports,
  a function of all accesses so far; in \<open>kargs\<close> the addresses that compiler and linker choose for
  local and static variables and the values of the stack registers; in \<open>linker\<close> the addresses of
  the tables; the content of memory with the multiboot information and the file system image.

  \<^bold>\<open>Not modelled.\<close>
    \<^item> The registers of programs in the state of the kernel.  \<open>Stubs\<close> saves and restores them for one entry, with
      what the C code must leave alone as hypotheses; in \<open>kernel_step\<close> programs appear by their stores only.
    \<^item> Interrupts inside a system call that does not wait.  The gate enables interrupts, so a tick
      may come between two statements of a call; the model runs calls and handlers as one step each,
      except that waiting reads are interleaved with steps.
    \<^item> Kernel writes into the kernel's own variables by way of pointers.  \<^verbatim>\<open>read\<close> and \<^verbatim>\<open>getargs\<close> take the
      program's pointer unchecked, and the model writes the bytes at that address of \<open>ram\<close>, be it in the
      kernel's 4 MB; but static variables, process control blocks and page tables are fields of their own,
      which such a write does not reach.  The same holds for the kernel's accesses to addresses that are
      not mapped, which \<open>phys\<close> takes as they are instead of faulting.
    \<^item> The translation lookaside buffer, the caches and timing; the control registers take effect at
      once.
    \<^item> The drawing of boot messages and of messages of the file system.  \<^verbatim>\<open>printf\<close> is modelled
      in \<open>Printf\<close>; before \<^verbatim>\<open>set_paging\<close> its console has no screen and writes its characters to the
      first page of physical memory and its cursor to the ports, which is left out, and later calls are
      recorded in the log with their format and arguments.
    \<^item> \<^verbatim>\<open>types.h\<close> and \<^verbatim>\<open>debug.h\<close>, which hold type names and assertion macros that nothing uses.
\<close>

end
